(* ===== verification/Go_Prelude.thy ===== *)
theory Go_Prelude
  imports
    Main
    "HOL-Library.AList"
    "HOL-Library.Char_ord"
    "HOL-Library.Code_Target_Numeral"
    "HOL-Library.List_Lexorder"
    "HOL-Library.Multiset"
    "HOL-Library.Product_Lexorder"
    "HOL-Library.Sublist"
    "HOL-Library.Word"
begin

text \<open>
  The prelude of the development: the part of the Go language and of its standard library that
  the components of \<^verbatim>\<open>internal/\<close> use, and the generic lemmas they share.

  A Go \<^verbatim>\<open>string\<close> is a sequence of bytes, here a \<open>string\<close> (a list of 8-bit \<open>char\<close>s), ordered
  bytewise (the instances of \<open>Char_ord\<close> and \<open>List_Lexorder\<close>). A fallible function returns
  \<open>'e + 'a\<close>, the left summand being the error. A Go map whose size or iteration matters is an
  association list with distinct keys (\<open>AList\<close>); otherwise it is a partial function.

  Collections: \<open>go_str\<close> holds the rewrite rules of the string functions, \<open>go_res\<close> those of the
  result type, \<open>go_map\<close> those of association-list maps.
\<close>

named_theorems go_str \<open>rewrite rules for the model of package strings\<close>
named_theorems go_res \<open>rewrite rules for results\<close>
named_theorems go_map \<open>rewrite rules for maps kept as association lists\<close>

section \<open>Results\<close>

text \<open>The \<^verbatim>\<open>if err != nil { return err }\<close> idiom.\<close>

definition res_bind :: "'e + 'a \<Rightarrow> ('a \<Rightarrow> 'e + 'b) \<Rightarrow> 'e + 'b" where
  "res_bind r f = (case r of Inl e \<Rightarrow> Inl e | Inr x \<Rightarrow> f x)"

definition is_ok :: "'e + 'a \<Rightarrow> bool" where
  "is_ok r = (case r of Inl e \<Rightarrow> False | Inr x \<Rightarrow> True)"

lemma res_bind_simps [simp, go_res]:
  "res_bind (Inl e) f = Inl e" "res_bind (Inr x) f = f x"
  by (simp_all add: res_bind_def)

lemma is_ok_simps [simp, go_res]: "\<not> is_ok (Inl e)" "is_ok (Inr x)"
  by (simp_all add: is_ok_def)

lemma is_ok_iff: "is_ok r \<longleftrightarrow> (\<exists>x. r = Inr x)"
  by (cases r) auto

lemma not_is_ok_iff: "\<not> is_ok r \<longleftrightarrow> (\<exists>e. r = Inl e)"
  by (cases r) auto

lemma res_bind_eq_Inr [go_res]:
  "res_bind r f = Inr y \<longleftrightarrow> (\<exists>x. r = Inr x \<and> f x = Inr y)"
  by (cases r) auto

lemma res_bind_split:
  "P (res_bind r f) \<longleftrightarrow> (\<forall>e. r = Inl e \<longrightarrow> P (Inl e)) \<and> (\<forall>x. r = Inr x \<longrightarrow> P (f x))"
  by (cases r) auto

text \<open>The same for functions that return only an error: \<open>None\<close> is nil.\<close>

definition err_then :: "'e option \<Rightarrow> 'e option \<Rightarrow> 'e option" where
  "err_then a b = (case a of Some e \<Rightarrow> Some e | None \<Rightarrow> b)"

lemma err_then_None [simp, go_res]: "err_then a b = None \<longleftrightarrow> a = None \<and> b = None"
  by (simp add: err_then_def split: option.splits)

lemma guard_None [go_res]: "(if b then Some e else r) = None \<longleftrightarrow> \<not> b \<and> r = None"
  by simp

section \<open>Machine integers\<close>

lemma unat_lt64: "unat (w :: 64 word) < 2 ^ 64"
  using unsigned_less [of w] by simp

lemma unat_lt32: "unat (w :: 32 word) < 2 ^ 32"
  using unsigned_less [of w] by simp

lemma unat_succ_le: "unat (w + 1 :: 64 word) \<le> unat w + 1"
  by (metis add.commute le_refl plus_1_eq_Suc unatSuc unat_eq_zero le_SucI le0)

lemma word_room: "unat (w :: 64 word) < 2 ^ 64 - 1 \<Longrightarrow> w < w + 1"
  by (simp add: word_less_nat_alt unat_word_ariths)

section \<open>Sorting\<close>

text \<open>\<^verbatim>\<open>sort.Slice\<close> is not stable; on a key that tells elements apart its result is still unique.\<close>

lemma sort_key_unique:
  assumes "mset xs = mset ys" and "inj f"
  shows "sort_key f xs = sort_key f ys"
proof -
  have "map f (sort_key f zs) = sort (map f zs)" for zs
    by (rule properties_for_sort [symmetric]) (simp_all add: mset_map)
  then have "map f (sort_key f xs) = map f (sort_key f ys)"
    using assms(1) by (metis properties_for_sort mset_map mset_sort sorted_sort)
  then show ?thesis
    using assms(2) inj_map_eq_map by blast
qed

lemma length_filter_update:
  "i < length xs \<Longrightarrow> length (filter P (xs[i := y])) + of_bool (P (xs ! i)) = length (filter P xs) + of_bool (P y)"
proof (induction xs arbitrary: i)
  case (Cons x xs)
  show ?case
  proof (cases i)
    case (Suc j)
    then show ?thesis
      using Cons.IH [of j] Cons.prems by simp
  qed simp
qed simp

section \<open>Maps kept as association lists\<close>

definition alist_ok :: "('k \<times> 'v) list \<Rightarrow> bool" where
  "alist_ok m = distinct (map fst m)"

lemma alist_ok_empty [simp, go_map]: "alist_ok []"
  by (simp add: alist_ok_def)

lemma alist_ok_update [simp, go_map]: "alist_ok m \<Longrightarrow> alist_ok (AList.update k v m)"
  by (simp add: alist_ok_def distinct_update)

lemma alist_ok_delete [simp, go_map]: "alist_ok m \<Longrightarrow> alist_ok (AList.delete k m)"
  by (simp add: alist_ok_def distinct_delete)

lemma alist_ok_filter [simp, go_map]: "alist_ok m \<Longrightarrow> alist_ok (filter P m)"
  by (simp add: alist_ok_def distinct_map_filter)

lemma alist_size_card:
  assumes "alist_ok m"
  shows "length m = card (dom (map_of m))"
  using assms distinct_card [of "map fst m"] by (simp add: alist_ok_def dom_map_of_conv_image_fst)

lemma map_of_filter_value:
  assumes "alist_ok m"
  shows "map_of (filter (\<lambda>(k, v). P k v) m) k =
    (case map_of m k of None \<Rightarrow> None | Some v \<Rightarrow> if P k v then Some v else None)"
  using assms
proof (induction m)
  case (Cons a m)
  obtain k' v' where a: "a = (k', v')"
    by force
  have ok: "alist_ok m" and new: "k' \<notin> fst ` set m"
    using Cons.prems a by (auto simp: alist_ok_def)
  then have "map_of m k' = None"
    by (simp add: map_of_eq_None_iff)
  then show ?case
    using Cons.IH [OF ok] a by (auto split: option.splits)
qed simp

lemma map_of_alist_update [simp, go_map]:
  "map_of (AList.update k v m) = (map_of m)(k \<mapsto> v)"
  by (rule update_conv')

lemma map_of_alist_delete [simp, go_map]:
  "map_of (AList.delete k m) = (map_of m)(k := None)"
  by (rule delete_conv')

lemma length_alist_delete:
  assumes "alist_ok m"
  shows "length (AList.delete k m) = (if k \<in> dom (map_of m) then length m - 1 else length m)"
proof -
  have "length (AList.delete k m) = card (dom (map_of m) - {k})"
    using assms by (subst alist_size_card) (simp_all)
  then show ?thesis
    using assms by (simp add: alist_size_card card_Diff_singleton_if finite_dom_map_of)
qed

lemma length_alist_update:
  assumes "alist_ok m"
  shows "length (AList.update k v m) = (if k \<in> dom (map_of m) then length m else Suc (length m))"
proof -
  have "length (AList.update k v m) = card (insert k (dom (map_of m)))"
    using assms by (subst alist_size_card) (simp_all)
  then show ?thesis
    using assms by (simp add: alist_size_card card_insert_if finite_dom_map_of)
qed

section \<open>Package strings\<close>

text \<open>\<^verbatim>\<open>strings.Index\<close>, \<^verbatim>\<open>strings.Contains\<close> and \<^verbatim>\<open>strings.Cut\<close>.\<close>

fun str_index :: "string \<Rightarrow> string \<Rightarrow> nat option" where
  "str_index [] sub = (if sub = [] then Some 0 else None)"
| "str_index (c # s) sub =
     (if prefix sub (c # s) then Some 0 else map_option Suc (str_index s sub))"

definition str_contains :: "string \<Rightarrow> string \<Rightarrow> bool" where
  "str_contains s sub = (str_index s sub \<noteq> None)"

definition str_cut :: "string \<Rightarrow> string \<Rightarrow> string \<times> string \<times> bool" where
  "str_cut s sep =
     (case str_index s sep of
        None \<Rightarrow> (s, [], False)
      | Some i \<Rightarrow> (take i s, drop (i + length sep) s, True))"

text \<open>\<^verbatim>\<open>strings.Split\<close> and \<^verbatim>\<open>strings.Join\<close> for a separator of one byte.\<close>

fun str_split :: "char \<Rightarrow> string \<Rightarrow> string list" where
  "str_split c [] = [[]]"
| "str_split c (x # xs) =
     (if x = c then [] # str_split c xs
      else (case str_split c xs of [] \<Rightarrow> [[x]] | w # ws \<Rightarrow> (x # w) # ws))"

fun str_join :: "char \<Rightarrow> string list \<Rightarrow> string" where
  "str_join c [] = []"
| "str_join c [w] = w"
| "str_join c (w # ws) = w @ c # str_join c ws"

lemma str_index_Some:
  "str_index s sub = Some i \<Longrightarrow> i + length sub \<le> length s \<and> take (length sub) (drop i s) = sub"
proof (induction s sub arbitrary: i rule: str_index.induct)
  case (2 c s sub)
  then show ?case
    by (auto simp: prefix_def split: if_splits) (metis append_eq_conv_conj le_add1 length_Cons length_append)
qed (auto split: if_splits)

lemma str_index_append: "str_index s sub = Some i \<Longrightarrow> str_index (s @ t) sub = Some i"
proof (induction s arbitrary: i)
  case Nil
  then show ?case by (cases t) (auto split: if_splits)
next
  case (Cons c s)
  have "length sub \<le> length (c # s)"
    using str_index_Some [OF Cons.prems] by simp
  then have "prefix sub (c # s @ t) \<longleftrightarrow> prefix sub (c # s)"
    by (metis append_Cons prefix_length_prefix prefix_def prefix_order.order_refl prefix_prefix)
  then show ?case
    using Cons by (auto split: if_splits)
qed

lemma str_index_take:
  "str_index s sub = Some i \<Longrightarrow> str_index (take (i + length sub) s) sub = Some i"
proof (induction s arbitrary: i)
  case (Cons c s)
  show ?case
  proof (cases "prefix sub (c # s)")
    case True
    then show ?thesis
      using Cons.prems by (cases sub) (auto simp: prefix_def)
  next
    case False
    then obtain j where j: "str_index s sub = Some j" "i = Suc j"
      using Cons.prems by auto
    have "prefix sub (c # take (j + length sub) s) \<Longrightarrow> prefix sub (c # s)"
      by (metis prefix_prefix append_Cons append_take_drop_id)
    then show ?thesis
      using False j Cons.IH [OF j(1)] by auto
  qed
qed (simp split: if_splits)

lemma str_index_before: "str_index s sub = Some i \<Longrightarrow> sub \<noteq> [] \<Longrightarrow> str_index (take i s) sub = None"
proof (induction s arbitrary: i)
  case (Cons c s)
  show ?case
  proof (cases "prefix sub (c # s)")
    case False
    then obtain j where j: "str_index s sub = Some j" "i = Suc j"
      using Cons.prems by auto
    have "prefix sub (c # take j s) \<Longrightarrow> prefix sub (c # s)"
      by (metis prefix_prefix append_Cons append_take_drop_id)
    then show ?thesis
      using False j Cons by auto
  qed (use Cons.prems in auto)
qed simp

lemma str_index_decompose:
  assumes "str_index s sub = Some i"
  shows "s = take i s @ sub @ drop (i + length sub) s"
  using str_index_Some [OF assms]
  by (metis append_take_drop_id drop_drop add.commute)

lemma str_index_char:
  "str_index s [c] = (if c \<in> set s then Some (length (takeWhile (\<lambda>x. x \<noteq> c) s)) else None)"
  by (induction s) (auto simp: prefix_def)

lemma str_contains_char [simp, go_str]: "str_contains s [c] \<longleftrightarrow> c \<in> set s"
  by (simp add: str_contains_def str_index_char)

lemma takeWhile_neq_eq_take: "takeWhile P s = take (length (takeWhile P s)) s"
  by (metis takeWhile_eq_take)

lemma str_cut_char_found:
  "str_cut s [c] = (a, b, True) \<longleftrightarrow> s = a @ c # b \<and> c \<notin> set a"
proof
  assume cut: "str_cut s [c] = (a, b, True)"
  then have c: "c \<in> set s" and a: "a = take (length (takeWhile (\<lambda>x. x \<noteq> c) s)) s"
    and b: "b = drop (length (takeWhile (\<lambda>x. x \<noteq> c) s) + 1) s"
    by (auto simp: str_cut_def str_index_char split: if_splits)
  have tw: "a = takeWhile (\<lambda>x. x \<noteq> c) s"
    using a takeWhile_neq_eq_take by metis
  obtain d where d: "dropWhile (\<lambda>x. x \<noteq> c) s = c # d"
    using c by (metis (mono_tags, lifting) dropWhile_eq_Nil_conv hd_dropWhile list.collapse)
  have "s = a @ c # d"
    using tw d takeWhile_dropWhile_id by metis
  moreover have "b = d"
    using b tw \<open>s = a @ c # d\<close> by (metis append.assoc append_Cons append_Nil append_eq_conv_conj
        length_append_singleton Suc_eq_plus1)
  ultimately show "s = a @ c # b \<and> c \<notin> set a"
    using tw by (metis (mono_tags, lifting) set_takeWhileD)
next
  assume s: "s = a @ c # b \<and> c \<notin> set a"
  then have "takeWhile (\<lambda>x. x \<noteq> c) s = a"
    by (metis (mono_tags, lifting) append_Nil2 takeWhile.simps(2) takeWhile_append2)
  then show "str_cut s [c] = (a, b, True)"
    using s by (simp add: str_cut_def str_index_char)
qed

lemma str_cut_char_missing:
  "str_cut s [c] = (a, b, False) \<longleftrightarrow> a = s \<and> b = [] \<and> c \<notin> set s"
  by (auto simp: str_cut_def str_index_char)

lemma str_split_nonempty [simp]: "str_split c s \<noteq> []"
  by (induction s) (auto split: list.splits)

lemma str_split_parts: "w \<in> set (str_split c s) \<Longrightarrow> c \<notin> set w"
  by (induction s arbitrary: w) (auto split: list.splits if_splits)

lemma str_join_Cons: "ws \<noteq> [] \<Longrightarrow> str_join c (w # ws) = w @ c # str_join c ws"
  by (cases ws) simp_all

lemma str_join_cons_char: "str_join c ((x # w) # ws) = x # str_join c (w # ws)"
  by (cases ws) simp_all

lemma str_join_split [simp, go_str]: "str_join c (str_split c s) = s"
proof (induction s)
  case (Cons x xs)
  then show ?case
    by (auto simp: str_join_Cons str_join_cons_char split: list.splits)
qed simp

lemma str_split_char_free: "c \<notin> set w \<Longrightarrow> str_split c w = [w]"
  by (induction w) auto

lemma str_split_append_sep: "c \<notin> set w \<Longrightarrow> str_split c (w @ c # s) = w # str_split c s"
  by (induction w) auto

lemma str_split_join [go_str]:
  "ws \<noteq> [] \<Longrightarrow> \<forall>w\<in>set ws. c \<notin> set w \<Longrightarrow> str_split c (str_join c ws) = ws"
proof (induction ws)
  case (Cons w ws)
  then show ?case
    by (cases "ws = []") (simp_all add: str_split_char_free str_join_Cons str_split_append_sep)
qed simp

lemma set_str_join: "set (str_join c ws) \<subseteq> insert c (\<Union> (set ` set ws))"
  by (induction c ws rule: str_join.induct) auto

lemma str_split_snoc_sep: "str_split c (p @ [c]) = str_split c p @ [[]]"
  by (induction p) (auto split: list.splits)

text \<open>
  \<^verbatim>\<open>strings.TrimSpace\<close> and \<^verbatim>\<open>strings.Fields\<close> work on runes. The runes with
  \<^verbatim>\<open>unicode.IsSpace\<close> are listed by their UTF-8 encodings. A lead byte of one of them never
  occurs inside another rune, so matching the encodings at the ends of the byte string is what
  decoding the first or last rune does.
\<close>

definition byte_chr :: "nat \<Rightarrow> char" where
  "byte_chr n = char_of n"

definition space_runes :: "string list" where
  "space_runes =
     map (map byte_chr)
       ([[9], [10], [11], [12], [13], [32], [194, 133], [194, 160], [225, 154, 128]]
        @ map (\<lambda>n. [226, 128, n]) [128..<139]
        @ [[226, 128, 168], [226, 128, 169], [226, 128, 175], [226, 129, 159], [227, 128, 128]])"

definition leading_space :: "string \<Rightarrow> nat" where
  "leading_space s = (case find (\<lambda>r. prefix r s) space_runes of None \<Rightarrow> 0 | Some r \<Rightarrow> length r)"

definition trailing_space :: "string \<Rightarrow> nat" where
  "trailing_space s = (case find (\<lambda>r. suffix r s) space_runes of None \<Rightarrow> 0 | Some r \<Rightarrow> length r)"

lemma leading_space_le: "leading_space s \<le> length s"
  by (auto simp: leading_space_def find_Some_iff prefix_length_le split: option.splits)

lemma trailing_space_le: "trailing_space s \<le> length s"
  by (auto simp: trailing_space_def find_Some_iff suffix_length_le split: option.splits)

lemma leading_space_shrinks: "0 < leading_space s \<Longrightarrow> length s - leading_space s < length s"
  using leading_space_le [of s] by linarith

lemma trailing_space_shrinks: "0 < trailing_space s \<Longrightarrow> length s - trailing_space s < length s"
  using trailing_space_le [of s] by linarith

function trim_left :: "string \<Rightarrow> string" where
  "trim_left s = (if leading_space s = 0 then s else trim_left (drop (leading_space s) s))"
  by pat_completeness auto
termination
  by (relation "measure length") (auto simp: leading_space_shrinks)

function trim_right :: "string \<Rightarrow> string" where
  "trim_right s =
     (if trailing_space s = 0 then s
      else trim_right (take (length s - trailing_space s) s))"
  by pat_completeness auto
termination
  by (relation "measure length") (auto simp: trailing_space_shrinks)

declare trim_left.simps [simp del] trim_right.simps [simp del]

definition trim_space :: "string \<Rightarrow> string" where
  "trim_space s = trim_right (trim_left s)"

text \<open>\<^verbatim>\<open>strings.Fields\<close>: the maximal runs between white space.\<close>

function str_fields_from :: "string \<Rightarrow> string \<Rightarrow> string list" where
  "str_fields_from word s =
     (if s = [] then (if word = [] then [] else [word])
      else if leading_space s = 0 then str_fields_from (word @ [hd s]) (tl s)
      else (if word = [] then [] else [word]) @ str_fields_from [] (drop (leading_space s) s))"
  by pat_completeness auto
termination
  by (relation "measure (\<lambda>(word, s). length s)") (auto simp: leading_space_shrinks)

declare str_fields_from.simps [simp del]

definition str_fields :: "string \<Rightarrow> string list" where
  "str_fields s = str_fields_from [] s"

section \<open>Decimal digits and character classes\<close>

text \<open>
  A loop \<^verbatim>\<open>for _, character := range value\<close> that only admits ASCII characters rejects a string
  exactly when one of its bytes is outside them: every byte above 127 belongs to a rune above 127
  or decodes to the replacement rune.
\<close>

definition is_digit :: "char \<Rightarrow> bool" where
  "is_digit c = (CHR ''0'' \<le> c \<and> c \<le> CHR ''9'')"

definition is_lower :: "char \<Rightarrow> bool" where
  "is_lower c = (CHR ''a'' \<le> c \<and> c \<le> CHR ''z'')"

definition is_upper :: "char \<Rightarrow> bool" where
  "is_upper c = (CHR ''A'' \<le> c \<and> c \<le> CHR ''Z'')"

definition digit_val :: "char \<Rightarrow> nat" where
  "digit_val c = of_char c - 48"

definition digits_val :: "string \<Rightarrow> nat" where
  "digits_val s = foldl (\<lambda>n c. 10 * n + digit_val c) 0 s"

lemma is_digit_val: "is_digit c \<Longrightarrow> digit_val c < 10 \<and> of_char c = 48 + digit_val c"
  by (auto simp: is_digit_def digit_val_def less_eq_char_def)

lemma digits_val_Nil [simp]: "digits_val [] = 0"
  by (simp add: digits_val_def)

lemma digits_val_snoc: "digits_val (s @ [c]) = 10 * digits_val s + digit_val c"
  by (simp add: digits_val_def)

lemma digits_val_Cons: "digits_val (c # s) = digit_val c * 10 ^ length s + digits_val s"
proof (induction s rule: rev_induct)
  case Nil
  show ?case by (simp add: digits_val_def)
next
  case (snoc x xs)
  have "digits_val (c # xs @ [x]) = 10 * digits_val (c # xs) + digit_val x"
    using digits_val_snoc [of "c # xs" x] by simp
  then show ?case
    by (simp add: snoc digits_val_snoc algebra_simps)
qed

lemma digits_val_less: "list_all is_digit s \<Longrightarrow> digits_val s < 10 ^ length s"
proof (induction s)
  case (Cons c s)
  then have "digit_val c * 10 ^ length s + digits_val s < (digit_val c + 1) * 10 ^ length s"
    by simp
  also have "\<dots> \<le> 10 * 10 ^ length s"
    using Cons.prems is_digit_val [of c] by (intro mult_le_mono1) simp
  finally show ?case
    by (simp add: digits_val_Cons)
qed simp

lemma digits_val_lex:
  assumes "length s = length t" "list_all is_digit s" "list_all is_digit t"
  shows "s < t \<longleftrightarrow> digits_val s < digits_val t"
  using assms
proof (induction s t rule: list_induct2)
  case (Cons x xs y ys)
  have x: "digits_val xs < 10 ^ length ys" and y: "digits_val ys < 10 ^ length ys"
    using Cons.hyps Cons.prems digits_val_less by fastforce+
  have ord: "x < y \<longleftrightarrow> digit_val x < digit_val y" "x = y \<longleftrightarrow> digit_val x = digit_val y"
    using is_digit_val [of x] is_digit_val [of y] Cons.prems by (auto simp: less_char_def) (metis of_char_eq_iff)
  have less: "a * p + m < b * p + n" if "a < b" "m < p" for a b m n p :: nat
  proof -
    have "a * p + m < (a + 1) * p"
      using that by simp
    also have "\<dots> \<le> b * p"
      using that by (intro mult_le_mono1) simp
    finally show ?thesis by simp
  qed
  show ?case
    using Cons less [OF _ x, of "digit_val x" "digit_val y" "digits_val ys"]
      less [OF _ y, of "digit_val y" "digit_val x" "digits_val xs"]
    by (cases "digit_val x" "digit_val y" rule: linorder_cases)
      (auto simp: ord digits_val_Cons Cons_less_Cons)
qed simp

section \<open>Comparison functions\<close>

text \<open>
  A Go comparison function returns a negative, zero or positive number. The contract of one is that
  it agrees, on the values it is meant for, with a linear order on a key that tells them apart;
  the usual laws follow once for all of them.
\<close>

definition three_way :: "'a::linorder \<Rightarrow> 'a \<Rightarrow> int" where
  "three_way x y = (if x < y then - 1 else if y < x then 1 else 0)"

lemma three_way_prod:
  "three_way (a, b) (c, d) = (if three_way a c \<noteq> 0 then three_way a c else three_way b d)"
  by (auto simp: three_way_def)

lemma three_way_Cons:
  "three_way (x # xs) (y # ys) = (if three_way x y \<noteq> 0 then three_way x y else three_way xs ys)"
  by (auto simp: three_way_def)

lemma three_way_eq: "three_way x y = 0 \<longleftrightarrow> x = y"
  by (auto simp: three_way_def)

lemma map_key_inj:
  assumes inj: "\<And>x y. P x \<Longrightarrow> P y \<Longrightarrow> f x = f y \<Longrightarrow> x = y"
    and "list_all P xs" "list_all P ys" "map f xs = map f ys"
  shows "xs = ys"
proof (rule map_inj_on [OF assms(4)])
  show "inj_on f (set xs \<union> set ys)"
    using assms(2,3) by (intro inj_onI inj) (auto simp: list_all_iff)
qed

locale keyed_comparator =
  fixes valid :: "'a \<Rightarrow> bool"
    and cmp :: "'a \<Rightarrow> 'a \<Rightarrow> int"
    and key :: "'a \<Rightarrow> 'k::linorder"
  assumes cmp_key: "valid x \<Longrightarrow> valid y \<Longrightarrow> cmp x y = three_way (key x) (key y)"
    and key_inj: "valid x \<Longrightarrow> valid y \<Longrightarrow> key x = key y \<Longrightarrow> x = y"
begin

lemma cmp_antisym: "valid x \<Longrightarrow> valid y \<Longrightarrow> cmp y x = - cmp x y"
  by (auto simp: cmp_key three_way_def)

lemma cmp_zero: "valid x \<Longrightarrow> valid y \<Longrightarrow> cmp x y = 0 \<longleftrightarrow> x = y"
  using key_inj by (auto simp: cmp_key three_way_def)

lemma cmp_trans:
  "valid x \<Longrightarrow> valid y \<Longrightarrow> valid z \<Longrightarrow> cmp x y \<le> 0 \<Longrightarrow> cmp y z \<le> 0 \<Longrightarrow> cmp x z \<le> 0"
  by (auto simp: cmp_key three_way_def split: if_splits)

end

section \<open>Scoped leases\<close>

text \<open>
  The acquire / defer-release idiom. A client that acquires, runs a body and releases is
  \<open>with_lease\<close>; the contract a provider promises is the locale \<open>scoped_lease\<close>: releasing restores
  what the client observed (\<open>view\<close>) before it acquired, whatever else the body left unchanged.
\<close>

definition with_lease ::
  "('g \<Rightarrow> ('g \<times> 'l) option) \<Rightarrow> ('l \<Rightarrow> 'g \<Rightarrow> 'g) \<Rightarrow> ('g \<Rightarrow> 'g \<times> 'r) \<Rightarrow> 'g \<Rightarrow> 'g \<times> 'r option" where
  "with_lease acquire release body g =
     (case acquire g of
        None \<Rightarrow> (g, None)
      | Some (g', l) \<Rightarrow> (case body g' of (h, r) \<Rightarrow> (release l h, Some r)))"

locale scoped_lease =
  fixes acquire :: "'g \<Rightarrow> ('g \<times> 'l) option"
    and release :: "'l \<Rightarrow> 'g \<Rightarrow> 'g"
    and view :: "'g \<Rightarrow> 'v"
    and fresh :: "'g \<Rightarrow> bool"
  assumes release_restores:
    "fresh g \<Longrightarrow> acquire g = Some (g', l) \<Longrightarrow> view h = view g' \<Longrightarrow> view (release l h) = view g"
begin

lemma with_lease_view:
  assumes "fresh g" and "\<And>g. view (fst (body g)) = view g"
  shows "view (fst (with_lease acquire release body g)) = view g"
proof (cases "acquire g")
  case (Some a)
  obtain g' l where a: "a = (g', l)"
    by force
  obtain h r where h: "body g' = (h, r)"
    by force
  have "view h = view g'"
    using assms(2) [of g'] h by simp
  then show ?thesis
    using Some a h release_restores [OF assms(1)] by (simp add: with_lease_def)
qed (simp add: with_lease_def)

lemma with_lease_refused: "acquire g = None \<Longrightarrow> with_lease acquire release body g = (g, None)"
  by (simp add: with_lease_def)

end

end
