(* ===== verification/Go_Path.thy ===== *)
theory Go_Path
  imports Go_Prelude
begin

text \<open>
  The parts of packages \<^verbatim>\<open>path\<close> and \<^verbatim>\<open>path/filepath\<close> (on Unix) the components use: lexical
  cleaning of a slash-separated path and the relative path between two cleaned ones.
\<close>

definition is_abs :: "string \<Rightarrow> bool" where
  "is_abs p = prefix ''/'' p"

text \<open>
  The elements left after removing empty and \<open>.\<close> elements and resolving \<open>..\<close>; a \<open>..\<close> that has nothing
  to remove is dropped in a rooted path and kept in a relative one.
\<close>

fun clean_elements :: "bool \<Rightarrow> string list \<Rightarrow> string list \<Rightarrow> string list" where
  "clean_elements rooted acc [] = rev acc"
| "clean_elements rooted acc (e # es) =
     (if e = [] \<or> e = ''.'' then clean_elements rooted acc es
      else if e = ''..'' then
        (case acc of
           [] \<Rightarrow> clean_elements rooted (if rooted then [] else [''..'']) es
         | a # acc' \<Rightarrow>
             if a = ''..'' then clean_elements rooted (''..'' # acc) es
             else clean_elements rooted acc' es)
      else clean_elements rooted (e # acc) es)"

definition path_elements :: "string \<Rightarrow> string list" where
  "path_elements p = clean_elements (is_abs p) [] (str_split CHR ''/'' p)"

definition path_clean :: "string \<Rightarrow> string" where
  "path_clean p =
     (let es = path_elements p
      in if is_abs p then CHR ''/'' # str_join CHR ''/'' es
         else if es = [] then ''.'' else str_join CHR ''/'' es)"

text \<open>
  \<^verbatim>\<open>filepath.Rel\<close> after cleaning: drop the common elements, one \<open>..\<close> for each element left of the
  base. It fails when one path is absolute and the other is not, or the base leaves through \<open>..\<close>.
\<close>

fun drop_common :: "string list \<Rightarrow> string list \<Rightarrow> string list \<times> string list" where
  "drop_common (b # bs) (t # ts) = (if b = t then drop_common bs ts else (b # bs, t # ts))"
| "drop_common bs ts = (bs, ts)"

definition path_rel :: "string \<Rightarrow> string \<Rightarrow> string option" where
  "path_rel base target =
     (if is_abs base \<noteq> is_abs target then None
      else case drop_common (path_elements base) (path_elements target) of
        (bs, ts) \<Rightarrow>
          if bs = [] \<and> ts = [] then Some ''.''
          else if bs \<noteq> [] \<and> hd bs = ''..'' then None
          else Some (str_join CHR ''/'' (map (\<lambda>_. ''..'') bs @ ts)))"

end
