(* ===== verification/Disk_Pressure.thy ===== *)
theory Disk_Pressure
  imports Go_Path
begin

text \<open>
  Package \<^verbatim>\<open>internal/diskpressure\<close>: the manager that classifies disk usage into four levels with
  hysteresis, releases an emergency reserve and freezes the workload at the highest level, and
  denies operations that grow the disk at the two highest ones.

  The manager's collaborators (\<^verbatim>\<open>Collector\<close>, \<^verbatim>\<open>Reserve\<close>, \<^verbatim>\<open>Freezer\<close>, \<^verbatim>\<open>TransitionSink\<close>, \<^verbatim>\<open>Cleanup\<close>) are
  interfaces: what they answer during one check is a \<open>check_input\<close>, and the calls the manager
  makes are returned as a list of \<open>action\<close>s in the order of the code. \<^verbatim>\<open>uint64\<close> is \<open>64 word\<close>.
\<close>

section \<open>Types and constants\<close>

datatype level = Normal | Low | Critical | Emergency

record usage =
  totalBytes :: "64 word"
  usedBytes :: "64 word"
  availableBytes :: "64 word"
  totalInodes :: "64 word"
  availableInodes :: "64 word"
  byteBasisPoints :: "64 word"
  inodeBasisPoints :: "64 word"

record disk_snapshot =
  ds_level :: level
  ds_usage :: usage
  ds_reservePresent :: bool
  ds_checkedAt :: int

record manager =
  mgr_state :: "disk_snapshot option"  \<comment> \<open>\<^verbatim>\<open>None\<close> until \<^verbatim>\<open>ready\<close>\<close>
  mgr_hasTransitions :: bool
  mgr_hasCleanup :: bool

datatype disk_error =
    CollectFailed | UsageInvalid | ReserveTooLarge | DivideOverflow
  | ReserveRemoveFailed | FreezeFailed | UnfreezeFailed | ReserveEnsureFailed
  | ReserveInspectFailed | TransitionFailed | CleanupFailed | GrowthDenied level

record check_input =
  in_usage :: "usage option"
  in_removeFails :: bool
  in_freezeFails :: bool
  in_unfreezeFails :: bool
  in_ensureFails :: bool
  in_present :: "bool option"
  in_transitionFails :: bool
  in_cleanupFails :: bool
  in_now :: int

datatype action =
    RemoveReserve | SetFrozen bool | EnsureReserve "64 word" | InspectReserve "64 word"
  | Transition level level | RunCleanup

definition minimumReserveBytes :: "64 word" where
  "minimumReserveBytes = 2 ^ 30"

definition reserveFraction :: "64 word" where
  "reserveFraction = 50"

definition percentageScale :: "64 word" where
  "percentageScale = 10000"

section \<open>Configuration\<close>

definition canonicalAbsolute :: "string \<Rightarrow> bool" where
  "canonicalAbsolute value = (is_abs value \<and> path_clean value = value \<and> value \<noteq> ''/'')"

definition pathWithin :: "string \<Rightarrow> string \<Rightarrow> bool" where
  "pathWithin value root =
     (case path_rel root value of
        None \<Rightarrow> False
      | Some relative \<Rightarrow> relative \<noteq> ''.'' \<and> relative \<noteq> ''..'' \<and> \<not> is_abs relative
          \<and> \<not> prefix ''../'' relative)"

definition newManager :: "string \<Rightarrow> string \<Rightarrow> bool \<Rightarrow> bool \<Rightarrow> bool \<Rightarrow> manager option" where
  "newManager dataRoot reservePath dependencies hasTransitions hasCleanup =
     (if \<not> canonicalAbsolute dataRoot \<or> \<not> canonicalAbsolute reservePath
         \<or> \<not> pathWithin reservePath dataRoot then None
      else if \<not> dependencies then None
      else Some \<lparr>mgr_state = None, mgr_hasTransitions = hasTransitions, mgr_hasCleanup = hasCleanup\<rparr>)"

section \<open>Arithmetic\<close>

text \<open>\<^verbatim>\<open>bits.Mul64\<close> and \<^verbatim>\<open>bits.Div64\<close>; the latter panics (\<open>None\<close>) when the quotient overflows.\<close>

definition mul64 :: "64 word \<Rightarrow> 64 word \<Rightarrow> 64 word \<times> 64 word" where
  "mul64 x y =
     (word_of_nat (unat x * unat y div 2 ^ 64), word_of_nat (unat x * unat y mod 2 ^ 64))"

definition div64 :: "64 word \<Rightarrow> 64 word \<Rightarrow> 64 word \<Rightarrow> (64 word \<times> 64 word) option" where
  "div64 hi lo y =
     (if y = 0 \<or> y \<le> hi then None
      else Some (word_of_nat ((unat hi * 2 ^ 64 + unat lo) div unat y),
                 word_of_nat ((unat hi * 2 ^ 64 + unat lo) mod unat y)))"

definition usedBasisPoints :: "64 word \<Rightarrow> 64 word \<Rightarrow> (64 word) option" where
  "usedBasisPoints used tot =
     (if tot = 0 then Some 0
      else case mul64 used percentageScale of
        (high, low) \<Rightarrow>
          (case div64 high low tot of
             None \<Rightarrow> None
           | Some (q, _) \<Rightarrow> Some (min q percentageScale)))"

definition reserveSize :: "64 word \<Rightarrow> disk_error + 64 word" where
  "reserveSize tot =
     (let sz = max minimumReserveBytes (tot div reserveFraction)
      in if sz > drop_bit 1 (- 1) then Inl ReserveTooLarge else Inr sz)"

definition projectedBasisPoints :: "usage \<Rightarrow> 64 word \<Rightarrow> (64 word) option" where
  "projectedBasisPoints u reserve =
     (let used = totalBytes u - availableBytes u
      in if reserve > availableBytes u then Some percentageScale
         else usedBasisPoints (used + reserve) (totalBytes u))"

definition validateUsage :: "usage \<Rightarrow> bool" where
  "validateUsage u =
     (\<not> (totalBytes u = 0 \<or> availableBytes u > totalBytes u \<or> availableInodes u > totalInodes u))"

section \<open>Levels\<close>

definition entryLevel :: "usage \<Rightarrow> level" where
  "entryLevel u =
     (let worst = max (byteBasisPoints u) (inodeBasisPoints u)
      in if worst \<ge> 9700 then Emergency
         else if worst \<ge> 9500 then Critical
         else if worst \<ge> 9000 then Low
         else Normal)"

fun levelRank :: "level \<Rightarrow> int" where
  "levelRank Normal = 0"
| "levelRank Low = 1"
| "levelRank Critical = 2"
| "levelRank Emergency = 3"

definition nextLevel :: "level \<Rightarrow> usage \<Rightarrow> level" where
  "nextLevel previous u =
     (let entry = entryLevel u; bytes = byteBasisPoints u; inodes = inodeBasisPoints u
      in if levelRank entry > levelRank previous then entry
         else case previous of
           Emergency \<Rightarrow> if bytes < 9500 \<and> inodes < 9500 then Critical else previous
         | Critical \<Rightarrow> if bytes < 9300 \<and> inodes < 9300 then Low else previous
         | Low \<Rightarrow> if bytes < 8800 \<and> inodes < 8800 then Normal else previous
         | Normal \<Rightarrow> entry)"

section \<open>Check\<close>

text \<open>
  \<^verbatim>\<open>Manager.Check\<close> in the three stretches of its body: collecting and rating the usage, the
  reserve and freezer calls, and the reserve inspection with the commit of the new state. Each
  stretch returns the actions it performed.
\<close>

definition rateUsage :: "check_input \<Rightarrow> disk_error + usage" where
  "rateUsage i =
     (case in_usage i of
        None \<Rightarrow> Inl CollectFailed
      | Some u \<Rightarrow>
          if \<not> validateUsage u then Inl UsageInvalid
          else case usedBasisPoints (totalBytes u - availableBytes u) (totalBytes u) of
            None \<Rightarrow> Inl DivideOverflow
          | Some b \<Rightarrow>
              (case usedBasisPoints (totalInodes u - availableInodes u) (totalInodes u) of
                 None \<Rightarrow> Inl DivideOverflow
               | Some n \<Rightarrow> Inr (u\<lparr>byteBasisPoints := b, inodeBasisPoints := n\<rparr>)))"

definition enforceLevel ::
  "check_input \<Rightarrow> level option \<Rightarrow> level \<Rightarrow> action list \<times> disk_error option" where
  "enforceLevel i previous next_level =
     (if next_level = Emergency \<and> previous \<noteq> Some Emergency then
        (if in_removeFails i then ([RemoveReserve], Some ReserveRemoveFailed)
         else if in_freezeFails i then ([RemoveReserve], Some FreezeFailed)
         else ([RemoveReserve, SetFrozen True], None))
      else if previous = Some Emergency \<and> next_level \<noteq> Emergency then
        (if in_unfreezeFails i then ([], Some UnfreezeFailed) else ([SetFrozen False], None))
      else ([], None))"

definition ensureReserve ::
  "check_input \<Rightarrow> level \<Rightarrow> usage \<Rightarrow> 64 word \<Rightarrow> action list \<times> disk_error option" where
  "ensureReserve i next_level u sz =
     (if next_level = Normal then
        (case projectedBasisPoints u sz of
           None \<Rightarrow> ([], Some DivideOverflow)
         | Some p \<Rightarrow>
             if p < 9000 then
               ([EnsureReserve sz], if in_ensureFails i then Some ReserveEnsureFailed else None)
             else ([], None))
      else ([], None))"

definition commitLevel ::
  "check_input \<Rightarrow> manager \<Rightarrow> level \<Rightarrow> usage \<Rightarrow> 64 word
   \<Rightarrow> manager \<times> action list \<times> (disk_error + disk_snapshot)" where
  "commitLevel i m next_level u sz =
     (case in_present i of
        None \<Rightarrow> (m, [InspectReserve sz], Inl ReserveInspectFailed)
      | Some present \<Rightarrow>
          (let previous = map_option ds_level (mgr_state m);
               snap = \<lparr>ds_level = next_level, ds_usage = u, ds_reservePresent = present,
                       ds_checkedAt = in_now i\<rparr>;
               notify = (previous \<noteq> None \<and> previous \<noteq> Some next_level \<and> mgr_hasTransitions m);
               told = (if notify then [Transition (the previous) next_level] else [])
           in if notify \<and> in_transitionFails i then
                (m, InspectReserve sz # told, Inl TransitionFailed)
              else if next_level \<noteq> Normal \<and> mgr_hasCleanup m then
                (m\<lparr>mgr_state := Some snap\<rparr>, InspectReserve sz # told @ [RunCleanup],
                 if in_cleanupFails i then Inl CleanupFailed else Inr snap)
              else (m\<lparr>mgr_state := Some snap\<rparr>, InspectReserve sz # told, Inr snap)))"

definition check :: "check_input \<Rightarrow> manager \<Rightarrow> manager \<times> action list \<times> (disk_error + disk_snapshot)" where
  "check i m =
     (case rateUsage i of
        Inl e \<Rightarrow> (m, [], Inl e)
      | Inr u \<Rightarrow>
          (let previous = map_option ds_level (mgr_state m);
               next_level = (case previous of None \<Rightarrow> entryLevel u | Some l \<Rightarrow> nextLevel l u)
           in case enforceLevel i previous next_level of
                (acts, Some e) \<Rightarrow> (m, acts, Inl e)
              | (acts, None) \<Rightarrow>
                  (case reserveSize (totalBytes u) of
                     Inl e \<Rightarrow> (m, acts, Inl e)
                   | Inr sz \<Rightarrow>
                       (case ensureReserve i next_level u sz of
                          (acts', Some e) \<Rightarrow> (m, acts @ acts', Inl e)
                        | (acts', None) \<Rightarrow>
                            (case commitLevel i m next_level u sz of
                               (m', acts'', res) \<Rightarrow> (m', acts @ acts' @ acts'', res))))))"

definition permitGrowth :: "check_input \<Rightarrow> manager \<Rightarrow> manager \<times> action list \<times> disk_error option" where
  "permitGrowth i m =
     (case check i m of
        (m', acts, Inl e) \<Rightarrow> (m', acts, Some e)
      | (m', acts, Inr snap) \<Rightarrow>
          (m', acts, if ds_level snap = Critical \<or> ds_level snap = Emergency
                     then Some (GrowthDenied (ds_level snap)) else None))"

definition managerSnapshot :: "manager \<Rightarrow> disk_snapshot option" where
  "managerSnapshot m = mgr_state m"

text \<open>The loop of \<^verbatim>\<open>Run\<close>, one check per tick, over the answers of the environment.\<close>

fun runChecks :: "check_input list \<Rightarrow> manager \<Rightarrow> manager \<times> action list" where
  "runChecks [] m = (m, [])"
| "runChecks (i # is) m =
     (case check i m of (m', acts, res) \<Rightarrow>
        (case runChecks is m' of (m'', acts') \<Rightarrow> (m'', acts @ acts')))"

text \<open>The workload is frozen when the last freezer call that succeeded froze it.\<close>

fun frozen_after :: "bool \<Rightarrow> action list \<Rightarrow> bool" where
  "frozen_after f [] = f"
| "frozen_after f (SetFrozen b # as) = frozen_after b as"
| "frozen_after f (_ # as) = frozen_after f as"

section \<open>Basis points\<close>

lemma basis_points_nat:
  assumes "u \<le> t" "0 < (t::nat)"
  shows "u * 10000 div t \<le> 10000"
  using assms by (metis div_le_mono mult.commute mult_le_mono2 nonzero_mult_div_cancel_left
      not_less_zero less_numeral_extra(3))

lemma div64_mul64_scale:
  assumes "used \<le> tot" "tot \<noteq> 0"
  shows "\<exists>r. div64 (fst (mul64 used percentageScale)) (snd (mul64 used percentageScale)) tot =
    Some (word_of_nat (unat used * 10000 div unat tot), r)"
proof -
  have le: "unat used \<le> unat tot" and pos: "0 < unat tot" and lt: "unat tot < 2 ^ 64"
    using assms unat_lt64 [of tot] by (simp_all add: word_le_nat_alt unat_gt_0)
  have hi_small: "unat used * 10000 div 2 ^ 64 < unat tot"
    using le pos by (simp add: div_less_iff_less_mult)
  then have hi: "unat (word_of_nat (unat used * 10000 div 2 ^ 64) :: 64 word) =
      unat used * 10000 div 2 ^ 64"
    using lt by (simp add: unat_of_nat)
  have lo: "unat (word_of_nat (unat used * 10000 mod 2 ^ 64) :: 64 word) =
      unat used * 10000 mod 2 ^ 64"
    by (simp add: unat_of_nat)
  have "\<not> tot \<le> word_of_nat (unat used * 10000 div 2 ^ 64)"
    using hi hi_small by (simp add: word_le_nat_alt)
  moreover have "unat used * 10000 div 2 ^ 64 * 2 ^ 64 + unat used * 10000 mod 2 ^ 64 =
      unat used * 10000"
    by (rule div_mult_mod_eq)
  ultimately show ?thesis
    using assms(2) hi lo unfolding div64_def mul64_def percentageScale_def
    by simp
qed

lemma usedBasisPoints_exact:
  assumes "used \<le> tot" "tot \<noteq> 0"
  shows "usedBasisPoints used tot = Some (word_of_nat (unat used * 10000 div unat tot))"
    and "unat (word_of_nat (unat used * 10000 div unat tot) :: 64 word) = unat used * 10000 div unat tot"
    and "unat used * 10000 div unat tot \<le> 10000"
proof -
  have pos: "0 < unat tot" and le: "unat used \<le> unat tot"
    using assms by (simp_all add: word_le_nat_alt unat_gt_0)
  show bound: "unat used * 10000 div unat tot \<le> 10000"
    by (rule basis_points_nat [OF le pos])
  then show val: "unat (word_of_nat (unat used * 10000 div unat tot) :: 64 word) =
      unat used * 10000 div unat tot"
    by (simp add: unat_of_nat)
  then have "(word_of_nat (unat used * 10000 div unat tot) :: 64 word) \<le> percentageScale"
    using bound by (simp add: percentageScale_def word_le_nat_alt)
  then show "usedBasisPoints used tot = Some (word_of_nat (unat used * 10000 div unat tot))"
    using div64_mul64_scale [OF assms] assms(2)
    by (auto simp: usedBasisPoints_def min_def split: prod.splits)
qed

lemma usage_diff:
  assumes "(a :: 64 word) \<le> t"
  shows "t - a \<le> t" "unat (t - a) = unat t - unat a"
  using assms by (simp_all add: word_sub_le unat_sub)

lemma rateUsage_cases:
  "rateUsage i = Inl CollectFailed \<or> rateUsage i = Inl UsageInvalid \<or> (\<exists>u. rateUsage i = Inr u)"
proof (cases "in_usage i")
  case (Some u)
  have "usedBasisPoints (totalInodes u - availableInodes u) (totalInodes u) \<noteq> None"
    if "validateUsage u"
    using that usedBasisPoints_exact(1) [of "totalInodes u - availableInodes u" "totalInodes u"]
      usage_diff(1) [of "availableInodes u" "totalInodes u"]
    by (cases "totalInodes u = 0") (auto simp: validateUsage_def usedBasisPoints_def)
  then show ?thesis
    using Some usedBasisPoints_exact(1) [of "totalBytes u - availableBytes u" "totalBytes u"]
      usage_diff(1) [of "availableBytes u" "totalBytes u"]
    by (auto simp: rateUsage_def validateUsage_def not_less split: option.splits)
qed (simp add: rateUsage_def)

lemma rateUsage_facts:
  assumes "rateUsage i = Inr u"
  obtains v where "in_usage i = Some v" "validateUsage u" "totalBytes u = totalBytes v"
    "availableBytes u = availableBytes v" "totalInodes u = totalInodes v"
    "availableInodes u = availableInodes v"
    "usedBasisPoints (totalBytes u - availableBytes u) (totalBytes u) = Some (byteBasisPoints u)"
    "usedBasisPoints (totalInodes u - availableInodes u) (totalInodes u) = Some (inodeBasisPoints u)"
  using assms by (auto simp: rateUsage_def validateUsage_def split: option.splits if_splits)

lemma reserveSize_ok: "\<exists>sz. reserveSize tot = Inr sz \<and> sz < 2 ^ 63"
proof -
  have "unat (tot div 50) = unat tot div 50"
    by (simp add: unat_div)
  then have "unat (tot div 50) < 2 ^ 63"
    using unat_lt64 [of tot] by simp
  then have "tot div 50 < 2 ^ 63"
    by (simp add: word_less_nat_alt)
  then have "max minimumReserveBytes (tot div reserveFraction) < 2 ^ 63"
    by (simp add: minimumReserveBytes_def reserveFraction_def)
  moreover have "(drop_bit 1 (- 1) :: 64 word) = 2 ^ 63 - 1"
    by code_simp
  ultimately show ?thesis
    unfolding reserveSize_def Let_def by (simp add: word_less_nat_alt)
qed

lemma projectedBasisPoints_ok:
  assumes "validateUsage u"
  shows "projectedBasisPoints u r \<noteq> None"
proof (cases "r > availableBytes u")
  case False
  have le: "availableBytes u \<le> totalBytes u" "totalBytes u \<noteq> 0"
    using assms by (auto simp: validateUsage_def)
  have "unat (totalBytes u - availableBytes u) + unat r \<le> unat (totalBytes u)"
    using False le(1) usage_diff(2) [OF le(1)] by (simp add: word_le_nat_alt not_less)
  then have "totalBytes u - availableBytes u + r \<le> totalBytes u"
    using unat_lt64 [of "totalBytes u"]
    by (simp add: word_le_nat_alt unat_word_ariths)
  then show ?thesis
    using usedBasisPoints_exact(1) [OF _ le(2)] False by (simp add: projectedBasisPoints_def Let_def)
qed (simp add: projectedBasisPoints_def)

text \<open>
  \<^bold>\<open>C22.\<close> Usage is rated exactly. With the used part at most the total, the 128-bit multiply and divide
  of \<^verbatim>\<open>usedBasisPoints\<close> never panics and yields the floor of \<open>10000 * used / total\<close>, a value of at
  most 10000.
\<close>

theorem basis_points_exact:
  assumes "used \<le> tot" "tot \<noteq> 0"
  shows "\<exists>w. usedBasisPoints used tot = Some w
    \<and> unat w = unat used * 10000 div unat tot \<and> unat w \<le> 10000"
  using usedBasisPoints_exact [OF assms] by auto

theorem basis_points_exact_witness:
  "\<exists>w. usedBasisPoints (2 ^ 63) (2 ^ 64 - 1) = Some w
    \<and> unat w = unat ((2 ^ 63) :: 64 word) * 10000 div unat ((2 ^ 64 - 1) :: 64 word) \<and> unat w \<le> 10000"
  by (rule basis_points_exact) simp_all

section \<open>Hysteresis\<close>

fun exit_threshold :: "level \<Rightarrow> 64 word" where
  "exit_threshold Emergency = 9500"
| "exit_threshold Critical = 9300"
| "exit_threshold Low = 8800"
| "exit_threshold Normal = 0"

lemmas level_defs = nextLevel_def entryLevel_def Let_def

lemma nextLevel_ge_entry: "levelRank (entryLevel u) \<le> levelRank (nextLevel p u)"
  by (cases p)
    (auto simp: level_defs max_def word_le_nat_alt word_less_nat_alt split: if_splits)

text \<open>
  Hysteresis. The next level is never below the level the usage alone calls for; it rises to
  that level at once; it falls by at most one rank per check, and falls exactly when both the
  byte and the inode usage are below the exit threshold of the current level.
\<close>

lemma level_hysteresis:
  "levelRank (entryLevel u) \<le> levelRank (nextLevel p u)
   \<and> levelRank p - 1 \<le> levelRank (nextLevel p u)
   \<and> (levelRank (nextLevel p u) > levelRank p \<longleftrightarrow> levelRank (entryLevel u) > levelRank p)
   \<and> (levelRank (nextLevel p u) < levelRank p \<longleftrightarrow>
        byteBasisPoints u < exit_threshold p \<and> inodeBasisPoints u < exit_threshold p)"
proof (cases p)
  case Normal
  then show ?thesis
    by (simp add: level_defs)
next
  case Low
  then show ?thesis
    by (auto simp: level_defs max_def word_le_nat_alt word_less_nat_alt split: if_splits)
next
  case Critical
  then show ?thesis
    by (auto simp: level_defs max_def word_le_nat_alt word_less_nat_alt split: if_splits)
next
  case Emergency
  then show ?thesis
    by (auto simp: level_defs max_def word_le_nat_alt word_less_nat_alt split: if_splits)
qed

section \<open>The freezer follows the level\<close>

text \<open>
  A check is settled when the calls it makes after the freezer succeed. The reserve size always
  fits and the projection never panics, so these are the only ways it can fail there.
\<close>

definition settled :: "check_input \<Rightarrow> bool" where
  "settled i \<longleftrightarrow> \<not> in_ensureFails i \<and> in_present i \<noteq> None \<and> \<not> in_transitionFails i"

definition frozen_ok :: "bool \<Rightarrow> manager \<Rightarrow> bool" where
  "frozen_ok f m \<longleftrightarrow> (f \<longleftrightarrow> map_option ds_level (mgr_state m) = Some Emergency)"

lemma frozen_after_append [simp]:
  "frozen_after f (xs @ ys) = frozen_after (frozen_after f xs) ys"
  by (induction f xs rule: frozen_after.induct) simp_all

lemma enforceLevel_frozen:
  assumes "enforceLevel i previous next_level = (acts, e)" "f \<longleftrightarrow> previous = Some Emergency"
  shows "e = None \<Longrightarrow> frozen_after f acts \<longleftrightarrow> next_level = Emergency"
    and "e \<noteq> None \<Longrightarrow> frozen_after f acts = f"
  using assms by (auto simp: enforceLevel_def split: if_splits)

lemma ensureReserve_settled:
  assumes "validateUsage u" "settled i" "ensureReserve i next_level u sz = (acts, e)"
  shows "e = None \<and> frozen_after f acts = f"
  using assms projectedBasisPoints_ok [OF assms(1), of sz]
  by (auto simp: ensureReserve_def settled_def split: if_splits option.splits)

lemma commitLevel_settled:
  assumes "settled i" "commitLevel i m next_level u sz = (m', acts, res)"
  shows "map_option ds_level (mgr_state m') = Some next_level \<and> frozen_after f acts = f"
  using assms by (auto simp: commitLevel_def settled_def Let_def split: if_splits option.splits)

lemma check_frozen_ok:
  assumes ok: "frozen_ok f m" and settled: "settled i" and res: "check i m = (m', acts, res)"
  shows "frozen_ok (frozen_after f acts) m'"
proof (cases "rateUsage i")
  case (Inl e)
  then show ?thesis
    using ok res by (simp add: check_def)
next
  case (Inr u)
  have valid: "validateUsage u"
    using rateUsage_facts [OF Inr] by blast
  define previous where "previous = map_option ds_level (mgr_state m)"
  define next_level where "next_level = (case previous of None \<Rightarrow> entryLevel u | Some l \<Rightarrow> nextLevel l u)"
  obtain acts1 e1 where enf: "enforceLevel i previous next_level = (acts1, e1)"
    by force
  have f: "f \<longleftrightarrow> previous = Some Emergency"
    using ok by (simp add: frozen_ok_def previous_def)
  note froz = enforceLevel_frozen [OF enf f]
  obtain sz where sz: "reserveSize (totalBytes u) = Inr sz"
    using reserveSize_ok by blast
  show ?thesis
  proof (cases e1)
    case (Some e)
    then show ?thesis
      using res Inr enf froz(2) ok
      by (simp add: check_def previous_def [symmetric] next_level_def [symmetric] Let_def)
  next
    case None
    obtain acts2 e2 where ens: "ensureReserve i next_level u sz = (acts2, e2)"
      by force
    obtain m3 acts3 res3 where com: "commitLevel i m next_level u sz = (m3, acts3, res3)"
      by (metis prod_cases3)
    have e2: "e2 = None" "frozen_after g acts2 = g" for g
      using ensureReserve_settled [OF valid settled ens] by blast+
    have c: "m' = m3" "acts = acts1 @ acts2 @ acts3"
      using res Inr enf None sz ens e2(1) com
      by (simp_all add: check_def previous_def [symmetric] next_level_def [symmetric] Let_def)
    show ?thesis
      using froz(1) [OF None] e2(2) commitLevel_settled [OF settled com] c
      unfolding frozen_ok_def by (metis frozen_after_append option.inject)
  qed
qed

text \<open>
  \<^bold>\<open>C23.\<close> The freezer follows the level. Over any run of checks from a consistent start, in which every
  check is settled, the workload is frozen exactly when the recorded level is \<^verbatim>\<open>emergency\<close>;
  collector, reserve-removal, freeze and unfreeze failures are all allowed.
\<close>

theorem frozen_iff_emergency:
  assumes "frozen_ok f m" and "list_all settled is"
  shows "frozen_ok (frozen_after f (snd (runChecks is m))) (fst (runChecks is m))"
  using assms
proof (induction "is" arbitrary: f m)
  case (Cons i "is")
  obtain m' acts res where c: "check i m = (m', acts, res)"
    by (metis prod_cases3)
  then have "frozen_ok (frozen_after f acts) m'"
    using check_frozen_ok Cons.prems by auto
  then show ?case
    using Cons.IH [of "frozen_after f acts" m'] Cons.prems c by (cases "runChecks is m'") simp
qed simp

definition sample_usage :: "64 word \<Rightarrow> usage" where
  "sample_usage avail = \<lparr>totalBytes = 100000, usedBytes = 0, availableBytes = avail, totalInodes = 1000,
     availableInodes = 900, byteBasisPoints = 0, inodeBasisPoints = 0\<rparr>"

definition sample_input :: "64 word \<Rightarrow> bool option \<Rightarrow> check_input" where
  "sample_input avail present = \<lparr>in_usage = Some (sample_usage avail), in_removeFails = False,
     in_freezeFails = False, in_unfreezeFails = False, in_ensureFails = False, in_present = present,
     in_transitionFails = False, in_cleanupFails = False, in_now = 0\<rparr>"

definition fresh_manager :: manager where
  "fresh_manager = \<lparr>mgr_state = None, mgr_hasTransitions = True, mgr_hasCleanup = True\<rparr>"

lemmas check_eval = check_def rateUsage_def sample_input_def sample_usage_def fresh_manager_def
  validateUsage_def usedBasisPoints_def mul64_def div64_def percentageScale_def entryLevel_def
  nextLevel_def enforceLevel_def reserveSize_def minimumReserveBytes_def reserveFraction_def
  mask_eq_exp_minus_1 ensureReserve_def projectedBasisPoints_def commitLevel_def Let_def

theorem frozen_iff_emergency_witness:
  "frozen_ok (frozen_after False (snd (runChecks [sample_input 1000 (Some False), sample_input 90000 (Some True)] fresh_manager)))
     (fst (runChecks [sample_input 1000 (Some False), sample_input 90000 (Some True)] fresh_manager))"
  by (rule frozen_iff_emergency)
    (simp_all add: frozen_ok_def fresh_manager_def settled_def sample_input_def)

section \<open>A freeze that is not recorded\<close>

definition calm :: "check_input \<Rightarrow> bool" where
  "calm i \<longleftrightarrow> (case rateUsage i of Inl e \<Rightarrow> True | Inr u \<Rightarrow> entryLevel u \<noteq> Emergency)"

lemma nextLevel_calm: "entryLevel u \<noteq> Emergency \<Longrightarrow> l \<noteq> Emergency \<Longrightarrow> nextLevel l u \<noteq> Emergency"
  by (cases l) (auto simp: nextLevel_def Let_def)

lemma nextLevel_emergency: "entryLevel u = Emergency \<Longrightarrow> l \<noteq> Emergency \<Longrightarrow> nextLevel l u = Emergency"
  by (cases l) (auto simp: nextLevel_def Let_def)

lemma ensureReserve_frozen: "ensureReserve i next_level u sz = (acts, e) \<Longrightarrow> frozen_after f acts = f"
  by (auto simp: ensureReserve_def split: if_splits option.splits)

lemma commitLevel_level:
  assumes "commitLevel i m next_level u sz = (m', acts, res)"
  shows "frozen_after f acts = f \<and> (mgr_state m' = mgr_state m \<or> map_option ds_level (mgr_state m') = Some next_level)"
  using assms by (auto simp: commitLevel_def Let_def split: if_splits option.splits)

text \<open>Without an emergency recorded or measured, a check does not touch the freezer and records none.\<close>

lemma check_calm:
  assumes "calm i" "map_option ds_level (mgr_state m) \<noteq> Some Emergency" "check i m = (m', acts, res)"
  shows "map_option ds_level (mgr_state m') \<noteq> Some Emergency \<and> frozen_after f acts = f"
proof (cases "rateUsage i")
  case (Inr u)
  define previous where "previous = map_option ds_level (mgr_state m)"
  define next_level where "next_level = (case previous of None \<Rightarrow> entryLevel u | Some l \<Rightarrow> nextLevel l u)"
  have entry: "entryLevel u \<noteq> Emergency"
    using assms(1) Inr by (simp add: calm_def)
  have next_calm: "next_level \<noteq> Emergency"
    using assms(2) entry nextLevel_calm by (simp add: next_level_def previous_def split: option.split)
  then have enforce: "enforceLevel i previous next_level = ([], None)"
    using assms(2) by (simp add: enforceLevel_def previous_def)
  obtain sz where sz: "reserveSize (totalBytes u) = Inr sz"
    using reserveSize_ok by blast
  obtain acts2 e2 where ens: "ensureReserve i next_level u sz = (acts2, e2)"
    by force
  obtain m3 acts3 res3 where com: "commitLevel i m next_level u sz = (m3, acts3, res3)"
    by (metis prod_cases3)
  have "(m' = m \<and> acts = acts2) \<or> (m' = m3 \<and> acts = acts2 @ acts3)"
    using assms(3) Inr enforce sz ens com
    by (cases e2) (simp_all add: check_def previous_def [symmetric] next_level_def [symmetric] Let_def)
  then show ?thesis
    using commitLevel_level [OF com] ensureReserve_frozen [OF ens] next_calm assms(2) by auto
qed (use assms in \<open>simp add: check_def\<close>)

lemma runChecks_calm:
  "list_all calm is \<Longrightarrow> map_option ds_level (mgr_state m) \<noteq> Some Emergency \<Longrightarrow>
     map_option ds_level (mgr_state (fst (runChecks is m))) \<noteq> Some Emergency
     \<and> frozen_after f (snd (runChecks is m)) = f"
proof (induction "is" arbitrary: m)
  case (Cons i "is")
  obtain m' acts res where c: "check i m = (m', acts, res)"
    by (metis prod_cases3)
  note calm_step = check_calm [OF _ Cons.prems(2) c, of f]
  show ?case
    using calm_step Cons.prems Cons.IH [of m'] c by (cases "runChecks is m'") simp
qed simp

lemma check_freeze_unrecorded:
  assumes "map_option ds_level (mgr_state m) \<noteq> Some Emergency"
    and "rateUsage i = Inr u" "entryLevel u = Emergency" "\<not> in_removeFails i" "\<not> in_freezeFails i"
    and "in_present i = None \<or> (mgr_state m \<noteq> None \<and> mgr_hasTransitions m \<and> in_transitionFails i)"
  shows "\<exists>acts e. check i m = (m, acts, Inl e) \<and> frozen_after f acts"
proof -
  have lvl: "(case map_option ds_level (mgr_state m) of None \<Rightarrow> entryLevel u | Some l \<Rightarrow> nextLevel l u) = Emergency"
    using assms(1,3) nextLevel_emergency by (simp split: option.split)
  obtain sz where sz: "reserveSize (totalBytes u) = Inr sz"
    using reserveSize_ok by blast
  have "\<exists>acts e. commitLevel i m Emergency u sz = (m, acts, Inl e)"
    using assms(1,6) by (auto simp: commitLevel_def Let_def split: option.split)
  then obtain acts e where com: "commitLevel i m Emergency u sz = (m, acts, Inl e)"
    by blast
  have "check i m = (m, [RemoveReserve, SetFrozen True] @ acts, Inl e)"
    using assms(1,2,4,5) lvl sz com by (simp add: check_def Let_def enforceLevel_def ensureReserve_def)
  then show ?thesis
    using commitLevel_level [OF com] by auto
qed

text \<open>
  \<^bold>\<open>C24.\<close> The proviso of the previous property is needed. Suppose a check without a recorded emergency measures
  one and freezes the workload, and then the lookup of the reserve or the notification of the transition fails. The new level is
  then not recorded, and however many checks follow and whatever else they meet, as long as none of them measures an emergency the workload
  stays frozen while no emergency is recorded: no later check unfreezes it.
\<close>

theorem frozen_without_emergency:
  assumes "map_option ds_level (mgr_state m) \<noteq> Some Emergency"
    and "rateUsage i = Inr u" and "entryLevel u = Emergency" and "\<not> in_removeFails i" and "\<not> in_freezeFails i"
    and "in_present i = None \<or> (mgr_state m \<noteq> None \<and> mgr_hasTransitions m \<and> in_transitionFails i)"
    and "\<forall>j\<in>set is. \<forall>v. rateUsage j = Inr v \<longrightarrow> entryLevel v \<noteq> Emergency"
  shows "map_option ds_level (mgr_state (fst (runChecks (i # is) m))) \<noteq> Some Emergency
    \<and> frozen_after f (snd (runChecks (i # is) m))"
proof -
  obtain acts e where c: "check i m = (m, acts, Inl e)" "frozen_after f acts"
    using check_freeze_unrecorded [OF assms(1-6)] by blast
  have "list_all calm is"
    using assms(7) by (auto simp: list_all_iff calm_def split: sum.split)
  then show ?thesis
    using runChecks_calm [OF _ assms(1), of "is" True] c by (cases "runChecks is m") simp
qed

theorem frozen_without_emergency_witness:
  "frozen_after False (snd (runChecks [sample_input 1000 None, sample_input 90000 (Some True)] fresh_manager))
   \<and> map_option ds_level (mgr_state (fst (runChecks [sample_input 1000 None, sample_input 90000 (Some True)] fresh_manager)))
       = Some Normal"
proof -
  obtain u where u: "rateUsage (sample_input 1000 None) = Inr u" "entryLevel u = Emergency"
    by (simp add: check_eval)
  have "frozen_after False (snd (runChecks [sample_input 1000 None, sample_input 90000 (Some True)] fresh_manager))"
    using frozen_without_emergency [OF _ u, of fresh_manager "[sample_input 90000 (Some True)]" False]
    by (simp add: check_eval)
  then show ?thesis
    by (simp add: check_eval)
qed

section \<open>Growth\<close>

lemma commitLevel_Inr:
  assumes "commitLevel i m next_level u sz = (m', acts, Inr snap)"
  shows "mgr_state m' = Some snap \<and> ds_usage snap = u \<and> ds_level snap = next_level"
  using assms by (auto simp: commitLevel_def Let_def split: if_splits option.splits)

lemma check_level:
  assumes "check i m = (m', acts, Inr snap)"
  shows "\<exists>u. rateUsage i = Inr u \<and> mgr_state m' = Some snap \<and> ds_usage snap = u \<and>
    ds_level snap = (case map_option ds_level (mgr_state m) of
      None \<Rightarrow> entryLevel u | Some l \<Rightarrow> nextLevel l u)"
proof (cases "rateUsage i")
  case (Inl e)
  then show ?thesis
    using assms by (simp add: check_def)
next
  case (Inr u)
  let ?next = "case map_option ds_level (mgr_state m) of None \<Rightarrow> entryLevel u | Some l \<Rightarrow> nextLevel l u"
  obtain acts1 e1 where enf: "enforceLevel i (map_option ds_level (mgr_state m)) ?next = (acts1, e1)"
    by force
  obtain sz where sz: "reserveSize (totalBytes u) = Inr sz"
    using reserveSize_ok by blast
  obtain acts2 e2 where ens: "ensureReserve i ?next u sz = (acts2, e2)"
    by force
  obtain m3 acts3 res3 where com: "commitLevel i m ?next u sz = (m3, acts3, res3)"
    by (metis prod_cases3)
  have "m' = m3 \<and> res3 = Inr snap"
    using assms Inr enf sz ens com unfolding check_def Let_def
    by (simp split: option.splits)
  then show ?thesis
    using commitLevel_Inr com Inr by blast
qed

lemma entry_le_check_level:
  assumes "check i m = (m', acts, Inr snap)"
  shows "levelRank (entryLevel (ds_usage snap)) \<le> levelRank (ds_level snap)"
  using check_level [OF assms] nextLevel_ge_entry by (auto split: option.splits)

lemma entry_below_critical:
  assumes "levelRank (entryLevel u) < 2"
  shows "byteBasisPoints u < 9500 \<and> inodeBasisPoints u < 9500"
  using assms by (auto simp: entryLevel_def Let_def not_le split: if_splits)

text \<open>
  Growth is safe. When \<^verbatim>\<open>PermitGrowth\<close> permits an operation, the collector answered a valid usage
  of which less than 95 percent of the bytes and less than 95 percent of the inodes were in use,
  and the recorded level is \<^verbatim>\<open>normal\<close> or \<^verbatim>\<open>low\<close>.
\<close>

lemma growth_permitted_safe:
  assumes "permitGrowth i m = (m', acts, None)"
  shows "\<exists>u snap. in_usage i = Some u \<and> validateUsage u
    \<and> (unat (totalBytes u) - unat (availableBytes u)) * 10000 div unat (totalBytes u) < 9500
    \<and> (unat (totalInodes u) - unat (availableInodes u)) * 10000 div unat (totalInodes u) < 9500
    \<and> mgr_state m' = Some snap \<and> (ds_level snap = Normal \<or> ds_level snap = Low)"
proof -
  obtain snap where chk: "check i m = (m', acts, Inr snap)"
    and lvl: "ds_level snap \<noteq> Critical" "ds_level snap \<noteq> Emergency"
    using assms by (auto simp: permitGrowth_def split: prod.splits sum.splits if_splits)
  obtain u where u: "rateUsage i = Inr u" "mgr_state m' = Some snap" "ds_usage snap = u"
    using check_level [OF chk] by blast
  obtain v where v: "in_usage i = Some v" "validateUsage u" "totalBytes u = totalBytes v"
    "availableBytes u = availableBytes v" "totalInodes u = totalInodes v"
    "availableInodes u = availableInodes v"
    and bp: "usedBasisPoints (totalBytes u - availableBytes u) (totalBytes u) = Some (byteBasisPoints u)"
    "usedBasisPoints (totalInodes u - availableInodes u) (totalInodes u) = Some (inodeBasisPoints u)"
    using rateUsage_facts [OF u(1)] by metis
  have low: "ds_level snap = Normal \<or> ds_level snap = Low"
    using lvl by (cases "ds_level snap") auto
  then have "levelRank (entryLevel u) < 2"
    using entry_le_check_level [OF chk] u(3) by auto
  then have small: "byteBasisPoints u < 9500" "inodeBasisPoints u < 9500"
    using entry_below_critical by blast+
  have rate: "(unat t - unat a) * 10000 div unat t < 9500"
    if "usedBasisPoints (t - a) t = Some w" "w < 9500" "a \<le> t" for t a w :: "64 word"
  proof (cases "t = 0")
    case False
    then show ?thesis
      using that usedBasisPoints_exact [OF usage_diff(1) [OF that(3)] False] usage_diff(2) [OF that(3)]
      by (simp add: word_less_nat_alt)
  qed simp
  have "validateUsage v"
    using v by (simp add: validateUsage_def)
  then show ?thesis
    using rate [OF bp(1) small(1)] rate [OF bp(2) small(2)] v low u(2)
    by (auto simp: validateUsage_def not_less)
qed

end
