(* ===== verification/Sem_Ver.thy ===== *)
theory Sem_Ver
  imports Go_Prelude
begin

text \<open>
  Package \<^verbatim>\<open>internal/semver\<close>: strict semantic versions without build metadata, as used by the
  self-updater to decide whether a release is newer. \<open>sem_parse\<close> and \<open>sem_compare\<close> model \<^verbatim>\<open>Parse\<close> and
  \<^verbatim>\<open>Compare\<close>; the reference order of the specification is the order of \<open>version_key\<close>.
\<close>

section \<open>Model\<close>

datatype semver_error = NotStrict | CoreShape | CoreNumeric | PrereleaseIdentifier

record version =
  core :: "string list"  \<comment> \<open>\<^verbatim>\<open>[3]string\<close>\<close>
  prerelease :: "string list"

definition numeric :: "string \<Rightarrow> bool" where
  "numeric value = (if value = [] then False else list_all is_digit value)"

definition validNumeric :: "string \<Rightarrow> bool" where
  "validNumeric value = (numeric value \<and> (length value = 1 \<or> value ! 0 \<noteq> CHR ''0''))"

definition identifier_char :: "char \<Rightarrow> bool" where
  "identifier_char c = (is_digit c \<or> is_upper c \<or> is_lower c \<or> c = CHR ''-'')"

definition validIdentifier :: "string \<Rightarrow> bool" where
  "validIdentifier value = (if value = [] then False else list_all identifier_char value)"

definition validPrerelease :: "string \<Rightarrow> bool" where
  "validPrerelease part =
     (\<not> (\<not> validIdentifier part \<or> (numeric part \<and> length part > 1 \<and> part ! 0 = CHR ''0'')))"

definition sem_parse :: "string \<Rightarrow> semver_error + version" where
  "sem_parse value =
     (if value = [] \<or> str_contains value ''+'' then Inl NotStrict
      else case str_cut value ''-'' of
        (coreValue, prereleaseValue, hasPrerelease) \<Rightarrow>
          (let coreParts = str_split CHR ''.'' coreValue
           in if length coreParts \<noteq> 3 then Inl CoreShape
              else if \<not> list_all validNumeric coreParts then Inl CoreNumeric
              else if \<not> hasPrerelease then Inr \<lparr>core = coreParts, prerelease = []\<rparr>
              else let parts = str_split CHR ''.'' prereleaseValue
                   in if \<not> list_all validPrerelease parts then Inl PrereleaseIdentifier
                      else Inr \<lparr>core = coreParts, prerelease = parts\<rparr>))"

definition compareNumeric :: "string \<Rightarrow> string \<Rightarrow> int" where
  "compareNumeric left right =
     (if length left < length right then - 1
      else if length left > length right then 1
      else if left < right then - 1
      else if left > right then 1
      else 0)"

text \<open>The \<^verbatim>\<open>switch\<close> inside the prerelease loop; zero goes on to the next identifier.\<close>

definition compareIdentifier :: "string \<Rightarrow> string \<Rightarrow> int" where
  "compareIdentifier left right =
     (if numeric left \<and> numeric right then compareNumeric left right
      else if numeric left then - 1
      else if numeric right then 1
      else if left < right then - 1
      else if left > right then 1
      else 0)"

fun comparePrerelease :: "string list \<Rightarrow> string list \<Rightarrow> int" where
  "comparePrerelease (l # ls) (r # rs) =
     (let compared = compareIdentifier l r
      in if compared \<noteq> 0 then compared else comparePrerelease ls rs)"
| "comparePrerelease ls rs =
     (if length ls < length rs then - 1 else if length ls > length rs then 1 else 0)"

fun compareCore :: "string list \<Rightarrow> string list \<Rightarrow> int" where
  "compareCore (l # ls) (r # rs) =
     (let compared = compareNumeric l r in if compared \<noteq> 0 then compared else compareCore ls rs)"
| "compareCore _ _ = 0"

definition sem_compare :: "version \<Rightarrow> version \<Rightarrow> int" where
  "sem_compare left right =
     (let compared = compareCore (core left) (core right)
      in if compared \<noteq> 0 then compared
         else if prerelease left = [] \<and> prerelease right = [] then 0
         else if prerelease left = [] then 1
         else if prerelease right = [] then - 1
         else comparePrerelease (prerelease left) (prerelease right))"

section \<open>The reference order\<close>

definition identifier_key :: "string \<Rightarrow> bool \<times> nat \<times> string" where
  "identifier_key s = (if numeric s then (False, digits_val s, []) else (True, 0, s))"

definition version_key :: "version \<Rightarrow> nat list \<times> bool \<times> (bool \<times> nat \<times> string) list" where
  "version_key v =
     (map digits_val (core v), prerelease v = [], map identifier_key (prerelease v))"

definition version_ok :: "version \<Rightarrow> bool" where
  "version_ok v \<longleftrightarrow> length (core v) = 3 \<and> list_all validNumeric (core v)
     \<and> list_all validPrerelease (prerelease v)"

section \<open>Numeric identifiers\<close>

lemma validNumericD:
  "validNumeric s \<Longrightarrow> s \<noteq> [] \<and> list_all is_digit s \<and> (length s = 1 \<or> 0 < digit_val (hd s))"
proof -
  assume v: "validNumeric s"
  then have s: "s \<noteq> []" "list_all is_digit s" "length s = 1 \<or> hd s \<noteq> CHR ''0''"
    by (auto simp: validNumeric_def numeric_def hd_conv_nth split: if_splits)
  have "0 < digit_val (hd s)" if "hd s \<noteq> CHR ''0''"
  proof -
    have "is_digit (hd s)"
      using s by (cases s) auto
    then have "of_char (hd s) = 48 + digit_val (hd s)"
      using is_digit_val by blast
    moreover have "of_char (CHR ''0'') = (48::nat)"
      by simp
    then have "of_char (hd s) \<noteq> (48::nat)"
      using that by (metis of_char_eq_iff)
    ultimately show ?thesis by simp
  qed
  then show ?thesis
    using s by auto
qed

lemma compareNumeric_key:
  assumes "validNumeric l" "validNumeric r"
  shows "compareNumeric l r = three_way (digits_val l) (digits_val r)"
proof -
  have shorter: "digits_val s < digits_val t"
    if "validNumeric s" "validNumeric t" "length s < length t" for s t
  proof -
    have t: "t \<noteq> []" "list_all is_digit t" "0 < digit_val (hd t)" and s: "list_all is_digit s" "s \<noteq> []"
      using validNumericD [OF that(1)] validNumericD [OF that(2)] that(3) by (auto simp: Suc_lessI)
    have "digits_val s < 10 ^ length s"
      using s digits_val_less by blast
    also have "\<dots> \<le> 10 ^ (length t - 1)"
      using that(3) by (intro power_increasing) auto
    also have "\<dots> \<le> digit_val (hd t) * 10 ^ (length t - 1)"
      using t by simp
    also have "\<dots> \<le> digits_val t"
      using t by (cases t) (simp_all add: digits_val_Cons)
    finally show ?thesis .
  qed
  have "list_all is_digit l" "list_all is_digit r"
    using assms validNumericD by blast+
  then have eq: "length l = length r \<Longrightarrow> l < r \<longleftrightarrow> digits_val l < digits_val r"
    "length l = length r \<Longrightarrow> r < l \<longleftrightarrow> digits_val r < digits_val l"
    using digits_val_lex by auto
  show ?thesis
    using shorter assms eq by (cases "length l" "length r" rule: linorder_cases)
      (auto simp: compareNumeric_def three_way_def not_less_iff_gr_or_eq dest: less_imp_le)
qed

lemma digits_val_inj:
  assumes "validNumeric l" "validNumeric r" "digits_val l = digits_val r"
  shows "l = r"
  using compareNumeric_key [OF assms(1,2)] assms(3)
  by (auto simp: compareNumeric_def three_way_def split: if_splits)

interpretation numeric_order: keyed_comparator validNumeric compareNumeric digits_val
  by unfold_locales (auto intro: compareNumeric_key digits_val_inj)

section \<open>Prerelease identifiers\<close>

lemma validPrerelease_numeric: "validPrerelease s \<Longrightarrow> numeric s \<Longrightarrow> validNumeric s"
  by (auto simp: validPrerelease_def validNumeric_def validIdentifier_def)
    (metis Suc_lessI length_greater_0_conv One_nat_def)

lemma compareIdentifier_key:
  assumes "validPrerelease l" "validPrerelease r"
  shows "compareIdentifier l r = three_way (identifier_key l) (identifier_key r)"
  using assms validPrerelease_numeric compareNumeric_key
  by (auto simp: compareIdentifier_def identifier_key_def three_way_def)

lemma identifier_key_inj:
  assumes "validPrerelease l" "validPrerelease r" "identifier_key l = identifier_key r"
  shows "l = r"
  using assms validPrerelease_numeric digits_val_inj
  by (auto simp: identifier_key_def split: if_splits)

interpretation identifier_order: keyed_comparator validPrerelease compareIdentifier identifier_key
  by unfold_locales (auto intro: compareIdentifier_key identifier_key_inj)

section \<open>Versions\<close>

lemma comparePrerelease_key:
  assumes "list_all validPrerelease ls" "list_all validPrerelease rs"
  shows "comparePrerelease ls rs = three_way (map identifier_key ls) (map identifier_key rs)"
  using assms
proof (induction ls rs rule: comparePrerelease.induct)
  case (1 l ls r rs)
  then show ?case
    using compareIdentifier_key [of l r] by (auto simp: three_way_def Let_def)
qed (simp_all add: three_way_def split: list.splits,
    (metis Nil_less_Cons map_is_Nil_conv neq_Nil_conv)+)

lemma compareCore_key:
  assumes "length ls = length rs" "list_all validNumeric ls" "list_all validNumeric rs"
  shows "compareCore ls rs = three_way (map digits_val ls) (map digits_val rs)"
  using assms
proof (induction ls rs rule: list_induct2)
  case (Cons l ls r rs)
  then show ?case
    using compareNumeric_key [of l r] by (auto simp: three_way_def Let_def)
qed (simp add: three_way_def)

lemma sem_compare_key:
  assumes "version_ok v" "version_ok w"
  shows "sem_compare v w = three_way (version_key v) (version_key w)"
proof -
  have "compareCore (core v) (core w) = three_way (map digits_val (core v)) (map digits_val (core w))"
    using assms by (intro compareCore_key) (simp_all add: version_ok_def)
  moreover have "comparePrerelease (prerelease v) (prerelease w) =
      three_way (map identifier_key (prerelease v)) (map identifier_key (prerelease w))"
    using assms by (intro comparePrerelease_key) (simp_all add: version_ok_def)
  ultimately show ?thesis
    unfolding sem_compare_def version_key_def three_way_prod Let_def
    by (simp add: three_way_def [where 'a=bool] three_way_eq)
qed

lemma version_key_inj:
  assumes "version_ok v" "version_ok w" "version_key v = version_key w"
  shows "v = w"
proof -
  have keys: "map digits_val (core v) = map digits_val (core w)"
    "map identifier_key (prerelease v) = map identifier_key (prerelease w)"
    using assms(3) by (simp_all add: version_key_def)
  have "core v = core w"
    using assms(1,2) keys(1) by (intro map_key_inj [of validNumeric digits_val] digits_val_inj)
      (simp_all add: version_ok_def)
  moreover have "prerelease v = prerelease w"
    using assms(1,2) keys(2) by (intro map_key_inj [of validPrerelease identifier_key] identifier_key_inj)
      (simp_all add: version_ok_def)
  ultimately show ?thesis
    by (cases v, cases w) simp
qed

interpretation version_order: keyed_comparator version_ok sem_compare version_key
  by unfold_locales (auto intro: sem_compare_key version_key_inj)

lemma sem_parse_ok:
  assumes "sem_parse s = Inr v"
  shows "version_ok v"
  using assms
  by (auto simp: sem_parse_def version_ok_def Let_def split: prod.splits if_splits)

section \<open>Grammar\<close>

definition version_string :: "version \<Rightarrow> string" where
  "version_string v =
     str_join CHR ''.'' (core v)
     @ (if prerelease v = [] then [] else CHR ''-'' # str_join CHR ''.'' (prerelease v))"

lemma numeric_chars:
  assumes "validNumeric s"
  shows "set s \<subseteq> {c. is_digit c}" "CHR ''.'' \<notin> set s" "CHR ''-'' \<notin> set s" "CHR ''+'' \<notin> set s"
proof -
  show *: "set s \<subseteq> {c. is_digit c}"
    using validNumericD [OF assms] by (auto simp: list_all_iff)
  show "CHR ''.'' \<notin> set s" "CHR ''-'' \<notin> set s" "CHR ''+'' \<notin> set s"
    using * by (auto simp: is_digit_def less_eq_char_def)
qed

lemma prerelease_chars:
  assumes "validPrerelease s"
  shows "CHR ''.'' \<notin> set s" "CHR ''+'' \<notin> set s"
proof -
  have "set s \<subseteq> {c. identifier_char c}"
    using assms by (auto simp: validPrerelease_def validIdentifier_def list_all_iff split: if_splits)
  then show "CHR ''.'' \<notin> set s" "CHR ''+'' \<notin> set s"
    by (auto simp: identifier_char_def is_digit_def is_upper_def is_lower_def less_eq_char_def)
qed

lemma join_core_chars:
  assumes "list_all validNumeric ws"
  shows "CHR ''-'' \<notin> set (str_join CHR ''.'' ws)" "CHR ''+'' \<notin> set (str_join CHR ''.'' ws)"
proof -
  have "CHR ''-'' \<notin> \<Union> (set ` set ws)" "CHR ''+'' \<notin> \<Union> (set ` set ws)"
    using assms numeric_chars by (auto simp: list_all_iff)
  then show "CHR ''-'' \<notin> set (str_join CHR ''.'' ws)" "CHR ''+'' \<notin> set (str_join CHR ''.'' ws)"
    using set_str_join [of "CHR ''.''" ws] by auto
qed

lemma parse_version_string:
  assumes "version_ok v"
  shows "sem_parse (version_string v) = Inr v"
proof -
  let ?c = "str_join CHR ''.'' (core v)" and ?p = "str_join CHR ''.'' (prerelease v)"
  have ok: "length (core v) = 3" "list_all validNumeric (core v)" "list_all validPrerelease (prerelease v)"
    using assms by (simp_all add: version_ok_def)
  have c: "str_split CHR ''.'' ?c = core v"
    using ok numeric_chars(2) by (intro str_split_join) (auto simp: list_all_iff)
  have "?c \<noteq> []"
  proof
    assume "?c = []"
    then have "core v = [[]]"
      using c by simp
    then show False
      using ok(1) by simp
  qed
  have p: "prerelease v \<noteq> [] \<Longrightarrow> str_split CHR ''.'' ?p = prerelease v"
    using ok prerelease_chars(1) by (intro str_split_join) (auto simp: list_all_iff)
  have plus: "CHR ''+'' \<notin> set (version_string v)"
  proof -
    have "CHR ''+'' \<notin> \<Union> (set ` set (prerelease v))"
      using ok(3) prerelease_chars(2) by (auto simp: list_all_iff)
    then have "CHR ''+'' \<notin> set ?p"
      using set_str_join [of "CHR ''.''" "prerelease v"] by auto
    then show ?thesis
      using join_core_chars(2) [OF ok(2)] by (simp add: version_string_def)
  qed
  show ?thesis
  proof (cases "prerelease v = []")
    case True
    then have "str_cut (version_string v) ''-'' = (?c, [], False)"
      using join_core_chars(1) [OF ok(2)] by (simp add: version_string_def str_cut_char_missing)
    then show ?thesis
      using True ok c plus \<open>?c \<noteq> []\<close> by (simp add: sem_parse_def version_string_def)
  next
    case False
    then have "str_cut (version_string v) ''-'' = (?c, ?p, True)"
      using join_core_chars(1) [OF ok(2)] by (simp add: version_string_def str_cut_char_found)
    then show ?thesis
      using False ok c p plus \<open>?c \<noteq> []\<close> by (simp add: sem_parse_def version_string_def)
  qed
qed

lemma version_string_parse:
  assumes "sem_parse s = Inr v"
  shows "version_string v = s"
proof -
  obtain c p h where cut: "str_cut s ''-'' = (c, p, h)"
    by (metis prod_cases3)
  show ?thesis
  proof (cases h)
    case True
    then have "s = c @ CHR ''-'' # p"
      using cut str_cut_char_found by simp
    moreover have "v = \<lparr>core = str_split CHR ''.'' c, prerelease = str_split CHR ''.'' p\<rparr>"
      using assms cut True by (auto simp: sem_parse_def Let_def split: if_splits)
    ultimately show ?thesis
      by (simp add: version_string_def)
  next
    case False
    then have "s = c"
      using cut str_cut_char_missing by simp
    moreover have "v = \<lparr>core = str_split CHR ''.'' c, prerelease = []\<rparr>"
      using assms cut False by (auto simp: sem_parse_def Let_def split: if_splits)
    ultimately show ?thesis
      by (simp add: version_string_def)
  qed
qed

section \<open>Properties\<close>

text \<open>
  \<^bold>\<open>C25.\<close> \<^verbatim>\<open>Compare\<close> is the precedence order of semantic versioning. On any two parsed versions it
  returns the three-way comparison of their keys: the numeric values of the core, then releases
  after prereleases, then the prerelease identifiers left to right, numeric ones by value and
  before alphanumeric ones, a longer list after its prefix. The digit strings are compared
  without conversion, so values beyond any machine integer are ordered correctly.
\<close>

theorem compare_is_precedence:
  assumes "sem_parse s = Inr v" "sem_parse t = Inr w"
  shows "sem_compare v w = three_way (version_key v) (version_key w)
    \<and> (sem_compare v w = 0 \<longleftrightarrow> s = t) \<and> sem_compare w v = - sem_compare v w"
proof -
  have ok: "version_ok v" "version_ok w"
    using assms sem_parse_ok by blast+
  have "v = w \<longleftrightarrow> s = t"
    by (metis assms version_string_parse sum.inject(2))
  then have "sem_compare v w = 0 \<longleftrightarrow> s = t"
    using version_order.cmp_zero [OF ok] by (rule trans [rotated])
  then show ?thesis
    by (intro conjI version_order.cmp_key [OF ok] version_order.cmp_antisym [OF ok])
qed

theorem compare_is_precedence_witness:
  "sem_compare \<lparr>core = [''1'', ''0'', ''0''], prerelease = [''rc'', ''2'']\<rparr>
     \<lparr>core = [''1'', ''0'', ''0''], prerelease = [''rc'', ''10'']\<rparr> = - 1"
  using compare_is_precedence [of "''1.0.0-rc.2''" "\<lparr>core = [''1'', ''0'', ''0''], prerelease = [''rc'', ''2'']\<rparr>"
      "''1.0.0-rc.10''" "\<lparr>core = [''1'', ''0'', ''0''], prerelease = [''rc'', ''10'']\<rparr>"]
  by code_simp

text \<open>
  \<^verbatim>\<open>Parse\<close> accepts exactly the strict grammar: a string parses to a version precisely when the
  version is well formed and the string is its canonical spelling.
\<close>

lemma parse_iff_canonical:
  "sem_parse s = Inr v \<longleftrightarrow> version_ok v \<and> s = version_string v"
  using sem_parse_ok version_string_parse parse_version_string by blast

end
