(* ===== verification/Variable_Expression.thy ===== *)
theory Variable_Expression
  imports Go_Prelude
begin

text \<open>
  Package \<^verbatim>\<open>internal/variableexpression\<close>: the expansion of \<^verbatim>\<open>${{resource.OUTPUT}}\<close> references in
  service variables. \<open>expand\<close> passes a state through the resolver callback, so that \<^verbatim>\<open>References\<close>,
  whose callback appends to a slice, is an instance of it as in the code.
\<close>

section \<open>Model\<close>

record reference =
  ref_resource :: string
  ref_output :: string

datatype 'e expr_error = Unterminated | InvalidReference string | Unresolved 'e

definition lower_or_digit :: "char \<Rightarrow> bool" where
  "lower_or_digit c = (is_lower c \<or> is_digit c)"

text \<open>\<^verbatim>\<open>^[a-z0-9](?:[a-z0-9-]{0,61}[a-z0-9])?$\<close>\<close>

definition resourceName :: "string \<Rightarrow> bool" where
  "resourceName s =
     (s \<noteq> [] \<and> length s \<le> 63 \<and> lower_or_digit (hd s) \<and> lower_or_digit (last s)
      \<and> list_all (\<lambda>c. lower_or_digit c \<or> c = CHR ''-'') s)"

text \<open>\<^verbatim>\<open>^[A-Za-z_][A-Za-z0-9_]*$\<close>\<close>

definition outputName :: "string \<Rightarrow> bool" where
  "outputName s =
     (s \<noteq> [] \<and> (is_upper (hd s) \<or> is_lower (hd s) \<or> hd s = CHR ''_'')
      \<and> list_all (\<lambda>c. is_upper c \<or> is_lower c \<or> is_digit c \<or> c = CHR ''_'') (tl s))"

definition parse_reference :: "string \<Rightarrow> 'e expr_error + reference" where
  "parse_reference value =
     (case str_cut value ''.'' of
        (res, out, found) \<Rightarrow>
          if \<not> found \<or> str_contains out ''.'' \<or> \<not> resourceName res \<or> \<not> outputName out
          then Inl (InvalidReference value)
          else Inr \<lparr>ref_resource = res, ref_output = out\<rparr>)"

definition open_mark :: string where
  "open_mark = ''${{''"

definition close_mark :: string where
  "close_mark = ''}}''"

function expand_loop ::
  "('s \<Rightarrow> reference \<Rightarrow> 's \<times> ('e + string)) \<Rightarrow> 's \<Rightarrow> string \<Rightarrow> string \<Rightarrow> 's \<times> ('e expr_error + string)" where
  "expand_loop resolve st result remaining =
     (case str_index remaining open_mark of
        None \<Rightarrow> (st, Inr (result @ remaining))
      | Some start \<Rightarrow>
          (let result' = result @ take start remaining;
               rest = drop (start + 3) remaining
           in case str_index rest close_mark of
                None \<Rightarrow> (st, Inl Unterminated)
              | Some stop \<Rightarrow>
                  (case parse_reference (trim_space (take stop rest)) of
                     Inl e \<Rightarrow> (st, Inl e)
                   | Inr r \<Rightarrow>
                       (case resolve st r of
                          (st', Inl e) \<Rightarrow> (st', Inl (Unresolved e))
                        | (st', Inr resolved) \<Rightarrow>
                            expand_loop resolve st' (result' @ resolved) (drop (stop + 2) rest)))))"
  by pat_completeness auto
termination
proof (relation "measure (\<lambda>(resolve, st, result, remaining). length remaining)", goal_cases)
  case (2 resolve st result remaining start)
  have "3 \<le> length remaining"
    using str_index_Some [OF 2(1)] by (simp add: open_mark_def)
  then show ?case
    using 2 by auto
qed simp

declare expand_loop.simps [simp del]

definition expand ::
  "string \<Rightarrow> ('s \<Rightarrow> reference \<Rightarrow> 's \<times> ('e + string)) \<Rightarrow> 's \<Rightarrow> 's \<times> ('e expr_error + string)" where
  "expand value resolve st = expand_loop resolve st [] value"

definition collect_reference :: "reference list \<Rightarrow> reference \<Rightarrow> reference list \<times> (unit + string)" where
  "collect_reference refs r = (refs @ [r], Inr [])"

definition references :: "string \<Rightarrow> reference list \<times> unit expr_error option" where
  "references value =
     (case expand value collect_reference [] of
        (refs, Inl e) \<Rightarrow> (refs, Some e)
      | (refs, Inr _) \<Rightarrow> (refs, None))"

section \<open>Templates\<close>

text \<open>
  A template is a list of literals, each followed by the text between the braces of a reference,
  and a last literal.
\<close>

type_synonym template = "(string \<times> string) list \<times> string"

definition piece_ok :: "string \<times> string \<Rightarrow> bool" where
  "piece_ok p \<longleftrightarrow>
     str_index (fst p) open_mark = None
     \<and> str_index (snd p @ close_mark) close_mark = Some (length (snd p))
     \<and> is_ok (parse_reference (trim_space (snd p)) :: unit expr_error + reference)"

definition template_ok :: "template \<Rightarrow> bool" where
  "template_ok t \<longleftrightarrow> list_all piece_ok (fst t) \<and> str_index (snd t) open_mark = None"

definition piece_reference :: "string \<times> string \<Rightarrow> reference" where
  "piece_reference p =
     (case (parse_reference (trim_space (snd p)) :: unit expr_error + reference) of
        Inr r \<Rightarrow> r | Inl _ \<Rightarrow> \<lparr>ref_resource = [], ref_output = []\<rparr>)"

definition render :: "template \<Rightarrow> string" where
  "render t = concat (map (\<lambda>p. fst p @ open_mark @ snd p @ close_mark) (fst t)) @ snd t"

text \<open>
  What a resolver answers to a list of references, asked in order until it fails, and the text of the literals
  with the answers between them.
\<close>

fun resolveAll :: "('s \<Rightarrow> reference \<Rightarrow> 's \<times> ('e + string)) \<Rightarrow> 's \<Rightarrow> reference list \<Rightarrow> 's \<times> ('e + string list)" where
  "resolveAll resolve st [] = (st, Inr [])"
| "resolveAll resolve st (r # rs) =
     (case resolve st r of
        (st', Inl e) \<Rightarrow> (st', Inl e)
      | (st', Inr out) \<Rightarrow>
          (case resolveAll resolve st' rs of
             (st'', Inl e) \<Rightarrow> (st'', Inl e)
           | (st'', Inr outs) \<Rightarrow> (st'', Inr (out # outs))))"

fun weave :: "(string \<times> string) list \<Rightarrow> string list \<Rightarrow> string" where
  "weave (p # ps) (out # outs) = fst p @ out @ weave ps outs"
| "weave _ _ = []"

definition recording :: "(reference \<Rightarrow> string) \<Rightarrow> reference list \<Rightarrow> reference \<Rightarrow> reference list \<times> (unit + string)" where
  "recording f refs r = (refs @ [r], Inr (f r))"

lemma open_mark_after_literal:
  assumes "str_index lit open_mark = None"
  shows "str_index (lit @ open_mark @ rest) open_mark = Some (length lit)"
  using assms
proof (induction lit)
  case Nil
  show ?case by (simp add: open_mark_def)
next
  case (Cons c lit)
  have "\<not> prefix open_mark (c # lit @ open_mark @ rest)"
  proof (cases lit)
    case Nil
    then show ?thesis by (simp add: open_mark_def)
  next
    case (Cons d lit')
    then show ?thesis
      using Cons.prems by (cases lit') (auto simp: open_mark_def split: if_splits)
  qed
  then show ?case
    using Cons by (auto split: if_splits)
qed

lemma render_Cons: "render (p # ps, lst) = fst p @ open_mark @ snd p @ close_mark @ render (ps, lst)"
  by (simp add: render_def)

lemma render_Nil [simp]: "render ([], lst) = lst"
  by (simp add: render_def)

lemma mark_lengths: "length open_mark = 3" "length close_mark = 2"
  by (simp_all add: open_mark_def close_mark_def)

text \<open>Whether a text is a reference, and which, does not depend on the resolver's type of errors.\<close>

lemma parse_reference_piece:
  "piece_ok p \<Longrightarrow> parse_reference (trim_space (snd p)) = Inr (piece_reference p)"
  by (auto simp: piece_ok_def piece_reference_def parse_reference_def split: prod.splits if_splits)

lemma parse_reference_bad:
  "\<not> is_ok (parse_reference s :: unit expr_error + reference) \<Longrightarrow> parse_reference s = Inl (InvalidReference s)"
  by (auto simp: parse_reference_def split: prod.splits if_splits)

section \<open>The loop over a template\<close>

text \<open>One round of the loop at a literal, an opening mark and the text up to the closing mark.\<close>

lemma expand_loop_round:
  assumes "str_index lit open_mark = None" "str_index (inner @ close_mark) close_mark = Some (length inner)"
  shows "expand_loop resolve st acc (lit @ open_mark @ inner @ close_mark @ rest) =
    (case parse_reference (trim_space inner) of
       Inl e \<Rightarrow> (st, Inl e)
     | Inr r \<Rightarrow>
         (case resolve st r of
            (st', Inl e) \<Rightarrow> (st', Inl (Unresolved e))
          | (st', Inr out) \<Rightarrow> expand_loop resolve st' (acc @ lit @ out) rest))"
proof -
  let ?v = "lit @ open_mark @ inner @ close_mark @ rest"
  have at_open: "str_index ?v open_mark = Some (length lit)"
    by (rule open_mark_after_literal [OF assms(1)])
  have after_open: "drop (length lit + 3) ?v = inner @ close_mark @ rest"
    by (simp add: open_mark_def)
  have at_close: "str_index (inner @ close_mark @ rest) close_mark = Some (length inner)"
    using str_index_append [OF assms(2), of rest] by simp
  have parts: "take (length lit) ?v = lit" "take (length inner) (inner @ close_mark @ rest) = inner"
    "drop (length inner + 2) (inner @ close_mark @ rest) = rest"
    by (simp_all add: close_mark_def)
  show ?thesis
    by (subst expand_loop.simps) (simp only: at_open after_open at_close parts option.case Let_def append_assoc)
qed

lemma expand_loop_pieces:
  "list_all piece_ok ps \<Longrightarrow> expand_loop resolve st acc (render (ps, lst)) =
     (case resolveAll resolve st (map piece_reference ps) of
        (st', Inl e) \<Rightarrow> (st', Inl (Unresolved e))
      | (st', Inr outs) \<Rightarrow> expand_loop resolve st' (acc @ weave ps outs) lst)"
proof (induction ps arbitrary: st acc)
  case (Cons p ps)
  have "piece_ok p"
    using Cons.prems by simp
  then have "expand_loop resolve st acc (render (p # ps, lst)) =
      (case resolve st (piece_reference p) of
         (st', Inl e) \<Rightarrow> (st', Inl (Unresolved e))
       | (st', Inr out) \<Rightarrow> expand_loop resolve st' (acc @ fst p @ out) (render (ps, lst)))"
    by (simp add: render_Cons expand_loop_round parse_reference_piece piece_ok_def [of p])
  then show ?case
    using Cons by (simp split: sum.split prod.split)
qed simp

text \<open>Where the loop ends by itself: a last literal, an opening mark that is not closed, a text that is no reference.\<close>

definition open_unclosed :: "string \<Rightarrow> bool" where
  "open_unclosed rest \<longleftrightarrow>
     (\<exists>lit inner. rest = lit @ open_mark @ inner \<and> str_index lit open_mark = None \<and> str_index inner close_mark = None)"

definition bad_reference :: "string \<Rightarrow> string \<Rightarrow> bool" where
  "bad_reference s rest \<longleftrightarrow>
     (\<exists>lit inner more. rest = lit @ open_mark @ inner @ close_mark @ more \<and> str_index lit open_mark = None
        \<and> str_index (inner @ close_mark) close_mark = Some (length inner) \<and> s = trim_space inner
        \<and> \<not> is_ok (parse_reference s :: unit expr_error + reference))"

lemma expand_loop_last: "str_index lst open_mark = None \<Longrightarrow> expand_loop resolve st acc lst = (st, Inr (acc @ lst))"
  by (subst expand_loop.simps) simp

lemma expand_loop_unclosed: "open_unclosed rest \<Longrightarrow> expand_loop resolve st acc rest = (st, Inl Unterminated)"
  unfolding open_unclosed_def
  by (subst expand_loop.simps) (auto simp: open_mark_after_literal mark_lengths Let_def)

lemma expand_loop_bad: "bad_reference s rest \<Longrightarrow> expand_loop resolve st acc rest = (st, Inl (InvalidReference s))"
  unfolding bad_reference_def by (auto simp: expand_loop_round parse_reference_bad)

text \<open>Every value is a list of pieces and one of these ends.\<close>

lemma value_ends:
  "\<exists>ps rest. list_all piece_ok ps \<and> v = render (ps, rest)
     \<and> (str_index rest open_mark = None \<or> open_unclosed rest \<or> (\<exists>s. bad_reference s rest))"
proof (induction "length v" arbitrary: v rule: less_induct)
  case less
  consider (plain) "str_index v open_mark = None" | (opened) start where "str_index v open_mark = Some start"
    by fastforce
  then show ?case
  proof cases
    case plain
    then show ?thesis
      by (intro exI [of _ "[]"] exI [of _ v]) simp
  next
    case opened
    define lit rest where "lit = take start v" and "rest = drop (start + 3) v"
    have v: "v = lit @ open_mark @ rest" and lit: "str_index lit open_mark = None"
      using str_index_decompose [OF opened] str_index_before [OF opened]
      by (simp_all add: lit_def rest_def mark_lengths open_mark_def numeral_3_eq_3)
    show ?thesis
    proof (cases "str_index rest close_mark")
      case None
      then have "open_unclosed v"
        using v lit unfolding open_unclosed_def by blast
      then show ?thesis
        by (intro exI [of _ "[]"] exI [of _ v]) simp
    next
      case (Some stop)
      define inner more where "inner = take stop rest" and "more = drop (stop + 2) rest"
      have rest: "rest = inner @ close_mark @ more"
        using str_index_decompose [OF Some] by (simp add: inner_def more_def close_mark_def)
      have len: "length inner = stop"
        using str_index_Some [OF Some] by (simp add: inner_def close_mark_def)
      have closed: "str_index (inner @ close_mark) close_mark = Some (length inner)"
        using str_index_take [OF Some] str_index_Some [OF Some] unfolding len by (simp add: inner_def take_add)
      show ?thesis
      proof (cases "is_ok (parse_reference (trim_space inner) :: unit expr_error + reference)")
        case False
        then have "bad_reference (trim_space inner) v"
          unfolding bad_reference_def using v rest lit closed by blast
        then show ?thesis
          by (intro exI [of _ "[]"] exI [of _ v]) auto
      next
        case True
        have "length more < length v"
          unfolding v rest by (simp add: mark_lengths)
        then obtain ps tl where "list_all piece_ok ps" "more = render (ps, tl)"
          "str_index tl open_mark = None \<or> open_unclosed tl \<or> (\<exists>s. bad_reference s tl)"
          using less by blast
        moreover have "piece_ok (lit, inner)"
          using True lit closed by (simp add: piece_ok_def)
        ultimately show ?thesis
          using v rest by (intro exI [of _ "(lit, inner) # ps"] exI [of _ tl]) (simp add: render_Cons)
      qed
    qed
  qed
qed

text \<open>How \<^verbatim>\<open>Expand\<close> can end, with the pieces it went through.\<close>

lemma expand_ends:
  obtains (failed) ps rest st' e where "list_all piece_ok ps" "v = render (ps, rest)"
      "resolveAll resolve st (map piece_reference ps) = (st', Inl e)" "expand v resolve st = (st', Inl (Unresolved e))"
  | (completed) ps lst st' outs where "template_ok (ps, lst)" "v = render (ps, lst)"
      "resolveAll resolve st (map piece_reference ps) = (st', Inr outs)" "expand v resolve st = (st', Inr (weave ps outs @ lst))"
  | (unclosed) ps rest st' outs where "list_all piece_ok ps" "v = render (ps, rest)" "open_unclosed rest"
      "resolveAll resolve st (map piece_reference ps) = (st', Inr outs)" "expand v resolve st = (st', Inl Unterminated)"
  | (invalid) ps rest st' outs s where "list_all piece_ok ps" "v = render (ps, rest)" "bad_reference s rest"
      "resolveAll resolve st (map piece_reference ps) = (st', Inr outs)" "expand v resolve st = (st', Inl (InvalidReference s))"
proof -
  obtain ps rest where ps: "list_all piece_ok ps" "v = render (ps, rest)"
    and ends: "str_index rest open_mark = None \<or> open_unclosed rest \<or> (\<exists>s. bad_reference s rest)"
    using value_ends by blast
  obtain st' r where r: "resolveAll resolve st (map piece_reference ps) = (st', r)"
    by force
  show ?thesis
  proof (cases r)
    case (Inl e)
    then show ?thesis
      using failed [OF ps] r by (simp add: ps expand_def expand_loop_pieces)
  next
    case (Inr outs)
    then have v: "expand v resolve st = expand_loop resolve st' (weave ps outs) rest"
      using r by (simp add: ps expand_def expand_loop_pieces)
    show ?thesis
      using ends
    proof (elim disjE exE)
      assume "str_index rest open_mark = None"
      then show ?thesis
        using completed [of ps rest st' outs] ps r Inr v by (simp add: expand_loop_last template_ok_def)
    next
      assume "open_unclosed rest"
      then show ?thesis
        using unclosed [OF ps] r Inr v by (simp add: expand_loop_unclosed)
    next
      fix s assume "bad_reference s rest"
      then show ?thesis
        using invalid [OF ps] r Inr v by (simp add: expand_loop_bad)
    qed
  qed
qed

text \<open>
  \<^bold>\<open>C26.\<close> Expansion is strict substitution, for any resolver, which may keep state and may fail. \<^verbatim>\<open>Expand\<close> succeeds
  exactly when the value is a template (literals without an opening mark, and references whose text is a valid
  \<^verbatim>\<open>resource.OUTPUT\<close> name) whose references all resolve; the resolver is asked for them in their order,
  and the result is the literals with the answers between them. It returns an error of the resolver exactly when the value begins with
  such pieces and the resolver, asked in order, fails at one of them; the missing end and the invalid text of a reference are reported exactly
  when they come after pieces that all resolve.
\<close>

theorem expand_iff_template:
  "(expand v resolve st = (st', Inr out) \<longleftrightarrow>
      (\<exists>ps lst outs. template_ok (ps, lst) \<and> v = render (ps, lst)
         \<and> resolveAll resolve st (map piece_reference ps) = (st', Inr outs) \<and> out = weave ps outs @ lst))
   \<and> (expand v resolve st = (st', Inl (Unresolved e)) \<longleftrightarrow>
      (\<exists>ps rest. list_all piece_ok ps \<and> v = render (ps, rest)
         \<and> resolveAll resolve st (map piece_reference ps) = (st', Inl e)))
   \<and> (expand v resolve st = (st', Inl Unterminated) \<longleftrightarrow>
      (\<exists>ps rest outs. list_all piece_ok ps \<and> v = render (ps, rest) \<and> open_unclosed rest
         \<and> resolveAll resolve st (map piece_reference ps) = (st', Inr outs)))
   \<and> (expand v resolve st = (st', Inl (InvalidReference s)) \<longleftrightarrow>
      (\<exists>ps rest outs. list_all piece_ok ps \<and> v = render (ps, rest) \<and> bad_reference s rest
         \<and> resolveAll resolve st (map piece_reference ps) = (st', Inr outs)))"
proof (intro conjI iffI)
  note ends = expand_ends [of v resolve st]
  show "\<exists>ps lst outs. template_ok (ps, lst) \<and> v = render (ps, lst)
      \<and> resolveAll resolve st (map piece_reference ps) = (st', Inr outs) \<and> out = weave ps outs @ lst"
    if "expand v resolve st = (st', Inr out)"
    using that by (cases rule: ends) auto
  show "\<exists>ps rest. list_all piece_ok ps \<and> v = render (ps, rest) \<and> resolveAll resolve st (map piece_reference ps) = (st', Inl e)"
    if "expand v resolve st = (st', Inl (Unresolved e))"
    using that by (cases rule: ends) auto
  show "\<exists>ps rest outs. list_all piece_ok ps \<and> v = render (ps, rest) \<and> open_unclosed rest
      \<and> resolveAll resolve st (map piece_reference ps) = (st', Inr outs)"
    if "expand v resolve st = (st', Inl Unterminated)"
    using that by (cases rule: ends) auto
  show "\<exists>ps rest outs. list_all piece_ok ps \<and> v = render (ps, rest) \<and> bad_reference s rest
      \<and> resolveAll resolve st (map piece_reference ps) = (st', Inr outs)"
    if "expand v resolve st = (st', Inl (InvalidReference s))"
    using that by (cases rule: ends) auto
qed (auto simp: expand_def expand_loop_pieces expand_loop_last expand_loop_unclosed expand_loop_bad template_ok_def)

text \<open>
  \<^verbatim>\<open>References\<close> lists what \<^verbatim>\<open>Expand\<close> will ask for: when it succeeds, expansion with any resolver that
  never fails succeeds too and asks for the same references in the same order.
\<close>

lemma resolveAll_recording: "resolveAll (recording f) refs rs = (refs @ rs, Inr (map f rs))"
  by (induction rs arbitrary: refs) (simp_all add: recording_def)

lemma references_are_expanded:
  assumes "references v = (refs, None)"
  shows "\<exists>out. expand v (recording f) [] = (refs, Inr out)"
proof -
  have rec: "collect_reference = recording (\<lambda>_. [])"
    by (simp add: fun_eq_iff collect_reference_def recording_def)
  obtain out where "expand v (recording (\<lambda>_. [])) [] = (refs, Inr out)"
    using assms by (auto simp: references_def rec split: prod.splits sum.splits)
  then obtain ps lst where "template_ok (ps, lst)" "v = render (ps, lst)" "refs = map piece_reference ps"
    by (cases rule: expand_ends [of v "recording (\<lambda>_. [])" "[]"]) (auto simp: resolveAll_recording)
  then show ?thesis
    by (simp add: expand_def template_ok_def expand_loop_pieces expand_loop_last resolveAll_recording)
qed

end
