(* ===== verification/Go_Time.thy ===== *)
theory Go_Time
  imports Go_Prelude
begin

text \<open>
  The part of package \<^verbatim>\<open>time\<close> the components use: instants in UTC as the number of nanoseconds since
  the zero time, 1 January of year 1, on the proleptic Gregorian calendar. \<open>go_date\<close> is \<^verbatim>\<open>time.Date\<close>
  with its normalisation of out-of-range fields, \<open>add_years\<close> is \<^verbatim>\<open>AddDate(n, 0, 0)\<close>. Instants are
  unbounded integers; Go's range of some 292 billion years around the zero time is not modelled.
\<close>

type_synonym instant = int

definition ns_per_minute :: int where
  "ns_per_minute = 60000000000"

section \<open>The calendar\<close>

definition is_leap :: "int \<Rightarrow> bool" where
  "is_leap y = (y mod 4 = 0 \<and> (y mod 100 \<noteq> 0 \<or> y mod 400 = 0))"

definition days_before_year :: "int \<Rightarrow> int" where
  "days_before_year y = 365 * (y - 1) + (y - 1) div 4 - (y - 1) div 100 + (y - 1) div 400"

text \<open>Days of the year before the first of a month, in a common year.\<close>

fun month_offset :: "int \<Rightarrow> int" where
  "month_offset m =
     (if m \<le> 1 then 0 else if m = 2 then 31 else if m = 3 then 59 else if m = 4 then 90
      else if m = 5 then 120 else if m = 6 then 151 else if m = 7 then 181 else if m = 8 then 212
      else if m = 9 then 243 else if m = 10 then 273 else if m = 11 then 304 else if m = 12 then 334
      else 365)"

definition days_before_month :: "int \<Rightarrow> int \<Rightarrow> int" where
  "days_before_month y m = month_offset m + (if is_leap y \<and> m > 2 then 1 else 0)"

definition year_of_day :: "int \<Rightarrow> int" where
  "year_of_day d =
     (let y = 400 * d div 146097 + 1
      in if d < days_before_year y then y - 1
         else if days_before_year (y + 1) \<le> d then y + 1
         else y)"

definition month_in_year :: "int \<Rightarrow> int \<Rightarrow> int" where
  "month_in_year y yd =
     (if yd < days_before_month y 2 then 1 else if yd < days_before_month y 3 then 2
      else if yd < days_before_month y 4 then 3 else if yd < days_before_month y 5 then 4
      else if yd < days_before_month y 6 then 5 else if yd < days_before_month y 7 then 6
      else if yd < days_before_month y 8 then 7 else if yd < days_before_month y 9 then 8
      else if yd < days_before_month y 10 then 9 else if yd < days_before_month y 11 then 10
      else if yd < days_before_month y 12 then 11 else 12)"

definition month_of_day :: "int \<Rightarrow> int" where
  "month_of_day d = (let y = year_of_day d in month_in_year y (d - days_before_year y))"

definition mday_of_day :: "int \<Rightarrow> int" where
  "mday_of_day d =
     (let y = year_of_day d in d - days_before_year y - days_before_month y (month_of_day d) + 1)"

section \<open>Instants\<close>

definition minute_number :: "instant \<Rightarrow> int" where
  "minute_number t = t div ns_per_minute"

definition day_number :: "instant \<Rightarrow> int" where
  "day_number t = minute_number t div 1440"

definition t_year :: "instant \<Rightarrow> int" where
  "t_year t = year_of_day (day_number t)"

definition t_month :: "instant \<Rightarrow> int" where
  "t_month t = month_of_day (day_number t)"

definition t_day :: "instant \<Rightarrow> int" where
  "t_day t = mday_of_day (day_number t)"

definition t_weekday :: "instant \<Rightarrow> int" where
  "t_weekday t = (day_number t + 1) mod 7"  \<comment> \<open>the zero time is a Monday; Sunday is 0\<close>

definition t_hour :: "instant \<Rightarrow> int" where
  "t_hour t = minute_number t div 60 mod 24"

definition t_minute :: "instant \<Rightarrow> int" where
  "t_minute t = minute_number t mod 60"

definition t_second :: "instant \<Rightarrow> int" where
  "t_second t = t div 1000000000 mod 60"

definition t_nanosecond :: "instant \<Rightarrow> int" where
  "t_nanosecond t = t mod 1000000000"

definition truncate_minute :: "instant \<Rightarrow> instant" where
  "truncate_minute t = t - t mod ns_per_minute"

definition date_day_number :: "int \<Rightarrow> int \<Rightarrow> int \<Rightarrow> int" where
  "date_day_number y mo d =
     (let y' = y + (mo - 1) div 12; m' = (mo - 1) mod 12 + 1
      in days_before_year y' + days_before_month y' m' + d - 1)"

definition go_date :: "int \<Rightarrow> int \<Rightarrow> int \<Rightarrow> int \<Rightarrow> int \<Rightarrow> int \<Rightarrow> int \<Rightarrow> instant" where
  "go_date y mo d h mi s ns =
     (((date_day_number y mo d * 24 + h) * 60 + mi) * 60 + s) * 1000000000 + ns"

definition add_years :: "int \<Rightarrow> instant \<Rightarrow> instant" where
  "add_years n t =
     go_date (t_year t + n) (t_month t) (t_day t) (t_hour t) (t_minute t) (t_second t) (t_nanosecond t)"

text \<open>\<^verbatim>\<open>Time.UnixMilli\<close>, \<^verbatim>\<open>Time.Unix\<close> and \<^verbatim>\<open>time.Unix\<close>: milliseconds and seconds since the Unix epoch.\<close>

definition unix_milli :: "instant \<Rightarrow> int" where
  "unix_milli t = t div 1000000 - 62135596800000"

definition unix_seconds :: "instant \<Rightarrow> int" where
  "unix_seconds t = t div 1000000000 - 62135596800"

definition of_unix :: "int \<Rightarrow> instant" where
  "of_unix n = (n + 62135596800) * 1000000000"

section \<open>Years\<close>

lemma div_pred:
  assumes "0 < (n::int)"
  shows "y div n = (y - 1) div n + (if n dvd y then 1 else 0)"
proof (cases "n dvd y")
  case True
  then obtain q where q: "y = n * q"
    by blast
  then have "y - 1 = n * (q - 1) + (n - 1)"
    by (simp add: algebra_simps)
  then have "(y - 1) div n = q - 1"
    by (rule int_div_pos_eq) (use assms in simp_all)
  then show ?thesis
    using True q assms by simp
next
  case False
  have "y - 1 = n * (y div n) + (y mod n - 1)"
    by simp
  moreover have "0 < y mod n" "y mod n < n"
    using False pos_mod_bound [OF assms, of y] pos_mod_sign [OF assms, of y]
    by (simp_all add: dvd_eq_mod_eq_0)
  ultimately have "(y - 1) div n = y div n"
    by (intro int_div_pos_eq [where r = "y mod n - 1"]) linarith+
  then show ?thesis
    using False by simp
qed

lemma is_leap_dvd: "is_leap y \<longleftrightarrow> 4 dvd y \<and> (\<not> 100 dvd y \<or> 400 dvd y)"
  by (simp add: is_leap_def dvd_eq_mod_eq_0)

lemma leap_count:
  "(r \<Longrightarrow> q) \<Longrightarrow> (q \<Longrightarrow> p) \<Longrightarrow>
     365 + (if p then 1 else 0) - (if q then 1 else 0) + (if r then 1 else 0) =
     (if p \<and> (\<not> q \<or> r) then 366 else (365::int))"
  by (cases p; cases q; cases r) simp_all

lemma days_before_year_Suc: "days_before_year (y + 1) = days_before_year y + (if is_leap y then 366 else 365)"
proof -
  have sub: "400 dvd y \<Longrightarrow> 100 dvd y" "100 dvd y \<Longrightarrow> 4 dvd y"
    by (rule dvd_trans [rotated], assumption, simp)+
  define a b c :: int where abc: "a = (if 4 dvd y then 1 else 0)" "b = (if 100 dvd y then 1 else 0)"
    "c = (if 400 dvd y then 1 else 0)"
  have "y div 4 = (y - 1) div 4 + a" "y div 100 = (y - 1) div 100 + b" "y div 400 = (y - 1) div 400 + c"
    unfolding abc by (rule div_pred, simp)+
  then have "days_before_year (y + 1) = days_before_year y + (365 + a - b + c)"
    by (simp add: days_before_year_def)
  moreover have "365 + a - b + c = (if is_leap y then 366 else 365)"
    unfolding abc is_leap_dvd by (rule leap_count) (fact sub)+
  ultimately show ?thesis by simp
qed

lemma div_bounds: "0 < (n::int) \<Longrightarrow> n * (k div n) \<le> k \<and> k < n * (k div n) + n"
  by (metis add.commute div_mult_mod_eq le_add_same_cancel2 less_add_same_cancel1 add_less_cancel_left
      mult.commute pos_mod_bound pos_mod_sign)

lemma year_of_day_bounds: "days_before_year (year_of_day d) \<le> d \<and> d < days_before_year (year_of_day d + 1)"
proof -
  define k where "k = 400 * d div 146097"
  have k: "146097 * k \<le> 400 * d" "400 * d < 146097 * k + 146097"
    using div_bounds [of 146097 "400 * d"] by (simp_all add: k_def)
  have dby: "400 * days_before_year (j + 1) \<le> 146097 * j + 396"
    "146097 * j - 699 \<le> 400 * days_before_year (j + 1)" for j
    using div_bounds [of 4 j] div_bounds [of 100 j] div_bounds [of 400 j]
    by (simp_all add: days_before_year_def)
  have lo: "days_before_year k \<le> d" and hi: "d < days_before_year (k + 3)"
    using dby [of "k - 1"] dby [of "k + 2"] k by (simp_all add: add.commute)
  show ?thesis
    using lo hi by (simp add: year_of_day_def k_def [symmetric] Let_def add.commute)
qed

lemma days_before_year_mono: "y \<le> z \<Longrightarrow> days_before_year y \<le> days_before_year z"
proof (induction z rule: int_ge_induct)
  case (step z)
  then show ?case by (simp add: days_before_year_Suc)
qed simp

lemma year_of_day_unique:
  assumes "days_before_year y \<le> d" "d < days_before_year (y + 1)"
  shows "year_of_day d = y"
proof (rule ccontr)
  assume "year_of_day d \<noteq> y"
  then consider "year_of_day d + 1 \<le> y" | "y + 1 \<le> year_of_day d"
    by linarith
  then show False
    using year_of_day_bounds [of d] assms days_before_year_mono by cases fastforce+
qed

lemma year_of_day_less: "d < days_before_year y \<longleftrightarrow> year_of_day d < y"
  using year_of_day_bounds [of d] days_before_year_mono [of y "year_of_day d"]
    days_before_year_mono [of "year_of_day d + 1" y]
  by linarith

section \<open>Months\<close>

lemma int_month_cases:
  assumes "1 \<le> (m::int)" "m \<le> 12"
  obtains "m = 1" | "m = 2" | "m = 3" | "m = 4" | "m = 5" | "m = 6" | "m = 7" | "m = 8" | "m = 9"
    | "m = 10" | "m = 11" | "m = 12"
  using assms by atomize_elim arith

lemma month_in_year_range: "1 \<le> month_in_year y yd \<and> month_in_year y yd \<le> 12"
  by (simp add: month_in_year_def)

lemma month_in_year_less:
  assumes "1 \<le> m" "m \<le> 12" "0 \<le> yd"
  shows "yd < days_before_month y m \<longleftrightarrow> month_in_year y yd < m"
  using assms(1,2) by (rule int_month_cases)
    (use assms(3) in \<open>auto simp: month_in_year_def days_before_month_def\<close>)

lemma month_of_day_range: "1 \<le> month_of_day d" "month_of_day d \<le> 12"
  using month_in_year_range by (simp_all add: month_of_day_def Let_def)

lemma days_before_month_range:
  "1 \<le> m \<Longrightarrow> m \<le> 12 \<Longrightarrow> 0 \<le> days_before_month y m \<and> days_before_month y m \<le> 335"
  by (erule (1) int_month_cases) (simp_all add: days_before_month_def)

lemma date_day_number_month:
  "1 \<le> m \<Longrightarrow> m \<le> 12 \<Longrightarrow>
     date_day_number y m d = days_before_year y + days_before_month y m + d - 1"
  by (simp add: date_day_number_def Let_def)

text \<open>A day is before the first of a month exactly when its year and month are smaller.\<close>

lemma before_first_of_month:
  assumes "1 \<le> m" "m \<le> 12"
  shows "d < date_day_number y m 1 \<longleftrightarrow>
    year_of_day d < y \<or> (year_of_day d = y \<and> month_of_day d < m)"
proof -
  have first: "date_day_number y m 1 = days_before_year y + days_before_month y m"
    using assms by (simp add: date_day_number_month)
  have range: "0 \<le> days_before_month y m" "days_before_month y m \<le> 335"
    using days_before_month_range assms by blast+
  have next_year: "days_before_year (y + 1) \<ge> days_before_year y + 365"
    by (simp add: days_before_year_Suc)
  consider "year_of_day d < y" | "year_of_day d = y" | "y + 1 \<le> year_of_day d"
    by linarith
  then show ?thesis
  proof cases
    case 1
    then show ?thesis
      using year_of_day_less [of d y] first range by simp
  next
    case 2
    then have "0 \<le> d - days_before_year y"
      using year_of_day_bounds [of d] by simp
    from month_in_year_less [OF assms this, of y] show ?thesis
      using 2 by (simp add: first month_of_day_def Let_def less_diff_eq diff_less_eq add.commute)
  next
    case 3
    then have "days_before_year (y + 1) \<le> d"
      using year_of_day_less [of d "y + 1"] by linarith
    then show ?thesis
      using 3 first range next_year by linarith
  qed
qed

text \<open>The same with the months counted through the years, for any month number.\<close>

lemma before_month_number:
  "d < date_day_number y mo 1 \<longleftrightarrow> 12 * year_of_day d + month_of_day d < 12 * y + mo"
proof -
  define y' m' where ym: "y' = y + (mo - 1) div 12" "m' = (mo - 1) mod 12 + 1"
  have m': "1 \<le> m'" "m' \<le> 12"
    using ym by simp_all
  have "date_day_number y mo 1 = date_day_number y' m' 1"
    using m' by (simp add: date_day_number_def ym)
  moreover have "12 * y + mo = 12 * y' + m'"
    using ym mult_div_mod_eq [of 12 "mo - 1"] by (simp add: algebra_simps)
  ultimately show ?thesis
    using before_first_of_month [OF m', of d y'] month_of_day_range [of d] m' by auto
qed

lemma date_day_number_fields:
  "date_day_number (year_of_day d) (month_of_day d) (mday_of_day d + k) = d + k"
  using month_of_day_range [of d] by (simp add: date_day_number_month mday_of_day_def Let_def)

section \<open>Minutes\<close>

lemma ns_per_minute_pos [simp]: "0 < ns_per_minute"
  by (simp add: ns_per_minute_def)

abbreviation at_minute :: "int \<Rightarrow> instant" where
  "at_minute n \<equiv> n * ns_per_minute"

lemma minute_number_at [simp]: "minute_number (at_minute n) = n"
  by (simp add: minute_number_def ns_per_minute_def)

lemma at_minute_seconds [simp]: "t_second (at_minute n) = 0" "t_nanosecond (at_minute n) = 0"
proof -
  have "at_minute n = 1000000000 * (60 * n)"
    by (simp add: ns_per_minute_def)
  then show "t_second (at_minute n) = 0" "t_nanosecond (at_minute n) = 0"
    unfolding t_second_def t_nanosecond_def by (simp_all only: nonzero_mult_div_cancel_left) simp_all
qed

lemma go_date_at_minute:
  "go_date y mo d h mi 0 0 = at_minute (date_day_number y mo d * 1440 + h * 60 + mi)"
  by (simp add: go_date_def ns_per_minute_def algebra_simps)

lemma minute_number_fields: "minute_number t = day_number t * 1440 + t_hour t * 60 + t_minute t"
proof -
  define n where "n = minute_number t"
  have "n div 1440 = n div 60 div 24"
    by (simp add: zdiv_zmult2_eq [symmetric])
  moreover have "n = (n div 60 div 24 * 24 + n div 60 mod 24) * 60 + n mod 60"
    by (simp only: div_mult_mod_eq)
  ultimately have "n = n div 1440 * 1440 + n div 60 mod 24 * 60 + n mod 60"
    by (simp only: distrib_right mult.assoc)
  then show ?thesis
    by (simp only: day_number_def t_hour_def t_minute_def n_def [symmetric])
qed

lemma hour_minute_range: "0 \<le> t_hour t" "t_hour t < 24" "0 \<le> t_minute t" "t_minute t < 60"
  by (simp_all add: t_hour_def t_minute_def)

text \<open>The fields of the minute made of a day, an hour and a minute in range.\<close>

lemma fields_of_minute:
  assumes "0 \<le> h" "h < 24" "0 \<le> mi" "mi < 60"
  shows "day_number (at_minute (d * 1440 + h * 60 + mi)) = d"
    and "t_hour (at_minute (d * 1440 + h * 60 + mi)) = h"
    and "t_minute (at_minute (d * 1440 + h * 60 + mi)) = mi"
proof -
  have "(d * 1440 + h * 60 + mi) div 60 = d * 24 + h"
    by (rule int_div_pos_eq [where r = mi]) (use assms in simp_all)
  moreover have "(d * 1440 + h * 60 + mi) div 1440 = d"
    by (rule int_div_pos_eq [where r = "h * 60 + mi"]) (use assms in simp_all)
  moreover have "(d * 1440 + h * 60 + mi) mod 60 = mi"
    using assms by (simp add: int_mod_pos_eq [where q = "d * 24 + h"])
  moreover have "(d * 24 + h) mod 24 = h"
    using assms by (simp add: int_mod_pos_eq [where q = d])
  ultimately show "day_number (at_minute (d * 1440 + h * 60 + mi)) = d"
    "t_hour (at_minute (d * 1440 + h * 60 + mi)) = h"
    "t_minute (at_minute (d * 1440 + h * 60 + mi)) = mi"
    unfolding day_number_def t_hour_def t_minute_def minute_number_at by simp_all
qed

end
