(* ===== verification/Backup_Cron.thy ===== *)
theory Backup_Cron
  imports Go_Time
begin

unbundle bit_operations_syntax

text \<open>
  Package \<^verbatim>\<open>internal/backupcron\<close>: five-field cron expressions in UTC and the search for the next and
  the previous occurrence. \<open>cron_parse\<close>, \<open>cron_matches\<close>, \<open>cron_next\<close> and \<open>cron_previous\<close> model \<^verbatim>\<open>Parse\<close>,
  \<^verbatim>\<open>Schedule.Matches\<close>, \<^verbatim>\<open>Schedule.Next\<close> and \<^verbatim>\<open>Schedule.Previous\<close>. The search loops are partial functions:
  \<open>None\<close> is a loop that never ends, which is shown not to happen for a parsed schedule; the
  \<^verbatim>\<open>panic\<close> of an empty field is the error \<open>FieldPanic\<close>.
\<close>

section \<open>Fields\<close>

datatype cron_error =
    FieldCount | EmptyField | EmptyItem | MalformedStep | StepError cron_error | MalformedRange
  | RangeStart cron_error | RangeEnd cron_error | RangeOrder | EmptyNumber | NotNumeric
  | ValueRange int int | NoValues | InField nat cron_error | FieldPanic
  | NoOccurrence | NoPreviousOccurrence

record field =
  bits :: "64 word"
  minimum :: int
  maximum :: int
  wildcard :: bool

record schedule =
  s_minute :: field
  s_hour :: field
  s_dayOfMonth :: field
  s_month :: field
  s_dayOfWeek :: field

definition f_contains :: "field \<Rightarrow> int \<Rightarrow> bool" where
  "f_contains f number =
     (if number < minimum f \<or> number > maximum f then False
      else bits f AND push_bit (nat (number - minimum f)) 1 \<noteq> 0)"

text \<open>The two loops of \<^verbatim>\<open>next\<close> and \<^verbatim>\<open>previous\<close>; \<open>None\<close> is the panic.\<close>

definition f_next :: "field \<Rightarrow> int \<Rightarrow> (int \<times> bool) option" where
  "f_next f current =
     (case find (f_contains f) [current + 1 .. maximum f] of
        Some c \<Rightarrow> Some (c, False)
      | None \<Rightarrow>
          (case find (f_contains f) [minimum f .. current] of
             Some c \<Rightarrow> Some (c, True)
           | None \<Rightarrow> None))"

definition f_previous :: "field \<Rightarrow> int \<Rightarrow> (int \<times> bool) option" where
  "f_previous f current =
     (case find (f_contains f) (rev [minimum f .. current - 1]) of
        Some c \<Rightarrow> Some (c, False)
      | None \<Rightarrow>
          (case find (f_contains f) (rev [current .. maximum f]) of
             Some c \<Rightarrow> Some (c, True)
           | None \<Rightarrow> None))"

section \<open>Parsing\<close>

text \<open>
  \<^verbatim>\<open>strconv.Atoi\<close> of a digit string fails when the value does not fit a 64-bit \<^verbatim>\<open>int\<close>; the bounds check
  rejects such values in any case.
\<close>

definition parseNumber :: "string \<Rightarrow> int \<Rightarrow> int \<Rightarrow> cron_error + int" where
  "parseNumber value lo hi =
     (if value = [] then Inl EmptyNumber
      else if \<not> list_all is_digit value then Inl NotNumeric
      else let number = int (digits_val value)
           in if number \<ge> 2 ^ 63 \<or> number < lo \<or> number > hi then Inl (ValueRange lo hi)
              else Inr number)"

definition parseBase :: "string \<Rightarrow> int \<Rightarrow> int \<Rightarrow> bool \<Rightarrow> cron_error + (int \<times> int)" where
  "parseBase value lo hi stepped =
     (if value = ''*'' then Inr (lo, hi)
      else case str_cut value ''-'' of
        (left, right, rangeFound) \<Rightarrow>
          if rangeFound then
            (if left = [] \<or> right = [] \<or> str_contains right ''-'' then Inl MalformedRange
             else case parseNumber left lo hi of
               Inl e \<Rightarrow> Inl (RangeStart e)
             | Inr start \<Rightarrow>
                 (case parseNumber right lo hi of
                    Inl e \<Rightarrow> Inl (RangeEnd e)
                  | Inr stop \<Rightarrow> if start > stop then Inl RangeOrder else Inr (start, stop)))
          else
            (case parseNumber value lo hi of
               Inl e \<Rightarrow> Inl e
             | Inr start \<Rightarrow> if stepped then Inr (start, hi) else Inr (start, start)))"

text \<open>\<^verbatim>\<open>for current := start; current <= end; current += step\<close>, with a step of at least one.\<close>

function set_bits :: "int \<Rightarrow> int \<Rightarrow> int \<Rightarrow> int \<Rightarrow> 64 word \<Rightarrow> 64 word" where
  "set_bits lo current stop step w =
     (if current \<le> stop \<and> step \<ge> 1
      then set_bits lo (current + step) stop step (w OR push_bit (nat (current - lo)) 1)
      else w)"
  by pat_completeness auto
termination
  by (relation "measure (\<lambda>(lo, current, stop, step, w). nat (stop + 1 - current))") auto

declare set_bits.simps [simp del]

definition parseItem :: "string \<Rightarrow> int \<Rightarrow> int \<Rightarrow> 64 word \<Rightarrow> cron_error + 64 word" where
  "parseItem item lo hi w =
     (if item = [] then Inl EmptyItem
      else case str_cut item ''/'' of
        (base, stepText, hasStep) \<Rightarrow>
          if hasStep \<and> (stepText = [] \<or> str_contains stepText ''/'') then Inl MalformedStep
          else case (if hasStep then parseNumber stepText 1 (hi - lo + 1) else Inr 1) of
            Inl e \<Rightarrow> Inl (StepError e)
          | Inr step \<Rightarrow>
              (case parseBase base lo hi hasStep of
                 Inl e \<Rightarrow> Inl e
               | Inr (start, stop) \<Rightarrow> Inr (set_bits lo start stop step w)))"

fun parseItems :: "string list \<Rightarrow> int \<Rightarrow> int \<Rightarrow> 64 word \<Rightarrow> cron_error + 64 word" where
  "parseItems [] lo hi w = Inr w"
| "parseItems (i # is) lo hi w = res_bind (parseItem i lo hi w) (parseItems is lo hi)"

definition parseField :: "string \<Rightarrow> int \<Rightarrow> int \<Rightarrow> cron_error + field" where
  "parseField value lo hi =
     (if value = [] then Inl EmptyField
      else case parseItems (str_split CHR '','' value) lo hi 0 of
        Inl e \<Rightarrow> Inl e
      | Inr w \<Rightarrow>
          if w = 0 then Inl NoValues
          else Inr \<lparr>bits = w, minimum = lo, maximum = hi, wildcard = (value = ''*'')\<rparr>)"

definition in_field :: "nat \<Rightarrow> cron_error + field \<Rightarrow> cron_error + field" where
  "in_field n r = (case r of Inl e \<Rightarrow> Inl (InField n e) | Inr f \<Rightarrow> Inr f)"

definition cron_parse :: "string \<Rightarrow> cron_error + schedule" where
  "cron_parse value =
     (case str_fields value of
        [p1, p2, p3, p4, p5] \<Rightarrow>
          res_bind (in_field 1 (parseField p1 0 59)) (\<lambda>f1.
          res_bind (in_field 2 (parseField p2 0 23)) (\<lambda>f2.
          res_bind (in_field 3 (parseField p3 1 31)) (\<lambda>f3.
          res_bind (in_field 4 (parseField p4 1 12)) (\<lambda>f4.
          res_bind (in_field 5 (parseField p5 0 6)) (\<lambda>f5.
          Inr \<lparr>s_minute = f1, s_hour = f2, s_dayOfMonth = f3, s_month = f4, s_dayOfWeek = f5\<rparr>)))))
      | _ \<Rightarrow> Inl FieldCount)"

definition cron_canonical :: "string \<Rightarrow> cron_error + string" where
  "cron_canonical value =
     (case cron_parse value of
        Inl e \<Rightarrow> Inl e
      | Inr _ \<Rightarrow> Inr (str_join CHR '' '' (str_fields value)))"

section \<open>Matching\<close>

definition matchesDay :: "schedule \<Rightarrow> instant \<Rightarrow> bool" where
  "matchesDay s t =
     (let dom = f_contains (s_dayOfMonth s) (t_day t);
          dow = f_contains (s_dayOfWeek s) (t_weekday t)
      in if wildcard (s_dayOfMonth s) \<and> wildcard (s_dayOfWeek s) then True
         else if wildcard (s_dayOfMonth s) then dow
         else if wildcard (s_dayOfWeek s) then dom
         else dom \<or> dow)"

definition cron_matches :: "schedule \<Rightarrow> instant \<Rightarrow> bool" where
  "cron_matches s t =
     (if t_second t \<noteq> 0 \<or> t_nanosecond t \<noteq> 0 then False
      else if \<not> f_contains (s_minute s) (t_minute t) \<or> \<not> f_contains (s_hour s) (t_hour t)
              \<or> \<not> f_contains (s_month s) (t_month t) then False
      else
        (let dom = f_contains (s_dayOfMonth s) (t_day t);
             dow = f_contains (s_dayOfWeek s) (t_weekday t)
         in if wildcard (s_dayOfMonth s) \<and> wildcard (s_dayOfWeek s) then True
            else if wildcard (s_dayOfMonth s) then dow
            else if wildcard (s_dayOfWeek s) then dom
            else dom \<or> dow))"

section \<open>The searches\<close>

definition searchYears :: int where
  "searchYears = 8"

text \<open>
  One iteration of the loop of \<^verbatim>\<open>Next\<close>: the occurrence, the panic, or the next candidate.
\<close>

datatype probe = Found instant | Panicked | Advance instant

definition next_probe :: "schedule \<Rightarrow> instant \<Rightarrow> probe" where
  "next_probe s c =
     (if \<not> f_contains (s_month s) (t_month c) then
        (case f_next (s_month s) (t_month c) of
           None \<Rightarrow> Panicked
         | Some (month, wrapped) \<Rightarrow>
             Advance (go_date (if wrapped then t_year c + 1 else t_year c) month 1 0 0 0 0))
      else if \<not> matchesDay s c then
        Advance (go_date (t_year c) (t_month c) (t_day c + 1) 0 0 0 0)
      else if \<not> f_contains (s_hour s) (t_hour c) then
        (case f_next (s_hour s) (t_hour c) of
           None \<Rightarrow> Panicked
         | Some (hour, wrapped) \<Rightarrow>
             if wrapped then Advance (go_date (t_year c) (t_month c) (t_day c + 1) hour 0 0 0)
             else Advance (go_date (t_year c) (t_month c) (t_day c) hour 0 0 0))
      else if \<not> f_contains (s_minute s) (t_minute c) then
        (case f_next (s_minute s) (t_minute c) of
           None \<Rightarrow> Panicked
         | Some (minute, wrapped) \<Rightarrow>
             if wrapped then
               Advance (go_date (t_year c) (t_month c) (t_day c) (t_hour c + 1) minute 0 0)
             else Advance (go_date (t_year c) (t_month c) (t_day c) (t_hour c) minute 0 0))
      else if cron_matches s c then Found c
      else Advance (c + ns_per_minute))"

definition previous_probe :: "schedule \<Rightarrow> instant \<Rightarrow> probe" where
  "previous_probe s c =
     (if \<not> f_contains (s_month s) (t_month c) then
        (case f_previous (s_month s) (t_month c) of
           None \<Rightarrow> Panicked
         | Some (month, wrapped) \<Rightarrow>
             Advance (go_date (if wrapped then t_year c - 1 else t_year c) (month + 1) 0 23 59 0 0))
      else if \<not> matchesDay s c then
        Advance (go_date (t_year c) (t_month c) (t_day c - 1) 23 59 0 0)
      else if \<not> f_contains (s_hour s) (t_hour c) then
        (case f_previous (s_hour s) (t_hour c) of
           None \<Rightarrow> Panicked
         | Some (hour, wrapped) \<Rightarrow>
             if wrapped then Advance (go_date (t_year c) (t_month c) (t_day c - 1) hour 59 0 0)
             else Advance (go_date (t_year c) (t_month c) (t_day c) hour 59 0 0))
      else if \<not> f_contains (s_minute s) (t_minute c) then
        (case f_previous (s_minute s) (t_minute c) of
           None \<Rightarrow> Panicked
         | Some (minute, wrapped) \<Rightarrow>
             if wrapped then
               Advance (go_date (t_year c) (t_month c) (t_day c) (t_hour c - 1) minute 0 0)
             else Advance (go_date (t_year c) (t_month c) (t_day c) (t_hour c) minute 0 0))
      else if cron_matches s c then Found c
      else Advance (c - ns_per_minute))"

partial_function (option) search_loop ::
  "(instant \<Rightarrow> bool) \<Rightarrow> (instant \<Rightarrow> probe) \<Rightarrow> cron_error \<Rightarrow> instant \<Rightarrow> (cron_error + instant) option" where
  "search_loop within probe exhausted c =
     (if within c then
        (case probe c of
           Found t \<Rightarrow> Some (Inr t)
         | Panicked \<Rightarrow> Some (Inl FieldPanic)
         | Advance c' \<Rightarrow> search_loop within probe exhausted c')
      else Some (Inl exhausted))"

definition next_start :: "instant \<Rightarrow> instant" where
  "next_start after = truncate_minute after + ns_per_minute"

definition cron_next :: "schedule \<Rightarrow> instant \<Rightarrow> (cron_error + instant) option" where
  "cron_next s after =
     (let candidate = next_start after; deadline = add_years searchYears candidate
      in search_loop (\<lambda>c. c < deadline) (next_probe s) NoOccurrence candidate)"

definition previous_start :: "instant \<Rightarrow> instant" where
  "previous_start before =
     (let candidate = truncate_minute before
      in if \<not> candidate < before then candidate - ns_per_minute else candidate)"

definition cron_previous :: "schedule \<Rightarrow> instant \<Rightarrow> (cron_error + instant) option" where
  "cron_previous s before =
     (let candidate = previous_start before; deadline = add_years (- searchYears) candidate
      in search_loop (\<lambda>c. c > deadline) (previous_probe s) NoPreviousOccurrence candidate)"

section \<open>Fields of a parsed schedule\<close>

lemma f_contains_range: "f_contains f v \<Longrightarrow> minimum f \<le> v \<and> v \<le> maximum f"
  by (simp add: f_contains_def split: if_splits)

definition field_ok :: "int \<Rightarrow> int \<Rightarrow> field \<Rightarrow> bool" where
  "field_ok lo hi f \<longleftrightarrow> minimum f = lo \<and> maximum f = hi \<and> (\<exists>v. f_contains f v)"

definition schedule_ok :: "schedule \<Rightarrow> bool" where
  "schedule_ok s \<longleftrightarrow> field_ok 0 59 (s_minute s) \<and> field_ok 0 23 (s_hour s)
     \<and> field_ok 1 31 (s_dayOfMonth s) \<and> field_ok 1 12 (s_month s) \<and> field_ok 0 6 (s_dayOfWeek s)"

lemma and_exp_nonzero: "(w AND 2 ^ n \<noteq> 0) = bit (w :: 64 word) n"
  by (simp add: and_exp_eq_0_iff_not_bit)

lemma bit_or_exp: "bit (w OR 2 ^ n) k \<longleftrightarrow> bit (w :: 64 word) k \<or> (k = n \<and> k < 64)"
  by (auto simp: bit_or_iff bit_exp_iff)

text \<open>The bits a stepped range sets.\<close>

lemma bit_set_bits:
  assumes "1 \<le> step" "lo \<le> current" "stop - lo < 64"
  shows "bit (set_bits lo current stop step w) k \<longleftrightarrow>
    bit w k \<or> (current \<le> lo + int k \<and> lo + int k \<le> stop \<and> step dvd lo + int k - current)"
  using assms
proof (induction lo current stop step w rule: set_bits.induct)
  case (1 lo current stop step w)
  show ?case
  proof (cases "current \<le> stop")
    case False
    then show ?thesis
      by (subst set_bits.simps) auto
  next
    case True
    define x where "x = lo + int k"
    have bitk: "k = nat (current - lo) \<and> k < 64 \<longleftrightarrow> x = current"
      using 1 True by (auto simp: x_def)
    have dvd: "step dvd x - (current + step) \<longleftrightarrow> step dvd x - current"
      by (metis diff_diff_eq dvd_diff_right_iff dvd_refl dvd_diff_commute)
    have gap: "step dvd x - current \<Longrightarrow> current \<le> x \<Longrightarrow> x = current \<or> current + step \<le> x"
      using 1(2) zdvd_imp_le [of step "x - current"] by linarith
    have "bit (set_bits lo current stop step w) k \<longleftrightarrow>
        (bit w k \<or> x = current) \<or> (current + step \<le> x \<and> x \<le> stop \<and> step dvd x - current)"
      using 1 True by (subst set_bits.simps) (simp add: bit_or_exp bitk x_def [symmetric] dvd)
    then show ?thesis
      using gap True 1(2) unfolding x_def [symmetric] by auto
  qed
qed

lemma parseNumber_range: "parseNumber v lo hi = Inr n \<Longrightarrow> lo \<le> n \<and> n \<le> hi"
  by (auto simp: parseNumber_def Let_def split: if_splits)

lemma parseBase_range:
  assumes "parseBase v lo hi stepped = Inr (a, b)" "lo \<le> hi"
  shows "lo \<le> a \<and> a \<le> b \<and> b \<le> hi"
  using assms
  by (auto simp: parseBase_def split: if_splits prod.splits sum.splits dest!: parseNumber_range)

lemma parseItem_bits:
  assumes "parseItem item lo hi w = Inr w'" "lo \<le> hi" "hi - lo < 64"
    and "\<forall>k. bit w k \<longrightarrow> lo + int k \<le> hi"
  shows "\<forall>k. bit w' k \<longrightarrow> lo + int k \<le> hi"
proof -
  obtain a b step where r: "lo \<le> a" "a \<le> b" "b \<le> hi" "1 \<le> step" and w': "w' = set_bits lo a b step w"
    using assms(1,2)
    by (auto simp: parseItem_def split: if_splits prod.splits sum.splits
        dest!: parseBase_range parseNumber_range)
  show ?thesis
    using assms(3,4) r by (auto simp: w' bit_set_bits)
qed

lemma parseItems_bits:
  "parseItems items lo hi w = Inr w' \<Longrightarrow> lo \<le> hi \<Longrightarrow> hi - lo < 64 \<Longrightarrow>
    \<forall>k. bit w k \<longrightarrow> lo + int k \<le> hi \<Longrightarrow> \<forall>k. bit w' k \<longrightarrow> lo + int k \<le> hi"
proof (induction items arbitrary: w)
  case (Cons i items)
  then obtain v where "parseItem i lo hi w = Inr v" "parseItems items lo hi v = Inr w'"
    by (auto simp: res_bind_def split: sum.splits)
  then show ?case
    using Cons parseItem_bits by blast
qed simp

lemma parseField_ok:
  assumes "parseField v lo hi = Inr f" "lo \<le> hi" "hi - lo < 64"
  shows "field_ok lo hi f"
proof -
  obtain w where w: "parseItems (str_split CHR '','' v) lo hi 0 = Inr w" "w \<noteq> 0"
    and f: "f = \<lparr>bits = w, minimum = lo, maximum = hi, wildcard = (v = ''*'')\<rparr>"
    using assms(1) by (auto simp: parseField_def split: if_splits sum.splits)
  obtain k where k: "bit w k"
    using w(2) by (auto simp: bit_eq_iff)
  moreover have "lo + int k \<le> hi"
    using parseItems_bits [OF w(1) assms(2,3)] k by simp
  ultimately have "f_contains f (lo + int k)"
    by (simp add: f_contains_def f and_exp_nonzero)
  then show ?thesis
    by (auto simp: field_ok_def f)
qed

lemma cron_parse_ok: "cron_parse v = Inr s \<Longrightarrow> schedule_ok s"
  by (auto simp: cron_parse_def res_bind_def in_field_def schedule_ok_def
      split: list.splits sum.splits intro!: parseField_ok)

section \<open>The neighbours of a value in a field\<close>

lemma find_upto_Some:
  "find P [a .. b] = Some v \<Longrightarrow> P v \<and> a \<le> v \<and> v \<le> b \<and> (\<forall>u. a \<le> u \<and> u < v \<longrightarrow> \<not> P u)"
proof -
  assume found: "find P [a .. b] = Some v"
  then obtain i where i: "i < length [a .. b]" "P ([a .. b] ! i)" "v = [a .. b] ! i"
    and before: "\<And>j. j < i \<Longrightarrow> \<not> P ([a .. b] ! j)"
    by (auto simp: find_Some_iff)
  have v: "v = a + int i"
    using i by simp
  have "\<not> P u" if "a \<le> u" "u < v" for u
  proof -
    have "nat (u - a) < i" "[a .. b] ! nat (u - a) = u"
      using that v i(1) by simp_all
    then show ?thesis
      using before by metis
  qed
  then show ?thesis
    using i v by auto
qed

lemma find_upto_rev_Some:
  "find P (rev [a .. b]) = Some v \<Longrightarrow> P v \<and> a \<le> v \<and> v \<le> b \<and> (\<forall>u. v < u \<and> u \<le> b \<longrightarrow> \<not> P u)"
proof -
  assume found: "find P (rev [a .. b]) = Some v"
  then obtain i where i: "i < length [a .. b]" "P (rev [a .. b] ! i)" "v = rev [a .. b] ! i"
    and before: "\<And>j. j < i \<Longrightarrow> \<not> P (rev [a .. b] ! j)"
    by (auto simp: find_Some_iff)
  have v: "v = b - int i"
    using i by (simp add: rev_nth)
  have "\<not> P u" if "v < u" "u \<le> b" for u
  proof -
    have "nat (b - u) < i" "nat (b - u) < length [a .. b]"
      using that v i(1) by (simp_all add: zless_nat_eq_int_zless)
    moreover have "length [a .. b] - Suc (nat (b - u)) = nat (u - a)"
      using that v i(1) by (simp add: zless_nat_eq_int_zless)
    ultimately have "nat (b - u) < i" "rev [a .. b] ! nat (b - u) = u"
      using that by (simp_all add: rev_nth)
    then show ?thesis
      using before by metis
  qed
  then show ?thesis
    using i v by auto
qed

lemma find_upto_None:
  "find P [a .. b] = None \<longleftrightarrow> (\<forall>u. P u \<longrightarrow> u < a \<or> b < u)"
  "find P (rev [a .. b]) = None \<longleftrightarrow> (\<forall>u. P u \<longrightarrow> u < a \<or> b < u)"
  by (auto simp: find_None_iff) (meson not_le)+

lemma f_next_spec:
  assumes "field_ok lo hi f" "\<not> f_contains f cur" "lo \<le> cur" "cur \<le> hi"
  obtains v w where "f_next f cur = Some (v, w)" "f_contains f v"
    "if w then v < cur \<and> (\<forall>u. f_contains f u \<longrightarrow> v \<le> u \<and> u < cur)
     else cur < v \<and> (\<forall>u. f_contains f u \<longrightarrow> u < cur \<or> v \<le> u)"
proof -
  have rng: "f_contains f u \<Longrightarrow> lo \<le> u \<and> u \<le> hi \<and> u \<noteq> cur" for u
    using assms f_contains_range [of f u] by (auto simp: field_ok_def)
  have mm: "minimum f = lo" "maximum f = hi"
    using assms by (simp_all add: field_ok_def)
  obtain x where x: "f_contains f x"
    using assms by (auto simp: field_ok_def)
  show thesis
  proof (cases "find (f_contains f) [cur + 1 .. hi]")
    case (Some v)
    with find_upto_Some [OF Some] show thesis
      by (intro that [of v False]) (auto simp: f_next_def mm; smt (verit) rng)+
  next
    case None
    then have none: "f_contains f u \<Longrightarrow> u < cur" for u
      using rng [of u] unfolding find_upto_None by fastforce
    then have "find (f_contains f) [lo .. cur] \<noteq> None"
      using x rng [of x] unfolding find_upto_None by fastforce
    then obtain v where v: "find (f_contains f) [lo .. cur] = Some v"
      by blast
    with find_upto_Some [OF v] None none rng show thesis
      by (intro that [of v True]) (simp_all add: f_next_def mm, meson not_le)
  qed
qed

lemma f_previous_spec:
  assumes "field_ok lo hi f" "\<not> f_contains f cur" "lo \<le> cur" "cur \<le> hi"
  obtains v w where "f_previous f cur = Some (v, w)" "f_contains f v"
    "if w then cur < v \<and> (\<forall>u. f_contains f u \<longrightarrow> u \<le> v \<and> cur < u)
     else v < cur \<and> (\<forall>u. f_contains f u \<longrightarrow> cur < u \<or> u \<le> v)"
proof -
  have rng: "f_contains f u \<Longrightarrow> lo \<le> u \<and> u \<le> hi \<and> u \<noteq> cur" for u
    using assms f_contains_range [of f u] by (auto simp: field_ok_def)
  have mm: "minimum f = lo" "maximum f = hi"
    using assms by (simp_all add: field_ok_def)
  obtain x where x: "f_contains f x"
    using assms by (auto simp: field_ok_def)
  show thesis
  proof (cases "find (f_contains f) (rev [lo .. cur - 1])")
    case (Some v)
    with find_upto_rev_Some [OF Some] show thesis
      by (intro that [of v False]) (auto simp: f_previous_def mm; smt (verit) rng)+
  next
    case None
    then have none: "f_contains f u \<Longrightarrow> cur < u" for u
      using rng [of u] unfolding find_upto_None by fastforce
    then have "find (f_contains f) (rev [cur .. hi]) \<noteq> None"
      using x rng [of x] unfolding find_upto_None by fastforce
    then obtain v where v: "find (f_contains f) (rev [cur .. hi]) = Some v"
      by blast
    with find_upto_rev_Some [OF v] None none rng show thesis
      by (intro that [of v True]) (auto simp: f_previous_def mm not_le)
  qed
qed

section \<open>Matching by minute\<close>

definition day_ok :: "schedule \<Rightarrow> int \<Rightarrow> bool" where
  "day_ok s d \<longleftrightarrow> f_contains (s_month s) (month_of_day d) \<and> matchesDay s (at_minute (d * 1440))"

lemma matchesDay_day: "matchesDay s t = matchesDay s (at_minute (day_number t * 1440))"
proof -
  have "day_number (at_minute (day_number t * 1440)) = day_number t"
    using fields_of_minute(1) [of 0 0 "day_number t"] by simp
  then show ?thesis
    by (simp add: matchesDay_def t_day_def t_weekday_def)
qed

lemma aligned_minute:
  assumes "t_second t = 0" "t_nanosecond t = 0"
  shows "t = at_minute (minute_number t)"
proof -
  have "t = 1000000000 * (t div 1000000000)" "t div 1000000000 = 60 * (t div 1000000000 div 60)"
    using assms mult_div_mod_eq [of 1000000000 t] mult_div_mod_eq [of 60 "t div 1000000000"]
    unfolding t_second_def t_nanosecond_def by linarith+
  moreover have "t div 1000000000 div 60 = minute_number t"
    by (simp add: minute_number_def ns_per_minute_def zdiv_zmult2_eq [symmetric])
  ultimately show ?thesis
    by (simp add: ns_per_minute_def)
qed

lemma cron_matches_minute:
  "cron_matches s t \<longleftrightarrow> t = at_minute (minute_number t) \<and> day_ok s (day_number t)
     \<and> f_contains (s_hour s) (t_hour t) \<and> f_contains (s_minute s) (t_minute t)"
proof (cases "t_second t = 0 \<and> t_nanosecond t = 0")
  case True
  then show ?thesis
    using aligned_minute [of t] matchesDay_day [of s t]
    by (auto simp: cron_matches_def day_ok_def t_month_def matchesDay_def Let_def)
next
  case False
  then have "t \<noteq> at_minute (minute_number t)"
    by (metis at_minute_seconds)
  then show ?thesis
    using False by (auto simp: cron_matches_def)
qed

section \<open>Directed searches\<close>

text \<open>
  What the two searches share: on well-formed schedules a probe finds exactly the instant it looks
  at, never panics, and advances in the direction \<open>key\<close> measures without jumping over a match. The
  loop then ends, and with the first match in that direction before the deadline.
\<close>

locale directed_search =
  fixes key :: "instant \<Rightarrow> int"
    and valid :: "'s \<Rightarrow> bool"
    and hit :: "'s \<Rightarrow> instant \<Rightarrow> bool"
    and step :: "'s \<Rightarrow> instant \<Rightarrow> probe"
  assumes step_found: "valid s \<Longrightarrow> step s (at_minute n) = Found t \<Longrightarrow> t = at_minute n \<and> hit s t"
    and step_panic: "valid s \<Longrightarrow> step s (at_minute n) \<noteq> Panicked"
    and step_advance: "valid s \<Longrightarrow> step s (at_minute n) = Advance c \<Longrightarrow>
      (\<exists>k. c = at_minute k) \<and> key (at_minute n) < key c
        \<and> (\<forall>t. key (at_minute n) \<le> key t \<and> key t < key c \<longrightarrow> \<not> hit s t)"
begin

definition first_hit :: "'s \<Rightarrow> instant \<Rightarrow> instant \<Rightarrow> instant \<Rightarrow> bool" where
  "first_hit s c d t \<longleftrightarrow> hit s t \<and> key c \<le> key t \<and> key t < key d
     \<and> (\<forall>u. key c \<le> key u \<and> key u < key t \<longrightarrow> \<not> hit s u)"

lemma search_result:
  assumes "valid s"
  shows "(\<exists>t. search_loop (\<lambda>c. key c < key d) (step s) e (at_minute n) = Some (Inr t)
            \<and> first_hit s (at_minute n) d t)
    \<or> (search_loop (\<lambda>c. key c < key d) (step s) e (at_minute n) = Some (Inl e)
        \<and> (\<forall>u. key (at_minute n) \<le> key u \<and> key u < key d \<longrightarrow> \<not> hit s u))"
proof (induction "nat (key d - key (at_minute n))" arbitrary: n rule: less_induct)
  case less
  show ?case
  proof (cases "key (at_minute n) < key d")
    case False
    then show ?thesis
      by (subst (1 2) search_loop.simps) auto
  next
    case within: True
    show ?thesis
    proof (cases "step s (at_minute n)")
      case (Found t)
      then have "t = at_minute n" "hit s t"
        using step_found assms by blast+
      then show ?thesis
        using within Found by (intro disjI1 exI [of _ t], subst search_loop.simps) (auto simp: first_hit_def)
    next
      case Panicked
      then show ?thesis
        using step_panic assms by blast
    next
      case (Advance c)
      from step_advance [OF assms this] obtain k where c: "c = at_minute k"
        and lt: "key (at_minute n) < key c"
        and skip: "\<And>t. key (at_minute n) \<le> key t \<Longrightarrow> key t < key c \<Longrightarrow> \<not> hit s t"
        by blast
      have loop: "search_loop (\<lambda>c. key c < key d) (step s) e (at_minute n) =
          search_loop (\<lambda>c. key c < key d) (step s) e (at_minute k)"
        using within Advance c by (subst search_loop.simps) simp
      have "nat (key d - key (at_minute k)) < nat (key d - key (at_minute n))"
        using lt within c by simp
      from less [OF this] show ?thesis
        unfolding loop first_hit_def c [symmetric] using skip lt by (smt (verit))
    qed
  qed
qed

end

section \<open>The probes skip no match\<close>

lemma month_number_mono:
  "d \<le> D \<Longrightarrow> 12 * year_of_day d + month_of_day d \<le> 12 * year_of_day D + month_of_day D"
  using before_month_number [of D "year_of_day d" "month_of_day d"]
    before_month_number [of d "year_of_day d" "month_of_day d"]
  by linarith

lemma hitE:
  assumes "cron_matches s t"
  obtains d h mi where "t = at_minute (d * 1440 + h * 60 + mi)" "day_ok s d"
    "f_contains (s_hour s) h" "f_contains (s_minute s) mi" "0 \<le> h" "h < 24" "0 \<le> mi" "mi < 60"
proof -
  have "t = at_minute (minute_number t)" "day_ok s (day_number t)"
    "f_contains (s_hour s) (t_hour t)" "f_contains (s_minute s) (t_minute t)"
    using assms by (simp_all add: cron_matches_minute)
  then show thesis
    using minute_number_fields [of t] hour_minute_range [of t] by (intro that) simp_all
qed

lemma at_minute_le [simp]: "at_minute a \<le> at_minute b \<longleftrightarrow> a \<le> b" "at_minute a < at_minute b \<longleftrightarrow> a < b"
  by simp_all

lemma go_date_same_day:
  "go_date (t_year t) (t_month t) (t_day t + k) h mi 0 0 = at_minute ((day_number t + k) * 1440 + h * 60 + mi)"
  "go_date (t_year t) (t_month t) (t_day t - k) h mi 0 0 = at_minute ((day_number t - k) * 1440 + h * 60 + mi)"
  "go_date (t_year t) (t_month t) (t_day t) h mi 0 0 = at_minute (day_number t * 1440 + h * 60 + mi)"
  using date_day_number_fields [of "day_number t" k] date_day_number_fields [of "day_number t" "- k"]
    date_day_number_fields [of "day_number t" 0]
  by (simp_all add: go_date_at_minute t_year_def t_month_def t_day_def)

definition skips :: "schedule \<Rightarrow> int \<Rightarrow> int \<Rightarrow> bool" where
  "skips s n k \<longleftrightarrow> (\<forall>d h mi. 0 \<le> h \<and> h < 24 \<and> 0 \<le> mi \<and> mi < 60 \<and> day_ok s d
      \<and> f_contains (s_hour s) h \<and> f_contains (s_minute s) mi
      \<longrightarrow> d * 1440 + h * 60 + mi < n \<or> k \<le> d * 1440 + h * 60 + mi)"

lemma skips_days:
  assumes "\<And>e. day_ok s e \<Longrightarrow> e < a \<or> b \<le> e" "a * 1440 \<le> n" "k \<le> b * 1440"
  shows "skips s n k"
  using assms unfolding skips_def by (smt (verit))

lemma skips_hours:
  assumes "\<And>e h. day_ok s e \<Longrightarrow> f_contains (s_hour s) h \<Longrightarrow> 0 \<le> h \<Longrightarrow> h < 24 \<Longrightarrow> e * 24 + h < a \<or> b \<le> e * 24 + h"
    and "a * 60 \<le> n" "k \<le> b * 60"
  shows "skips s n k"
  unfolding skips_def
proof (intro allI impI, elim conjE)
  fix d h mi :: int
  assume "0 \<le> h" "h < 24" "0 \<le> mi" "mi < 60" "day_ok s d" "f_contains (s_hour s) h"
  with assms(1) [of d h] assms(2,3) show "d * 1440 + h * 60 + mi < n \<or> k \<le> d * 1440 + h * 60 + mi"
    by linarith
qed

lemma minute_eq: "n = day_number (at_minute n) * 1440 + t_hour (at_minute n) * 60 + t_minute (at_minute n)"
  using minute_number_fields [of "at_minute n"] by simp

lemmas minute_facts = hour_minute_range [of "at_minute n" for n]

lemma schedule_okD:
  assumes "schedule_ok s"
  shows "field_ok 0 59 (s_minute s)" "field_ok 0 23 (s_hour s)" "field_ok 1 12 (s_month s)"
  using assms by (simp_all add: schedule_ok_def)

text \<open>Positions in a mixed radix: \<open>e\<close> blocks of size \<open>R\<close> and an offset from \<open>lo\<close>.\<close>

lemma block_cases:
  assumes "0 \<le> (R::int)"
  obtains "R * e + R \<le> R * d" | "R * e = R * d" | "R * d + R \<le> R * e"
proof -
  have mono: "a + 1 \<le> b \<Longrightarrow> R * a + R \<le> R * b" for a b
    using assms mult_left_mono [of "a + 1" b R] by (simp add: algebra_simps)
  consider "e + 1 \<le> d" | "e = d" | "d + 1 \<le> e"
    by linarith
  then show thesis
    by cases (use that mono in auto)
qed

lemma position_next:
  assumes "if w then v \<le> g \<and> g < h else g < h \<or> v \<le> g"
    and "lo \<le> g" "g < lo + R" "lo \<le> h" "h < lo + R" "lo \<le> v" "v < lo + (R::int)"
  shows "R * e + g < R * d + h \<or> R * (if w then d + 1 else d) + v \<le> R * e + g"
proof -
  have "0 \<le> R" using assms by linarith
  then show ?thesis
    by (rule block_cases [of R e d]) (use assms in \<open>auto simp: distrib_left split: if_splits\<close>)
qed

lemma position_previous:
  assumes "if w then g \<le> v \<and> h < g else h < g \<or> g \<le> v"
    and "lo \<le> g" "g < lo + R" "lo \<le> h" "h < lo + R" "lo \<le> v" "v < lo + (R::int)"
  shows "R * e + g \<le> R * (if w then d - 1 else d) + v \<or> R * d + h < R * e + g"
proof -
  have "0 \<le> R" using assms by linarith
  then show ?thesis
    by (rule block_cases [of R e d]) (use assms in \<open>auto simp: right_diff_distrib split: if_splits\<close>)
qed

text \<open>Forward: each branch of the probe skips only minutes that cannot match.\<close>

lemma next_month_skips:
  assumes "schedule_ok s" "\<not> f_contains (s_month s) (month_of_day d)"
  obtains v w D where "f_next (s_month s) (month_of_day d) = Some (v, w)"
    "D = date_day_number (if w then year_of_day d + 1 else year_of_day d) v 1" "d < D"
    "\<And>e. day_ok s e \<Longrightarrow> e < d \<or> D \<le> e"
proof -
  have mrange: "1 \<le> month_of_day e" "month_of_day e \<le> 12" for e
    by (fact month_of_day_range)+
  obtain v w where fn: "f_next (s_month s) (month_of_day d) = Some (v, w)" and v: "f_contains (s_month s) v"
    and nb: "if w then v < month_of_day d \<and> (\<forall>u. f_contains (s_month s) u \<longrightarrow> v \<le> u \<and> u < month_of_day d)
      else month_of_day d < v \<and> (\<forall>u. f_contains (s_month s) u \<longrightarrow> u < month_of_day d \<or> v \<le> u)"
    using f_next_spec [OF schedule_okD(3) [OF assms(1)] assms(2) mrange] by blast
  define y where "y = (if w then year_of_day d + 1 else year_of_day d)"
  have vr: "1 \<le> v" "v \<le> 12"
    using f_contains_range [OF v] schedule_okD(3) [OF assms(1)] by (auto simp: field_ok_def)
  have less: "d < date_day_number y v 1"
    using nb vr mrange [of d] by (auto simp: y_def before_month_number split: if_splits)
  have "e < d \<or> date_day_number y v 1 \<le> e" if e: "day_ok s e" for e
  proof (rule ccontr)
    assume "\<not> ?thesis"
    then have "d \<le> e" "e < date_day_number y v 1"
      by simp_all
    then have "12 * year_of_day d + month_of_day d \<le> 12 * year_of_day e + month_of_day e"
      "12 * year_of_day e + month_of_day e < 12 * y + v"
      by (simp_all add: month_number_mono before_month_number)
    moreover have "if w then v \<le> month_of_day e \<and> month_of_day e < month_of_day d
        else month_of_day e < month_of_day d \<or> v \<le> month_of_day e"
      using e nb by (auto simp: day_ok_def split: if_splits)
    ultimately show False
      using position_next [of w v "month_of_day e" "month_of_day d" 1 12 "year_of_day e" "year_of_day d"]
        vr mrange [of d] mrange [of e] unfolding y_def by simp
  qed
  with fn less show thesis
    by (intro that) (simp_all add: y_def)
qed

lemma previous_month_skips:
  assumes "schedule_ok s" "\<not> f_contains (s_month s) (month_of_day d)"
  obtains v w D where "f_previous (s_month s) (month_of_day d) = Some (v, w)"
    "D = date_day_number (if w then year_of_day d - 1 else year_of_day d) (v + 1) 1" "D \<le> d"
    "\<And>e. day_ok s e \<Longrightarrow> e < D \<or> d < e"
proof -
  have mrange: "1 \<le> month_of_day e" "month_of_day e \<le> 12" for e
    by (fact month_of_day_range)+
  obtain v w where fn: "f_previous (s_month s) (month_of_day d) = Some (v, w)" and v: "f_contains (s_month s) v"
    and nb: "if w then month_of_day d < v \<and> (\<forall>u. f_contains (s_month s) u \<longrightarrow> u \<le> v \<and> month_of_day d < u)
      else v < month_of_day d \<and> (\<forall>u. f_contains (s_month s) u \<longrightarrow> month_of_day d < u \<or> u \<le> v)"
    using f_previous_spec [OF schedule_okD(3) [OF assms(1)] assms(2) mrange] by blast
  define y where "y = (if w then year_of_day d - 1 else year_of_day d)"
  have vr: "1 \<le> v" "v \<le> 12"
    using f_contains_range [OF v] schedule_okD(3) [OF assms(1)] by (auto simp: field_ok_def)
  have "\<not> d < date_day_number y (v + 1) 1"
    using nb vr mrange [of d] by (auto simp: y_def before_month_number split: if_splits)
  moreover have "e < date_day_number y (v + 1) 1 \<or> d < e" if e: "day_ok s e" for e
  proof (rule ccontr)
    assume "\<not> ?thesis"
    then have "e \<le> d" "\<not> e < date_day_number y (v + 1) 1"
      by simp_all
    then have "12 * year_of_day e + month_of_day e \<le> 12 * year_of_day d + month_of_day d"
      "12 * y + v < 12 * year_of_day e + month_of_day e"
      by (simp_all add: month_number_mono before_month_number)
    moreover have "if w then month_of_day e \<le> v \<and> month_of_day d < month_of_day e
        else month_of_day d < month_of_day e \<or> month_of_day e \<le> v"
      using e nb by (auto simp: day_ok_def split: if_splits)
    ultimately show False
      using position_previous [of w "month_of_day e" v "month_of_day d" 1 12 "year_of_day e" "year_of_day d"]
        vr mrange [of d] mrange [of e] unfolding y_def by simp
  qed
  ultimately show thesis
    using fn by (intro that) (simp_all add: y_def not_less)
qed

text \<open>Hours of a day and minutes of an hour, as positions \<open>d * R + h\<close>.\<close>

lemma f_next_position:
  assumes "field_ok 0 (R - 1) f" "\<not> f_contains f h" "0 \<le> h" "h < R"
  obtains v w K where "f_next f h = Some (v, w)" "K = (if w then d + 1 else d) * R + v"
    "d * R + h < K"
    "\<And>e g. f_contains f g \<Longrightarrow> 0 \<le> g \<Longrightarrow> g < R \<Longrightarrow> e * R + g < d * R + h \<or> K \<le> e * R + g"
proof -
  obtain v w where fn: "f_next f h = Some (v, w)" and v: "f_contains f v"
    and nb: "if w then v < h \<and> (\<forall>u. f_contains f u \<longrightarrow> v \<le> u \<and> u < h)
      else h < v \<and> (\<forall>u. f_contains f u \<longrightarrow> u < h \<or> v \<le> u)"
    using f_next_spec [OF assms(1,2)] assms(3,4) by auto
  have vr: "0 \<le> v" "v < R"
    using f_contains_range [OF v] assms(1) by (auto simp: field_ok_def)
  have "e * R + g < d * R + h \<or> (if w then d + 1 else d) * R + v \<le> e * R + g"
    if g: "f_contains f g" "0 \<le> g" "g < R" for e g
  proof -
    have "if w then v \<le> g \<and> g < h else g < h \<or> v \<le> g"
      using nb g(1) by (auto split: if_splits)
    then show ?thesis
      using position_next [of w v g h 0 R e d] vr assms(3,4) g(2,3) by (simp add: mult.commute)
  qed
  moreover have "d * R + h < (if w then d + 1 else d) * R + v"
    using nb vr assms(3,4) by (simp add: distrib_right split: if_splits)
  ultimately show thesis
    using that fn by blast
qed

lemma f_previous_position:
  assumes "field_ok 0 (R - 1) f" "\<not> f_contains f h" "0 \<le> h" "h < R"
  obtains v w K where "f_previous f h = Some (v, w)" "K = (if w then d - 1 else d) * R + v"
    "K < d * R + h"
    "\<And>e g. f_contains f g \<Longrightarrow> 0 \<le> g \<Longrightarrow> g < R \<Longrightarrow> e * R + g \<le> K \<or> d * R + h < e * R + g"
proof -
  obtain v w where fn: "f_previous f h = Some (v, w)" and v: "f_contains f v"
    and nb: "if w then h < v \<and> (\<forall>u. f_contains f u \<longrightarrow> u \<le> v \<and> h < u)
      else v < h \<and> (\<forall>u. f_contains f u \<longrightarrow> h < u \<or> u \<le> v)"
    using f_previous_spec [OF assms(1,2)] assms(3,4) by auto
  have vr: "0 \<le> v" "v < R"
    using f_contains_range [OF v] assms(1) by (auto simp: field_ok_def)
  have "e * R + g \<le> (if w then d - 1 else d) * R + v \<or> d * R + h < e * R + g"
    if g: "f_contains f g" "0 \<le> g" "g < R" for e g
  proof -
    have "if w then g \<le> v \<and> h < g else h < g \<or> g \<le> v"
      using nb g(1) by (auto split: if_splits)
    then show ?thesis
      using position_previous [of w g v h 0 R e d] vr assms(3,4) g(2,3) by (simp add: mult.commute)
  qed
  moreover have "(if w then d - 1 else d) * R + v < d * R + h"
    using nb vr assms(3,4) by (simp add: left_diff_distrib split: if_splits)
  ultimately show thesis
    using that fn by blast
qed

text \<open>A probe finds the minute it looks at or advances past minutes that cannot match.\<close>

definition moves :: "schedule \<Rightarrow> int \<Rightarrow> probe \<Rightarrow> bool" where
  "moves s n p \<longleftrightarrow> p = Found (at_minute n) \<and> cron_matches s (at_minute n)
     \<or> (\<exists>k. p = Advance (at_minute k) \<and> n < k \<and> skips s n k)"

definition moves_back :: "schedule \<Rightarrow> int \<Rightarrow> probe \<Rightarrow> bool" where
  "moves_back s n p \<longleftrightarrow> p = Found (at_minute n) \<and> cron_matches s (at_minute n)
     \<or> (\<exists>k. p = Advance (at_minute k) \<and> k < n \<and> skips s (k + 1) (n + 1))"

lemma movesI: "n < k \<Longrightarrow> skips s n k \<Longrightarrow> moves s n (Advance (at_minute k))"
  by (auto simp: moves_def)

lemma moves_backI: "k < n \<Longrightarrow> skips s (k + 1) (n + 1) \<Longrightarrow> moves_back s n (Advance (at_minute k))"
  by (auto simp: moves_back_def)

lemma day_okI: "f_contains (s_month s) (t_month t) \<Longrightarrow> matchesDay s t \<longleftrightarrow> day_ok s (day_number t)"
  using matchesDay_day [of s t] by (simp add: day_ok_def t_month_def)

lemma next_hour_step:
  assumes ok: "schedule_ok s" and n: "n = d * 1440 + h * 60 + mi" "0 \<le> h" "h < 24" "0 \<le> mi" "mi < 60"
    and no: "\<not> f_contains (s_hour s) h"
  obtains v w k where "f_next (s_hour s) h = Some (v, w)"
    "k = (if w then d + 1 else d) * 1440 + v * 60" "n < k" "skips s n k"
proof -
  obtain v w K where fn: "f_next (s_hour s) h = Some (v, w)"
    and K: "K = (if w then d + 1 else d) * 24 + v" "d * 24 + h < K"
    and skip: "\<And>e g. f_contains (s_hour s) g \<Longrightarrow> 0 \<le> g \<Longrightarrow> g < 24 \<Longrightarrow> e * 24 + g < d * 24 + h \<or> K \<le> e * 24 + g"
    using f_next_position [of 24 "s_hour s" h d] schedule_okD(2) [OF ok] no n(2,3) by auto
  have "skips s n (K * 60)"
    by (rule skips_hours [OF skip]) (use n in simp_all)
  moreover have "K * 60 = (if w then d + 1 else d) * 1440 + v * 60"
    by (simp add: K(1))
  moreover have "n < K * 60"
    using K(2) n by linarith
  ultimately show thesis
    using fn that by metis
qed

lemma previous_hour_step:
  assumes ok: "schedule_ok s" and n: "n = d * 1440 + h * 60 + mi" "0 \<le> h" "h < 24" "0 \<le> mi" "mi < 60"
    and no: "\<not> f_contains (s_hour s) h"
  obtains v w k where "f_previous (s_hour s) h = Some (v, w)"
    "k = (if w then d - 1 else d) * 1440 + v * 60 + 59" "k < n" "skips s (k + 1) (n + 1)"
proof -
  obtain v w K where fn: "f_previous (s_hour s) h = Some (v, w)"
    and K: "K = (if w then d - 1 else d) * 24 + v" "K < d * 24 + h"
    and skip: "\<And>e g. f_contains (s_hour s) g \<Longrightarrow> 0 \<le> g \<Longrightarrow> g < 24 \<Longrightarrow> e * 24 + g \<le> K \<or> d * 24 + h < e * 24 + g"
    using f_previous_position [of 24 "s_hour s" h d] schedule_okD(2) [OF ok] no n(2,3) by auto
  have "e * 24 + g < K + 1 \<or> d * 24 + h + 1 \<le> e * 24 + g"
    if "f_contains (s_hour s) g" "0 \<le> g" "g < 24" for e g
    using skip [OF that, of e] by linarith
  then have "skips s (K * 60 + 59 + 1) (n + 1)"
    by (rule skips_hours) (use n in simp_all)
  moreover have "K * 60 + 59 = (if w then d - 1 else d) * 1440 + v * 60 + 59"
    by (simp add: K(1))
  moreover have "K * 60 + 59 < n"
    using K(2) n by linarith
  ultimately show thesis
    using fn that by metis
qed

lemma next_minute_step:
  assumes ok: "schedule_ok s" and n: "n = d * 1440 + h * 60 + mi" "0 \<le> mi" "mi < 60"
    and no: "\<not> f_contains (s_minute s) mi"
  obtains v w k where "f_next (s_minute s) mi = Some (v, w)"
    "k = d * 1440 + (if w then h + 1 else h) * 60 + v" "n < k" "skips s n k"
proof -
  obtain v w K where fn: "f_next (s_minute s) mi = Some (v, w)"
    and K: "K = (if w then d * 24 + h + 1 else d * 24 + h) * 60 + v" "(d * 24 + h) * 60 + mi < K"
    and skip: "\<And>e g. f_contains (s_minute s) g \<Longrightarrow> 0 \<le> g \<Longrightarrow> g < 60 \<Longrightarrow>
      e * 60 + g < (d * 24 + h) * 60 + mi \<or> K \<le> e * 60 + g"
    using f_next_position [of 60 "s_minute s" mi "d * 24 + h"] schedule_okD(1) [OF ok] no n(2,3) by auto
  have "skips s n K"
    unfolding skips_def using skip [of _ "e * 24 + g" for e g] n(1) by (auto simp: algebra_simps)
  moreover have "K = d * 1440 + (if w then h + 1 else h) * 60 + v" "n < K"
    using K n(1) by simp_all
  ultimately show thesis
    using fn that by metis
qed

lemma previous_minute_step:
  assumes ok: "schedule_ok s" and n: "n = d * 1440 + h * 60 + mi" "0 \<le> mi" "mi < 60"
    and no: "\<not> f_contains (s_minute s) mi"
  obtains v w k where "f_previous (s_minute s) mi = Some (v, w)"
    "k = d * 1440 + (if w then h - 1 else h) * 60 + v" "k < n" "skips s (k + 1) (n + 1)"
proof -
  obtain v w K where fn: "f_previous (s_minute s) mi = Some (v, w)"
    and K: "K = (if w then d * 24 + h - 1 else d * 24 + h) * 60 + v" "K < (d * 24 + h) * 60 + mi"
    and skip: "\<And>e g. f_contains (s_minute s) g \<Longrightarrow> 0 \<le> g \<Longrightarrow> g < 60 \<Longrightarrow>
      e * 60 + g \<le> K \<or> (d * 24 + h) * 60 + mi < e * 60 + g"
    using f_previous_position [of 60 "s_minute s" mi "d * 24 + h"] schedule_okD(1) [OF ok] no n(2,3) by auto
  have "skips s (K + 1) (n + 1)"
    unfolding skips_def
  proof (intro allI impI, elim conjE)
    fix e g m :: int
    assume "f_contains (s_minute s) m" "0 \<le> m" "m < 60"
    from skip [OF this, of "e * 24 + g"]
    show "e * 1440 + g * 60 + m < K + 1 \<or> n + 1 \<le> e * 1440 + g * 60 + m"
      using n(1) by (simp add: distrib_right) linarith
  qed
  moreover have "K = d * 1440 + (if w then h - 1 else h) * 60 + v" "K < n"
    using K n(1) by simp_all
  ultimately show thesis
    using fn that by metis
qed

lemma day_no_step:
  assumes "f_contains (s_month s) (t_month t)" "\<not> matchesDay s t" "day_ok s e"
  shows "e < day_number t \<or> day_number t + 1 \<le> e"
  using assms day_okI [of s t] by (metis linorder_neqE zless_imp_add1_zle)

lemma next_month_step:
  assumes ok: "schedule_ok s" and t: "t = at_minute n" and no: "\<not> f_contains (s_month s) (t_month t)"
  shows "moves s n (next_probe s t)"
proof -
  note n = minute_eq [of n, folded t] and rng = hour_minute_range [of t]
  obtain v w D where fn: "f_next (s_month s) (t_month t) = Some (v, w)"
    and D: "D = date_day_number (if w then t_year t + 1 else t_year t) v 1" "day_number t < D"
    and skip: "\<And>e. day_ok s e \<Longrightarrow> e < day_number t \<or> D \<le> e"
    using no unfolding t_month_def t_year_def by (rule next_month_skips [OF ok]) blast
  have "skips s n (D * 1440)" "n < D * 1440"
    using D(2) n rng by (auto intro: skips_days [OF skip])
  moreover have "next_probe s t = Advance (at_minute (D * 1440))"
    using no fn by (simp add: next_probe_def go_date_at_minute D(1))
  ultimately show ?thesis
    by (simp only: movesI)
qed

lemma previous_month_step:
  assumes ok: "schedule_ok s" and t: "t = at_minute n" and no: "\<not> f_contains (s_month s) (t_month t)"
  shows "moves_back s n (previous_probe s t)"
proof -
  note n = minute_eq [of n, folded t] and rng = hour_minute_range [of t]
  obtain v w D where fn: "f_previous (s_month s) (t_month t) = Some (v, w)"
    and D: "D = date_day_number (if w then t_year t - 1 else t_year t) (v + 1) 1" "D \<le> day_number t"
    and skip: "\<And>e. day_ok s e \<Longrightarrow> e < D \<or> day_number t < e"
    using no unfolding t_month_def t_year_def by (rule previous_month_skips [OF ok]) blast
  have "skips s (D * 1440 - 1 + 1) (n + 1)"
    by (rule skips_days [where a = D and b = "day_number t + 1"]) (use skip n rng in \<open>auto simp: add1_zle_eq\<close>)
  moreover have "go_date (if w then t_year t - 1 else t_year t) (v + 1) 0 23 59 0 0 = at_minute (D * 1440 - 1)"
    by (simp add: go_date_at_minute D(1) date_day_number_def Let_def)
  then have "previous_probe s t = Advance (at_minute (D * 1440 - 1))"
    using no fn by (simp add: previous_probe_def)
  moreover have "D * 1440 - 1 < n"
    using D(2) n rng by simp
  ultimately show ?thesis
    by (simp only: moves_backI)
qed

text \<open>The case split both probes make, at the fields of the instant.\<close>

lemma probe_cases:
  obtains (month) "\<not> f_contains (s_month s) (t_month t)"
  | (mday) "f_contains (s_month s) (t_month t)" "\<not> matchesDay s t"
  | (hour) "f_contains (s_month s) (t_month t)" "matchesDay s t" "\<not> f_contains (s_hour s) (t_hour t)"
  | (minute) "f_contains (s_month s) (t_month t)" "matchesDay s t" "f_contains (s_hour s) (t_hour t)"
      "\<not> f_contains (s_minute s) (t_minute t)"
  | (all) "f_contains (s_month s) (t_month t)" "matchesDay s t" "f_contains (s_hour s) (t_hour t)"
      "f_contains (s_minute s) (t_minute t)"
  by blast

lemma matching_fields:
  assumes "t = at_minute n" "f_contains (s_month s) (t_month t)" "matchesDay s t" "f_contains (s_hour s) (t_hour t)"
    "f_contains (s_minute s) (t_minute t)"
  shows "cron_matches s t"
  using assms day_okI [of s t] by (auto simp: cron_matches_minute)

lemma next_probe_moves:
  assumes ok: "schedule_ok s"
  shows "moves s n (next_probe s (at_minute n))"
proof -
  define t where "t = at_minute n"
  note n = minute_eq [of n, folded t_def] and rng = hour_minute_range [of t] and date = go_date_same_day [of t]
  have "moves s n (next_probe s t)"
  proof (cases rule: probe_cases [of s t])
    case month
    then show ?thesis
      by (rule next_month_step [OF ok t_def])
  next
    case mday
    have "skips s n ((day_number t + 1) * 1440)"
      by (rule skips_days [OF day_no_step [OF mday]]) (use n rng in simp_all)
    then show ?thesis
      using mday n rng by (auto simp: next_probe_def date intro!: movesI)
  next
    case hour
    obtain v w k where "f_next (s_hour s) (t_hour t) = Some (v, w)"
      and k: "k = (if w then day_number t + 1 else day_number t) * 1440 + v * 60" "n < k" "skips s n k"
      by (rule next_hour_step [OF ok n rng hour(3)])
    then have "next_probe s t = Advance (at_minute k)"
      using hour by (simp add: next_probe_def date)
    then show ?thesis
      using k by (simp add: movesI)
  next
    case minute
    obtain v w k where "f_next (s_minute s) (t_minute t) = Some (v, w)"
      and k: "k = day_number t * 1440 + (if w then t_hour t + 1 else t_hour t) * 60 + v" "n < k" "skips s n k"
      by (rule next_minute_step [OF ok n rng(3,4) minute(4)])
    then have "next_probe s t = Advance (at_minute k)"
      using minute by (simp add: next_probe_def date)
    then show ?thesis
      using k by (simp add: movesI)
  next
    case all
    then show ?thesis
      using matching_fields [OF t_def all] by (simp add: next_probe_def moves_def t_def [symmetric])
  qed
  then show ?thesis
    by (simp add: t_def)
qed

lemma previous_probe_moves:
  assumes ok: "schedule_ok s"
  shows "moves_back s n (previous_probe s (at_minute n))"
proof -
  define t where "t = at_minute n"
  note n = minute_eq [of n, folded t_def] and rng = hour_minute_range [of t] and date = go_date_same_day [of t]
  have "moves_back s n (previous_probe s t)"
  proof (cases rule: probe_cases [of s t])
    case month
    then show ?thesis
      by (rule previous_month_step [OF ok t_def])
  next
    case mday
    have "skips s ((day_number t - 1) * 1440 + 1439 + 1) (n + 1)"
      by (rule skips_days [OF day_no_step [OF mday]]) (use n rng in simp_all)
    then show ?thesis
      using mday n rng by (auto simp: previous_probe_def date intro!: moves_backI)
  next
    case hour
    obtain v w k where "f_previous (s_hour s) (t_hour t) = Some (v, w)"
      and k: "k = (if w then day_number t - 1 else day_number t) * 1440 + v * 60 + 59" "k < n" "skips s (k + 1) (n + 1)"
      by (rule previous_hour_step [OF ok n rng hour(3)])
    then have "previous_probe s t = Advance (at_minute k)"
      using hour by (simp add: previous_probe_def date)
    then show ?thesis
      using k by (simp add: moves_backI)
  next
    case minute
    obtain v w k where "f_previous (s_minute s) (t_minute t) = Some (v, w)"
      and k: "k = day_number t * 1440 + (if w then t_hour t - 1 else t_hour t) * 60 + v" "k < n" "skips s (k + 1) (n + 1)"
      by (rule previous_minute_step [OF ok n rng(3,4) minute(4)])
    then have "previous_probe s t = Advance (at_minute k)"
      using minute by (simp add: previous_probe_def date)
    then show ?thesis
      using k by (simp add: moves_backI)
  next
    case all
    then show ?thesis
      using matching_fields [OF t_def all] by (simp add: previous_probe_def moves_back_def t_def [symmetric])
  qed
  then show ?thesis
    by (simp add: t_def)
qed

lemma skips_hit:
  assumes "skips s n k" "at_minute n \<le> t" "t < at_minute k"
  shows "\<not> cron_matches s t"
proof
  assume "cron_matches s t"
  then obtain d h mi where "t = at_minute (d * 1440 + h * 60 + mi)" and f: "day_ok s d"
    "f_contains (s_hour s) h" "f_contains (s_minute s) mi" "0 \<le> h" "h < 24" "0 \<le> mi" "mi < 60"
    by (rule hitE)
  then have "n \<le> d * 1440 + h * 60 + mi" "d * 1440 + h * 60 + mi < k"
    using assms(2,3) by simp_all
  then show False
    using assms(1) f unfolding skips_def by (meson not_le not_less)
qed

lemma skips_back_hit:
  assumes "skips s (k + 1) (n + 1)" "at_minute k < t" "t \<le> at_minute n"
  shows "\<not> cron_matches s t"
proof
  assume hit: "cron_matches s t"
  then obtain m where m: "t = at_minute m"
    by (auto elim: hitE)
  then have "at_minute (k + 1) \<le> t" "t < at_minute (n + 1)"
    using assms(2,3) by simp_all
  then show False
    using skips_hit assms(1) hit by blast
qed

interpretation next_search: directed_search "\<lambda>t. t" schedule_ok cron_matches next_probe
proof
  fix s n t
  assume "schedule_ok s" "next_probe s (at_minute n) = Found t"
  then show "t = at_minute n \<and> cron_matches s t"
    using next_probe_moves [of s n] by (auto simp: moves_def)
next
  fix s n
  assume "schedule_ok s"
  then show "next_probe s (at_minute n) \<noteq> Panicked"
    using next_probe_moves [of s n] by (auto simp: moves_def)
next
  fix s n c
  assume "schedule_ok s" "next_probe s (at_minute n) = Advance c"
  then obtain k where "c = at_minute k" "n < k" "skips s n k"
    using next_probe_moves [of s n] by (auto simp: moves_def)
  then show "(\<exists>k. c = at_minute k) \<and> at_minute n < c
      \<and> (\<forall>t. at_minute n \<le> t \<and> t < c \<longrightarrow> \<not> cron_matches s t)"
    using skips_hit by auto
qed

interpretation previous_search: directed_search uminus schedule_ok cron_matches previous_probe
proof
  fix s n t
  assume "schedule_ok s" "previous_probe s (at_minute n) = Found t"
  then show "t = at_minute n \<and> cron_matches s t"
    using previous_probe_moves [of s n] by (auto simp: moves_back_def)
next
  fix s n
  assume "schedule_ok s"
  then show "previous_probe s (at_minute n) \<noteq> Panicked"
    using previous_probe_moves [of s n] by (auto simp: moves_back_def)
next
  fix s n c
  assume "schedule_ok s" "previous_probe s (at_minute n) = Advance c"
  then obtain k where "c = at_minute k" "k < n" "skips s (k + 1) (n + 1)"
    using previous_probe_moves [of s n] by (auto simp: moves_back_def)
  then show "(\<exists>k. c = at_minute k) \<and> - at_minute n < - c
      \<and> (\<forall>t. - at_minute n \<le> - t \<and> - t < - c \<longrightarrow> \<not> cron_matches s t)"
    using skips_back_hit by auto
qed

section \<open>Occurrences\<close>

lemma truncate_minute_at: "truncate_minute t = at_minute (t div ns_per_minute)"
  by (simp add: truncate_minute_def minus_mod_eq_div_mult)

lemma minute_bounds: "at_minute (t div ns_per_minute) \<le> t" "t < at_minute (t div ns_per_minute + 1)"
  using div_bounds [of ns_per_minute t] by (simp_all add: algebra_simps)

lemma next_start_at: "next_start t = at_minute (t div ns_per_minute + 1)"
  by (simp add: next_start_def truncate_minute_at algebra_simps)

lemma after_next_start: "cron_matches s u \<Longrightarrow> next_start t \<le> u \<longleftrightarrow> t < u"
  using minute_bounds [of t]
  by (elim hitE) (smt (verit) at_minute_le next_start_at)

lemma previous_start_at:
  obtains m where "previous_start t = at_minute m" "at_minute m < t" "t \<le> at_minute (m + 1)"
proof (cases "at_minute (t div ns_per_minute) < t")
  case True
  then show thesis
    using minute_bounds [of t]
    by (intro that [of "t div ns_per_minute"]) (simp_all only: previous_start_def truncate_minute_at Let_def, simp_all)
next
  case False
  then have "t = at_minute (t div ns_per_minute)"
    using minute_bounds(1) [of t] by simp
  then show thesis
    using False by (intro that [of "t div ns_per_minute - 1"])
      (simp_all add: previous_start_def truncate_minute_at left_diff_distrib)
qed

lemma before_previous_start: "cron_matches s u \<Longrightarrow> u \<le> previous_start t \<longleftrightarrow> u < t"
  by (elim hitE, rule previous_start_at [of t]) (smt (verit) at_minute_le)

text \<open>A schedule for January, evaluated.\<close>

lemma january_fields:
  "str_fields ''30 4 1 1 0'' = [''30'', ''4'', ''1'', ''1'', ''0'']"
  "is_ok (parseField ''30'' 0 59)" "is_ok (parseField ''4'' 0 23)" "is_ok (parseField ''1'' 1 31)"
  "is_ok (parseField ''1'' 1 12)" "is_ok (parseField ''0'' 0 6)"
  by code_simp+

lemma january_schedule: "\<exists>s. cron_parse ''30 4 1 1 0'' = Inr s"
  using january_fields
  by (auto simp: cron_parse_def is_ok_def in_field_def res_bind_def split: sum.splits)

text \<open>
  \<^bold>\<open>C16.\<close> For every schedule \<^verbatim>\<open>Parse\<close> accepts, \<^verbatim>\<open>Next\<close> ends without a panic. It returns the earliest
  instant strictly after the given one that \<^verbatim>\<open>Matches\<close>, which lies before the deadline eight years on;
  or its error, and then no instant up to that deadline matches.
\<close>

theorem next_is_earliest:
  assumes "cron_parse v = Inr s"
  shows "(\<exists>t. cron_next s after = Some (Inr t) \<and> cron_matches s t \<and> after < t
            \<and> t < add_years searchYears (next_start after)
            \<and> (\<forall>u. after < u \<and> u < t \<longrightarrow> \<not> cron_matches s u))
    \<or> (cron_next s after = Some (Inl NoOccurrence)
        \<and> (\<forall>u. after < u \<and> u < add_years searchYears (next_start after) \<longrightarrow> \<not> cron_matches s u))"
  using next_search.search_result [OF cron_parse_ok [OF assms],
      of "add_years searchYears (next_start after)" NoOccurrence "after div ns_per_minute + 1"]
  unfolding next_search.first_hit_def next_start_at [symmetric] cron_next_def Let_def
  using after_next_start by meson

theorem next_is_earliest_witness:
  "\<exists>s. cron_parse ''30 4 1 1 0'' = Inr s
     \<and> ((\<exists>t. cron_next s 0 = Some (Inr t) \<and> cron_matches s t \<and> 0 < t)
        \<or> cron_next s 0 = Some (Inl NoOccurrence))"
proof -
  obtain s where "cron_parse ''30 4 1 1 0'' = Inr s"
    using january_schedule by blast
  then show ?thesis
    using next_is_earliest [of "''30 4 1 1 0''" s 0] by blast
qed

text \<open>
  For every schedule \<^verbatim>\<open>Parse\<close> accepts, \<^verbatim>\<open>Previous\<close> ends without a panic. It returns the latest
  instant strictly before the given one that \<^verbatim>\<open>Matches\<close>, which lies after the deadline eight years
  back; or its error, and then no instant after that deadline matches.
\<close>

lemma previous_is_latest:
  assumes "cron_parse v = Inr s"
  shows "(\<exists>t. cron_previous s before = Some (Inr t) \<and> cron_matches s t \<and> t < before
            \<and> add_years (- searchYears) (previous_start before) < t
            \<and> (\<forall>u. t < u \<and> u < before \<longrightarrow> \<not> cron_matches s u))
    \<or> (cron_previous s before = Some (Inl NoPreviousOccurrence)
        \<and> (\<forall>u. u < before \<and> add_years (- searchYears) (previous_start before) < u \<longrightarrow> \<not> cron_matches s u))"
proof -
  obtain m where m: "previous_start before = at_minute m"
    by (rule previous_start_at)
  show ?thesis
    using previous_search.search_result [OF cron_parse_ok [OF assms],
        of "add_years (- searchYears) (previous_start before)" NoPreviousOccurrence m]
    unfolding previous_search.first_hit_def m [symmetric] cron_previous_def Let_def neg_le_iff_le neg_less_iff_less
    using before_previous_start by meson
qed

end
