(* ===== verification/Go_Effects.thy ===== *)
theory Go_Effects
  imports Go_Prelude "HOL-Library.State_Monad"
begin

text \<open>
  Triples for programs of the state monad: \<open>hoare P m Q\<close> says that from every state with \<open>P\<close> the
  program ends with a result and a state that satisfy \<open>Q\<close>. The components that call many
  collaborators are written in this monad, one \<open>do\<close> block per Go function; \<open>kept\<close> is the special
  case of an invariant. The rules in \<open>hoare_rules\<close> follow the shape of the program.
\<close>

named_theorems hoare_rules

definition hoare :: "('s \<Rightarrow> bool) \<Rightarrow> ('s, 'a) state \<Rightarrow> ('a \<Rightarrow> 's \<Rightarrow> bool) \<Rightarrow> bool" where
  "hoare P m Q \<longleftrightarrow> (\<forall>s. P s \<longrightarrow> (case run_state m s of (a, s') \<Rightarrow> Q a s'))"

abbreviation kept :: "('s \<Rightarrow> bool) \<Rightarrow> ('s, 'a) state \<Rightarrow> bool" where
  "kept P m \<equiv> hoare P m (\<lambda>_. P)"

lemma hoareD: "hoare P m Q \<Longrightarrow> P s \<Longrightarrow> run_state m s = (a, s') \<Longrightarrow> Q a s'"
  by (auto simp: hoare_def)

lemma hoare_return [hoare_rules]: "(\<And>s. P s \<Longrightarrow> Q a s) \<Longrightarrow> hoare P (State_Monad.return a) Q"
  by (simp add: hoare_def)

lemma hoare_bind:
  "hoare P m R \<Longrightarrow> (\<And>a. hoare (R a) (f a) Q) \<Longrightarrow> hoare P (State_Monad.bind m f) Q"
  unfolding hoare_def by (simp add: split_beta)

lemma hoare_weaken: "hoare P' m Q' \<Longrightarrow> (\<And>s. P s \<Longrightarrow> P' s) \<Longrightarrow> (\<And>a s. Q' a s \<Longrightarrow> Q a s) \<Longrightarrow> hoare P m Q"
  unfolding hoare_def by (simp add: split_beta)

lemma hoare_pre: "hoare P' m Q \<Longrightarrow> (\<And>s. P s \<Longrightarrow> P' s) \<Longrightarrow> hoare P m Q"
  by (rule hoare_weaken)

lemma hoare_conj: "hoare P m Q \<Longrightarrow> hoare P' m Q' \<Longrightarrow> hoare (\<lambda>s. P s \<and> P' s) m (\<lambda>a s. Q a s \<and> Q' a s)"
  unfolding hoare_def by (simp add: split_beta)

lemma hoare_if [hoare_rules]:
  "(b \<Longrightarrow> hoare P m Q) \<Longrightarrow> (\<not> b \<Longrightarrow> hoare P n Q) \<Longrightarrow> hoare P (if b then m else n) Q"
  by simp

lemma hoare_sum [hoare_rules]:
  "(\<And>x. r = Inl x \<Longrightarrow> hoare P (f x) Q) \<Longrightarrow> (\<And>y. r = Inr y \<Longrightarrow> hoare P (g y) Q) \<Longrightarrow>
     hoare P (case r of Inl x \<Rightarrow> f x | Inr y \<Rightarrow> g y) Q"
  by (simp split: sum.splits)

lemma hoare_option [hoare_rules]:
  "(r = None \<Longrightarrow> hoare P f Q) \<Longrightarrow> (\<And>y. r = Some y \<Longrightarrow> hoare P (g y) Q) \<Longrightarrow>
     hoare P (case r of None \<Rightarrow> f | Some y \<Rightarrow> g y) Q"
  by (simp split: option.splits)

lemma hoare_prod [hoare_rules]:
  "(\<And>x y. r = (x, y) \<Longrightarrow> hoare P (f x y) Q) \<Longrightarrow> hoare P (case r of (x, y) \<Rightarrow> f x y) Q"
  by (simp split: prod.splits)

lemma hoare_let [hoare_rules]: "(\<And>x. x = e \<Longrightarrow> hoare P (f x) Q) \<Longrightarrow> hoare P (let x = e in f x) Q"
  by simp

lemma kept_bind [hoare_rules]: "kept P m \<Longrightarrow> (\<And>a. kept P (f a)) \<Longrightarrow> kept P (State_Monad.bind m f)"
  by (rule hoare_bind)

end
