(* ===== verification/Admission.thy ===== *)
theory Admission
  imports Go_Prelude
begin

text \<open>
  Package \<^verbatim>\<open>internal/admission\<close>: the gate that keeps platform updates and ordinary mutations
  apart. Every mutation holds a lease of the gate while it runs; an update takes the gate only
  when no lease is outstanding, and while it holds the gate no mutation is admitted.
  \<open>gate\<close> is the state of \<^verbatim>\<open>Gate\<close> (its mutex makes each method atomic, so a concurrent execution
  is a sequence of method calls), \<open>lease\<close> that of \<^verbatim>\<open>Lease\<close> with the flag of its \<^verbatim>\<open>sync.Once\<close>.
\<close>

section \<open>State\<close>

definition maximumBlockers :: nat where
  "maximumBlockers = 64"

definition maximumFieldLen :: nat where
  "maximumFieldLen = 256"

datatype gate_error = ErrInvalidField | ErrUpdating | ErrBusy

record blocker =
  blocker_kind :: string
  blocker_id :: string

record snapshot =
  snap_blockers :: "blocker list"
  snap_total :: nat
  snap_truncated :: bool

record gate =
  gate_next :: "64 word"
  gate_updating :: bool
  gate_active :: "(64 word \<times> blocker) list"

datatype release_action = FinishBlocker "64 word" | FinishUpdate

record lease =
  lease_release :: release_action
  lease_once :: bool

section \<open>Operations\<close>

definition newGate :: gate where
  "newGate = \<lparr>gate_next = 0, gate_updating = False, gate_active = []\<rparr>"

definition emptySnapshot :: snapshot where
  "emptySnapshot = \<lparr>snap_blockers = [], snap_total = 0, snap_truncated = False\<rparr>"

definition control_character :: "char \<Rightarrow> bool" where
  "control_character c = (of_char c < (32::nat) \<or> of_char c = (127::nat))"

definition validField :: "string \<Rightarrow> bool" where
  "validField value =
     (if value = [] \<or> length value > maximumFieldLen \<or> trim_space value \<noteq> value then False
      else list_all (\<lambda>c. \<not> control_character c) value)"

definition blocker_key :: "blocker \<Rightarrow> string \<times> string" where
  "blocker_key b = (blocker_kind b, blocker_id b)"

definition snapshotLocked :: "gate \<Rightarrow> snapshot" where
  "snapshotLocked g =
     (let blockers = sort_key blocker_key (map snd (gate_active g));
          total = length blockers;
          shown = (if total > maximumBlockers then take maximumBlockers blockers else blockers)
      in \<lparr>snap_blockers = shown, snap_total = total, snap_truncated = (total > length shown)\<rparr>)"

definition gateBegin :: "string \<Rightarrow> string \<Rightarrow> gate \<Rightarrow> gate \<times> (gate_error + lease)" where
  "gateBegin kind ident g =
     (if \<not> validField kind \<or> \<not> validField ident then (g, Inl ErrInvalidField)
      else if gate_updating g then (g, Inl ErrUpdating)
      else
        let token = gate_next g + 1;
            b = \<lparr>blocker_kind = kind, blocker_id = ident\<rparr>
        in (g\<lparr>gate_next := token, gate_active := AList.update token b (gate_active g)\<rparr>,
            Inr \<lparr>lease_release = FinishBlocker token, lease_once = False\<rparr>))"

definition tryUpdate :: "gate \<Rightarrow> gate \<times> ((gate_error \<times> snapshot) + lease)" where
  "tryUpdate g =
     (if gate_updating g then (g, Inl (ErrUpdating, emptySnapshot))
      else if gate_active g \<noteq> [] then (g, Inl (ErrBusy, snapshotLocked g))
      else (g\<lparr>gate_updating := True\<rparr>, Inr \<lparr>lease_release = FinishUpdate, lease_once = False\<rparr>))"

definition gateSnapshot :: "gate \<Rightarrow> snapshot \<times> bool" where
  "gateSnapshot g = (snapshotLocked g, gate_updating g)"

definition finish :: "64 word \<Rightarrow> gate \<Rightarrow> gate" where
  "finish token g = g\<lparr>gate_active := AList.delete token (gate_active g)\<rparr>"

definition finishUpdate :: "gate \<Rightarrow> gate" where
  "finishUpdate g = g\<lparr>gate_updating := False\<rparr>"

fun run_release :: "release_action \<Rightarrow> gate \<Rightarrow> gate" where
  "run_release (FinishBlocker token) g = finish token g"
| "run_release FinishUpdate g = finishUpdate g"

text \<open>\<^verbatim>\<open>Lease.Release\<close>: nothing on a nil lease, the action at most once otherwise.\<close>

fun leaseRelease :: "lease option \<Rightarrow> gate \<Rightarrow> gate \<times> lease option" where
  "leaseRelease None g = (g, None)"
| "leaseRelease (Some l) g =
     (if lease_once l then (g, Some l)
      else (run_release (lease_release l) g, Some (l\<lparr>lease_once := True\<rparr>)))"

section \<open>The HTTP middleware\<close>

text \<open>
  \<^verbatim>\<open>admission/http.go\<close>. The wrapped handler is a function that may itself use the gate;
  \<open>sha256_hex\<close> stands for the lower-case hexadecimal SHA-256 of a byte string. The result is
  \<open>None\<close> where the constructor panics.
\<close>

record request =
  req_method :: string
  req_path :: string

datatype 'r reply = Served 'r | PlatformUpdating

definition mutationMethod :: "string \<Rightarrow> bool" where
  "mutationMethod m = (m = ''POST'' \<or> m = ''PUT'' \<or> m = ''PATCH'' \<or> m = ''DELETE'')"

definition requestBlockerID :: "(string \<Rightarrow> string) \<Rightarrow> request \<Rightarrow> string" where
  "requestBlockerID sha256_hex r =
     (let value = req_method r @ '' '' @ req_path r
      in if length value \<le> maximumFieldLen then value
         else req_method r @ '' sha256:'' @ sha256_hex value)"

definition serve_admitted ::
  "(gate \<Rightarrow> request \<Rightarrow> gate \<times> 'r) \<Rightarrow> lease \<Rightarrow> gate \<Rightarrow> request \<Rightarrow> gate \<times> 'r reply" where
  "serve_admitted next_handler l g r =
     (let (g', answer) = next_handler g r in (fst (leaseRelease (Some l) g'), Served answer))"

definition wrapHTTPMutations ::
  "(string \<Rightarrow> string) \<Rightarrow> string \<Rightarrow> string \<Rightarrow> (request \<Rightarrow> bool) option
   \<Rightarrow> (gate \<Rightarrow> request \<Rightarrow> gate \<times> 'r) \<Rightarrow> (gate \<Rightarrow> request \<Rightarrow> gate \<times> 'r reply) option" where
  "wrapHTTPMutations sha256_hex kind skipPath exclusive next_handler =
     (if \<not> validField kind then None
      else Some (\<lambda>g r.
        if \<not> mutationMethod (req_method r) \<or> req_path r = skipPath then
          (let (g', answer) = next_handler g r in (g', Served answer))
        else if (case exclusive of None \<Rightarrow> False | Some f \<Rightarrow> f r) then
          (case tryUpdate g of
             (g', Inl e) \<Rightarrow> (g', PlatformUpdating)
           | (g', Inr l) \<Rightarrow> serve_admitted next_handler l g' r)
        else
          (case gateBegin kind (requestBlockerID sha256_hex r) g of
             (g', Inl e) \<Rightarrow> (g', PlatformUpdating)
           | (g', Inr l) \<Rightarrow> serve_admitted next_handler l g' r)))"

section \<open>Executions\<close>

text \<open>
  A system is a gate and every lease it has issued. A call sequence is any interleaving of
  \<^verbatim>\<open>Begin\<close>, \<^verbatim>\<open>TryUpdate\<close> and \<^verbatim>\<open>Release\<close> of an issued lease, which a caller may repeat.
\<close>

record gate_system =
  sys_gate :: gate
  sys_leases :: "lease list"

datatype gate_call = CallBegin string string | CallTryUpdate | CallRelease nat

definition record_lease :: "gate \<times> ('e + lease) \<Rightarrow> gate_system \<Rightarrow> gate_system" where
  "record_lease res s =
     (case snd res of
        Inl e \<Rightarrow> s\<lparr>sys_gate := fst res\<rparr>
      | Inr l \<Rightarrow> s\<lparr>sys_gate := fst res, sys_leases := sys_leases s @ [l]\<rparr>)"

fun gate_step :: "gate_system \<Rightarrow> gate_call \<Rightarrow> gate_system" where
  "gate_step s (CallBegin kind ident) = record_lease (gateBegin kind ident (sys_gate s)) s"
| "gate_step s CallTryUpdate = record_lease (tryUpdate (sys_gate s)) s"
| "gate_step s (CallRelease i) =
     (if i < length (sys_leases s) then
        (case leaseRelease (Some (sys_leases s ! i)) (sys_gate s) of
           (g, Some l) \<Rightarrow> s\<lparr>sys_gate := g, sys_leases := (sys_leases s)[i := l]\<rparr>
         | (g, None) \<Rightarrow> s\<lparr>sys_gate := g\<rparr>)
      else s)"

definition gate_run :: "gate_call list \<Rightarrow> gate_system" where
  "gate_run calls = foldl gate_step \<lparr>sys_gate = newGate, sys_leases = []\<rparr> calls"

definition outstanding :: "lease list \<Rightarrow> nat \<Rightarrow> bool" where
  "outstanding ls i = (i < length ls \<and> \<not> lease_once (ls ! i))"

section \<open>The invariant of executions\<close>

definition holds_token :: "lease list \<Rightarrow> nat \<Rightarrow> 64 word \<Rightarrow> bool" where
  "holds_token ls i t = (i < length ls \<and> lease_release (ls ! i) = FinishBlocker t)"

definition tokens_ok :: "gate \<Rightarrow> lease list \<Rightarrow> bool" where
  "tokens_ok g ls \<longleftrightarrow>
     alist_ok (gate_active g)
     \<and> (\<forall>t. t \<in> dom (map_of (gate_active g)) \<longleftrightarrow> (\<exists>i. outstanding ls i \<and> holds_token ls i t))
     \<and> (\<forall>i j t. holds_token ls i t \<longrightarrow> holds_token ls j t \<longrightarrow> i = j)
     \<and> (\<forall>i t. holds_token ls i t \<longrightarrow> t \<le> gate_next g)"

lemma tokens_ok_dom:
  "tokens_ok g ls \<Longrightarrow>
     t \<in> dom (map_of (gate_active g)) \<longleftrightarrow> (\<exists>i. outstanding ls i \<and> holds_token ls i t)"
  unfolding tokens_ok_def by blast

definition update_ok :: "gate \<Rightarrow> lease list \<Rightarrow> bool" where
  "update_ok g ls \<longleftrightarrow>
     (gate_updating g \<longleftrightarrow> (\<exists>i. outstanding ls i \<and> lease_release (ls ! i) = FinishUpdate))
     \<and> (\<forall>i j. outstanding ls i \<longrightarrow> outstanding ls j \<longrightarrow>
            lease_release (ls ! i) = FinishUpdate \<longrightarrow> i = j)"

definition gate_inv :: "gate_system \<Rightarrow> bool" where
  "gate_inv s \<longleftrightarrow> tokens_ok (sys_gate s) (sys_leases s) \<and> update_ok (sys_gate s) (sys_leases s)"

lemma gate_inv_init: "gate_inv \<lparr>sys_gate = newGate, sys_leases = []\<rparr>"
  by (simp add: gate_inv_def tokens_ok_def update_ok_def outstanding_def holds_token_def newGate_def)

lemma outstanding_cases:
  assumes "outstanding ls i"
  shows "lease_release (ls ! i) = FinishUpdate \<or> (\<exists>t. holds_token ls i t)"
  using assms by (cases "lease_release (ls ! i)") (auto simp: outstanding_def holds_token_def)

lemma outstanding_snoc [simp]:
  "outstanding (ls @ [l]) i \<longleftrightarrow> outstanding ls i \<or> (i = length ls \<and> \<not> lease_once l)"
  by (auto simp: outstanding_def nth_append)

lemma holds_token_snoc [simp]:
  "holds_token (ls @ [l]) i t \<longleftrightarrow>
     holds_token ls i t \<or> (i = length ls \<and> lease_release l = FinishBlocker t)"
  by (auto simp: holds_token_def nth_append)

lemma outstanding_lt: "outstanding ls i \<Longrightarrow> i < length ls"
  by (simp add: outstanding_def)

lemma holds_token_lt: "holds_token ls i t \<Longrightarrow> i < length ls"
  by (simp add: holds_token_def)

lemma outstanding_done [simp]:
  "i < length ls \<Longrightarrow>
     outstanding (ls[i := (ls ! i)\<lparr>lease_once := True\<rparr>]) j \<longleftrightarrow> outstanding ls j \<and> j \<noteq> i"
  by (auto simp: outstanding_def nth_list_update)

lemma holds_token_done [simp]:
  "i < length ls \<Longrightarrow>
     holds_token (ls[i := (ls ! i)\<lparr>lease_once := True\<rparr>]) j t \<longleftrightarrow> holds_token ls j t"
  by (auto simp: holds_token_def nth_list_update)

lemma release_done [simp]:
  "i < length ls \<Longrightarrow>
     lease_release ((ls[i := (ls ! i)\<lparr>lease_once := True\<rparr>]) ! j) = lease_release (ls ! j)"
  by (cases "i = j") auto

lemma tokens_ok_begin:
  assumes ok: "tokens_ok g ls" and room: "gate_next g < gate_next g + 1"
  shows "tokens_ok
    (g\<lparr>gate_next := gate_next g + 1, gate_active := AList.update (gate_next g + 1) b (gate_active g)\<rparr>)
    (ls @ [\<lparr>lease_release = FinishBlocker (gate_next g + 1), lease_once = False\<rparr>])"
proof -
  have fresh: "\<not> holds_token ls i (gate_next g + 1)" for i
    using ok room unfolding tokens_ok_def by (meson leD)
  have bound: "t \<le> gate_next g + 1" if "holds_token ls i t" for i t
    using ok room that unfolding tokens_ok_def by (meson less_imp_le order_trans)
  show ?thesis
    using ok fresh bound unfolding tokens_ok_def
    by (auto dest: outstanding_lt holds_token_lt)
qed

lemma update_ok_begin:
  assumes "update_ok g ls" "\<not> gate_updating g"
  shows "update_ok (g\<lparr>gate_next := n, gate_active := a\<rparr>)
    (ls @ [\<lparr>lease_release = FinishBlocker t, lease_once = False\<rparr>])"
  using assms unfolding update_ok_def
  by (auto simp: nth_append dest: outstanding_lt)

lemma tokens_ok_update:
  assumes "tokens_ok g ls"
  shows "tokens_ok (g\<lparr>gate_updating := u\<rparr>) (ls @ [\<lparr>lease_release = FinishUpdate, lease_once = d\<rparr>])"
  using assms unfolding tokens_ok_def by (auto dest: outstanding_lt holds_token_lt)

lemma no_outstanding_blocker:
  assumes "tokens_ok g ls" "gate_active g = []" "outstanding ls i"
  shows "lease_release (ls ! i) = FinishUpdate"
  using outstanding_cases [OF assms(3)] assms unfolding tokens_ok_def by auto

lemma update_ok_update:
  assumes tok: "tokens_ok g ls" and ok: "update_ok g ls"
    and idle: "\<not> gate_updating g" "gate_active g = []"
  shows "update_ok (g\<lparr>gate_updating := True\<rparr>)
    (ls @ [\<lparr>lease_release = FinishUpdate, lease_once = False\<rparr>])"
proof -
  have "\<not> outstanding ls i" for i
    using no_outstanding_blocker [OF tok idle(2)] ok idle(1) unfolding update_ok_def by blast
  then show ?thesis
    by (auto simp: update_ok_def nth_append)
qed

lemma gate_inv_release_blocker:
  assumes tok: "tokens_ok g ls" and ok: "update_ok g ls" and out: "outstanding ls i"
    and t: "lease_release (ls ! i) = FinishBlocker t"
  shows "tokens_ok (finish t g) (ls[i := (ls ! i)\<lparr>lease_once := True\<rparr>])"
    and "update_ok (finish t g) (ls[i := (ls ! i)\<lparr>lease_once := True\<rparr>])"
proof -
  have i: "i < length ls" "holds_token ls i t"
    using out t by (auto simp: outstanding_def holds_token_def)
  have only: "holds_token ls j t \<Longrightarrow> j = i" for j
    using tok i unfolding tokens_ok_def by blast
  have "x \<noteq> t \<and> x \<in> dom (map_of (gate_active g)) \<longleftrightarrow>
      (\<exists>j. outstanding ls j \<and> j \<noteq> i \<and> holds_token ls j x)" for x
  proof (cases "x = t")
    case False
    then have "holds_token ls j x \<Longrightarrow> j \<noteq> i" for j
      using t by (auto simp: holds_token_def)
    then show ?thesis
      using tok False unfolding tokens_ok_def by blast
  qed (use only in blast)
  then show "tokens_ok (finish t g) (ls[i := (ls ! i)\<lparr>lease_once := True\<rparr>])"
    using tok i unfolding tokens_ok_def finish_def by (auto simp: dom_def)
  show "update_ok (finish t g) (ls[i := (ls ! i)\<lparr>lease_once := True\<rparr>])"
    using ok i t unfolding update_ok_def finish_def by auto
qed

lemma gate_inv_release_update:
  assumes tok: "tokens_ok g ls" and ok: "update_ok g ls" and out: "outstanding ls i"
    and u: "lease_release (ls ! i) = FinishUpdate"
  shows "tokens_ok (finishUpdate g) (ls[i := (ls ! i)\<lparr>lease_once := True\<rparr>])"
    and "update_ok (finishUpdate g) (ls[i := (ls ! i)\<lparr>lease_once := True\<rparr>])"
proof -
  have i: "i < length ls"
    using out by (rule outstanding_lt)
  have only: "outstanding ls j \<Longrightarrow> j = i" for j
    using ok out u unfolding update_ok_def by blast
  have "outstanding ls j \<and> j \<noteq> i \<and> holds_token ls j x \<longleftrightarrow>
      outstanding ls j \<and> holds_token ls j x" for j x
    using u by (auto simp: holds_token_def)
  then show "tokens_ok (finishUpdate g) (ls[i := (ls ! i)\<lparr>lease_once := True\<rparr>])"
    using tok i unfolding tokens_ok_def finishUpdate_def by simp
  show "update_ok (finishUpdate g) (ls[i := (ls ! i)\<lparr>lease_once := True\<rparr>])"
    using i only unfolding update_ok_def finishUpdate_def by auto
qed

lemma gate_inv_begin:
  assumes "gate_inv s" "gate_next (sys_gate s) < gate_next (sys_gate s) + 1"
  shows "gate_inv (gate_step s (CallBegin kind ident))"
  using assms tokens_ok_begin update_ok_begin
  by (auto simp: gate_inv_def gateBegin_def record_lease_def Let_def)

lemma gate_inv_tryUpdate:
  assumes "gate_inv s"
  shows "gate_inv (gate_step s CallTryUpdate)"
  using assms tokens_ok_update update_ok_update
  by (auto simp: gate_inv_def tryUpdate_def record_lease_def)

lemma gate_inv_release:
  assumes "gate_inv s"
  shows "gate_inv (gate_step s (CallRelease i))"
proof (cases "outstanding (sys_leases s) i")
  case True
  then show ?thesis
    using assms gate_inv_release_blocker gate_inv_release_update
    by (cases "lease_release (sys_leases s ! i)") (auto simp: gate_inv_def outstanding_def)
next
  case False
  then show ?thesis
    using assms by (cases "i < length (sys_leases s)") (auto simp: outstanding_def gate_inv_def)
qed

lemma gate_inv_step:
  assumes "gate_inv s" "gate_next (sys_gate s) < gate_next (sys_gate s) + 1"
  shows "gate_inv (gate_step s c)"
  using assms gate_inv_begin gate_inv_tryUpdate gate_inv_release by (cases c) blast+

lemma gate_step_next:
  "gate_next (sys_gate (gate_step s c)) = gate_next (sys_gate s) \<or>
   gate_next (sys_gate (gate_step s c)) = gate_next (sys_gate s) + 1"
proof (cases c)
  case (CallRelease i)
  then show ?thesis
    by (cases "lease_release (sys_leases s ! i)") (auto simp: finish_def finishUpdate_def)
qed (auto simp: gateBegin_def tryUpdate_def record_lease_def Let_def)

lemma gate_run_snoc: "gate_run (calls @ [c]) = gate_step (gate_run calls) c"
  by (simp add: gate_run_def)

lemma gate_run_next: "unat (gate_next (sys_gate (gate_run calls))) \<le> length calls"
proof (induction calls rule: rev_induct)
  case Nil
  show ?case by (simp add: gate_run_def newGate_def)
next
  case (snoc c calls)
  then show ?case
    using gate_step_next [of "gate_run calls" c] unat_succ_le [of "gate_next (sys_gate (gate_run calls))"]
    by (auto simp: gate_run_snoc)
qed

lemma gate_run_inv: "length calls \<le> 2 ^ 64 - 1 \<Longrightarrow> gate_inv (gate_run calls)"
proof (induction calls rule: rev_induct)
  case Nil
  show ?case using gate_inv_init by (simp add: gate_run_def)
next
  case (snoc c calls)
  then have "unat (gate_next (sys_gate (gate_run calls))) < 2 ^ 64 - 1"
    using gate_run_next [of calls] by simp
  then show ?case
    using snoc by (simp add: gate_run_snoc gate_inv_step word_room)
qed

text \<open>Some lease is outstanding exactly when an update runs or the table of mutations has an entry.\<close>

lemma outstanding_any:
  assumes "tokens_ok g ls" "update_ok g ls"
  shows "(\<exists>i. outstanding ls i) \<longleftrightarrow> gate_updating g \<or> gate_active g \<noteq> []"
proof -
  have "gate_active g \<noteq> [] \<longleftrightarrow> (\<exists>t. t \<in> dom (map_of (gate_active g)))"
    by (cases "gate_active g") (auto simp: dom_map_of_conv_image_fst)
  then have "gate_active g \<noteq> [] \<longleftrightarrow> (\<exists>i t. outstanding ls i \<and> holds_token ls i t)"
    using tokens_ok_dom [OF assms(1)] by blast
  moreover have "gate_updating g \<longleftrightarrow> (\<exists>i. outstanding ls i \<and> lease_release (ls ! i) = FinishUpdate)"
    using assms(2) unfolding update_ok_def by blast
  ultimately show ?thesis
    using outstanding_cases [of ls] by blast
qed

text \<open>The answers by the state of the gate.\<close>

lemma gate_answers:
  "is_ok (snd (tryUpdate g)) \<longleftrightarrow> \<not> gate_updating g \<and> gate_active g = []"
  "tryUpdate g = (g, Inl (ErrUpdating, emptySnapshot)) \<longleftrightarrow> gate_updating g"
  "tryUpdate g = (g, Inl (ErrBusy, snapshotLocked g)) \<longleftrightarrow> \<not> gate_updating g \<and> gate_active g \<noteq> []"
  "is_ok (snd (gateBegin kind ident g)) \<longleftrightarrow> validField kind \<and> validField ident \<and> \<not> gate_updating g"
  "gateBegin kind ident g = (g, Inl ErrInvalidField) \<longleftrightarrow> \<not> (validField kind \<and> validField ident)"
  "gateBegin kind ident g = (g, Inl ErrUpdating) \<longleftrightarrow> validField kind \<and> validField ident \<and> gate_updating g"
  by (auto simp: tryUpdate_def gateBegin_def Let_def)

section \<open>Properties of the gate\<close>

text \<open>
  \<^bold>\<open>C9.\<close> Mutual exclusion. In every execution of fewer than \<open>2 ^ 64\<close> calls, an update lease that has
  not been released is the only unreleased lease, and the table of active mutations is empty.
  The bound is the width of the token counter, which wraps after it.
\<close>

theorem update_lease_exclusive:
  assumes "length calls < 2 ^ 64"
    and "outstanding (sys_leases (gate_run calls)) i"
    and "lease_release (sys_leases (gate_run calls) ! i) = FinishUpdate"
  shows "(\<forall>j. outstanding (sys_leases (gate_run calls)) j \<longleftrightarrow> j = i)
    \<and> gate_active (sys_gate (gate_run calls)) = []"
proof -
  let ?s = "gate_run calls"
  have inv: "tokens_ok (sys_gate ?s) (sys_leases ?s)" "update_ok (sys_gate ?s) (sys_leases ?s)"
    using gate_run_inv [of calls] assms(1) by (simp_all add: gate_inv_def)
  have only: "outstanding (sys_leases ?s) j \<longleftrightarrow> j = i" for j
    using inv(2) assms(2,3) unfolding update_ok_def by blast
  have "t \<notin> dom (map_of (gate_active (sys_gate ?s)))" for t
  proof
    assume "t \<in> dom (map_of (gate_active (sys_gate ?s)))"
    then obtain j where "outstanding (sys_leases ?s) j" "holds_token (sys_leases ?s) j t"
      using tokens_ok_dom [OF inv(1)] by blast
    then have "holds_token (sys_leases ?s) i t"
      using only by simp
    then show False
      using assms(3) by (simp add: holds_token_def)
  qed
  then have "dom (map_of (gate_active (sys_gate ?s))) = {}"
    by blast
  then show ?thesis
    using only by (simp add: dom_map_of_conv_image_fst)
qed

theorem update_lease_exclusive_witness:
  "(\<forall>j. outstanding (sys_leases (gate_run [CallBegin ''k'' ''a'', CallRelease 0, CallTryUpdate])) j \<longleftrightarrow> j = 1)
    \<and> gate_active (sys_gate (gate_run [CallBegin ''k'' ''a'', CallRelease 0, CallTryUpdate])) = []"
proof (rule update_lease_exclusive)
  show "outstanding (sys_leases (gate_run [CallBegin ''k'' ''a'', CallRelease 0, CallTryUpdate])) 1"
    by code_simp
  show "lease_release (sys_leases (gate_run [CallBegin ''k'' ''a'', CallRelease 0, CallTryUpdate]) ! 1) = FinishUpdate"
    by code_simp
qed simp

text \<open>
  \<^bold>\<open>C21.\<close> What the gate answers is decided by the leases that are outstanding, so that a release is
  never lost and never counted twice. An update is granted exactly when no lease is outstanding; it is refused as
  \<^verbatim>\<open>ErrUpdating\<close> with an empty snapshot exactly when an update lease is, and as \<^verbatim>\<open>ErrBusy\<close> with the snapshot of the
  active mutations exactly when only leases of mutations are. A mutation is refused for its fields exactly when
  its kind or identifier is malformed, and as \<^verbatim>\<open>ErrUpdating\<close> exactly when they are not and an update lease is
  outstanding; otherwise it is admitted. A refusal leaves the gate as it was.
\<close>

theorem admission_iff:
  fixes calls
  defines "g \<equiv> sys_gate (gate_run calls)" and "ls \<equiv> sys_leases (gate_run calls)"
  assumes "length calls < 2 ^ 64"
  shows "(is_ok (snd (tryUpdate g)) \<longleftrightarrow> (\<forall>i. \<not> outstanding ls i))
    \<and> (tryUpdate g = (g, Inl (ErrUpdating, emptySnapshot)) \<longleftrightarrow>
         (\<exists>i. outstanding ls i \<and> lease_release (ls ! i) = FinishUpdate))
    \<and> (tryUpdate g = (g, Inl (ErrBusy, snapshotLocked g)) \<longleftrightarrow>
         (\<exists>i. outstanding ls i) \<and> (\<forall>i. outstanding ls i \<longrightarrow> lease_release (ls ! i) \<noteq> FinishUpdate))
    \<and> (is_ok (snd (gateBegin kind ident g)) \<longleftrightarrow>
         validField kind \<and> validField ident \<and> \<not> (\<exists>i. outstanding ls i \<and> lease_release (ls ! i) = FinishUpdate))
    \<and> (gateBegin kind ident g = (g, Inl ErrInvalidField) \<longleftrightarrow> \<not> (validField kind \<and> validField ident))
    \<and> (gateBegin kind ident g = (g, Inl ErrUpdating) \<longleftrightarrow>
         validField kind \<and> validField ident \<and> (\<exists>i. outstanding ls i \<and> lease_release (ls ! i) = FinishUpdate))"
proof -
  have "gate_inv (gate_run calls)"
    using gate_run_inv [of calls] assms(3) by simp
  then have inv: "tokens_ok g ls" "update_ok g ls"
    unfolding gate_inv_def g_def ls_def by simp_all
  have u: "(\<exists>i. outstanding ls i \<and> lease_release (ls ! i) = FinishUpdate) \<longleftrightarrow> gate_updating g"
    using inv(2) unfolding update_ok_def by blast
  have any: "(\<exists>i. outstanding ls i) \<longleftrightarrow> gate_updating g \<or> gate_active g \<noteq> []"
    by (rule outstanding_any [OF inv])
  have none: "(\<forall>i. \<not> outstanding ls i) \<longleftrightarrow> \<not> gate_updating g \<and> gate_active g = []"
    using any by blast
  have other: "(\<forall>i. outstanding ls i \<longrightarrow> lease_release (ls ! i) \<noteq> FinishUpdate) \<longleftrightarrow> \<not> gate_updating g"
    using u by blast
  show ?thesis
    unfolding u none other any by (simp add: gate_answers) blast
qed

theorem admission_iff_witness:
  "tryUpdate (sys_gate (gate_run [CallBegin ''k'' ''a''])) =
     (sys_gate (gate_run [CallBegin ''k'' ''a'']), Inl (ErrBusy, snapshotLocked (sys_gate (gate_run [CallBegin ''k'' ''a'']))))
   \<and> (\<exists>i. outstanding (sys_leases (gate_run [CallBegin ''k'' ''a''])) i)"
proof -
  have "tryUpdate (sys_gate (gate_run [CallBegin ''k'' ''a''])) =
     (sys_gate (gate_run [CallBegin ''k'' ''a'']), Inl (ErrBusy, snapshotLocked (sys_gate (gate_run [CallBegin ''k'' ''a'']))))"
    by code_simp
  then show ?thesis
    using admission_iff [of "[CallBegin ''k'' ''a'']"] by simp
qed

section \<open>The gate as a provider of scoped leases\<close>

definition begin_lease :: "string \<Rightarrow> string \<Rightarrow> gate \<Rightarrow> (gate \<times> lease) option" where
  "begin_lease kind ident g =
     (case gateBegin kind ident g of (g', Inl e) \<Rightarrow> None | (g', Inr l) \<Rightarrow> Some (g', l))"

definition update_lease :: "gate \<Rightarrow> (gate \<times> lease) option" where
  "update_lease g = (case tryUpdate g of (g', Inl e) \<Rightarrow> None | (g', Inr l) \<Rightarrow> Some (g', l))"

definition release_lease :: "lease \<Rightarrow> gate \<Rightarrow> gate" where
  "release_lease l g = fst (leaseRelease (Some l) g)"

definition gate_view :: "gate \<Rightarrow> bool \<times> (64 word \<Rightarrow> blocker option)" where
  "gate_view g = (gate_updating g, map_of (gate_active g))"

definition token_fresh :: "gate \<Rightarrow> bool" where
  "token_fresh g \<longleftrightarrow> gate_next g + 1 \<notin> dom (map_of (gate_active g))"

interpretation blocker_lease: scoped_lease "begin_lease kind ident" release_lease gate_view token_fresh
  by unfold_locales
    (auto simp: begin_lease_def gateBegin_def Let_def release_lease_def gate_view_def
      token_fresh_def finish_def fun_upd_idem split: if_splits)

interpretation exclusive_lease: scoped_lease update_lease release_lease gate_view token_fresh
  by unfold_locales
    (auto simp: update_lease_def tryUpdate_def release_lease_def gate_view_def finishUpdate_def
      split: if_splits)

lemma serve_via_lease:
  "(case tryUpdate g of
      (g', Inl e) \<Rightarrow> (g', PlatformUpdating)
    | (g', Inr l) \<Rightarrow> serve_admitted nh l g' r) =
   (case with_lease update_lease release_lease (\<lambda>g. nh g r) g of
      (g', None) \<Rightarrow> (g', PlatformUpdating) | (g', Some a) \<Rightarrow> (g', Served a))"
  "(case gateBegin kind ident g of
      (g', Inl e) \<Rightarrow> (g', PlatformUpdating)
    | (g', Inr l) \<Rightarrow> serve_admitted nh l g' r) =
   (case with_lease (begin_lease kind ident) release_lease (\<lambda>g. nh g r) g of
      (g', None) \<Rightarrow> (g', PlatformUpdating) | (g', Some a) \<Rightarrow> (g', Served a))"
  by (auto simp: with_lease_def update_lease_def begin_lease_def tryUpdate_def gateBegin_def Let_def
      serve_admitted_def release_lease_def split: prod.splits)

lemma fst_reply_case:
  "fst (case p of (g', None) \<Rightarrow> (g', PlatformUpdating) | (g', Some a) \<Rightarrow> (g', Served a)) = fst p"
  by (simp split: prod.splits option.splits)

text \<open>
  The HTTP middleware is transparent for the gate: whatever request it serves, and whichever of
  the exclusive, the shared and the unguarded path it takes, the gate's update flag and table of
  active mutations are afterwards what they were before, provided the wrapped handler leaves them
  as it found them.
\<close>

lemma middleware_balanced:
  assumes wrapped: "wrapHTTPMutations sha256_hex kind skipPath exclusive nh = Some h"
    and balanced: "\<And>g r. gate_view (fst (nh g r)) = gate_view g"
    and "token_fresh g"
  shows "gate_view (fst (h g r)) = gate_view g"
proof -
  have h: "h = (\<lambda>g r.
        if \<not> mutationMethod (req_method r) \<or> req_path r = skipPath then
          (let (g', answer) = nh g r in (g', Served answer))
        else if (case exclusive of None \<Rightarrow> False | Some f \<Rightarrow> f r) then
          (case with_lease update_lease release_lease (\<lambda>g. nh g r) g of
             (g', None) \<Rightarrow> (g', PlatformUpdating) | (g', Some a) \<Rightarrow> (g', Served a))
        else
          (case with_lease (begin_lease kind (requestBlockerID sha256_hex r)) release_lease
               (\<lambda>g. nh g r) g of
             (g', None) \<Rightarrow> (g', PlatformUpdating) | (g', Some a) \<Rightarrow> (g', Served a)))"
    using wrapped unfolding wrapHTTPMutations_def serve_via_lease by (simp split: if_splits)
  show ?thesis
    using balanced [of g r] exclusive_lease.with_lease_view [OF assms(3), of "\<lambda>g. nh g r"]
      blocker_lease.with_lease_view [OF assms(3), of "\<lambda>g. nh g r"] balanced
    unfolding h by (cases "nh g r") (simp add: fst_reply_case)
qed

text \<open>
  While an update holds the gate, the middleware answers every guarded mutation with the
  \<^verbatim>\<open>platform_updating\<close> conflict, leaves the gate alone and never runs the wrapped handler (the
  result is the same for any two handlers).
\<close>

lemma middleware_blocks_mutations:
  assumes "wrapHTTPMutations sha256_hex kind skipPath exclusive nh = Some h"
    and "wrapHTTPMutations sha256_hex kind skipPath exclusive nh' = Some h'"
    and "gate_updating g" "mutationMethod (req_method r)" "req_path r \<noteq> skipPath"
  shows "h g r = (g, PlatformUpdating) \<and> h' g r = h g r"
  using assms by (auto simp: wrapHTTPMutations_def tryUpdate_def gateBegin_def split: if_splits)

text \<open>
  The snapshot reported with a busy gate does not depend on the order in which the map of active
  mutations is iterated; it lists the least entries by kind and identifier, at most 64 of them,
  reports the true total, and is marked truncated exactly when entries were left out.
\<close>

lemma snapshot_exact:
  assumes "mset (gate_active g) = mset (gate_active g')"
  shows "snapshotLocked g = snapshotLocked g'
    \<and> snap_total (snapshotLocked g) = length (gate_active g)
    \<and> length (snap_blockers (snapshotLocked g)) = min 64 (length (gate_active g))
    \<and> snap_truncated (snapshotLocked g) = (length (gate_active g) > 64)
    \<and> (\<exists>rest. sorted (map blocker_key (snap_blockers (snapshotLocked g) @ rest))
         \<and> mset (snap_blockers (snapshotLocked g) @ rest) = mset (map snd (gate_active g)))"
proof -
  define all where "all = sort_key blocker_key (map snd (gate_active g))"
  have inj: "inj blocker_key"
    by (rule injI) (simp add: blocker_key_def)
  have same: "sort_key blocker_key (map snd (gate_active g')) = all"
    unfolding all_def
    by (rule sort_key_unique [OF _ inj]) (simp add: mset_map assms)
  have shown: "snap_blockers (snapshotLocked g) = take 64 all"
    by (simp add: snapshotLocked_def all_def maximumBlockers_def Let_def)
  have "sorted (map blocker_key (take 64 all @ drop 64 all))
      \<and> mset (take 64 all @ drop 64 all) = mset (map snd (gate_active g))"
    by (simp add: all_def)
  then have rest: "\<exists>rest. sorted (map blocker_key (take 64 all @ rest))
      \<and> mset (take 64 all @ rest) = mset (map snd (gate_active g))"
    by blast
  have "snapshotLocked g = snapshotLocked g'"
    using same by (simp add: snapshotLocked_def all_def Let_def)
  then show ?thesis
    using rest unfolding shown
    by (auto simp: snapshotLocked_def maximumBlockers_def Let_def all_def)
qed

end
