(* ===== verification/Public_Hostname.thy ===== *)
theory Public_Hostname
  imports Go_Prelude
begin

text \<open>
  Package \<^verbatim>\<open>internal/publichostname\<close>: the canonical form of public DNS names. The IDNA conversion
  (\<^verbatim>\<open>golang.org/x/net/idna\<close>), the public suffix list (\<^verbatim>\<open>golang.org/x/net/publicsuffix\<close>) and the
  Unicode case table are the fields of \<open>names\<close>; ASCII case folding is written out. A name that is an
  IP address and a name with an invalid label are one error here, because an IPv6 literal, which
  always has a colon, is refused by the label check just as well.
\<close>

section \<open>Model\<close>

record names =
  idna_lookup :: "string \<Rightarrow> string option"
  effective_tld_plus_one :: "string \<Rightarrow> string option"
  wide_lower :: "string \<Rightarrow> string"

datatype hostname_error = HostShape | HostIdna | HostLength | HostNotDns | HostPort | HostSuffix | HostNotApex

definition ascii_lower :: "char \<Rightarrow> char" where
  "ascii_lower c = (if is_upper c then char_of (of_char c + 32 :: nat) else c)"

definition is_ascii :: "string \<Rightarrow> bool" where
  "is_ascii s = list_all (\<lambda>c. (of_char c :: nat) < 128) s"

definition to_lower :: "names \<Rightarrow> string \<Rightarrow> string" where
  "to_lower n s = (if is_ascii s then map ascii_lower s else wide_lower n s)"

definition label_char :: "char \<Rightarrow> bool" where
  "label_char c = (is_lower c \<or> is_digit c \<or> c = CHR ''-'')"

definition validLabel :: "string \<Rightarrow> bool" where
  "validLabel label =
     (if length label < 1 \<or> length label > 63 \<or> hd label = CHR ''-'' \<or> last label = CHR ''-'' then False
      else list_all label_char label)"

text \<open>\<^verbatim>\<open>netip.ParseAddr\<close> on dotted decimals: four numbers up to 255 without leading zeros.\<close>

definition ipv4_octet :: "string \<Rightarrow> bool" where
  "ipv4_octet s =
     (s \<noteq> [] \<and> list_all is_digit s \<and> (length s = 1 \<or> hd s \<noteq> CHR ''0'') \<and> digits_val s \<le> 255)"

definition is_ipv4 :: "string \<Rightarrow> bool" where
  "is_ipv4 s = (length (str_split CHR ''.'' s) = 4 \<and> list_all ipv4_octet (str_split CHR ''.'' s))"

definition hostname_normalize :: "names \<Rightarrow> string \<Rightarrow> hostname_error + string" where
  "hostname_normalize n value =
     (let trimmed = trim_space value
      in if trimmed = [] \<or> suffix ''.'' trimmed \<or> (\<exists>c\<in>set trimmed. c \<in> set (''/'' @ [CHR 0x5C] @ ''@?# ''))
         then Inl HostShape
         else case idna_lookup n (to_lower n trimmed) of
           None \<Rightarrow> Inl HostIdna
         | Some ascii \<Rightarrow>
             if length ascii > 253 \<or> CHR ''.'' \<notin> set ascii then Inl HostLength
             else if is_ipv4 ascii then Inl HostNotDns
             else if \<not> list_all validLabel (str_split CHR ''.'' ascii) then Inl HostNotDns
             else Inr ascii)"

definition isApex :: "names \<Rightarrow> string \<Rightarrow> hostname_error + bool" where
  "isApex n hostname =
     res_bind (hostname_normalize n hostname) (\<lambda>normalized.
       case effective_tld_plus_one n normalized of
         None \<Rightarrow> Inl HostSuffix
       | Some root \<Rightarrow> Inr (normalized = root))"

definition normalizeApex :: "names \<Rightarrow> string \<Rightarrow> hostname_error + string" where
  "normalizeApex n value =
     res_bind (hostname_normalize n value) (\<lambda>normalized.
     res_bind (isApex n normalized) (\<lambda>ok.
       if \<not> ok then Inl HostNotApex else Inr normalized))"

text \<open>
  \<^verbatim>\<open>net.SplitHostPort\<close>: the host and the port around the last colon. A bracketed host ends at the
  first closing bracket; brackets elsewhere and further colons are errors.
\<close>

definition last_index :: "char \<Rightarrow> string \<Rightarrow> nat option" where
  "last_index c s = (if c \<in> set s then Some (length s - 1 - length (takeWhile (\<lambda>x. x \<noteq> c) (rev s))) else None)"

definition splitHostPort :: "string \<Rightarrow> (string \<times> string) option" where
  "splitHostPort s =
     (case last_index CHR '':'' s of
        None \<Rightarrow> None
      | Some i \<Rightarrow>
          if hd s = CHR ''['' then
            (case str_index s '']'' of
               None \<Rightarrow> None
             | Some e \<Rightarrow>
                 if e + 1 \<noteq> i then None
                 else if CHR ''['' \<in> set (drop 1 s) \<or> CHR '']'' \<in> set (drop (e + 1) s) then None
                 else Some (drop 1 (take e s), drop (i + 1) s))
          else if CHR '':'' \<in> set (take i s) \<or> CHR ''['' \<in> set s \<or> CHR '']'' \<in> set s then None
          else Some (take i s, drop (i + 1) s))"

definition normalizeHostHeader :: "names \<Rightarrow> string \<Rightarrow> hostname_error + string" where
  "normalizeHostHeader n value =
     (case splitHostPort value of
        Some (host, port) \<Rightarrow> if port \<noteq> ''443'' then Inl HostPort else hostname_normalize n host
      | None \<Rightarrow> hostname_normalize n value)"

section \<open>Trimming\<close>

text \<open>Printable ASCII strings are their own trimmed form, and trimming is idempotent.\<close>

definition graphic :: "char \<Rightarrow> bool" where
  "graphic c \<longleftrightarrow> 32 < (of_char c :: nat) \<and> (of_char c :: nat) < 127"

lemma space_rune_bytes: "r \<in> set space_runes \<Longrightarrow> r \<noteq> [] \<and> \<not> graphic (hd r) \<and> \<not> graphic (last r)"
  unfolding space_runes_def byte_chr_def graphic_def by auto

lemma leading_space_pos: "leading_space s \<noteq> 0 \<longleftrightarrow> (\<exists>r\<in>set space_runes. prefix r s)"
proof (cases "find (\<lambda>r. prefix r s) space_runes")
  case None
  then show ?thesis
    using find_None_iff [of "\<lambda>r. prefix r s" space_runes] by (auto simp: leading_space_def)
next
  case (Some r)
  then have r: "r \<in> set space_runes" "prefix r s"
    using find_Some_iff [of "\<lambda>r. prefix r s" space_runes r] nth_mem by auto
  then have "length r \<noteq> 0"
    using space_rune_bytes by auto
  then show ?thesis
    unfolding leading_space_def Some option.case using r by blast
qed

lemma trailing_space_pos: "trailing_space s \<noteq> 0 \<longleftrightarrow> (\<exists>r\<in>set space_runes. suffix r s)"
proof (cases "find (\<lambda>r. suffix r s) space_runes")
  case None
  then show ?thesis
    using find_None_iff [of "\<lambda>r. suffix r s" space_runes] by (auto simp: trailing_space_def)
next
  case (Some r)
  then have r: "r \<in> set space_runes" "suffix r s"
    using find_Some_iff [of "\<lambda>r. suffix r s" space_runes r] nth_mem by auto
  then have "length r \<noteq> 0"
    using space_rune_bytes by auto
  then show ?thesis
    unfolding trailing_space_def Some option.case using r by blast
qed

lemma trim_space_id: "leading_space s = 0 \<Longrightarrow> trailing_space s = 0 \<Longrightarrow> trim_space s = s"
  by (simp add: trim_space_def trim_left.simps [of s] trim_right.simps [of s])

lemma trim_space_graphic:
  assumes "list_all graphic s"
  shows "trim_space s = s"
proof (rule trim_space_id)
  show "leading_space s = 0"
    using leading_space_pos [of s] space_rune_bytes assms
    by (fastforce simp: prefix_def neq_Nil_conv)
  show "trailing_space s = 0"
    using trailing_space_pos [of s] space_rune_bytes assms
    by (fastforce simp: suffix_def list_all_iff dest: last_in_set)
qed

lemma leading_space_trim_left: "leading_space (trim_left s) = 0"
  by (induction s rule: trim_left.induct) (subst trim_left.simps, simp)

lemma trim_right_props: "trailing_space (trim_right s) = 0 \<and> prefix (trim_right s) s"
proof (induction s rule: trim_right.induct)
  case (1 s)
  then show ?case
    by (subst (1 2) trim_right.simps) (auto intro: prefix_order.trans take_is_prefix)
qed

lemma trim_space_idem [simp]: "trim_space (trim_space s) = trim_space s"
proof (rule trim_space_id)
  show "leading_space (trim_space s) = 0"
    using leading_space_pos leading_space_trim_left trim_right_props prefix_order.trans
    unfolding trim_space_def by metis
  show "trailing_space (trim_space s) = 0"
    using trim_right_props by (simp add: trim_space_def)
qed

section \<open>Canonical names\<close>

lemma to_lower_id: "is_ascii s \<Longrightarrow> \<forall>c\<in>set s. \<not> is_upper c \<Longrightarrow> to_lower n s = s"
  by (simp add: to_lower_def ascii_lower_def map_idI)

lemma label_char_graphic:
  assumes "label_char c"
  shows "graphic c" "\<not> is_upper c" "(of_char c :: nat) < 128"
  using assms
  by (auto simp: label_char_def graphic_def is_lower_def is_digit_def is_upper_def less_eq_char_def)

text \<open>What \<^verbatim>\<open>Normalize\<close> accepts: a dotted sequence of valid labels.\<close>

definition canonical_hostname :: "string \<Rightarrow> bool" where
  "canonical_hostname s \<longleftrightarrow> length s \<le> 253 \<and> CHR ''.'' \<in> set s \<and> \<not> is_ipv4 s
     \<and> list_all validLabel (str_split CHR ''.'' s)"

lemma canonical_hostname_chars:
  assumes "canonical_hostname s" "c \<in> set s"
  shows "label_char c \<or> c = CHR ''.''"
proof (cases "c = CHR ''.''")
  case False
  from set_str_join [of "CHR ''.''" "str_split CHR ''.'' s"]
  obtain w where "w \<in> set (str_split CHR ''.'' s)" "c \<in> set w"
    using assms(2) False by auto
  then show ?thesis
    using assms(1) by (auto simp: canonical_hostname_def list_all_iff validLabel_def split: if_splits)
qed simp

lemma canonical_hostname_no_trailing_dot:
  assumes "canonical_hostname s"
  shows "\<not> suffix ''.'' s"
proof
  assume "suffix ''.'' s"
  then obtain p where p: "s = p @ ''.''"
    by (auto simp: suffix_def)
  have "[] \<in> set (str_split CHR ''.'' (p @ ''.''))"
    by (simp add: str_split_snoc_sep)
  then show False
    using assms unfolding canonical_hostname_def list_all_iff validLabel_def p by auto
qed

lemma normalize_canonical: "hostname_normalize n value = Inr h \<Longrightarrow> canonical_hostname h"
  by (auto simp: hostname_normalize_def canonical_hostname_def Let_def split: if_splits option.splits)

text \<open>
  With an IDNA conversion that leaves its results alone, canonical names are fixed points.
\<close>

definition idna_stable :: "names \<Rightarrow> bool" where
  "idna_stable n \<longleftrightarrow> (\<forall>x c. idna_lookup n x = Some c \<longrightarrow> idna_lookup n c = Some c)"

lemma normalize_fixpoint:
  assumes "hostname_normalize n value = Inr h" "idna_stable n"
  shows "hostname_normalize n h = Inr h"
proof -
  have can: "canonical_hostname h"
    using assms(1) by (rule normalize_canonical)
  have chars: "graphic c \<and> \<not> is_upper c \<and> (of_char c :: nat) < 128" if "c \<in> set h" for c
    using canonical_hostname_chars [OF can that] label_char_graphic [of c]
    by (auto simp: graphic_def is_upper_def less_eq_char_def)
  then have "trim_space h = h" "to_lower n h = h"
    by (auto simp: list_all_iff is_ascii_def intro!: trim_space_graphic to_lower_id)
  moreover have "idna_lookup n h = Some h"
    using assms by (auto simp: hostname_normalize_def idna_stable_def Let_def split: if_splits option.splits)
  moreover have "c \<notin> set (''/'' @ [CHR 0x5C] @ ''@?# '')" if "c \<in> set h" for c
    using canonical_hostname_chars [OF can that]
    by (auto simp: label_char_def is_lower_def is_digit_def less_eq_char_def)
  ultimately show ?thesis
    using can canonical_hostname_no_trailing_dot [OF can]
    by (auto simp: hostname_normalize_def canonical_hostname_def Let_def)
qed

lemma normalizeApex_fixpoint:
  "normalizeApex n value = Inr h \<Longrightarrow> idna_stable n \<Longrightarrow> normalizeApex n h = Inr h"
  using normalize_fixpoint [of n "value" h]
  by (simp add: normalizeApex_def isApex_def res_bind_eq_Inr split: option.splits if_splits) fastforce

end
