(* ===== verification/Service_Source.thy ===== *)
theory Service_Source
  imports Public_Hostname
begin

text \<open>
  Package \<^verbatim>\<open>internal/servicesource\<close>: where the image of a service comes from, and its canonical form.
  \<open>sources\<close> extends the name services with the Docker reference parser of
  \<^verbatim>\<open>go.podman.io/image\<close>, given by the rendering of the reference it parses. Slices are lists: a nil
  and an empty slice are not distinguished.
\<close>

section \<open>Model\<close>

record sources = names +
  parse_docker_ref :: "string \<Rightarrow> string option"

datatype source_kind = DockerImageUpload | Unconfigured | PublicImage | PrivateImage | OtherSource string

record docker_upload =
  up_repository :: string
  up_branch :: string
  up_workflows :: "string list"
  up_previews :: bool
  up_previewDomain :: string

record source =
  src_type :: source_kind
  src_autoUpdate :: bool
  src_minimumReleaseAgeDays :: int
  src_image :: "string option"
  src_dockerUpload :: "docker_upload option"

datatype source_error =
    ImageOnly | ReleaseAge | ImageReferenceInvalid | UploadOnly | UploadRepository | UploadBranch
  | UploadWorkflow | PreviewHostname hostname_error | PreviewDisabled | UnconfiguredSettings
  | UnsupportedSource

definition maximumReleaseAgeDays :: int where
  "maximumReleaseAgeDays = 36500"

definition lower_alnum :: "char \<Rightarrow> bool" where
  "lower_alnum c = (is_lower c \<or> is_digit c)"

text \<open>\<^verbatim>\<open>[a-z0-9](?:[a-z0-9._-]*[a-z0-9])?\<close>\<close>

definition repository_segment :: "string \<Rightarrow> bool" where
  "repository_segment s =
     (s \<noteq> [] \<and> lower_alnum (hd s) \<and> lower_alnum (last s)
      \<and> list_all (\<lambda>c. lower_alnum c \<or> c \<in> {CHR ''.'', CHR ''_'', CHR ''-''}) s)"

definition validUploadRepository :: "string \<Rightarrow> bool" where
  "validUploadRepository s =
     (case str_split CHR ''/'' s of
        [owner, repo] \<Rightarrow> repository_segment owner \<and> repository_segment repo
      | _ \<Rightarrow> False)"

text \<open>\<^verbatim>\<open>^[^/\\\x00]+\.ya?ml$\<close>\<close>

definition workflow_stem :: "string \<Rightarrow> bool" where
  "workflow_stem s = (s \<noteq> [] \<and> CHR ''/'' \<notin> set s \<and> CHR 0x5C \<notin> set s \<and> CHR 0x00 \<notin> set s)"

definition validWorkflowName :: "string \<Rightarrow> bool" where
  "validWorkflowName s =
     (suffix ''.yml'' s \<and> workflow_stem (take (length s - 4) s)
      \<or> suffix ''.yaml'' s \<and> workflow_stem (take (length s - 5) s))"

text \<open>The loop over the workflow names, with the names seen so far in order.\<close>

fun normalizeWorkflows :: "string list \<Rightarrow> string list \<Rightarrow> string list option" where
  "normalizeWorkflows acc [] = Some acc"
| "normalizeWorkflows acc (w # ws) =
     (let name = trim_space w
      in if \<not> validWorkflowName name then None
         else if name \<in> set acc then normalizeWorkflows acc ws
         else normalizeWorkflows (acc @ [name]) ws)"

definition branch_ok :: "string \<Rightarrow> bool" where
  "branch_ok b =
     (b \<noteq> [] \<and> \<not> prefix ''/'' b \<and> \<not> suffix ''/'' b \<and> \<not> str_contains b ''..''
      \<and> (\<forall>c\<in>set b. c \<notin> set (''~^:?*['' @ [CHR 0x5C, CHR 0x00])))"

definition normalizeUpload :: "names \<Rightarrow> docker_upload \<Rightarrow> source_error + docker_upload" where
  "normalizeUpload n u =
     (let u = u\<lparr>up_repository := to_lower n (trim_space (up_repository u)),
                up_branch := trim_space (up_branch u)\<rparr>
      in if \<not> validUploadRepository (up_repository u) then Inl UploadRepository
         else if \<not> branch_ok (up_branch u) then Inl UploadBranch
         else case normalizeWorkflows [] (up_workflows u) of
           None \<Rightarrow> Inl UploadWorkflow
         | Some workflows \<Rightarrow>
             (let u = u\<lparr>up_workflows := workflows\<rparr>
              in if up_previews u then
                   (case normalizeApex n (up_previewDomain u) of
                      Inl e \<Rightarrow> Inl (PreviewHostname e)
                    | Inr domain \<Rightarrow> Inr (u\<lparr>up_previewDomain := domain\<rparr>))
                 else if trim_space (up_previewDomain u) \<noteq> [] then Inl PreviewDisabled
                 else Inr (u\<lparr>up_previewDomain := []\<rparr>)))"

definition normalizeSource :: "sources \<Rightarrow> source \<Rightarrow> source_error + source" where
  "normalizeSource n s =
     (case src_type s of
        DockerImageUpload \<Rightarrow>
          (case src_dockerUpload s of
             None \<Rightarrow> Inl UploadOnly
           | Some u \<Rightarrow>
               if src_image s \<noteq> None \<or> src_autoUpdate s \<or> src_minimumReleaseAgeDays s \<noteq> 0 then Inl UploadOnly
               else (case normalizeUpload (names.truncate n) u of
                       Inl e \<Rightarrow> Inl e
                     | Inr u' \<Rightarrow> Inr (s\<lparr>src_dockerUpload := Some u'\<rparr>)))
      | Unconfigured \<Rightarrow>
          if src_image s \<noteq> None \<or> src_dockerUpload s \<noteq> None \<or> src_autoUpdate s
             \<or> src_minimumReleaseAgeDays s \<noteq> 0
          then Inl UnconfiguredSettings else Inr s
      | OtherSource _ \<Rightarrow> Inl UnsupportedSource
      | _ \<Rightarrow>
          (case src_image s of
             None \<Rightarrow> Inl ImageOnly
           | Some img \<Rightarrow>
               if src_dockerUpload s \<noteq> None then Inl ImageOnly
               else if src_minimumReleaseAgeDays s < 0 \<or> src_minimumReleaseAgeDays s > maximumReleaseAgeDays
               then Inl ReleaseAge
               else (case parse_docker_ref n (trim_space img) of
                       None \<Rightarrow> Inl ImageReferenceInvalid
                     | Some parsed \<Rightarrow> Inr (s\<lparr>src_image := Some parsed\<rparr>))))"

definition imageReference :: "source \<Rightarrow> string" where
  "imageReference s = (case src_image s of None \<Rightarrow> [] | Some r \<Rightarrow> r)"

definition isImage :: "source \<Rightarrow> bool" where
  "isImage s = (src_type s = PublicImage \<or> src_type s = PrivateImage)"

definition isRemoteImage :: "source \<Rightarrow> bool" where
  "isRemoteImage s = (src_type s = PublicImage \<or> src_type s = PrivateImage)"

definition imageUploadPreviewsEnabled :: "source \<Rightarrow> bool" where
  "imageUploadPreviewsEnabled s =
     (src_type s = DockerImageUpload
      \<and> (case src_dockerUpload s of None \<Rightarrow> False | Some u \<Rightarrow> up_previews u))"

definition imageUploadPreviewDomain :: "source \<Rightarrow> string" where
  "imageUploadPreviewDomain s =
     (if \<not> imageUploadPreviewsEnabled s then []
      else case src_dockerUpload s of None \<Rightarrow> [] | Some u \<Rightarrow> up_previewDomain u)"

definition previewCoverageHostname :: "string \<Rightarrow> string" where
  "previewCoverageHostname root = ''preview-coverage.'' @ root"

section \<open>Canonical sources\<close>

text \<open>The laws of the parsers: they accept their own renderings, which have no white space at the ends.\<close>

definition sources_ok :: "sources \<Rightarrow> bool" where
  "sources_ok n \<longleftrightarrow> idna_stable (names.truncate n)
     \<and> (\<forall>x c. parse_docker_ref n x = Some c \<longrightarrow> trim_space c = c \<and> parse_docker_ref n c = Some c)"

lemma lower_alnum_char:
  assumes "lower_alnum c"
  shows "graphic c" "\<not> is_upper c" "(of_char c :: nat) < 128" "c \<noteq> CHR ''/''"
  using assms
  by (auto simp: lower_alnum_def graphic_def is_lower_def is_digit_def is_upper_def less_eq_char_def)

lemma repository_chars:
  assumes "validUploadRepository s" "c \<in> set s"
  shows "graphic c \<and> \<not> is_upper c \<and> (of_char c :: nat) < 128"
proof (cases "c = CHR ''/''")
  case True
  then show ?thesis
    by (simp add: graphic_def is_upper_def less_eq_char_def)
next
  case False
  with set_str_join [of "CHR ''/''" "str_split CHR ''/'' s"] assms(2)
  obtain w where "w \<in> set (str_split CHR ''/'' s)" "c \<in> set w"
    by auto
  with assms(1) have "lower_alnum c \<or> c \<in> {CHR ''.'', CHR ''_'', CHR ''-''}"
    by (auto simp: validUploadRepository_def repository_segment_def list_all_iff split: list.splits)
  then show ?thesis
    using lower_alnum_char [of c] by (auto simp: graphic_def is_upper_def less_eq_char_def)
qed

lemma repository_fixpoint: "validUploadRepository s \<Longrightarrow> to_lower n (trim_space s) = s"
  using repository_chars [of s]
  by (simp add: trim_space_graphic to_lower_id list_all_iff is_ascii_def)

lemma normalizeWorkflows_result:
  "normalizeWorkflows acc ws = Some r \<Longrightarrow>
     \<forall>w\<in>set acc. validWorkflowName w \<and> trim_space w = w \<Longrightarrow> distinct acc \<Longrightarrow>
     (\<forall>w\<in>set r. validWorkflowName w \<and> trim_space w = w) \<and> distinct r \<and> set acc \<subseteq> set r"
proof (induction ws arbitrary: acc)
  case (Cons w ws)
  show ?case
  proof (cases "trim_space w \<in> set acc")
    case True
    then show ?thesis
      using Cons.IH [of acc] Cons.prems by (simp add: Let_def split: if_splits)
  next
    case False
    then show ?thesis
      using Cons.IH [of "acc @ [trim_space w]"] Cons.prems by (simp add: Let_def split: if_splits)
  qed
qed simp

lemma normalizeWorkflows_stable:
  "\<forall>w\<in>set ws. validWorkflowName w \<and> trim_space w = w \<Longrightarrow> distinct (acc @ ws) \<Longrightarrow>
     normalizeWorkflows acc ws = Some (acc @ ws)"
  by (induction acc ws rule: normalizeWorkflows.induct) (auto simp: Let_def)

lemma normalizeWorkflows_fixpoint: "normalizeWorkflows [] ws = Some r \<Longrightarrow> normalizeWorkflows [] r = Some r"
  using normalizeWorkflows_result [of "[]" ws r] normalizeWorkflows_stable [of r "[]"] by simp

lemma normalizeUpload_fixpoint:
  assumes "normalizeUpload n u = Inr v" "idna_stable n"
  shows "normalizeUpload n v = Inr v"
proof -
  obtain ws where v: "up_repository v = to_lower n (trim_space (up_repository u))"
      "up_branch v = trim_space (up_branch u)" "up_workflows v = ws"
    and ok: "validUploadRepository (up_repository v)" "branch_ok (up_branch v)"
      "normalizeWorkflows [] (up_workflows u) = Some ws"
    and preview: "if up_previews v then normalizeApex n (up_previewDomain u) = Inr (up_previewDomain v)
      else up_previewDomain v = []"
    using assms(1)
    by (simp add: normalizeUpload_def Let_def split: if_splits option.splits sum.splits) auto
  have "trim_space [] = []"
    by (rule trim_space_graphic) simp
  moreover have "up_repository v = to_lower n (trim_space (up_repository v))"
    using ok(1) by (simp only: repository_fixpoint)
  moreover have "trim_space (up_branch v) = up_branch v"
    by (simp add: v(2))
  moreover have "normalizeWorkflows [] (up_workflows v) = Some (up_workflows v)"
    using ok(3) v(3) normalizeWorkflows_fixpoint by metis
  moreover have "up_previews v \<Longrightarrow> normalizeApex n (up_previewDomain v) = Inr (up_previewDomain v)"
    using preview normalizeApex_fixpoint assms(2) by metis
  ultimately show ?thesis
    using ok(1,2) preview
    by (cases v) (simp add: normalizeUpload_def Let_def split: if_splits)
qed

lemma parsed_ref_fixpoint:
  "parse_docker_ref n x = Some c \<Longrightarrow> sources_ok n \<Longrightarrow> parse_docker_ref n (trim_space c) = Some c"
  unfolding sources_ok_def by metis

lemma uploaded_fixpoint:
  "normalizeUpload (names.truncate n) u = Inr v \<Longrightarrow> sources_ok n \<Longrightarrow>
     normalizeUpload (names.truncate n) v = Inr v"
  unfolding sources_ok_def by (metis normalizeUpload_fixpoint)

lemma normalizeSource_fixpoint:
  assumes "normalizeSource n s = Inr t" "sources_ok n"
  shows "normalizeSource n t = Inr t"
proof (cases "src_type s")
  case DockerImageUpload
  then show ?thesis
    using assms uploaded_fixpoint [of n _ _]
    by (simp add: normalizeSource_def split: if_splits option.splits sum.splits) fastforce
next
  case PublicImage
  then show ?thesis
    using assms parsed_ref_fixpoint [of n]
    by (simp add: normalizeSource_def split: if_splits option.splits) fastforce
next
  case PrivateImage
  then show ?thesis
    using assms parsed_ref_fixpoint [of n]
    by (simp add: normalizeSource_def split: if_splits option.splits) fastforce
qed (use assms in \<open>simp_all add: normalizeSource_def split: if_splits\<close>)

lemma normalizeSource_kind: "normalizeSource n s = Inr t \<Longrightarrow> src_type t = src_type s"
  by (auto simp: normalizeSource_def split: source_kind.splits if_splits option.splits sum.splits)

end
