(* ===== verification/Service_Config.thy ===== *)
theory Service_Config
  imports Service_Source Go_Path
begin

text \<open>
  Package \<^verbatim>\<open>internal/serviceconfig\<close>: the desired configuration of a service, its validation and its
  canonical form, whose hash identifies a deployment. The environment is an association list with
  distinct names, in the order in which the Go map is iterated; slices are lists. The JSON encoder and
  SHA-256 are parameters of \<open>config_canonical\<close>, the parsers for image references and digests
  are fields of \<open>sources\<close> and \<open>image_refs\<close>.
\<close>

section \<open>Model\<close>

record secret_reference =
  sec_name :: string
  sec_id :: string

record volume_mount =
  vol_id :: string
  vol_path :: string

record health_check =
  hc_port :: int
  hc_path :: string
  hc_timeout :: int

record before_deploy =
  bd_command :: string
  bd_hostnames :: "string list"

record port_forward =
  pf_repository :: string
  pf_workflows :: "string list"

record service_snapshot =
  sn_source :: source
  sn_beforeDeploy :: "before_deploy option"
  sn_portForward :: "port_forward option"
  sn_command :: "string list"
  sn_args :: "string list"
  sn_environment :: "(string \<times> string) list"
  sn_secrets :: "secret_reference list"
  sn_healthCheck :: "health_check option"
  sn_cpu :: int
  sn_memory :: int
  sn_volumes :: "volume_mount list"

datatype config_error =
    SourceInvalid source_error | BeforeDeployCommand | BeforeDeployHostname hostname_error
  | TooManyHostnames | PortForwardRepository | PortForwardWorkflow
  | ProcessCount | ProcessNul | ProcessBytes
  | EnvCount | EnvName string | EnvReserved string | EnvNul string | EnvSecret | EnvDuplicate string
  | EnvBytes | HealthPort | HealthPath | HealthTimeout | NegativeLimit
  | VolumeId | VolumePath string | VolumeTwice string | VolumePathTwice string
  | EncodeFailed | ReferenceInvalid | DigestInvalid | RepositoryInvalid | PinInvalid

definition defaultHealthTimeoutSeconds :: int where
  "defaultHealthTimeoutSeconds = 60"

definition maximumBeforeDeployBytes :: nat where
  "maximumBeforeDeployBytes = 262144"

definition maximumCloudflareHostnames :: nat where
  "maximumCloudflareHostnames = 30"

definition maximumEnvironmentBytes :: nat where
  "maximumEnvironmentBytes = 262144"

definition maximumEnvironmentVariables :: nat where
  "maximumEnvironmentVariables = 1024"

definition maximumProcessArguments :: nat where
  "maximumProcessArguments = 1024"

definition maximumProcessBytes :: nat where
  "maximumProcessBytes = 262144"

definition has_nul :: "string \<Rightarrow> bool" where
  "has_nul s = (CHR 0x00 \<in> set s)"

definition environmentName :: "string \<Rightarrow> bool" where
  "environmentName s =
     (s \<noteq> [] \<and> (is_upper (hd s) \<or> is_lower (hd s) \<or> hd s = CHR ''_'')
      \<and> list_all (\<lambda>c. is_upper c \<or> is_lower c \<or> is_digit c \<or> c = CHR ''_'') (tl s))"

definition publicImageSource :: "string \<Rightarrow> source" where
  "publicImageSource r =
     \<lparr>src_type = PublicImage, src_autoUpdate = True, src_minimumReleaseAgeDays = 0, src_image = Some r,
      src_dockerUpload = None\<rparr>"

definition privateImageSource :: "string \<Rightarrow> source" where
  "privateImageSource r =
     \<lparr>src_type = PrivateImage, src_autoUpdate = True, src_minimumReleaseAgeDays = 0, src_image = Some r,
      src_dockerUpload = None\<rparr>"

section \<open>Validation\<close>

definition process_bytes :: "string list \<Rightarrow> nat" where
  "process_bytes vs = sum_list (map length vs)"

definition validateProcess :: "string list \<Rightarrow> string list \<Rightarrow> config_error option" where
  "validateProcess command arguments =
     (if length command > maximumProcessArguments \<or> length arguments > maximumProcessArguments
      then Some ProcessCount
      else if list_ex has_nul (command @ arguments) then Some ProcessNul
      else if process_bytes (command @ arguments) > maximumProcessBytes then Some ProcessBytes
      else None)"

definition environmentBytes :: "(string \<times> string) list \<Rightarrow> secret_reference list \<Rightarrow> nat" where
  "environmentBytes env secrets =
     sum_list (map (\<lambda>(name, v). length name + length v) env)
     + sum_list (map (\<lambda>r. length (sec_name r) + length (sec_id r)) secrets)"

fun validateVariables :: "(string \<times> string) list \<Rightarrow> config_error option" where
  "validateVariables [] = None"
| "validateVariables ((name, v) # env) =
     (if \<not> environmentName name then Some (EnvName name)
      else if prefix ''PLATFORMD_'' name then Some (EnvReserved name)
      else if has_nul v then Some (EnvNul name)
      else validateVariables env)"

fun validateSecrets :: "string list \<Rightarrow> secret_reference list \<Rightarrow> config_error option" where
  "validateSecrets seen [] = None"
| "validateSecrets seen (r # rs) =
     (if \<not> environmentName (sec_name r) \<or> sec_id r = [] \<or> has_nul (sec_id r) then Some EnvSecret
      else if prefix ''PLATFORMD_'' (sec_name r) then Some (EnvReserved (sec_name r))
      else if sec_name r \<in> set seen then Some (EnvDuplicate (sec_name r))
      else validateSecrets (sec_name r # seen) rs)"

definition validateEnvironment :: "(string \<times> string) list \<Rightarrow> secret_reference list \<Rightarrow> config_error option" where
  "validateEnvironment env secrets =
     (if length env + length secrets > maximumEnvironmentVariables then Some EnvCount
      else err_then (validateVariables env)
          (err_then (validateSecrets (map fst env) secrets)
            (if environmentBytes env secrets > maximumEnvironmentBytes then Some EnvBytes else None)))"

fun validateVolumes :: "string list \<Rightarrow> string list \<Rightarrow> volume_mount list \<Rightarrow> config_error option" where
  "validateVolumes ids paths [] = None"
| "validateVolumes ids paths (m # ms) =
     (if vol_id m = [] \<or> has_nul (vol_id m) then Some VolumeId
      else if \<not> prefix ''/'' (vol_path m) \<or> vol_path m = ''/'' \<or> path_clean (vol_path m) \<noteq> vol_path m
      then Some (VolumePath (vol_path m))
      else if vol_id m \<in> set ids then Some (VolumeTwice (vol_id m))
      else if vol_path m \<in> set paths then Some (VolumePathTwice (vol_path m))
      else validateVolumes (vol_id m # ids) (vol_path m # paths) ms)"

definition validateVolumeMounts :: "volume_mount list \<Rightarrow> config_error option" where
  "validateVolumeMounts ms = validateVolumes [] [] ms"

text \<open>
  \<^verbatim>\<open>url.ParseRequestURI\<close> of a string that begins with a slash fails on a control character and on a
  malformed percent escape before the query; it parses neither a host nor a fragment.
\<close>

definition is_hex :: "char \<Rightarrow> bool" where
  "is_hex c = (is_digit c \<or> (CHR ''a'' \<le> c \<and> c \<le> CHR ''f'') \<or> (CHR ''A'' \<le> c \<and> c \<le> CHR ''F''))"

fun escapes_ok :: "string \<Rightarrow> bool" where
  "escapes_ok [] = True"
| "escapes_ok (c # s) =
     (if c = CHR ''%'' then
        (case s of
           h # l # t \<Rightarrow> is_hex h \<and> is_hex l \<and> escapes_ok t
         | _ \<Rightarrow> False)
      else escapes_ok s)"

definition request_path_ok :: "string \<Rightarrow> bool" where
  "request_path_ok p =
     (prefix ''/'' p \<and> (\<forall>c\<in>set p. 32 \<le> (of_char c :: nat) \<and> (of_char c :: nat) \<noteq> 127)
      \<and> escapes_ok (takeWhile (\<lambda>c. c \<noteq> CHR ''?'') p))"

definition validateHealth :: "health_check \<Rightarrow> config_error option" where
  "validateHealth h =
     (if hc_port h < 1 \<or> hc_port h > 65535 then Some HealthPort
      else if \<not> request_path_ok (hc_path h) then Some HealthPath
      else if hc_timeout h < 1 \<or> hc_timeout h > 3600 then Some HealthTimeout
      else None)"

definition validateSnapshot :: "service_snapshot \<Rightarrow> config_error option" where
  "validateSnapshot s =
     err_then (validateProcess (sn_command s) (sn_args s))
    (err_then (validateEnvironment (sn_environment s) (sn_secrets s))
       (if length (sn_environment s) + length (sn_secrets s) > maximumEnvironmentVariables then Some EnvCount
        else if environmentBytes (sn_environment s) (sn_secrets s) > maximumEnvironmentBytes then Some EnvBytes
        else
     err_then (case sn_healthCheck s of None \<Rightarrow> None | Some h \<Rightarrow> validateHealth h)
       (if sn_cpu s < 0 \<or> sn_memory s < 0 then Some NegativeLimit
        else validateVolumeMounts (sn_volumes s))))"

section \<open>Normalisation\<close>

definition normalizePortForward :: "sources \<Rightarrow> port_forward option \<Rightarrow> config_error + port_forward option" where
  "normalizePortForward n input =
     (case input of
        None \<Rightarrow> Inr None
      | Some p \<Rightarrow>
          (let repository = to_lower (names.truncate n) (trim_space (pf_repository p))
           in if repository = [] \<and> pf_workflows p = [] then Inr None
              else if \<not> validUploadRepository repository then Inl PortForwardRepository
              else case normalizeWorkflows [] (pf_workflows p) of
                None \<Rightarrow> Inl PortForwardWorkflow
              | Some ws \<Rightarrow> Inr (Some \<lparr>pf_repository = repository, pf_workflows = ws\<rparr>)))"

fun normalizeHostnames :: "names \<Rightarrow> string list \<Rightarrow> string list \<Rightarrow> hostname_error + string list" where
  "normalizeHostnames n acc [] = Inr acc"
| "normalizeHostnames n acc (v # vs) =
     (case hostname_normalize n v of
        Inl e \<Rightarrow> Inl e
      | Inr h \<Rightarrow> if h \<in> set acc then normalizeHostnames n acc vs else normalizeHostnames n (acc @ [h]) vs)"

definition normalizeBeforeDeploy :: "sources \<Rightarrow> before_deploy option \<Rightarrow> config_error + before_deploy option" where
  "normalizeBeforeDeploy n input =
     (case input of
        None \<Rightarrow> Inr None
      | Some b \<Rightarrow>
          (let command = trim_space (bd_command b)
           in if has_nul command \<or> length command > maximumBeforeDeployBytes then Inl BeforeDeployCommand
              else case normalizeHostnames (names.truncate n) [] (bd_hostnames b) of
                Inl e \<Rightarrow> Inl (BeforeDeployHostname e)
              | Inr hs \<Rightarrow>
                  if length hs > maximumCloudflareHostnames then Inl TooManyHostnames
                  else if command = [] \<and> hs = [] then Inr None
                  else Inr (Some \<lparr>bd_command = command, bd_hostnames = sort hs\<rparr>)))"

definition secret_key :: "secret_reference \<Rightarrow> string \<times> string" where
  "secret_key r = (sec_name r, sec_id r)"

definition volume_key :: "volume_mount \<Rightarrow> string \<times> string" where
  "volume_key m = (vol_path m, vol_id m)"

definition default_health :: "health_check \<Rightarrow> health_check" where
  "default_health h = (if hc_timeout h = 0 then h\<lparr>hc_timeout := defaultHealthTimeoutSeconds\<rparr> else h)"

definition config_normalize :: "sources \<Rightarrow> service_snapshot \<Rightarrow> config_error + service_snapshot" where
  "config_normalize n input =
     (case normalizeSource n (sn_source input) of
        Inl e \<Rightarrow> Inl (SourceInvalid e)
      | Inr source \<Rightarrow>
     (case normalizeBeforeDeploy n (sn_beforeDeploy input) of
        Inl e \<Rightarrow> Inl e
      | Inr beforeDeploy \<Rightarrow>
     (case normalizePortForward n (sn_portForward input) of
        Inl e \<Rightarrow> Inl e
      | Inr portForward \<Rightarrow>
        (let normalized = input\<lparr>sn_source := source, sn_beforeDeploy := beforeDeploy,
               sn_portForward := portForward,
               sn_healthCheck := map_option default_health (sn_healthCheck input)\<rparr>
         in case validateSnapshot normalized of
              Some e \<Rightarrow> Inl e
            | None \<Rightarrow>
                Inr (normalized\<lparr>sn_secrets := sort_key secret_key (sn_secrets input),
                       sn_volumes := sort_key volume_key (sn_volumes input)\<rparr>)))))"

text \<open>\<^verbatim>\<open>Canonical\<close>: the normal form, the bytes that are hashed, and the hash.\<close>

definition config_canonical ::
  "(service_snapshot \<Rightarrow> string option) \<Rightarrow> (string \<Rightarrow> string) \<Rightarrow> sources \<Rightarrow> service_snapshot \<Rightarrow>
   config_error + (service_snapshot \<times> string \<times> string)" where
  "config_canonical encode sha256_hex n input =
     (case config_normalize n input of
        Inl e \<Rightarrow> Inl e
      | Inr normalized \<Rightarrow>
          (case encode (normalized\<lparr>sn_portForward := None\<rparr>) of
             None \<Rightarrow> Inl EncodeFailed
           | Some encoded \<Rightarrow> Inr (normalized, encoded, sha256_hex encoded)))"

text \<open>
  The digest and reference libraries: the name of a parsed reference, whether it is pinned by a digest,
  and the rendering of a name with a digest.
\<close>

record image_refs = sources +
  ref_name :: "string \<Rightarrow> string"
  ref_digested :: "string \<Rightarrow> bool"
  parse_digest :: "string \<Rightarrow> string option"
  with_name :: "string \<Rightarrow> string option"
  with_digest :: "string \<Rightarrow> string \<Rightarrow> string option"

definition pinnedReference :: "image_refs \<Rightarrow> string \<Rightarrow> string \<Rightarrow> config_error + string" where
  "pinnedReference n reference digest =
     (case parse_docker_ref n (trim_space reference) of
        None \<Rightarrow> Inl ReferenceInvalid
      | Some named \<Rightarrow>
     (case parse_digest n digest of
        None \<Rightarrow> Inl DigestInvalid
      | Some parsed \<Rightarrow>
     (case with_name n (ref_name n named) of
        None \<Rightarrow> Inl RepositoryInvalid
      | Some repository \<Rightarrow>
     (case with_digest n repository parsed of
        None \<Rightarrow> Inl PinInvalid
      | Some pinned \<Rightarrow> Inr pinned))))"

definition isDigestReference :: "image_refs \<Rightarrow> string \<Rightarrow> bool" where
  "isDigestReference n reference =
     (case parse_docker_ref n (trim_space reference) of
        None \<Rightarrow> False
      | Some named \<Rightarrow> ref_digested n named)"

section \<open>What validation accepts\<close>

definition variable_ok :: "string \<times> string \<Rightarrow> bool" where
  "variable_ok nv \<longleftrightarrow> environmentName (fst nv) \<and> \<not> prefix ''PLATFORMD_'' (fst nv) \<and> \<not> has_nul (snd nv)"

definition secret_ok :: "secret_reference \<Rightarrow> bool" where
  "secret_ok r \<longleftrightarrow> environmentName (sec_name r) \<and> sec_id r \<noteq> [] \<and> \<not> has_nul (sec_id r)
     \<and> \<not> prefix ''PLATFORMD_'' (sec_name r)"

definition volume_ok :: "volume_mount \<Rightarrow> bool" where
  "volume_ok m \<longleftrightarrow> vol_id m \<noteq> [] \<and> \<not> has_nul (vol_id m) \<and> prefix ''/'' (vol_path m)
     \<and> vol_path m \<noteq> ''/'' \<and> path_clean (vol_path m) = vol_path m"

definition health_ok :: "health_check \<Rightarrow> bool" where
  "health_ok h \<longleftrightarrow> 1 \<le> hc_port h \<and> hc_port h \<le> 65535 \<and> request_path_ok (hc_path h)
     \<and> 1 \<le> hc_timeout h \<and> hc_timeout h \<le> 3600"

definition snapshot_ok :: "service_snapshot \<Rightarrow> bool" where
  "snapshot_ok s \<longleftrightarrow>
     length (sn_command s) \<le> maximumProcessArguments \<and> length (sn_args s) \<le> maximumProcessArguments
     \<and> (\<forall>v\<in>set (sn_command s) \<union> set (sn_args s). \<not> has_nul v)
     \<and> process_bytes (sn_command s @ sn_args s) \<le> maximumProcessBytes
     \<and> length (sn_environment s) + length (sn_secrets s) \<le> maximumEnvironmentVariables
     \<and> environmentBytes (sn_environment s) (sn_secrets s) \<le> maximumEnvironmentBytes
     \<and> (\<forall>nv\<in>set (sn_environment s). variable_ok nv) \<and> (\<forall>r\<in>set (sn_secrets s). secret_ok r)
     \<and> distinct (map sec_name (sn_secrets s))
     \<and> sec_name ` set (sn_secrets s) \<inter> fst ` set (sn_environment s) = {}
     \<and> (\<forall>h\<in>set_option (sn_healthCheck s). health_ok h)
     \<and> 0 \<le> sn_cpu s \<and> 0 \<le> sn_memory s
     \<and> (\<forall>m\<in>set (sn_volumes s). volume_ok m)
     \<and> distinct (map vol_id (sn_volumes s)) \<and> distinct (map vol_path (sn_volumes s))"

lemma validateVariables_None: "validateVariables env = None \<longleftrightarrow> (\<forall>nv\<in>set env. variable_ok nv)"
  by (induction env rule: validateVariables.induct) (auto simp: variable_ok_def)

lemma validateSecrets_None:
  "validateSecrets seen rs = None \<longleftrightarrow>
     (\<forall>r\<in>set rs. secret_ok r) \<and> distinct (map sec_name rs) \<and> sec_name ` set rs \<inter> set seen = {}"
  by (induction seen rs rule: validateSecrets.induct) (auto simp: secret_ok_def)

lemma validateVolumes_None:
  "validateVolumes ids paths ms = None \<longleftrightarrow>
     (\<forall>m\<in>set ms. volume_ok m) \<and> distinct (map vol_id ms) \<and> distinct (map vol_path ms)
     \<and> vol_id ` set ms \<inter> set ids = {} \<and> vol_path ` set ms \<inter> set paths = {}"
  by (induction ids paths ms rule: validateVolumes.induct) (auto simp: volume_ok_def)

lemma validateProcess_None:
  "validateProcess command arguments = None \<longleftrightarrow>
     length command \<le> maximumProcessArguments \<and> length arguments \<le> maximumProcessArguments
     \<and> (\<forall>v\<in>set command \<union> set arguments. \<not> has_nul v)
     \<and> process_bytes (command @ arguments) \<le> maximumProcessBytes"
  by (auto simp: validateProcess_def list_ex_iff)

lemma validateEnvironment_None:
  "validateEnvironment env secrets = None \<longleftrightarrow>
     length env + length secrets \<le> maximumEnvironmentVariables
     \<and> environmentBytes env secrets \<le> maximumEnvironmentBytes
     \<and> (\<forall>nv\<in>set env. variable_ok nv) \<and> (\<forall>r\<in>set secrets. secret_ok r)
     \<and> distinct (map sec_name secrets) \<and> sec_name ` set secrets \<inter> fst ` set env = {}"
  unfolding validateEnvironment_def err_then_None guard_None validateVariables_None validateSecrets_None
  by (simp add: not_less) blast

lemma validateHealth_None: "validateHealth h = None \<longleftrightarrow> health_ok h"
  by (auto simp: validateHealth_def health_ok_def)

lemma validateSnapshot_None: "validateSnapshot s = None \<longleftrightarrow> snapshot_ok s"
proof -
  have health: "(case sn_healthCheck s of None \<Rightarrow> None | Some h \<Rightarrow> validateHealth h) = None
      \<longleftrightarrow> (\<forall>h\<in>set_option (sn_healthCheck s). health_ok h)"
    by (simp add: validateHealth_None split: option.splits)
  have "validateVolumeMounts (sn_volumes s) = None \<longleftrightarrow> (\<forall>m\<in>set (sn_volumes s). volume_ok m)
      \<and> distinct (map vol_id (sn_volumes s)) \<and> distinct (map vol_path (sn_volumes s))"
    by (simp add: validateVolumeMounts_def validateVolumes_None)
  then show ?thesis
    using health validateProcess_None [of "sn_command s" "sn_args s"]
      validateEnvironment_None [of "sn_environment s" "sn_secrets s"]
    unfolding validateSnapshot_def snapshot_ok_def err_then_None guard_None by (simp add: not_less) blast
qed

section \<open>Normal forms are fixed points\<close>

lemma sum_list_sort: "sum_list (map f (sort_key k xs)) = (sum_list (map f xs) :: nat)"
  by (metis mset_map mset_sort sum_mset_sum_list)

lemma distinct_map_sort: "distinct (map f (sort_key k xs)) \<longleftrightarrow> distinct (map f xs)"
  by (rule mset_eq_imp_distinct_iff) (simp add: mset_map)

lemma environmentBytes_sort: "environmentBytes env (sort_key k secrets) = environmentBytes env secrets"
  by (simp add: environmentBytes_def sum_list_sort)

lemma snapshot_ok_sort:
  "snapshot_ok (s\<lparr>sn_secrets := sort_key k (sn_secrets s), sn_volumes := sort_key j (sn_volumes s)\<rparr>)
     \<longleftrightarrow> snapshot_ok s"
  by (simp add: snapshot_ok_def environmentBytes_sort distinct_map_sort)

lemma default_health_idem [simp]: "default_health (default_health h) = default_health h"
  by (simp add: default_health_def defaultHealthTimeoutSeconds_def)

lemma normalizeHostnames_result:
  "normalizeHostnames n acc vs = Inr hs \<Longrightarrow> idna_stable n \<Longrightarrow>
     \<forall>h\<in>set acc. hostname_normalize n h = Inr h \<Longrightarrow> distinct acc \<Longrightarrow>
     (\<forall>h\<in>set hs. hostname_normalize n h = Inr h) \<and> distinct hs"
proof (induction vs arbitrary: acc)
  case (Cons v vs)
  then obtain h where h: "hostname_normalize n v = Inr h"
    by (auto split: sum.splits)
  then have fix_h: "hostname_normalize n h = Inr h"
    using normalize_fixpoint Cons.prems(2) by blast
  show ?case
  proof (cases "h \<in> set acc")
    case True
    then show ?thesis
      using Cons.IH [of acc] Cons.prems h by simp
  next
    case False
    then show ?thesis
      using Cons.IH [of "acc @ [h]"] Cons.prems h fix_h by simp
  qed
qed simp

lemma normalizeHostnames_stable:
  "\<forall>h\<in>set hs. hostname_normalize n h = Inr h \<Longrightarrow> distinct (acc @ hs) \<Longrightarrow>
     normalizeHostnames n acc hs = Inr (acc @ hs)"
  by (induction hs arbitrary: acc) simp_all

lemma normalizeBeforeDeploy_fixpoint:
  assumes "normalizeBeforeDeploy n b = Inr c" "sources_ok n"
  shows "normalizeBeforeDeploy n c = Inr c"
proof (cases c)
  case None
  then show ?thesis by (simp add: normalizeBeforeDeploy_def)
next
  case (Some d)
  then obtain x hs where x: "b = Some x" and cmd: "bd_command d = trim_space (bd_command x)"
      "\<not> has_nul (bd_command d)" "length (bd_command d) \<le> maximumBeforeDeployBytes"
    and hs: "normalizeHostnames (names.truncate n) [] (bd_hostnames x) = Inr hs" "bd_hostnames d = sort hs"
      "length hs \<le> maximumCloudflareHostnames" "bd_command d = [] \<longrightarrow> hs \<noteq> []"
    using assms(1)
    by (auto simp: normalizeBeforeDeploy_def Let_def split: option.splits if_splits sum.splits)
  have "idna_stable (names.truncate n)"
    using assms(2) by (simp add: sources_ok_def)
  then have "normalizeHostnames (names.truncate n) [] (sort hs) = Inr (sort hs)"
    using normalizeHostnames_result [OF hs(1)] normalizeHostnames_stable [of "sort hs" _ "[]"] by simp
  moreover have "trim_space (bd_command d) = bd_command d"
    by (simp add: cmd(1))
  moreover have "sort hs = [] \<longleftrightarrow> hs = []"
    by (metis mset_sort mset_zero_iff)
  ultimately show ?thesis
    using Some cmd(2,3) hs(2,3,4) by (cases d) (simp add: normalizeBeforeDeploy_def Let_def sorted_sort_id)
qed

lemma normalizePortForward_fixpoint:
  assumes "normalizePortForward n p = Inr q"
  shows "normalizePortForward n q = Inr q"
proof (cases q)
  case None
  then show ?thesis by (simp add: normalizePortForward_def)
next
  case (Some d)
  then obtain x where "p = Some x" and valid: "validUploadRepository (pf_repository d)"
    and ws: "normalizeWorkflows [] (pf_workflows x) = Some (pf_workflows d)"
    using assms by (auto simp: normalizePortForward_def Let_def split: option.splits if_splits)
  have "pf_repository d \<noteq> []"
    using valid by (auto simp: validUploadRepository_def)
  then show ?thesis
    using Some valid normalizeWorkflows_fixpoint [OF ws]
    by (simp add: normalizePortForward_def repository_fixpoint)
qed

lemma config_normalizeE:
  assumes "config_normalize n s = Inr t"
  obtains source before forward where "normalizeSource n (sn_source s) = Inr source"
    "normalizeBeforeDeploy n (sn_beforeDeploy s) = Inr before"
    "normalizePortForward n (sn_portForward s) = Inr forward"
    "t = s\<lparr>sn_source := source, sn_beforeDeploy := before,
       sn_portForward := forward, sn_healthCheck := map_option default_health (sn_healthCheck s),
       sn_secrets := sort_key secret_key (sn_secrets s), sn_volumes := sort_key volume_key (sn_volumes s)\<rparr>"
    "snapshot_ok t"
proof -
  obtain source before forward u where r: "normalizeSource n (sn_source s) = Inr source"
    "normalizeBeforeDeploy n (sn_beforeDeploy s) = Inr before"
    "normalizePortForward n (sn_portForward s) = Inr forward"
    and u: "u = s\<lparr>sn_source := source, sn_beforeDeploy := before, sn_portForward := forward,
      sn_healthCheck := map_option default_health (sn_healthCheck s)\<rparr>" "validateSnapshot u = None"
    and t: "t = u\<lparr>sn_secrets := sort_key secret_key (sn_secrets u), sn_volumes := sort_key volume_key (sn_volumes u)\<rparr>"
    using assms by (auto simp: config_normalize_def Let_def split: sum.splits option.splits)
  have "snapshot_ok t"
    using u(2) by (simp only: t snapshot_ok_sort validateSnapshot_None)
  then show thesis
    using r by (intro that) (simp_all add: t u(1))
qed

lemma config_normalizeI:
  assumes "normalizeSource n (sn_source s) = Inr source"
    "normalizeBeforeDeploy n (sn_beforeDeploy s) = Inr before"
    "normalizePortForward n (sn_portForward s) = Inr forward"
    and t: "t = s\<lparr>sn_source := source, sn_beforeDeploy := before,
       sn_portForward := forward, sn_healthCheck := map_option default_health (sn_healthCheck s),
       sn_secrets := sort_key secret_key (sn_secrets s), sn_volumes := sort_key volume_key (sn_volumes s)\<rparr>"
    and "snapshot_ok t"
  shows "config_normalize n s = Inr t"
proof -
  define u where "u = s\<lparr>sn_source := source, sn_beforeDeploy := before, sn_portForward := forward,
    sn_healthCheck := map_option default_health (sn_healthCheck s)\<rparr>"
  have "t = u\<lparr>sn_secrets := sort_key secret_key (sn_secrets u), sn_volumes := sort_key volume_key (sn_volumes u)\<rparr>"
    by (simp add: t u_def)
  moreover from this have "validateSnapshot u = None"
    using assms(5) by (simp only: snapshot_ok_sort validateSnapshot_None)
  ultimately show ?thesis
    using assms(1-3) by (simp add: config_normalize_def u_def [symmetric]) (simp add: u_def)
qed

lemma snapshot_ok_port_forward: "snapshot_ok (s\<lparr>sn_portForward := p\<rparr>) = snapshot_ok s"
  by (simp add: snapshot_ok_def)

lemma normalized_fixpoint:
  assumes "config_normalize n s = Inr t" "sources_ok n"
  shows "config_normalize n t = Inr t"
proof -
  obtain source before forward where r: "normalizeSource n (sn_source s) = Inr source"
      "normalizeBeforeDeploy n (sn_beforeDeploy s) = Inr before"
      "normalizePortForward n (sn_portForward s) = Inr forward"
    and t: "t = s\<lparr>sn_source := source, sn_beforeDeploy := before,
       sn_portForward := forward, sn_healthCheck := map_option default_health (sn_healthCheck s),
       sn_secrets := sort_key secret_key (sn_secrets s), sn_volumes := sort_key volume_key (sn_volumes s)\<rparr>"
    and ok: "snapshot_ok t"
    using assms(1) by (rule config_normalizeE)
  have "normalizeSource n source = Inr source" "normalizeBeforeDeploy n before = Inr before"
    "normalizePortForward n forward = Inr forward"
    using normalizeSource_fixpoint [OF r(1) assms(2)] normalizeBeforeDeploy_fixpoint [OF r(2) assms(2)]
      normalizePortForward_fixpoint [OF r(3)] .
  moreover have "validateSnapshot t = None"
    using ok by (simp only: validateSnapshot_None)
  ultimately show ?thesis
    unfolding t by (cases s) (simp add: config_normalize_def option.map_comp comp_def sort_key_id_if_sorted)
qed

section \<open>A snapshot, evaluated\<close>

definition sample_sources :: sources where
  "sample_sources =
     \<lparr>idna_lookup = (\<lambda>s. if s = ''example.com'' then Some s else None),
      effective_tld_plus_one = (\<lambda>s. Some s), wide_lower = (\<lambda>s. s),
      parse_docker_ref = (\<lambda>s. if s = ''nginx:1'' then Some s else None)\<rparr>"

definition sample_snapshot :: service_snapshot where
  "sample_snapshot =
     \<lparr>sn_source = publicImageSource '' nginx:1'', sn_beforeDeploy = None,
      sn_portForward = None, sn_command = [], sn_args = [''run''], sn_environment = [(''A'', ''1'')],
      sn_secrets = [\<lparr>sec_name = ''C'', sec_id = ''x''\<rparr>, \<lparr>sec_name = ''B'', sec_id = ''y''\<rparr>],
      sn_healthCheck = Some \<lparr>hc_port = 80, hc_path = ''/h'', hc_timeout = 0\<rparr>,
      sn_cpu = 0, sn_memory = 0, sn_volumes = []\<rparr>"

lemma sample_sources_ok: "sources_ok sample_sources"
proof -
  have "trim_space ''nginx:1'' = ''nginx:1''"
    by code_simp
  then show ?thesis
    by (simp add: sources_ok_def idna_stable_def sample_sources_def names.defs names.truncate_def)
qed

lemma sample_canonical:
  "\<exists>t. config_canonical (\<lambda>s. Some ''json'') (\<lambda>s. ''hash'') sample_sources sample_snapshot = Inr (t, ''json'', ''hash'')"
proof -
  have "is_ok (config_normalize sample_sources sample_snapshot)"
    by code_simp
  then show ?thesis
    by (auto simp: is_ok_iff config_canonical_def)
qed

section \<open>Canonical configurations\<close>

text \<open>
  \<^bold>\<open>C15.\<close> A snapshot that \<^verbatim>\<open>Normalize\<close> returns satisfies every rule of the validation, is sorted, and
  is its own normal form: normalising it again changes nothing. So is its canonical encoding and
  hash, which makes the hash a function of the stored snapshot.
\<close>

theorem normalize_canonical_form:
  assumes "config_canonical encode sha256_hex n s = Inr (t, encoded, hash)" "sources_ok n"
  shows "snapshot_ok t \<and> sorted (map secret_key (sn_secrets t)) \<and> sorted (map volume_key (sn_volumes t))
    \<and> config_canonical encode sha256_hex n t = Inr (t, encoded, hash)"
proof -
  have t: "config_normalize n s = Inr t"
    using assms(1) by (auto simp: config_canonical_def split: sum.splits option.splits)
  from t have "snapshot_ok t" "sorted (map secret_key (sn_secrets t))" "sorted (map volume_key (sn_volumes t))"
    by (auto elim!: config_normalizeE)
  moreover have "config_canonical encode sha256_hex n t = config_canonical encode sha256_hex n s"
    using t normalized_fixpoint [OF t assms(2)] by (simp add: config_canonical_def)
  ultimately show ?thesis
    using assms(1) by simp
qed

theorem normalize_canonical_form_witness:
  "\<exists>t. snapshot_ok t
     \<and> config_canonical (\<lambda>s. Some ''json'') (\<lambda>s. ''hash'') sample_sources sample_snapshot = Inr (t, ''json'', ''hash'')
     \<and> config_canonical (\<lambda>s. Some ''json'') (\<lambda>s. ''hash'') sample_sources t = Inr (t, ''json'', ''hash'')"
  using sample_canonical normalize_canonical_form [OF _ sample_sources_ok] by blast

text \<open>
  The configuration hash does not depend on the port-forward allowlist: replacing it by another
  valid one gives the same encoding and hash, so editing it does not force a redeployment.
\<close>

lemma hash_ignores_port_forward:
  assumes "config_canonical encode sha256_hex n s = Inr (t, encoded, hash)"
    and "normalizePortForward n p = Inr q"
  shows "config_canonical encode sha256_hex n (s\<lparr>sn_portForward := p\<rparr>) =
    Inr (t\<lparr>sn_portForward := q\<rparr>, encoded, hash)"
proof -
  have t: "config_normalize n s = Inr t"
    and enc: "encode (t\<lparr>sn_portForward := None\<rparr>) = Some encoded" "hash = sha256_hex encoded"
    using assms(1) by (auto simp: config_canonical_def split: sum.splits option.splits)
  have "config_normalize n (s\<lparr>sn_portForward := p\<rparr>) = Inr (t\<lparr>sn_portForward := q\<rparr>)"
    using t
  proof (rule config_normalizeE)
    fix source before forward
    assume r: "normalizeSource n (sn_source s) = Inr source"
      "normalizeBeforeDeploy n (sn_beforeDeploy s) = Inr before"
      and t: "t = s\<lparr>sn_source := source, sn_beforeDeploy := before,
       sn_portForward := forward, sn_healthCheck := map_option default_health (sn_healthCheck s),
       sn_secrets := sort_key secret_key (sn_secrets s), sn_volumes := sort_key volume_key (sn_volumes s)\<rparr>"
      and ok: "snapshot_ok t"
    show ?thesis
      by (rule config_normalizeI [of _ _ source before q])
        (use r assms(2) ok in \<open>simp_all add: t snapshot_ok_port_forward\<close>, simp add: snapshot_ok_def)
  qed
  then show ?thesis
    using enc by (simp add: config_canonical_def)
qed

end
