(* ===== verification/Deployment.thy ===== *)
theory Deployment
  imports Go_Effects Go_Time Admission Service_Config
begin

text \<open>
  Package \<^verbatim>\<open>internal/deployment\<close>: the controller that turns the desired state of a service into a
  running container. Its collaborators (the state store, the container engine, the publisher, the
  resolvers, the clock) are Go interfaces. A call to one of them is a value of \<open>call\<close>; the
  controller's state holds the history of the calls made with whether each succeeded, and a
  collaborator's answer is a function of that history and the call, so that every behaviour of the
  collaborators is an instance of the record \<open>collaborators\<close>. The admission gate is the model of
  package \<^verbatim>\<open>internal/admission\<close>. Operations run under the lock of their service and are atomic
  here; log events of package \<^verbatim>\<open>systemevent\<close> are left out.
\<close>

section \<open>Data\<close>

datatype derr =
    ErrBlockedPair | ErrImageUploadRequired | ErrServiceChanged | ErrDeploymentNotFound
  | ErrImageRevisionNotFound | ErrGrowthDenied | GateRefused gate_error | ConfigRefused config_error
  | External string | Message string | Wrap string derr | Joined derr derr

text \<open>\<^verbatim>\<open>errors.Is\<close> and \<^verbatim>\<open>errors.Join\<close>, with \<open>None\<close> for nil.\<close>

primrec err_is :: "derr \<Rightarrow> derr \<Rightarrow> bool" where
  "err_is t ErrBlockedPair = (t = ErrBlockedPair)"
| "err_is t ErrImageUploadRequired = (t = ErrImageUploadRequired)"
| "err_is t ErrServiceChanged = (t = ErrServiceChanged)"
| "err_is t ErrDeploymentNotFound = (t = ErrDeploymentNotFound)"
| "err_is t ErrImageRevisionNotFound = (t = ErrImageRevisionNotFound)"
| "err_is t ErrGrowthDenied = (t = ErrGrowthDenied)"
| "err_is t (GateRefused e) = (t = GateRefused e)"
| "err_is t (ConfigRefused e) = (t = ConfigRefused e)"
| "err_is t (External m) = (t = External m)"
| "err_is t (Message m) = (t = Message m)"
| "err_is t (Wrap m e) = (t = Wrap m e \<or> err_is t e)"
| "err_is t (Joined a b) = (t = Joined a b \<or> err_is t a \<or> err_is t b)"

definition err_join :: "derr option \<Rightarrow> derr option \<Rightarrow> derr option" where
  "err_join a b =
     (case a of
        None \<Rightarrow> b
      | Some x \<Rightarrow> (case b of None \<Rightarrow> Some x | Some y \<Rightarrow> Some (Joined x y)))"

record desired =
  de_id :: string
  de_project :: string
  de_projectName :: string
  de_name :: string
  de_enabled :: bool
  de_activeDeployment :: string
  de_activeDigest :: string
  de_activeHash :: string
  de_snapshot :: service_snapshot

record image =
  im_id :: string
  im_digest :: string
  im_created :: instant

record container =
  cn_id :: string
  cn_state :: string
  cn_exit :: int
  cn_ips :: "string \<Rightarrow> string list"

record deployment_record =
  dr_id :: string
  dr_service :: string
  dr_digest :: string
  dr_reference :: string
  dr_revisionID :: string
  dr_revision :: string
  dr_commit :: string
  dr_snapshot :: service_snapshot

record image_revision =
  rv_id :: string
  rv_archive :: string
  rv_sha :: string
  rv_commit :: string

record placement =
  pl_network :: string
  pl_gateway :: string
  pl_search :: string
  pl_cgroup :: string

record active_container =
  ac_deployment :: string
  ac_container :: container
  ac_network :: string

record quiesced_service =
  qs_desired :: desired
  qs_active :: active_container

datatype environment_kind = EnvironmentProduction | EnvironmentPreview

record environment_context =
  ec_deployment :: string
  ec_kind :: environment_kind
  ec_previewURL :: string
  ec_revision :: string
  ec_commit :: string

record resolution =
  rs_image :: image
  rs_reference :: string
  rs_revisionID :: string
  rs_revision :: string
  rs_commit :: string

record managed_volume =
  mv_id :: string
  mv_source :: string
  mv_destination :: string
  mv_initialized :: bool

record container_spec =
  cs_image :: string
  cs_name :: string
  cs_entrypoint :: "string list"
  cs_command :: "string list"
  cs_environment :: "(string \<times> string) list"
  cs_labels :: "(string \<times> string) list"
  cs_network :: string
  cs_dns :: "string list"
  cs_search :: "string list"
  cs_volumes :: "managed_volume list"
  cs_cgroup :: string
  cs_cpu :: int
  cs_memory :: int

record runtime_status =
  st_deployment :: string
  st_state :: string
  st_exit :: int

record backend =
  be_deployment :: string
  be_address :: string
  be_port :: int

section \<open>Collaborators\<close>

datatype call =
    CDesired string | CBegin string string resolution string string int | CDiscard string
  | CUpdateSource string string string string string | CFinish string string string derr int
  | CActivate string string string int | CFail string string derr int
  | CLatestFailed string string string | CLatestUploaded string | CLatestRevision string
  | CDeployment string | CVolumeInitialized string string string | CRecordVolume string string string int
  | CPull string string string bool | CInspectImage string | CCreate container_spec
  | CStart string string string | CStop string | CRemove string | CInspect string
  | CExec string "string list" | CTerminal string | CPublish desired container | CWithdraw desired
  | CCredential desired | CEnvironment desired environment_context
  | CBeforeDeploy desired environment_context string | CGrowth | CPlacement desired
  | CDispatch desired string string string | CNow | CNewID | CTick | CProbe string int string | CContext

type_synonym history = "(call \<times> bool) list"

record collaborators =
  co_unit :: "history \<Rightarrow> call \<Rightarrow> derr option"
  co_desired :: "history \<Rightarrow> call \<Rightarrow> derr + desired"
  co_record :: "history \<Rightarrow> call \<Rightarrow> derr + deployment_record"
  co_revision :: "history \<Rightarrow> call \<Rightarrow> derr + image_revision"
  co_flag :: "history \<Rightarrow> call \<Rightarrow> derr + bool"
  co_image :: "history \<Rightarrow> call \<Rightarrow> derr + image"
  co_container :: "history \<Rightarrow> call \<Rightarrow> derr + container"
  co_exit :: "history \<Rightarrow> call \<Rightarrow> derr + int"
  co_credential :: "history \<Rightarrow> call \<Rightarrow> derr + string \<times> string"
  co_environment :: "history \<Rightarrow> call \<Rightarrow> derr + (string \<times> string) list"
  co_placement :: "history \<Rightarrow> call \<Rightarrow> derr + placement"
  co_id :: "history \<Rightarrow> call \<Rightarrow> derr + string"
  co_now :: "history \<Rightarrow> call \<Rightarrow> instant"
  co_tick :: "history \<Rightarrow> call \<Rightarrow> bool"
  co_status :: "history \<Rightarrow> call \<Rightarrow> derr + int"
  has_credentials :: bool
  has_environment :: bool
  has_beforeDeploy :: bool
  has_webhooks :: bool
  volumeRoot :: string
  refs :: image_refs
  encode_snapshot :: "service_snapshot \<Rightarrow> string option"
  sha256_hex :: "string \<Rightarrow> string"
  ready_fuel :: nat

record controller =
  ct_gate :: gate
  ct_active :: "(string \<times> active_container) list"
  ct_history :: history

type_synonym 'a op = "(controller, 'a) state"

definition ask :: "(history \<Rightarrow> call \<Rightarrow> 'r) \<Rightarrow> ('r \<Rightarrow> bool) \<Rightarrow> call \<Rightarrow> 'r op" where
  "ask f ok c =
     State (\<lambda>s. let r = f (ct_history s) c in (r, s\<lparr>ct_history := ct_history s @ [(c, ok r)]\<rparr>))"

definition ask_err :: "collaborators \<Rightarrow> call \<Rightarrow> derr option op" where
  "ask_err w c = ask (co_unit w) (\<lambda>r. r = None) c"

definition ask_res :: "(history \<Rightarrow> call \<Rightarrow> derr + 'r) \<Rightarrow> call \<Rightarrow> (derr + 'r) op" where
  "ask_res f c = ask f is_ok c"

definition ask_now :: "collaborators \<Rightarrow> instant op" where
  "ask_now w = ask (co_now w) (\<lambda>_. True) CNow"

definition note_call :: "call \<Rightarrow> unit op" where
  "note_call c = ask (\<lambda>_ _. ()) (\<lambda>_. True) c"

definition activeContainer :: "string \<Rightarrow> active_container option op" where
  "activeContainer sid = State (\<lambda>s. (map_of (ct_active s) sid, s))"

definition setActive :: "string \<Rightarrow> active_container \<Rightarrow> unit op" where
  "setActive sid a = State (\<lambda>s. ((), s\<lparr>ct_active := AList.update sid a (ct_active s)\<rparr>))"

definition clearActive :: "string \<Rightarrow> unit op" where
  "clearActive sid = State (\<lambda>s. ((), s\<lparr>ct_active := AList.delete sid (ct_active s)\<rparr>))"

text \<open>\<^verbatim>\<open>admission.Begin\<close> and the deferred \<^verbatim>\<open>Release\<close> around the body of an operation.\<close>

definition admitted :: "string \<Rightarrow> string \<Rightarrow> (derr \<Rightarrow> 'a) \<Rightarrow> 'a op \<Rightarrow> 'a op" where
  "admitted kind sid refused body =
     State (\<lambda>s.
       case gateBegin kind sid (ct_gate s) of
         (g, Inl e) \<Rightarrow> (refused (GateRefused e), s\<lparr>ct_gate := g\<rparr>)
       | (g, Inr lease) \<Rightarrow>
           (case run_state body (s\<lparr>ct_gate := g\<rparr>) of
              (a, s') \<Rightarrow> (a, s'\<lparr>ct_gate := fst (leaseRelease (Some lease) (ct_gate s'))\<rparr>)))"

section \<open>Constants and small operations\<close>

definition processStartupGrace :: int where
  "processStartupGrace = 3000000000"

definition probeInterval :: int where
  "probeInterval = 250000000"

definition stopTimeoutSeconds :: nat where
  "stopTimeoutSeconds = 10"

definition safeRoot :: "string \<Rightarrow> bool" where
  "safeRoot p = (is_abs p \<and> path_clean p = p \<and> p \<noteq> ''/'')"

text \<open>\<^verbatim>\<open>New\<close>: the first argument says that every required collaborator is present.\<close>

definition newController :: "bool \<Rightarrow> bool \<Rightarrow> collaborators \<Rightarrow> gate \<Rightarrow> derr + controller" where
  "newController complete hasLogs w g =
     (if \<not> complete then Inl (Message ''dependencies are incomplete'')
      else if \<not> safeRoot (volumeRoot w) then Inl (Message ''volume root must be canonical'')
      else if \<not> hasLogs then Inl (Message ''container log sink is required'')
      else Inr \<lparr>ct_gate = g, ct_active = [], ct_history = []\<rparr>)"

definition dispatchDeployment :: "collaborators \<Rightarrow> desired \<Rightarrow> string \<Rightarrow> string \<Rightarrow> string \<Rightarrow> unit op" where
  "dispatchDeployment w d dep status code =
     (if \<not> has_webhooks w then State_Monad.return () else note_call (CDispatch d dep status code))"

definition minimumReleaseAgePending :: "instant \<Rightarrow> instant \<Rightarrow> int \<Rightarrow> bool" where
  "minimumReleaseAgePending created now minimumDays =
     (if minimumDays \<le> 0 then False
      else if created = 0 then True
      else created > now - minimumDays * 24 * 3600 * 1000000000)"

definition startContainer :: "collaborators \<Rightarrow> desired \<Rightarrow> string \<Rightarrow> string \<Rightarrow> derr option op" where
  "startContainer w d cid dep = ask_err w (CStart cid dep (de_id d))"

definition deploy_fail :: "collaborators \<Rightarrow> string \<Rightarrow> string \<Rightarrow> derr \<Rightarrow> derr option op" where
  "deploy_fail w dep code cause = do {
     now \<leftarrow> ask_now w;
     e \<leftarrow> ask_err w (CFail dep code cause (unix_milli now));
     case e of
       Some e \<Rightarrow> State_Monad.return (err_join (Some cause) (Some e))
     | None \<Rightarrow> do {
         r \<leftarrow> ask_res (co_record w) (CDeployment dep);
         case r of
           Inl _ \<Rightarrow> State_Monad.return (Some cause)
         | Inr record \<Rightarrow> do {
             d \<leftarrow> ask_res (co_desired w) (CDesired (dr_service record));
             case d of
               Inl _ \<Rightarrow> State_Monad.return (Some cause)
             | Inr d \<Rightarrow> do {
                 dispatchDeployment w d dep ''failed'' code;
                 State_Monad.return (Some cause)
               }
           }
       }
   }"

definition restoreOld :: "collaborators \<Rightarrow> desired \<Rightarrow> active_container option \<Rightarrow> unit op" where
  "restoreOld w d old =
     (case old of
        None \<Rightarrow> State_Monad.return ()
      | Some a \<Rightarrow> do {
          e \<leftarrow> startContainer w d (cn_id (ac_container a)) (ac_deployment a);
          case e of
            Some _ \<Rightarrow> State_Monad.return ()
          | None \<Rightarrow> do {
              r \<leftarrow> ask_res (co_container w) (CInspect (cn_id (ac_container a)));
              case r of
                Inl _ \<Rightarrow> State_Monad.return ()
              | Inr c \<Rightarrow> do {
                  _ \<leftarrow> ask_err w (CPublish d c);
                  State_Monad.return ()
                }
            }
        })"

definition stopDisabled :: "collaborators \<Rightarrow> desired \<Rightarrow> derr option op" where
  "stopDisabled w d = do {
     a \<leftarrow> activeContainer (de_id d);
     case a of
       None \<Rightarrow> State_Monad.return None
     | Some a \<Rightarrow> do {
         e \<leftarrow> ask_err w (CWithdraw d);
         case e of
           Some e \<Rightarrow> State_Monad.return (Some e)
         | None \<Rightarrow> do {
             e \<leftarrow> ask_err w (CStop (cn_id (ac_container a)));
             case e of
               Some e \<Rightarrow> State_Monad.return (Some e)
             | None \<Rightarrow> do {
                 e \<leftarrow> ask_err w (CRemove (cn_id (ac_container a)));
                 case e of
                   Some e \<Rightarrow> State_Monad.return (Some e)
                 | None \<Rightarrow> do {
                     clearActive (de_id d);
                     State_Monad.return None
                   }
               }
           }
       }
   }"

section \<open>Containers\<close>

fun mountVolumes :: "collaborators \<Rightarrow> desired \<Rightarrow> volume_mount list \<Rightarrow> (derr + managed_volume list) op" where
  "mountVolumes w d [] = State_Monad.return (Inr [])"
| "mountVolumes w d (m # ms) = do {
     r \<leftarrow> ask_res (co_flag w) (CVolumeInitialized (de_project d) (de_id d) (vol_id m));
     case r of
       Inl e \<Rightarrow> State_Monad.return (Inl (Wrap ''inspect volume initialization'' e))
     | Inr initialized \<Rightarrow> do {
         rest \<leftarrow> mountVolumes w d ms;
         State_Monad.return (case rest of
             Inl e \<Rightarrow> Inl e
           | Inr vs \<Rightarrow> Inr (\<lparr>mv_id = vol_id m,
               mv_source = path_clean (volumeRoot w @ ''/'' @ de_project d @ ''/'' @ vol_id m),
               mv_destination = vol_path m, mv_initialized = initialized\<rparr> # vs))
       }
   }"

definition containerSpec ::
  "desired \<Rightarrow> string \<Rightarrow> string \<Rightarrow> placement \<Rightarrow> managed_volume list \<Rightarrow> (string \<times> string) list \<Rightarrow> container_spec" where
  "containerSpec d dep imageID p vs env =
     \<lparr>cs_image = imageID, cs_name = ''platformd-service-'' @ dep,
      cs_entrypoint = sn_command (de_snapshot d), cs_command = sn_args (de_snapshot d),
      cs_environment = env,
      cs_labels = [(''io.platformd.owner'', ''service''), (''io.platformd.project-id'', de_project d),
        (''io.platformd.service-id'', de_id d), (''io.platformd.deployment-id'', dep)],
      cs_network = pl_network p, cs_dns = [pl_gateway p], cs_search = [pl_search p], cs_volumes = vs,
      cs_cgroup = pl_cgroup p, cs_cpu = sn_cpu (de_snapshot d), cs_memory = sn_memory (de_snapshot d)\<rparr>"

definition createRuntimeContainer ::
  "collaborators \<Rightarrow> desired \<Rightarrow> environment_context \<Rightarrow> string \<Rightarrow> (derr + container \<times> placement) op" where
  "createRuntimeContainer w d ctx imageID = do {
     p \<leftarrow> ask_res (co_placement w) (CPlacement d);
     case p of
       Inl e \<Rightarrow> State_Monad.return (Inl (Wrap ''place service runtime'' e))
     | Inr p \<Rightarrow> do {
         vs \<leftarrow> mountVolumes w d (sn_volumes (de_snapshot d));
         case vs of
           Inl e \<Rightarrow> State_Monad.return (Inl e)
         | Inr vs \<Rightarrow> do {
             env \<leftarrow> (if has_environment w then ask_res (co_environment w) (CEnvironment d ctx)
                    else State_Monad.return (Inr (sn_environment (de_snapshot d))));
             case env of
               Inl e \<Rightarrow> State_Monad.return (Inl (Wrap ''resolve service variables'' e))
             | Inr env \<Rightarrow> do {
                 c \<leftarrow> ask_res (co_container w) (CCreate (containerSpec d (ec_deployment ctx) imageID p vs env));
                 State_Monad.return (case c of Inl e \<Rightarrow> Inl e | Inr c \<Rightarrow> Inr (c, p))
               }
           }
       }
   }"

fun recordVolumes :: "collaborators \<Rightarrow> desired \<Rightarrow> volume_mount list \<Rightarrow> derr option op" where
  "recordVolumes w d [] = State_Monad.return None"
| "recordVolumes w d (m # ms) = do {
     now \<leftarrow> ask_now w;
     e \<leftarrow> ask_err w (CRecordVolume (de_project d) (de_id d) (vol_id m) (unix_milli now));
     case e of
       Some e \<Rightarrow> State_Monad.return (Some (Wrap ''record volume initialization'' e))
     | None \<Rightarrow> recordVolumes w d ms
   }"

definition recordVolumeInitializations :: "collaborators \<Rightarrow> desired \<Rightarrow> derr option op" where
  "recordVolumeInitializations w d = recordVolumes w d (sn_volumes (de_snapshot d))"

definition probeHTTP :: "collaborators \<Rightarrow> string \<Rightarrow> int \<Rightarrow> string \<Rightarrow> (derr + bool) op" where
  "probeHTTP w address port path = do {
     r \<leftarrow> ask_res (co_status w) (CProbe address port path);
     State_Monad.return (case r of Inl e \<Rightarrow> Inl e | Inr code \<Rightarrow> Inr (code \<ge> 200 \<and> code < 400))
   }"

text \<open>
  One poll of \<^verbatim>\<open>waitReady\<close> on a running container: \<open>Some\<close> is a return of the loop. \<^verbatim>\<open>probeErr\<close> is looked
  at before the deadline is checked again.
\<close>

definition readyVerdict ::
  "collaborators \<Rightarrow> health_check option \<Rightarrow> container \<Rightarrow> string \<Rightarrow> instant \<Rightarrow> (derr + container) option op" where
  "readyVerdict w hc c network deadline =
     (case hc of
        None \<Rightarrow> do {
          now \<leftarrow> ask_now w;
          State_Monad.return (if now < deadline then None else Some (Inr c))
        }
      | Some h \<Rightarrow> do {
          probed \<leftarrow>
            (case cn_ips c network of
               [address] \<Rightarrow> do {
                 r \<leftarrow> probeHTTP w address (hc_port h) (hc_path h);
                 case r of
                   Inr True \<Rightarrow> State_Monad.return (Some (Inr c))
                 | Inr False \<Rightarrow> State_Monad.return None
                 | Inl e \<Rightarrow> do {
                     now \<leftarrow> ask_now w;
                     State_Monad.return (if now < deadline then None else Some (Inl e))
                   }
               }
             | _ \<Rightarrow> State_Monad.return None);
          case probed of
            Some v \<Rightarrow> State_Monad.return (Some v)
          | None \<Rightarrow> do {
              now \<leftarrow> ask_now w;
              State_Monad.return
                (if now < deadline then None else Some (Inl (Message ''HTTP readiness timed out'')))
            }
        })"

text \<open>
  The polling loop of \<^verbatim>\<open>waitReady\<close>. \<open>CTick\<close> is the \<^verbatim>\<open>select\<close>: true when the ticker fires, false when
  the context is done. The fuel counts iterations; running out of it is the error \<open>Message ''fuel''\<close>,
  which does not occur with enough fuel when the clock advances.
\<close>

primrec readyLoop ::
  "collaborators \<Rightarrow> health_check option \<Rightarrow> string \<Rightarrow> string \<Rightarrow> instant \<Rightarrow> nat \<Rightarrow> (derr + container) op" where
  "readyLoop w hc cid network deadline 0 = State_Monad.return (Inl (Message ''fuel''))"
| "readyLoop w hc cid network deadline (Suc n) = do {
     c \<leftarrow> ask_res (co_container w) (CInspect cid);
     case c of
       Inl e \<Rightarrow> State_Monad.return (Inl e)
     | Inr c \<Rightarrow>
         if cn_state c \<noteq> ''running'' then State_Monad.return (Inl (Message ''container state''))
         else do {
           verdict \<leftarrow> readyVerdict w hc c network deadline;
           case verdict of
             Some v \<Rightarrow> State_Monad.return v
           | None \<Rightarrow> do {
               fired \<leftarrow> ask (co_tick w) (\<lambda>b. b) CTick;
               if fired then readyLoop w hc cid network deadline n
               else State_Monad.return (Inl (Message ''context done''))
             }
         }
   }"

definition waitReady :: "collaborators \<Rightarrow> desired \<Rightarrow> string \<Rightarrow> string \<Rightarrow> (derr + container) op" where
  "waitReady w d cid network = do {
     now \<leftarrow> ask_now w;
     (case sn_healthCheck (de_snapshot d) of
        Some h \<Rightarrow>
          readyLoop w (Some h) cid network (now + hc_timeout h * 1000000000) (ready_fuel w)
      | None \<Rightarrow> do {
          now \<leftarrow> ask_now w;
          readyLoop w None cid network (now + processStartupGrace) (ready_fuel w)
        })
   }"

section \<open>Running a deployment\<close>

text \<open>
  \<^verbatim>\<open>runDeployment\<close> after the candidate was created. The first component of the result is
  \<^verbatim>\<open>candidateActive\<close>, for which the deferred function removes the candidate.
\<close>

definition abandon ::
  "collaborators \<Rightarrow> desired \<Rightarrow> active_container option \<Rightarrow> string \<Rightarrow> string \<Rightarrow> derr \<Rightarrow> (bool \<times> derr option) op" where
  "abandon w d old dep code e = do {
     restoreOld w d old;
     r \<leftarrow> deploy_fail w dep code e;
     State_Monad.return (True, r)
   }"

definition commitCandidate ::
  "collaborators \<Rightarrow> desired \<Rightarrow> active_container option \<Rightarrow> string \<Rightarrow> placement \<Rightarrow> container \<Rightarrow> (bool \<times> derr option) op" where
  "commitCandidate w d old dep p ready = do {
     now \<leftarrow> ask_now w;
     e \<leftarrow> ask_err w (CActivate (de_id d) dep (de_activeDeployment d) (unix_milli now));
     case e of
       Some e \<Rightarrow> abandon w d old dep ''publication_commit_failed'' e
     | None \<Rightarrow> do {
         dispatchDeployment w d dep ''succeeded'' [];
         setActive (de_id d) \<lparr>ac_deployment = dep, ac_container = ready, ac_network = pl_network p\<rparr>;
         e \<leftarrow> ask_err w (CPublish (d\<lparr>de_activeDeployment := dep\<rparr>) ready);
         case e of
           Some e \<Rightarrow> State_Monad.return (False, Some (Wrap ''publish ready service after deployment commit'' e))
         | None \<Rightarrow> do {
             (case old of
                None \<Rightarrow> State_Monad.return ()
              | Some a \<Rightarrow> do { _ \<leftarrow> ask_err w (CRemove (cn_id (ac_container a))); State_Monad.return () });
             State_Monad.return (False, None)
           }
       }
   }"

definition startCandidate ::
  "collaborators \<Rightarrow> desired \<Rightarrow> active_container option \<Rightarrow> string \<Rightarrow> container \<Rightarrow> placement \<Rightarrow> (bool \<times> derr option) op" where
  "startCandidate w d old dep candidate p = do {
     e \<leftarrow> startContainer w d (cn_id candidate) dep;
     case e of
       Some e \<Rightarrow> abandon w d old dep ''candidate_start_failed'' e
     | None \<Rightarrow> do {
         e \<leftarrow> recordVolumeInitializations w d;
         case e of
           Some e \<Rightarrow> abandon w d old dep ''volume_initialization_commit_failed'' e
         | None \<Rightarrow> do {
             r \<leftarrow> waitReady w d (cn_id candidate) (pl_network p);
             case r of
               Inl e \<Rightarrow> abandon w d old dep ''readiness_failed'' e
             | Inr ready \<Rightarrow> commitCandidate w d old dep p ready
           }
       }
   }"

definition cutOver ::
  "collaborators \<Rightarrow> desired \<Rightarrow> string \<Rightarrow> container \<Rightarrow> placement \<Rightarrow> (bool \<times> derr option) op" where
  "cutOver w d dep candidate p = do {
     old \<leftarrow> activeContainer (de_id d);
     case old of
       None \<Rightarrow> startCandidate w d None dep candidate p
     | Some a \<Rightarrow>
         if ac_deployment a \<noteq> de_activeDeployment d then do {
           r \<leftarrow> deploy_fail w dep ''active_runtime_missing'' (Message ''active deployment has no matching runtime container'');
           State_Monad.return (True, r)
         }
         else do {
           e \<leftarrow> ask_err w (CWithdraw d);
           case e of
             Some e \<Rightarrow> abandon w d old dep ''publication_withdraw_failed'' e
           | None \<Rightarrow> do {
               e \<leftarrow> ask_err w (CStop (cn_id (ac_container a)));
               case e of
                 Some e \<Rightarrow> abandon w d old dep ''old_stop_failed'' e
               | None \<Rightarrow> startCandidate w d old dep candidate p
             }
         }
   }"

definition runDeployment :: "collaborators \<Rightarrow> desired \<Rightarrow> environment_context \<Rightarrow> string \<Rightarrow> derr option op" where
  "runDeployment w d ctx imageID = do {
     created \<leftarrow> createRuntimeContainer w d ctx imageID;
     case created of
       Inl e \<Rightarrow> deploy_fail w (ec_deployment ctx) ''candidate_create_failed'' e
     | Inr (candidate, p) \<Rightarrow> do {
         r \<leftarrow> cutOver w d (ec_deployment ctx) candidate p;
         (if fst r then do { _ \<leftarrow> ask_err w (CRemove (cn_id candidate)); State_Monad.return () }
          else State_Monad.return ());
         State_Monad.return (snd r)
       }
   }"

section \<open>Deploying\<close>

text \<open>The variables the closures of \<^verbatim>\<open>deploy\<close> share.\<close>

record attempt =
  at_service :: string
  at_deployment :: string
  at_hash :: string
  at_json :: string
  at_startedAt :: instant
  at_desired :: desired
  at_source :: resolution
  at_started :: bool

definition beginDeployment :: "collaborators \<Rightarrow> attempt \<Rightarrow> (attempt \<times> derr option) op" where
  "beginDeployment w a =
     (if at_started a then State_Monad.return (a, None)
      else do {
        e \<leftarrow> ask_err w (CBegin (at_deployment a) (at_service a) (at_source a) (at_hash a) (at_json a)
               (unix_milli (at_startedAt a)));
        case e of
          Some e \<Rightarrow> State_Monad.return (a, Some e)
        | None \<Rightarrow> do {
            dispatchDeployment w (at_desired a) (at_deployment a) ''running'' [];
            State_Monad.return (a\<lparr>at_started := True\<rparr>, None)
          }
      })"

definition failDeployment :: "collaborators \<Rightarrow> attempt \<Rightarrow> string \<Rightarrow> derr \<Rightarrow> derr option op" where
  "failDeployment w a code failure = do {
     r \<leftarrow> (if at_started a then State_Monad.return (a, None) else beginDeployment w a);
     case snd r of
       Some e \<Rightarrow> State_Monad.return (err_join (Some failure) (Some e))
     | None \<Rightarrow> do {
         now \<leftarrow> ask_now w;
         e \<leftarrow> ask_err w (CFinish (at_deployment a) ''failed'' code failure (unix_milli now));
         (if e = None then dispatchDeployment w (at_desired a) (at_deployment a) ''failed'' code
          else State_Monad.return ());
         State_Monad.return (err_join (Some failure) e)
       }
   }"

definition finishAttempt :: "collaborators \<Rightarrow> attempt \<Rightarrow> string \<Rightarrow> string \<Rightarrow> derr \<Rightarrow> derr option op" where
  "finishAttempt w a status code message =
     (if \<not> at_started a then State_Monad.return None
      else do {
        now \<leftarrow> ask_now w;
        e \<leftarrow> ask_err w (CFinish (at_deployment a) status code message (unix_milli now));
        (if e = None then dispatchDeployment w (at_desired a) (at_deployment a) status code
         else State_Monad.return ());
        State_Monad.return e
      })"

definition recordResolvedDeployment :: "collaborators \<Rightarrow> attempt \<Rightarrow> (attempt \<times> derr option) op" where
  "recordResolvedDeployment w a = do {
     r \<leftarrow> beginDeployment w a;
     case snd r of
       Some e \<Rightarrow> State_Monad.return (fst r, Some e)
     | None \<Rightarrow> do {
         e \<leftarrow> ask_err w (CUpdateSource (at_deployment a) (im_digest (rs_image (at_source a)))
                (rs_reference (at_source a)) (rs_revision (at_source a)) (rs_commit (at_source a)));
         case e of
           None \<Rightarrow> State_Monad.return (fst r, None)
         | Some e \<Rightarrow> do {
             f \<leftarrow> failDeployment w (fst r) ''state_update_failed'' e;
             State_Monad.return (fst r, f)
           }
       }
   }"

definition no_image :: image where
  "no_image = \<lparr>im_id = [], im_digest = [], im_created = 0\<rparr>"

definition source_of_record :: "deployment_record \<Rightarrow> resolution" where
  "source_of_record r =
     \<lparr>rs_image = no_image, rs_reference = dr_reference r, rs_revisionID = dr_revisionID r,
      rs_revision = dr_revision r, rs_commit = dr_commit r\<rparr>"

definition incomplete :: "resolution \<Rightarrow> bool" where
  "incomplete s = (rs_reference s = [] \<or> rs_revisionID s = [])"

text \<open>The source of an uploaded image: the active deployment, the latest uploaded one, the latest revision.\<close>

definition activeUpload :: "collaborators \<Rightarrow> desired \<Rightarrow> resolution \<Rightarrow> (derr + resolution) op" where
  "activeUpload w d src =
     (if de_activeDeployment d = [] then State_Monad.return (Inr src)
      else do {
        r \<leftarrow> ask_res (co_record w) (CDeployment (de_activeDeployment d));
        State_Monad.return (case r of
            Inl e \<Rightarrow> Inl e
          | Inr record \<Rightarrow> Inr (if incomplete (source_of_record record) then src else source_of_record record))
      })"

definition latestUpload :: "collaborators \<Rightarrow> string \<Rightarrow> resolution \<Rightarrow> (derr + resolution) op" where
  "latestUpload w sid src =
     (if \<not> incomplete src then State_Monad.return (Inr src)
      else do {
        r \<leftarrow> ask_res (co_record w) (CLatestUploaded sid);
        State_Monad.return (case r of
            Inr record \<Rightarrow> Inr (source_of_record record)
          | Inl e \<Rightarrow> if err_is ErrDeploymentNotFound e then Inr src else Inl e)
      })"

definition latestRevision :: "collaborators \<Rightarrow> string \<Rightarrow> resolution \<Rightarrow> (derr + resolution) op" where
  "latestRevision w sid src =
     (if \<not> incomplete src then State_Monad.return (Inr src)
      else do {
        r \<leftarrow> ask_res (co_revision w) (CLatestRevision sid);
        State_Monad.return (case r of
            Inl e \<Rightarrow> Inl (if err_is ErrImageRevisionNotFound e then ErrImageUploadRequired else e)
          | Inr v \<Rightarrow>
              (let src = \<lparr>rs_image = no_image, rs_reference = ''oci-archive:'' @ rv_archive v,
                          rs_revisionID = rv_id v, rs_revision = rv_sha v, rs_commit = rv_commit v\<rparr>
               in if incomplete src then Inl ErrImageUploadRequired else Inr src))
      })"

definition uploadSource :: "collaborators \<Rightarrow> string \<Rightarrow> desired \<Rightarrow> resolution \<Rightarrow> (derr + resolution) op" where
  "uploadSource w sid d src = do {
     r \<leftarrow> activeUpload w d src;
     case r of
       Inl e \<Rightarrow> State_Monad.return (Inl e)
     | Inr src \<Rightarrow> do {
         r \<leftarrow> latestUpload w sid src;
         case r of
           Inl e \<Rightarrow> State_Monad.return (Inl e)
         | Inr src \<Rightarrow> latestRevision w sid src
       }
   }"

definition chooseSource ::
  "collaborators \<Rightarrow> string \<Rightarrow> desired \<Rightarrow> resolution option \<Rightarrow> (derr + resolution) op" where
  "chooseSource w sid d uploaded =
     (case uploaded of
        Some u \<Rightarrow> State_Monad.return (Inr u)
      | None \<Rightarrow>
          (let src = \<lparr>rs_image = no_image, rs_reference = imageReference (sn_source (de_snapshot d)),
                      rs_revisionID = [], rs_revision = [], rs_commit = []\<rparr>
           in if src_type (sn_source (de_snapshot d)) = DockerImageUpload then uploadSource w sid d src
              else if rs_reference src = [] then
                State_Monad.return (Inl (Message ''image source reference is empty''))
              else State_Monad.return (Inr src)))"
definition canonicalOf :: "collaborators \<Rightarrow> service_snapshot \<Rightarrow> derr + (service_snapshot \<times> string \<times> string)" where
  "canonicalOf w s =
     (case config_canonical (encode_snapshot w) (sha256_hex w) (sources.truncate (refs w)) s of
        Inl e \<Rightarrow> Inl (ConfigRefused e)
      | Inr r \<Rightarrow> Inr r)"

definition resolveCredential ::
  "collaborators \<Rightarrow> attempt \<Rightarrow> (derr option + string \<times> string) op" where
  "resolveCredential w a =
     (if src_type (sn_source (de_snapshot (at_desired a))) \<noteq> PrivateImage then State_Monad.return (Inr ([], []))
      else if \<not> has_credentials w then do {
        r \<leftarrow> failDeployment w a ''source_resolution_failed'' (Message ''image credential resolution is not configured'');
        State_Monad.return (Inl r)
      }
      else do {
        c \<leftarrow> ask_res (co_credential w) (CCredential (at_desired a));
        case c of
          Inr c \<Rightarrow> State_Monad.return (Inr c)
        | Inl e \<Rightarrow> do {
            r \<leftarrow> failDeployment w a ''source_resolution_failed'' (Wrap ''resolve image credential'' e);
            State_Monad.return (Inl r)
          }
      })"

definition pullImage ::
  "collaborators \<Rightarrow> attempt \<Rightarrow> string \<times> string \<Rightarrow> (derr option + attempt) op" where
  "pullImage w a credential = do {
     r \<leftarrow> ask_res (co_image w) (CPull (rs_reference (at_source a)) (fst credential) (snd credential)
            (src_type (sn_source (de_snapshot (at_desired a))) \<noteq> DockerImageUpload
             \<and> \<not> isDigestReference (refs w) (rs_reference (at_source a))));
     case r of
       Inr i \<Rightarrow> State_Monad.return (Inr (a\<lparr>at_source := (at_source a)\<lparr>rs_image := i\<rparr>\<rparr>))
     | Inl e \<Rightarrow> do {
         f \<leftarrow> failDeployment w a ''source_resolution_failed'' (Wrap ''resolve and pull service image'' e);
         State_Monad.return (Inl f)
       }
   }"

definition checkImage :: "collaborators \<Rightarrow> attempt \<Rightarrow> (derr option + attempt) op" where
  "checkImage w a =
     (if im_digest (rs_image (at_source a)) = [] then do {
        f \<leftarrow> failDeployment w a ''source_resolution_failed'' (Message ''resolved image has no digest'');
        State_Monad.return (Inl f)
      }
      else if isImage (sn_source (de_snapshot (at_desired a))) then
        (case pinnedReference (refs w) (rs_reference (at_source a)) (im_digest (rs_image (at_source a))) of
           Inr _ \<Rightarrow> State_Monad.return (Inr a)
         | Inl e \<Rightarrow> do {
             f \<leftarrow> failDeployment w a ''source_resolution_failed'' (ConfigRefused e);
             State_Monad.return (Inl f)
           })
      else State_Monad.return (Inr a))"

definition resolveImage :: "collaborators \<Rightarrow> attempt \<Rightarrow> bool \<Rightarrow> (derr option + attempt) op" where
  "resolveImage w a uploaded = do {
     c \<leftarrow> resolveCredential w a;
     case c of
       Inl r \<Rightarrow> State_Monad.return (Inl r)
     | Inr c \<Rightarrow> do {
         p \<leftarrow> (if uploaded then State_Monad.return (Inr a) else pullImage w a c);
         case p of
           Inl r \<Rightarrow> State_Monad.return (Inl r)
         | Inr a \<Rightarrow> checkImage w a
       }
   }"

text \<open>Lines 496 to 526: the desired state is loaded again and must not have changed.\<close>

definition reloadDesired :: "collaborators \<Rightarrow> attempt \<Rightarrow> (derr option + attempt) op" where
  "reloadDesired w a = do {
     c \<leftarrow> ask_res (co_desired w) (CDesired (at_service a));
     case c of
       Inl e \<Rightarrow> do {
         f \<leftarrow> failDeployment w a ''state_load_failed'' e;
         State_Monad.return (Inl f)
       }
     | Inr current \<Rightarrow>
         (case canonicalOf w (de_snapshot current) of
            Inl e \<Rightarrow> do {
              f \<leftarrow> failDeployment w a ''state_load_failed'' e;
              State_Monad.return (Inl f)
            }
          | Inr (normalized, json, hash) \<Rightarrow>
              if \<not> de_enabled current \<or> hash \<noteq> at_hash a then do {
                r \<leftarrow> recordResolvedDeployment w a;
                case snd r of
                  Some e \<Rightarrow> State_Monad.return (Inl (Some e))
                | None \<Rightarrow> do {
                    _ \<leftarrow> finishAttempt w (fst r) ''interrupted'' ''service_changed'' ErrServiceChanged;
                    State_Monad.return (Inl (Some ErrServiceChanged))
                  }
              }
              else State_Monad.return (Inr (a\<lparr>at_desired := current\<lparr>de_snapshot := normalized\<rparr>\<rparr>)))
   }"

text \<open>Lines 527 to 547: the resolved image and the configuration are already active.\<close>

definition publishUnchanged :: "collaborators \<Rightarrow> attempt \<Rightarrow> derr option op" where
  "publishUnchanged w a = do {
     active \<leftarrow> activeContainer (at_service a);
     case active of
       None \<Rightarrow> failDeployment w a ''runtime_state_missing'' (Message ''active deployment has no matching runtime container'')
     | Some c \<Rightarrow>
         if ac_deployment c \<noteq> de_activeDeployment (at_desired a) then
           failDeployment w a ''runtime_state_missing'' (Message ''active deployment has no matching runtime container'')
         else do {
           e \<leftarrow> (if at_started a then do {
                  e \<leftarrow> ask_err w (CDiscard (at_deployment a));
                  (if e = None then dispatchDeployment w (at_desired a) (at_deployment a) ''skipped'' ''unchanged''
                   else State_Monad.return ());
                  State_Monad.return e
                } else State_Monad.return None);
           case e of
             Some e \<Rightarrow> State_Monad.return (Some e)
           | None \<Rightarrow> ask_err w (CPublish (at_desired a) (ac_container c))
         }
   }"

text \<open>Lines 551 to 559: an automatic update waits for the minimum release age.\<close>

definition releasePending :: "collaborators \<Rightarrow> attempt \<Rightarrow> bool \<Rightarrow> bool op" where
  "releasePending w a force =
     (let d = at_desired a; src = sn_source (de_snapshot d)
      in if \<not> force \<and> src_autoUpdate src \<and> isRemoteImage src \<and> de_activeDeployment d \<noteq> []
            \<and> de_activeHash d = at_hash a \<and> de_activeDigest d \<noteq> im_digest (rs_image (at_source a))
         then do {
           now \<leftarrow> ask_now w;
           State_Monad.return (minimumReleaseAgePending (im_created (rs_image (at_source a))) now
             (src_minimumReleaseAgeDays src))
         }
         else State_Monad.return False)"

definition inspectResolved :: "collaborators \<Rightarrow> attempt \<Rightarrow> (derr option + attempt) op" where
  "inspectResolved w a =
     (if im_id (rs_image (at_source a)) \<noteq> [] then State_Monad.return (Inr a)
      else do {
        r \<leftarrow> ask_res (co_image w) (CInspectImage (im_digest (rs_image (at_source a))));
        case r of
          Inl e \<Rightarrow> do {
            f \<leftarrow> failDeployment w a ''source_resolution_failed'' (Wrap ''inspect resolved image'' e);
            State_Monad.return (Inl f)
          }
        | Inr i \<Rightarrow>
            (let a = a\<lparr>at_source := (at_source a)\<lparr>rs_image := i\<rparr>\<rparr>
             in if im_id i = [] \<or> im_digest i = [] then do {
                  f \<leftarrow> failDeployment w a ''source_resolution_failed'' (Message ''resolved image has no ID or digest'');
                  State_Monad.return (Inl f)
                }
                else State_Monad.return (Inr a))
      })"

definition checkBlocked :: "collaborators \<Rightarrow> attempt \<Rightarrow> bool \<Rightarrow> derr option op" where
  "checkBlocked w a force =
     (if force then State_Monad.return None
      else do {
        b \<leftarrow> ask_res (co_flag w) (CLatestFailed (at_service a) (at_hash a) (im_digest (rs_image (at_source a))));
        case b of
          Inl e \<Rightarrow> failDeployment w a ''state_load_failed'' e
        | Inr blocked \<Rightarrow>
            if blocked then do {
              _ \<leftarrow> finishAttempt w a ''skipped'' ''blocked_pair'' ErrBlockedPair;
              State_Monad.return (Some ErrBlockedPair)
            }
            else State_Monad.return None
      })"

definition environmentOf :: "attempt \<Rightarrow> environment_context" where
  "environmentOf a =
     \<lparr>ec_deployment = at_deployment a, ec_kind = EnvironmentProduction, ec_previewURL = [],
      ec_revision = rs_revision (at_source a), ec_commit = rs_commit (at_source a)\<rparr>"

definition runBeforeDeploy :: "collaborators \<Rightarrow> attempt \<Rightarrow> derr option op" where
  "runBeforeDeploy w a =
     (if sn_beforeDeploy (de_snapshot (at_desired a)) = None then State_Monad.return None
      else if \<not> has_beforeDeploy w then
        failDeployment w a ''before_deploy_failed'' (Message ''before-deploy executor is not configured'')
      else do {
        e \<leftarrow> ask_err w (CBeforeDeploy (at_desired a) (environmentOf a) (im_id (rs_image (at_source a))));
        case e of
          None \<Rightarrow> State_Monad.return None
        | Some e \<Rightarrow> failDeployment w a ''before_deploy_failed'' e
      })"

definition launch :: "collaborators \<Rightarrow> attempt \<Rightarrow> bool \<Rightarrow> derr option op" where
  "launch w a force = do {
     r \<leftarrow> recordResolvedDeployment w a;
     case snd r of
       Some e \<Rightarrow> State_Monad.return (Some e)
     | None \<Rightarrow> do {
         b \<leftarrow> checkBlocked w (fst r) force;
         case b of
           Some e \<Rightarrow> State_Monad.return (Some e)
         | None \<Rightarrow> do {
             e \<leftarrow> runBeforeDeploy w (fst r);
             case e of
               Some e \<Rightarrow> State_Monad.return (Some e)
             | None \<Rightarrow> runDeployment w (at_desired (fst r)) (environmentOf (fst r)) (im_id (rs_image (at_source (fst r))))
           }
       }
   }"

definition deployResolved :: "collaborators \<Rightarrow> attempt \<Rightarrow> bool \<Rightarrow> derr option op" where
  "deployResolved w a force =
     (if \<not> force \<and> de_activeDigest (at_desired a) = im_digest (rs_image (at_source a))
         \<and> de_activeHash (at_desired a) = at_hash a
      then publishUnchanged w a
      else do {
        pending \<leftarrow> releasePending w a force;
        if pending then State_Monad.return None
        else do {
          i \<leftarrow> inspectResolved w a;
          case i of
            Inl r \<Rightarrow> State_Monad.return r
          | Inr a \<Rightarrow> launch w a force
        }
      })"

definition growthRefused :: "collaborators \<Rightarrow> attempt \<Rightarrow> bool \<Rightarrow> derr \<Rightarrow> derr option op" where
  "growthRefused w a force e = do {
     active \<leftarrow> activeContainer (at_service a);
     case active of
       None \<Rightarrow> State_Monad.return (Some e)
     | Some c \<Rightarrow>
         if \<not> force \<and> err_is ErrGrowthDenied e \<and> ac_deployment c = de_activeDeployment (at_desired a)
            \<and> de_activeHash (at_desired a) = at_hash a
         then ask_err w (CPublish (at_desired a) (ac_container c))
         else State_Monad.return (Some e)
   }"

definition deployAttempt :: "collaborators \<Rightarrow> attempt \<Rightarrow> resolution option \<Rightarrow> bool \<Rightarrow> derr option op" where
  "deployAttempt w a uploaded force = do {
     e \<leftarrow> ask_err w CGrowth;
     case e of
       Some e \<Rightarrow> growthRefused w a force e
     | None \<Rightarrow> do {
         src \<leftarrow> chooseSource w (at_service a) (at_desired a) uploaded;
         case src of
           Inl e \<Rightarrow> State_Monad.return (Some e)
         | Inr src \<Rightarrow> do {
             r \<leftarrow> resolveImage w (a\<lparr>at_source := src\<rparr>) (uploaded \<noteq> None);
             case r of
               Inl r \<Rightarrow> State_Monad.return r
             | Inr a \<Rightarrow> do {
                 r \<leftarrow> reloadDesired w a;
                 case r of
                   Inl r \<Rightarrow> State_Monad.return r
                 | Inr a \<Rightarrow> deployResolved w a force
               }
           }
       }
   }"

definition deployLocked ::
  "collaborators \<Rightarrow> string \<Rightarrow> string \<Rightarrow> resolution option \<Rightarrow> bool \<Rightarrow> derr option op" where
  "deployLocked w sid override uploaded force = do {
     d \<leftarrow> ask_res (co_desired w) (CDesired sid);
     case d of
       Inl e \<Rightarrow> State_Monad.return (Some e)
     | Inr d \<Rightarrow>
         if \<not> de_enabled d then stopDisabled w d
         else
           (case canonicalOf w (de_snapshot d) of
              Inl e \<Rightarrow> State_Monad.return (Some e)
            | Inr (normalized, json, hash) \<Rightarrow> do {
                startedAt \<leftarrow> ask_now w;
                i \<leftarrow> (if override \<noteq> [] then State_Monad.return (Inr override) else ask_res (co_id w) CNewID);
                case i of
                  Inl e \<Rightarrow> State_Monad.return (Some (Wrap ''allocate deployment ID'' e))
                | Inr dep \<Rightarrow>
                    deployAttempt w
                      \<lparr>at_service = sid, at_deployment = dep, at_hash = hash, at_json = json,
                       at_startedAt = startedAt, at_desired = d\<lparr>de_snapshot := normalized\<rparr>,
                       at_source = \<lparr>rs_image = no_image, rs_reference = imageReference (sn_source normalized),
                         rs_revisionID = [], rs_revision = [], rs_commit = []\<rparr>,
                       at_started = False\<rparr> uploaded force
              })
   }"

definition deployService ::
  "collaborators \<Rightarrow> string \<Rightarrow> string \<Rightarrow> resolution option \<Rightarrow> bool \<Rightarrow> derr option op" where
  "deployService w sid override uploaded force =
     admitted ''service_deploy'' sid Some (deployLocked w sid override uploaded force)"

definition deploy :: "collaborators \<Rightarrow> string \<Rightarrow> bool \<Rightarrow> derr option op" where
  "deploy w sid force = deployService w sid [] None force"

definition deployUploadedImage ::
  "collaborators \<Rightarrow> string \<Rightarrow> string \<Rightarrow> resolution \<Rightarrow> derr option op" where
  "deployUploadedImage w sid dep src =
     (if dep = [] \<or> incomplete src \<or> im_id (rs_image src) = [] \<or> im_digest (rs_image src) = []
      then State_Monad.return (Some (Message ''uploaded deployment image is incomplete''))
      else deployService w sid dep (Some src) True)"
section \<open>Restoring and restarting\<close>

definition pullActiveImage :: "collaborators \<Rightarrow> desired \<Rightarrow> deployment_record \<Rightarrow> (derr + image) op" where
  "pullActiveImage w d active =
     (if src_type (sn_source (de_snapshot d)) = DockerImageUpload then do {
        r \<leftarrow> ask_res (co_image w) (CPull (dr_reference active) [] [] False);
        State_Monad.return (case r of Inl e \<Rightarrow> Inl (Wrap ''import active uploaded image'' e) | Inr i \<Rightarrow> Inr i)
      }
      else
        (case pinnedReference (refs w) (dr_reference active) (dr_digest active) of
           Inl e \<Rightarrow> State_Monad.return (Inl (ConfigRefused e))
         | Inr pinned \<Rightarrow> do {
             c \<leftarrow> (if src_type (sn_source (de_snapshot d)) \<noteq> PrivateImage then State_Monad.return (Inr ([], []))
                  else if \<not> has_credentials w then
                    State_Monad.return (Inl (Message ''image credential resolution is not configured''))
                  else do {
                    c \<leftarrow> ask_res (co_credential w) (CCredential d);
                    State_Monad.return (case c of Inl e \<Rightarrow> Inl (Wrap ''resolve active image credential'' e) | Inr c \<Rightarrow> Inr c)
                  });
             case c of
               Inl e \<Rightarrow> State_Monad.return (Inl e)
             | Inr c \<Rightarrow> do {
                 r \<leftarrow> ask_res (co_image w) (CPull pinned (fst c) (snd c) False);
                 State_Monad.return (case r of Inl e \<Rightarrow> Inl (Wrap ''pull active service image'' e) | Inr i \<Rightarrow> Inr i)
               }
           }))"

definition activeImage :: "collaborators \<Rightarrow> desired \<Rightarrow> deployment_record \<Rightarrow> (derr + image) op" where
  "activeImage w d active = do {
     i \<leftarrow> ask_res (co_image w) (CInspectImage (dr_digest active));
     r \<leftarrow> (case i of
            Inr i \<Rightarrow> State_Monad.return (Inr i)
          | Inl _ \<Rightarrow> do {
              g \<leftarrow> ask_err w CGrowth;
              case g of
                Some e \<Rightarrow> State_Monad.return (Inl (Wrap ''active service image is not cached'' e))
              | None \<Rightarrow> pullActiveImage w d active
            });
     State_Monad.return (case r of
         Inl e \<Rightarrow> Inl e
       | Inr i \<Rightarrow> if im_digest i \<noteq> dr_digest active then Inl (Message ''active image digest'') else Inr i)
   }"

text \<open>
  The part of \<^verbatim>\<open>restoreCurrentLocked\<close> after the container was created; the first component of the result
  is the flag \<^verbatim>\<open>remove\<close> of its deferred function.
\<close>

definition startRestored ::
  "collaborators \<Rightarrow> desired \<Rightarrow> deployment_record \<Rightarrow> container \<Rightarrow> placement \<Rightarrow> (bool \<times> (derr + bool)) op" where
  "startRestored w d active c p = do {
     e \<leftarrow> startContainer w d (cn_id c) (dr_id active);
     case e of
       Some e \<Rightarrow> State_Monad.return (True, Inl (Wrap ''start active service container'' e))
     | None \<Rightarrow> do {
         e \<leftarrow> recordVolumeInitializations w d;
         case e of
           Some e \<Rightarrow> State_Monad.return (True, Inl e)
         | None \<Rightarrow> do {
             r \<leftarrow> waitReady w d (cn_id c) (pl_network p);
             case r of
               Inl e \<Rightarrow> State_Monad.return (True, Inl (Wrap ''restore active service readiness'' e))
             | Inr ready \<Rightarrow> do {
                 setActive (de_id d) \<lparr>ac_deployment = dr_id active, ac_container = ready, ac_network = pl_network p\<rparr>;
                 e \<leftarrow> ask_err w (CPublish d ready);
                 State_Monad.return (False, case e of
                     Some e \<Rightarrow> Inl (Wrap ''publish restored service'' e)
                   | None \<Rightarrow> Inr True)
               }
           }
       }
   }"

definition restoreRecord :: "collaborators \<Rightarrow> desired \<Rightarrow> deployment_record \<Rightarrow> (derr + bool) op" where
  "restoreRecord w d active = do {
     i \<leftarrow> activeImage w d active;
     case i of
       Inl e \<Rightarrow> State_Monad.return (Inl e)
     | Inr i \<Rightarrow> do {
         created \<leftarrow> createRuntimeContainer w d
           \<lparr>ec_deployment = dr_id active, ec_kind = EnvironmentProduction, ec_previewURL = [],
            ec_revision = dr_revision active, ec_commit = dr_commit active\<rparr> (im_id i);
         case created of
           Inl e \<Rightarrow> State_Monad.return (Inl e)
         | Inr (c, p) \<Rightarrow> do {
             r \<leftarrow> startRestored w d active c p;
             (if fst r then do { _ \<leftarrow> ask_err w (CRemove (cn_id c)); State_Monad.return () }
              else State_Monad.return ());
             State_Monad.return (snd r)
           }
       }
   }"

definition restoreCurrentLocked :: "collaborators \<Rightarrow> string \<Rightarrow> string \<Rightarrow> (derr + bool) op" where
  "restoreCurrentLocked w sid expected = do {
     d \<leftarrow> ask_res (co_desired w) (CDesired sid);
     case d of
       Inl e \<Rightarrow> State_Monad.return (Inl e)
     | Inr d \<Rightarrow>
         if \<not> de_enabled d \<or> de_activeDeployment d = [] then State_Monad.return (Inr False)
         else if expected \<noteq> [] \<and> de_activeDeployment d \<noteq> expected then State_Monad.return (Inr False)
         else do {
           a \<leftarrow> activeContainer sid;
           case a of
             Some _ \<Rightarrow> State_Monad.return (Inr False)
           | None \<Rightarrow> do {
               r \<leftarrow> ask_res (co_record w) (CDeployment (de_activeDeployment d));
               case r of
                 Inl e \<Rightarrow> State_Monad.return (Inl (Wrap ''load active deployment'' e))
               | Inr active \<Rightarrow> restoreRecord w (d\<lparr>de_snapshot := dr_snapshot active\<rparr>) active
             }
         }
   }"

definition restore :: "collaborators \<Rightarrow> string \<Rightarrow> derr option op" where
  "restore w sid = admitted ''service_reconcile'' sid Some (do {
     r \<leftarrow> restoreCurrentLocked w sid [];
     State_Monad.return (case r of Inl e \<Rightarrow> Some e | Inr _ \<Rightarrow> None)
   })"

definition restoreCurrent :: "collaborators \<Rightarrow> string \<Rightarrow> string \<Rightarrow> (derr + bool) op" where
  "restoreCurrent w sid expected =
     admitted ''service_restart'' sid Inl (restoreCurrentLocked w sid expected)"

definition restartRestored :: "collaborators \<Rightarrow> string \<Rightarrow> string \<Rightarrow> derr option op" where
  "restartRestored w sid expected = do {
     r \<leftarrow> restoreCurrentLocked w sid expected;
     State_Monad.return (case r of
         Inl e \<Rightarrow> Some e
       | Inr restored \<Rightarrow> if \<not> restored then Some (Message ''active service deployment was not restarted'') else None)
   }"

definition restartLocked :: "collaborators \<Rightarrow> string \<Rightarrow> string \<Rightarrow> derr option op" where
  "restartLocked w sid expected = do {
     d \<leftarrow> ask_res (co_desired w) (CDesired sid);
     case d of
       Inl e \<Rightarrow> State_Monad.return (Some e)
     | Inr d \<Rightarrow>
         if \<not> de_enabled d \<or> de_activeDeployment d = [] \<or> de_activeDeployment d \<noteq> expected
         then State_Monad.return (Some ErrDeploymentNotFound)
         else do {
           a \<leftarrow> activeContainer sid;
           case a of
             None \<Rightarrow> restartRestored w sid expected
           | Some a \<Rightarrow>
               if ac_deployment a \<noteq> expected then State_Monad.return (Some ErrServiceChanged)
               else do {
                 e \<leftarrow> ask_err w (CWithdraw d);
                 case e of
                   Some e \<Rightarrow> State_Monad.return (Some e)
                 | None \<Rightarrow> do {
                     e \<leftarrow> ask_err w (CStop (cn_id (ac_container a)));
                     case e of
                       Some e \<Rightarrow> do {
                         p \<leftarrow> ask_err w (CPublish d (ac_container a));
                         State_Monad.return (err_join (Some e) p)
                       }
                     | None \<Rightarrow> do {
                         e \<leftarrow> ask_err w (CRemove (cn_id (ac_container a)));
                         case e of
                           Some e \<Rightarrow> State_Monad.return (Some e)
                         | None \<Rightarrow> do {
                             clearActive sid;
                             restartRestored w sid expected
                           }
                       }
                   }
               }
         }
   }"

definition restartCurrent :: "collaborators \<Rightarrow> string \<Rightarrow> string \<Rightarrow> derr option op" where
  "restartCurrent w sid expected = admitted ''service_restart'' sid Some (restartLocked w sid expected)"

definition deleteService :: "collaborators \<Rightarrow> desired \<Rightarrow> derr option op" where
  "deleteService w d = admitted ''service_delete'' (de_id d) Some (stopDisabled w d)"

definition deleteServiceDuringProjectDeletion :: "collaborators \<Rightarrow> desired \<Rightarrow> derr option op" where
  "deleteServiceDuringProjectDeletion w d = stopDisabled w d"

definition prepareUnexpectedExit :: "collaborators \<Rightarrow> string \<Rightarrow> string \<Rightarrow> string \<Rightarrow> (bool \<times> derr option) op" where
  "prepareUnexpectedExit w sid dep cid = do {
     d \<leftarrow> ask_res (co_desired w) (CDesired sid);
     case d of
       Inl e \<Rightarrow> State_Monad.return (False, Some e)
     | Inr d \<Rightarrow> do {
         a \<leftarrow> activeContainer sid;
         case a of
           None \<Rightarrow> State_Monad.return (False, None)
         | Some a \<Rightarrow>
             if \<not> de_enabled d \<or> de_activeDeployment d \<noteq> dep \<or> ac_deployment a \<noteq> dep
                \<or> cn_id (ac_container a) \<noteq> cid
             then State_Monad.return (False, None)
             else do {
               withdrawErr \<leftarrow> ask_err w (CWithdraw d);
               clearActive sid;
               removeErr \<leftarrow> ask_err w (CRemove cid);
               State_Monad.return (True, err_join withdrawErr removeErr)
             }
       }
   }"

section \<open>Quiescing\<close>

definition quiesceService :: "collaborators \<Rightarrow> string \<Rightarrow> (quiesced_service option \<times> derr option) op" where
  "quiesceService w sid = do {
     a \<leftarrow> activeContainer sid;
     case a of
       None \<Rightarrow> State_Monad.return (None, None)
     | Some a \<Rightarrow> do {
         d \<leftarrow> ask_res (co_desired w) (CDesired sid);
         case d of
           Inl e \<Rightarrow> State_Monad.return (None, Some e)
         | Inr d \<Rightarrow> do {
             e \<leftarrow> ask_err w (CWithdraw d);
             case e of
               Some e \<Rightarrow> State_Monad.return (None, Some (Wrap ''withdraw service before update'' e))
             | None \<Rightarrow> do {
                 e \<leftarrow> ask_err w (CStop (cn_id (ac_container a)));
                 case e of
                   Some e \<Rightarrow> do {
                     p \<leftarrow> ask_err w (CPublish d (ac_container a));
                     State_Monad.return (None, err_join (Some (Wrap ''stop service before update'' e)) p)
                   }
                 | None \<Rightarrow> do {
                     clearActive sid;
                     State_Monad.return (Some \<lparr>qs_desired = d, qs_active = a\<rparr>, None)
                   }
               }
           }
       }
   }"

fun quiesceServices :: "collaborators \<Rightarrow> quiesced_service list \<Rightarrow> string list \<Rightarrow> (quiesced_service list \<times> derr option) op" where
  "quiesceServices w stopped [] = State_Monad.return (stopped, None)"
| "quiesceServices w stopped (sid # sids) = do {
     c \<leftarrow> ask_err w CContext;
     case c of
       Some e \<Rightarrow> State_Monad.return (stopped, Some e)
     | None \<Rightarrow> do {
         r \<leftarrow> quiesceService w sid;
         (let stopped = stopped @ (case fst r of None \<Rightarrow> [] | Some q \<Rightarrow> [q])
          in case snd r of
               Some e \<Rightarrow> State_Monad.return (stopped, Some e)
             | None \<Rightarrow> quiesceServices w stopped sids)
       }
   }"

text \<open>\<^verbatim>\<open>QuiesceAll\<close> returns the services its closure will resume.\<close>

definition quiesceAll :: "collaborators \<Rightarrow> (quiesced_service list \<times> derr option) op" where
  "quiesceAll w = do {
     sids \<leftarrow> State (\<lambda>s. (sort (map fst (ct_active s)), s));
     quiesceServices w [] sids
   }"

definition resumeService :: "collaborators \<Rightarrow> quiesced_service \<Rightarrow> derr option op" where
  "resumeService w q = do {
     a \<leftarrow> activeContainer (de_id (qs_desired q));
     case a of
       Some _ \<Rightarrow> State_Monad.return None
     | None \<Rightarrow> do {
         e \<leftarrow> startContainer w (qs_desired q) (cn_id (ac_container (qs_active q))) (ac_deployment (qs_active q));
         case e of
           Some e \<Rightarrow> State_Monad.return (Some e)
         | None \<Rightarrow> do {
             r \<leftarrow> waitReady w (qs_desired q) (cn_id (ac_container (qs_active q))) (ac_network (qs_active q));
             case r of
               Inl e \<Rightarrow> State_Monad.return (Some e)
             | Inr ready \<Rightarrow> do {
                 setActive (de_id (qs_desired q)) ((qs_active q)\<lparr>ac_container := ready\<rparr>);
                 ask_err w (CPublish (qs_desired q) ready)
               }
           }
       }
   }"

fun resumeServices :: "collaborators \<Rightarrow> quiesced_service list \<Rightarrow> derr option op" where
  "resumeServices w [] = State_Monad.return None"
| "resumeServices w (q # qs) = do {
     e \<leftarrow> resumeService w q;
     rest \<leftarrow> resumeServices w qs;
     State_Monad.return (err_join (case e of None \<Rightarrow> None | Some e \<Rightarrow> Some (Wrap ''resume service'' e)) rest)
   }"

definition withServiceQuiesced :: "collaborators \<Rightarrow> string \<Rightarrow> (derr option op) option \<Rightarrow> derr option op" where
  "withServiceQuiesced w sid action =
     (case action of
        None \<Rightarrow> State_Monad.return (Some (Message ''service quiesce request is incomplete''))
      | Some act \<Rightarrow>
          if sid = [] then State_Monad.return (Some (Message ''service quiesce request is incomplete''))
          else do {
            q \<leftarrow> quiesceService w sid;
            case snd q of
              Some e \<Rightarrow> State_Monad.return (Some e)
            | None \<Rightarrow> do {
                actionErr \<leftarrow> act;
                case fst q of
                  None \<Rightarrow> State_Monad.return actionErr
                | Some q \<Rightarrow> do {
                    e \<leftarrow> resumeService w q;
                    State_Monad.return (err_join actionErr e)
                  }
              }
          })"

section \<open>Queries\<close>

definition statusOf :: "collaborators \<Rightarrow> string \<Rightarrow> (runtime_status \<times> bool \<times> derr option) op" where
  "statusOf w sid = do {
     a \<leftarrow> activeContainer sid;
     case a of
       None \<Rightarrow> State_Monad.return (\<lparr>st_deployment = [], st_state = [], st_exit = 0\<rparr>, False, None)
     | Some a \<Rightarrow> do {
         c \<leftarrow> ask_res (co_container w) (CInspect (cn_id (ac_container a)));
         State_Monad.return (case c of
             Inl e \<Rightarrow> (\<lparr>st_deployment = ac_deployment a, st_state = [], st_exit = 0\<rparr>, True, Some e)
           | Inr c \<Rightarrow> (\<lparr>st_deployment = ac_deployment a, st_state = cn_state c, st_exit = cn_exit c\<rparr>, True, None))
       }
   }"

definition containerOf :: "collaborators \<Rightarrow> string \<Rightarrow> (derr + container option) op" where
  "containerOf w sid = do {
     a \<leftarrow> activeContainer sid;
     case a of
       None \<Rightarrow> State_Monad.return (Inr None)
     | Some a \<Rightarrow> do {
         c \<leftarrow> ask_res (co_container w) (CInspect (cn_id (ac_container a)));
         State_Monad.return (case c of
             Inl e \<Rightarrow> Inl e
           | Inr c \<Rightarrow> if cn_state c \<noteq> ''running'' then Inr None else Inr (Some c))
       }
   }"

definition backendOf :: "collaborators \<Rightarrow> string \<Rightarrow> int \<Rightarrow> (derr + backend option) op" where
  "backendOf w sid targetPort = do {
     a \<leftarrow> activeContainer sid;
     case a of
       None \<Rightarrow> State_Monad.return (Inr None)
     | Some a \<Rightarrow>
         if targetPort < 1 \<or> targetPort > 65535 then State_Monad.return (Inr None)
         else do {
           c \<leftarrow> ask_res (co_container w) (CInspect (cn_id (ac_container a)));
           State_Monad.return (case c of
               Inl e \<Rightarrow> Inl e
             | Inr c \<Rightarrow>
                 if cn_state c \<noteq> ''running'' then Inr None
                 else (case cn_ips c (ac_network a) of
                         [address] \<Rightarrow> Inr (Some \<lparr>be_deployment = ac_deployment a, be_address = address, be_port = targetPort\<rparr>)
                       | _ \<Rightarrow> Inl (Message ''service container backend addresses'')))
         }
   }"

definition terminalTarget :: "collaborators \<Rightarrow> string \<Rightarrow> ((string \<times> string) \<times> bool \<times> derr option) op" where
  "terminalTarget w sid = do {
     a \<leftarrow> activeContainer sid;
     case a of
       None \<Rightarrow> State_Monad.return (([], []), False, None)
     | Some a \<Rightarrow> do {
         c \<leftarrow> ask_res (co_container w) (CInspect (cn_id (ac_container a)));
         State_Monad.return (case c of
             Inl e \<Rightarrow> ((ac_deployment a, cn_id (ac_container a)), True, Some e)
           | Inr c \<Rightarrow>
               if cn_state c \<noteq> ''running'' then (([], []), False, None)
               else ((ac_deployment a, cn_id c), True, None))
       }
   }"

definition execTerminal :: "collaborators \<Rightarrow> string \<Rightarrow> string \<Rightarrow> (derr + int) op" where
  "execTerminal w sid expected = do {
     a \<leftarrow> activeContainer sid;
     case a of
       None \<Rightarrow> State_Monad.return (Inl (Message ''service terminal target is no longer active''))
     | Some a \<Rightarrow>
         if cn_id (ac_container a) \<noteq> expected then
           State_Monad.return (Inl (Message ''service terminal target is no longer active''))
         else ask_res (co_exit w) (CTerminal expected)
   }"

definition probeTerminalShell :: "collaborators \<Rightarrow> string \<Rightarrow> string \<Rightarrow> string \<Rightarrow> bool op" where
  "probeTerminalShell w sid expected shell = do {
     a \<leftarrow> activeContainer sid;
     case a of
       None \<Rightarrow> State_Monad.return False
     | Some a \<Rightarrow>
         if cn_id (ac_container a) \<noteq> expected then State_Monad.return False
         else do {
           r \<leftarrow> ask_res (co_exit w) (CExec expected [shell, ''-c'', ''exit 0'']);
           State_Monad.return (r = Inr 0)
         }
   }"

end
