(* ===== verification/Deployment_Safety.thy ===== *)
theory Deployment_Safety
  imports Deployment
begin

text \<open>
  What the deployment controller guarantees, over every behaviour of its collaborators. \<open>calls_in N m\<close>
  says that an operation only makes calls that satisfy \<open>N\<close> and touches neither the gate nor the table of
  active containers; it is proved once for each helper, and invariants of the history follow from it.
\<close>

section \<open>Operations that only make certain calls\<close>

definition calls_in :: "(call \<Rightarrow> bool) \<Rightarrow> 'a op \<Rightarrow> bool" where
  "calls_in N m \<longleftrightarrow> (\<forall>s a s'. run_state m s = (a, s') \<longrightarrow>
     (\<exists>h. ct_history s' = ct_history s @ h \<and> (\<forall>x\<in>set h. N (fst x)))
     \<and> ct_active s' = ct_active s \<and> ct_gate s' = ct_gate s)"

named_theorems call_rules

lemma calls_return [call_rules]: "calls_in N (State_Monad.return a)"
  by (simp add: calls_in_def)

lemma calls_bind [call_rules]:
  assumes "calls_in N m" "\<And>a. calls_in N (f a)"
  shows "calls_in N (State_Monad.bind m f)"
  unfolding calls_in_def
proof (intro allI impI)
  fix s b s''
  assume run: "run_state (State_Monad.bind m f) s = (b, s'')"
  obtain a s' where m: "run_state m s = (a, s')"
    by force
  then have f: "run_state (f a) s' = (b, s'')"
    using run by simp
  from assms(1) m obtain h where h: "ct_history s' = ct_history s @ h" "\<forall>x\<in>set h. N (fst x)"
    "ct_active s' = ct_active s" "ct_gate s' = ct_gate s"
    unfolding calls_in_def by blast
  from assms(2) f obtain g where g: "ct_history s'' = ct_history s' @ g" "\<forall>x\<in>set g. N (fst x)"
    "ct_active s'' = ct_active s'" "ct_gate s'' = ct_gate s'"
    unfolding calls_in_def by blast
  show "(\<exists>h. ct_history s'' = ct_history s @ h \<and> (\<forall>x\<in>set h. N (fst x)))
     \<and> ct_active s'' = ct_active s \<and> ct_gate s'' = ct_gate s"
    using h g by (intro conjI exI [of _ "h @ g"]) auto
qed

lemma calls_ask:
  "N c \<Longrightarrow> calls_in N (ask f ok c)" "N c \<Longrightarrow> calls_in N (ask_err w c)" "N c \<Longrightarrow> calls_in N (ask_res g c)"
  "N CNow \<Longrightarrow> calls_in N (ask_now w)" "N c \<Longrightarrow> calls_in N (note_call c)"
  by (auto simp: calls_in_def ask_def ask_err_def ask_res_def ask_now_def note_call_def Let_def)

lemmas [call_rules] = calls_ask

lemma calls_active [call_rules]: "calls_in N (activeContainer sid)"
  by (simp add: calls_in_def activeContainer_def)

lemma calls_cases [call_rules]:
  "(b \<Longrightarrow> calls_in N m) \<Longrightarrow> (\<not> b \<Longrightarrow> calls_in N n) \<Longrightarrow> calls_in N (if b then m else n)"
  "(\<And>x. calls_in N (fl x)) \<Longrightarrow> (\<And>y. calls_in N (fr y)) \<Longrightarrow> calls_in N (case r of Inl x \<Rightarrow> fl x | Inr y \<Rightarrow> fr y)"
  "calls_in N m \<Longrightarrow> (\<And>y. calls_in N (fs y)) \<Longrightarrow> calls_in N (case t of None \<Rightarrow> m | Some y \<Rightarrow> fs y)"
  "(\<And>x y. calls_in N (fp x y)) \<Longrightarrow> calls_in N (case p of (x, y) \<Rightarrow> fp x y)"
  "calls_in N m \<Longrightarrow> (\<And>x xs. calls_in N (fc x xs)) \<Longrightarrow> calls_in N (case l of [] \<Rightarrow> m | x # xs \<Rightarrow> fc x xs)"
  "(b \<Longrightarrow> calls_in N m) \<Longrightarrow> (\<not> b \<Longrightarrow> calls_in N n) \<Longrightarrow> calls_in N (case b of True \<Rightarrow> m | False \<Rightarrow> n)"
  by (simp_all split: sum.splits option.splits prod.splits list.splits bool.splits)

lemma calls_mono: "calls_in N m \<Longrightarrow> (\<And>c. N c \<Longrightarrow> M c) \<Longrightarrow> calls_in M m"
  unfolding calls_in_def by blast

lemma calls_dispatch [call_rules]: "(\<And>d e. N (CDispatch d dep status e)) \<Longrightarrow> calls_in N (dispatchDeployment w d dep status code)"
  unfolding dispatchDeployment_def by (intro call_rules)

text \<open>The calls of the helpers that neither settle nor open a deployment and start no container.\<close>

fun idle_call :: "call \<Rightarrow> bool" where
  "idle_call (CBegin _ _ _ _ _ _) = False"
| "idle_call (CDiscard _) = False"
| "idle_call (CFinish _ _ _ _ _) = False"
| "idle_call (CActivate _ _ _ _) = False"
| "idle_call (CFail _ _ _ _) = False"
| "idle_call (CStart _ _ _) = False"
| "idle_call (CStop _) = False"
| "idle_call (CRemove _) = False"
| "idle_call _ = True"

lemma calls_mountVolumes: "calls_in idle_call (mountVolumes w d ms)"
  by (induction ms) (auto intro!: call_rules split: sum.splits)

lemma calls_createRuntimeContainer: "calls_in idle_call (createRuntimeContainer w d ctx i)"
  unfolding createRuntimeContainer_def
  by (intro call_rules calls_mountVolumes) simp_all

lemma calls_recordVolumes: "calls_in idle_call (recordVolumes w d ms)"
  by (induction ms) (auto intro!: call_rules)

lemma calls_readyVerdict: "calls_in idle_call (readyVerdict w hc c network deadline)"
  unfolding readyVerdict_def probeHTTP_def by (intro call_rules) simp_all

lemma calls_readyLoop: "calls_in idle_call (readyLoop w hc cid network deadline n)"
proof (induction n)
  case (Suc n)
  show ?case
    unfolding readyLoop.simps by (intro call_rules calls_readyVerdict Suc) simp_all
qed (simp add: call_rules)

lemma calls_waitReady: "calls_in idle_call (waitReady w d cid network)"
  unfolding waitReady_def by (intro call_rules calls_readyLoop) simp_all

lemma calls_recordVolumeInitializations: "calls_in idle_call (recordVolumeInitializations w d)"
  unfolding recordVolumeInitializations_def by (rule calls_recordVolumes)

section \<open>Every deployment that was begun is settled\<close>

text \<open>
  The rows of the deployment table a history leaves running: a begun deployment is open until the
  controller finishes or fails it, or activates or discards it successfully.
\<close>

fun row_step :: "string set \<Rightarrow> call \<times> bool \<Rightarrow> string set" where
  "row_step R (CBegin dep _ _ _ _ _, ok) = (if ok then insert dep R else R)"
| "row_step R (CFinish dep _ _ _ _, ok) = R - {dep}"
| "row_step R (CFail dep _ _ _, ok) = R - {dep}"
| "row_step R (CActivate _ dep _ _, ok) = (if ok then R - {dep} else R)"
| "row_step R (CDiscard dep, ok) = (if ok then R - {dep} else R)"
| "row_step R (_, ok) = R"

definition open_rows :: "history \<Rightarrow> string set" where
  "open_rows h = foldl row_step {} h"

definition rows_in :: "string set \<Rightarrow> controller \<Rightarrow> bool" where
  "rows_in Z s \<longleftrightarrow> open_rows (ct_history s) \<subseteq> Z"

definition row_neutral :: "call \<Rightarrow> bool" where
  "row_neutral c \<longleftrightarrow> (\<forall>R ok. row_step R (c, ok) = R)"

lemma row_neutral_simps [simp]:
  "row_neutral (CStart x y z)" "row_neutral (CStop x)" "row_neutral (CRemove x)"
  "row_neutral (CUpdateSource u v x y z)"
  "idle_call c \<Longrightarrow> row_neutral c"
  by (simp_all add: row_neutral_def) (cases c; simp)

lemma foldl_row_neutral: "\<forall>x\<in>set h. row_neutral (fst x) \<Longrightarrow> foldl row_step R h = R"
  by (induction h arbitrary: R) (auto simp: row_neutral_def)

lemma kept_rows:
  assumes "calls_in row_neutral m"
  shows "kept (rows_in Z) m"
  unfolding hoare_def
proof (intro allI impI)
  fix s
  assume Z: "rows_in Z s"
  obtain a s' where run: "run_state m s = (a, s')"
    by force
  with assms obtain h where "ct_history s' = ct_history s @ h" "\<forall>x\<in>set h. row_neutral (fst x)"
    unfolding calls_in_def by blast
  then show "case run_state m s of (a, s') \<Rightarrow> rows_in Z s'"
    using Z run by (simp add: rows_in_def open_rows_def foldl_row_neutral)
qed

lemma kept_rows_idle: "calls_in idle_call m \<Longrightarrow> kept (rows_in Z) m"
  by (rule kept_rows) (erule calls_mono, simp)

lemma hoare_ask_err:
  "(\<And>s r. P s \<Longrightarrow> Q r (s\<lparr>ct_history := ct_history s @ [(c, r = None)]\<rparr>)) \<Longrightarrow> hoare P (ask_err w c) Q"
  by (auto simp: hoare_def ask_err_def ask_def Let_def)

lemma rows_ask_neutral [hoare_rules]:
  "row_neutral c \<Longrightarrow> kept (rows_in Z) (ask_err w c)" "row_neutral c \<Longrightarrow> kept (rows_in Z) (ask_res f c)"
  "kept (rows_in Z) (ask_now w)" "kept (rows_in Z) (activeContainer sid)"
  "kept (rows_in Z) (dispatchDeployment w d dep status code)"
  by (rule kept_rows, auto intro!: call_rules)+

lemma rows_set_clear [hoare_rules]: "kept (rows_in Z) (setActive sid a)" "kept (rows_in Z) (clearActive sid)"
  by (simp_all add: hoare_def setActive_def clearActive_def rows_in_def)

lemma rows_mono: "rows_in Y s \<Longrightarrow> Y \<subseteq> Z \<Longrightarrow> rows_in Z s"
  by (auto simp: rows_in_def)

lemma rows_finish: "hoare (rows_in (insert dep R)) (ask_err w (CFinish dep status code e t)) (\<lambda>_. rows_in R)"
  by (rule hoare_ask_err) (auto simp: rows_in_def open_rows_def)

lemma rows_fail: "hoare (rows_in (insert dep R)) (ask_err w (CFail dep code e t)) (\<lambda>_. rows_in R)"
  by (rule hoare_ask_err) (auto simp: rows_in_def open_rows_def)

lemma rows_activate:
  "hoare (rows_in (insert dep R)) (ask_err w (CActivate sid dep old t))
     (\<lambda>e. rows_in (if e = None then R else insert dep R))"
  by (rule hoare_ask_err) (auto simp: rows_in_def open_rows_def)

lemma deploy_fail_rows: "hoare (rows_in (insert dep R)) (deploy_fail w dep code cause) (\<lambda>_. rows_in R)"
  unfolding deploy_fail_def
  by (rule hoare_bind [OF rows_ask_neutral(3)], rule hoare_bind [OF rows_fail]) (intro hoare_rules, simp_all)

lemma restoreOld_rows: "kept (rows_in Z) (restoreOld w d old)"
  unfolding restoreOld_def startContainer_def by (intro hoare_rules) simp_all

lemma abandon_rows: "hoare (rows_in (insert dep R)) (abandon w d old dep code e) (\<lambda>_. rows_in R)"
  unfolding abandon_def
  by (rule hoare_bind [OF restoreOld_rows], rule hoare_bind [OF deploy_fail_rows], rule hoare_return)

lemma commitCandidate_rows:
  "hoare (rows_in (insert dep R)) (commitCandidate w d old dep p ready) (\<lambda>_. rows_in R)"
  unfolding commitCandidate_def
  by (rule hoare_bind [OF rows_ask_neutral(3)], rule hoare_bind [OF rows_activate],
      rule hoare_option) (simp, intro hoare_rules, simp_all add: abandon_rows)

lemma startCandidate_rows:
  "hoare (rows_in (insert dep R)) (startCandidate w d old dep c p) (\<lambda>_. rows_in R)"
  unfolding startCandidate_def startContainer_def
  by (rule hoare_bind [OF rows_ask_neutral(1)], simp, rule hoare_option,
      rule hoare_bind [OF kept_rows_idle [OF calls_recordVolumeInitializations]], rule hoare_option,
      rule hoare_bind [OF kept_rows_idle [OF calls_waitReady]], rule hoare_sum)
    (rule abandon_rows commitCandidate_rows)+

lemma cutOver_rows: "hoare (rows_in (insert dep R)) (cutOver w d dep c p) (\<lambda>_. rows_in R)"
  unfolding cutOver_def
  by (rule hoare_bind [OF rows_ask_neutral(4)], rule hoare_option, rule startCandidate_rows,
      rule hoare_if, rule hoare_bind [OF deploy_fail_rows], rule hoare_return, assumption,
      rule hoare_bind [OF rows_ask_neutral(1)], simp, rule hoare_option,
      rule hoare_bind [OF rows_ask_neutral(1)], simp, rule hoare_option)
    (rule abandon_rows startCandidate_rows)+

lemma runDeployment_rows:
  "hoare (rows_in (insert (ec_deployment ctx) R)) (runDeployment w d ctx i) (\<lambda>_. rows_in R)"
  unfolding runDeployment_def
  by (rule hoare_bind [OF kept_rows_idle [OF calls_createRuntimeContainer]], rule hoare_sum,
      rule deploy_fail_rows, rule hoare_prod, rule hoare_bind [OF cutOver_rows]) (intro hoare_rules, simp_all)
text \<open>The rows an attempt may leave open: its own deployment, once it was begun.\<close>

definition attempt_rows :: "attempt \<Rightarrow> string set \<Rightarrow> string set" where
  "attempt_rows a R = (if at_started a then insert (at_deployment a) R else R)"

lemma beginDeployment_rows:
  "hoare (rows_in (attempt_rows a R)) (beginDeployment w a)
     (\<lambda>r s. fst r = (if snd r = None then a\<lparr>at_started := True\<rparr> else a) \<and> rows_in (attempt_rows (fst r) R) s)"
proof (cases "at_started a")
  case True
  then show ?thesis
    by (auto simp: beginDeployment_def intro!: hoare_return)
next
  case False
  have begun: "hoare (rows_in R) (ask_err w (CBegin (at_deployment a) sid src hash json t))
      (\<lambda>e. rows_in (if e = None then insert (at_deployment a) R else R))" for sid src hash json t
    by (rule hoare_ask_err) (auto simp: rows_in_def open_rows_def)
  show ?thesis
    using False unfolding beginDeployment_def
    by (simp add: attempt_rows_def, intro hoare_bind [OF begun] hoare_option)
      (auto intro!: hoare_bind [OF rows_ask_neutral(5)] hoare_return)
qed

lemma failDeployment_rows: "hoare (rows_in (attempt_rows a R)) (failDeployment w a code f) (\<lambda>_. rows_in R)"
proof -
  have first: "hoare (rows_in (attempt_rows a R))
      (if at_started a then State_Monad.return (a, None) else beginDeployment w a)
      (\<lambda>r s. rows_in (if snd r = None then insert (at_deployment a) R else R) s)"
  proof (cases "at_started a")
    case True
    then show ?thesis
      by (auto simp: attempt_rows_def intro!: hoare_return)
  next
    case False
    then show ?thesis
      by (simp, intro hoare_weaken [OF beginDeployment_rows]) (auto simp: attempt_rows_def)
  qed
  have rest: "hoare (rows_in (insert (at_deployment a) R)) (do {
         now \<leftarrow> ask_now w;
         e \<leftarrow> ask_err w (CFinish (at_deployment a) ''failed'' code f (unix_milli now));
         (if e = None then dispatchDeployment w (at_desired a) (at_deployment a) ''failed'' code
          else State_Monad.return ());
         State_Monad.return (err_join (Some f) e)
       }) (\<lambda>_. rows_in R)"
    by (rule hoare_bind [OF rows_ask_neutral(3)], rule hoare_bind [OF rows_finish]) (intro hoare_rules)
  show ?thesis
    unfolding failDeployment_def
    by (rule hoare_bind [OF first], rule hoare_option) (simp_all add: rest hoare_return)
qed

lemma finishAttempt_rows:
  "at_started a \<Longrightarrow> hoare (rows_in (attempt_rows a R)) (finishAttempt w a status code e) (\<lambda>_. rows_in R)"
  unfolding finishAttempt_def attempt_rows_def
  by (simp, rule hoare_bind [OF rows_ask_neutral(3)], rule hoare_bind [OF rows_finish]) (intro hoare_rules)

lemma recordResolved_rows:
  assumes "\<not> at_started a"
  shows "hoare (rows_in R) (recordResolvedDeployment w a)
     (\<lambda>r s. (snd r = None \<longrightarrow> fst r = a\<lparr>at_started := True\<rparr>)
        \<and> rows_in (if snd r = None then insert (at_deployment a) R else R) s)"
proof -
  have begun: "hoare (rows_in R) (beginDeployment w a)
     (\<lambda>r s. fst r = (if snd r = None then a\<lparr>at_started := True\<rparr> else a) \<and> rows_in (attempt_rows (fst r) R) s)"
    using beginDeployment_rows [of a R w] assms by (simp add: attempt_rows_def)
  have update: "hoare (\<lambda>s. b = a\<lparr>at_started := True\<rparr> \<and> rows_in (attempt_rows b R) s) (do {
         e \<leftarrow> ask_err w (CUpdateSource x y z u v);
         case e of
           None \<Rightarrow> State_Monad.return (b, None)
         | Some e \<Rightarrow> do {
             f \<leftarrow> failDeployment w b ''state_update_failed'' e;
             State_Monad.return (b, f)
           }
       })
     (\<lambda>r s. (snd r = None \<longrightarrow> fst r = a\<lparr>at_started := True\<rparr>)
        \<and> rows_in (if snd r = None then insert (at_deployment a) R else R) s)" for b x y z u v
  proof (cases "b = a\<lparr>at_started := True\<rparr>")
    case True
    have "hoare (rows_in (attempt_rows b R)) (failDeployment w b ''state_update_failed'' e)
        (\<lambda>f s. rows_in R s)" for e
      by (rule failDeployment_rows)
    then show ?thesis
      using True
      by (auto intro!: hoare_bind [where R = "\<lambda>_. rows_in (attempt_rows b R)"]
          hoare_bind [OF failDeployment_rows] hoare_rules hoare_return
          simp: attempt_rows_def intro: rows_mono)
  qed (simp add: hoare_def)
  show ?thesis
    unfolding recordResolvedDeployment_def
    by (rule hoare_bind [OF begun], rule hoare_option, rule hoare_pre [OF update])
      (auto intro!: hoare_return simp: attempt_rows_def assms)
qed
text \<open>Before the deployment is begun every step keeps the rows and returns an attempt that is not begun.\<close>

definition unstarted :: "derr option + attempt \<Rightarrow> bool" where
  "unstarted r \<longleftrightarrow> (case r of Inl _ \<Rightarrow> True | Inr a \<Rightarrow> \<not> at_started a)"

lemma unstarted_simps [simp]: "unstarted (Inl e)" "unstarted (Inr a) \<longleftrightarrow> \<not> at_started a"
  by (simp_all add: unstarted_def)

lemma fail_kept: "\<not> at_started a \<Longrightarrow> kept (rows_in R) (failDeployment w a code f)"
  using failDeployment_rows [of a R w code f] by (simp add: attempt_rows_def)

lemma fail_unstarted:
  "\<not> at_started a \<Longrightarrow> hoare (rows_in R) (do { f \<leftarrow> failDeployment w a code e; State_Monad.return (Inl f) })
     (\<lambda>r s. rows_in R s \<and> unstarted r)"
  by (rule hoare_bind [OF fail_kept]) (auto intro: hoare_return)

lemma chooseSource_rows: "kept (rows_in R) (chooseSource w sid d u)"
  unfolding chooseSource_def uploadSource_def activeUpload_def latestUpload_def latestRevision_def
  by (intro hoare_rules) simp_all

lemma resolveCredential_rows:
  "\<not> at_started a \<Longrightarrow> kept (rows_in R) (resolveCredential w a)"
  unfolding resolveCredential_def by (intro hoare_rules fail_kept) simp_all

lemma pullImage_rows:
  assumes "\<not> at_started a"
  shows "hoare (rows_in R) (pullImage w a c) (\<lambda>r s. rows_in R s \<and> unstarted r)"
  unfolding pullImage_def
  by (rule hoare_bind [OF rows_ask_neutral(2)], simp, rule hoare_sum, rule fail_unstarted [OF assms])
    (auto intro!: hoare_return simp: assms)

lemma checkImage_rows:
  assumes "\<not> at_started a"
  shows "hoare (rows_in R) (checkImage w a) (\<lambda>r s. rows_in R s \<and> unstarted r)"
  unfolding checkImage_def
  by (intro hoare_if hoare_sum fail_unstarted assms) (auto intro!: hoare_return simp: assms)

lemma hoare_pure: "(b \<Longrightarrow> hoare P m Q) \<Longrightarrow> hoare (\<lambda>s. P s \<and> b) m Q"
  by (auto simp: hoare_def)

lemma resolveImage_rows:
  assumes "\<not> at_started a"
  shows "hoare (rows_in R) (resolveImage w a u) (\<lambda>r s. rows_in R s \<and> unstarted r)"
proof -
  have pulled: "hoare (rows_in R) (if u then State_Monad.return (Inr a) else pullImage w a c)
      (\<lambda>r s. rows_in R s \<and> unstarted r)" for c
    using pullImage_rows [OF assms] by (auto intro!: hoare_return simp: assms)
  have checked: "hoare (\<lambda>s. rows_in R s \<and> unstarted (Inr b)) (checkImage w b) (\<lambda>r s. rows_in R s \<and> unstarted r)" for b
    by (rule hoare_pure) (simp add: checkImage_rows)
  show ?thesis
    unfolding resolveImage_def
  proof (rule hoare_bind [OF resolveCredential_rows [OF assms]], rule hoare_sum)
    fix c
    show "hoare (rows_in R) (do {
        p \<leftarrow> if u then State_Monad.return (Inr a) else pullImage w a c;
        case p of Inl r \<Rightarrow> State_Monad.return (Inl r) | Inr a \<Rightarrow> checkImage w a
      }) (\<lambda>r s. rows_in R s \<and> unstarted r)"
      by (rule hoare_bind [OF pulled], rule hoare_sum) (use checked in \<open>auto intro!: hoare_return\<close>)
  qed (auto intro!: hoare_return)
qed

lemma reloadDesired_rows:
  assumes "\<not> at_started a"
  shows "hoare (rows_in R) (reloadDesired w a) (\<lambda>r s. rows_in R s \<and> unstarted r)"
proof -
  have changed: "hoare (rows_in R) (do {
        r \<leftarrow> recordResolvedDeployment w a;
        case snd r of
          Some e \<Rightarrow> State_Monad.return (Inl (Some e))
        | None \<Rightarrow> do {
            _ \<leftarrow> finishAttempt w (fst r) ''interrupted'' ''service_changed'' ErrServiceChanged;
            State_Monad.return (Inl (Some ErrServiceChanged))
          }
      }) (\<lambda>r s. rows_in R s \<and> unstarted r)"
  proof (rule hoare_bind [OF recordResolved_rows [OF assms]], rule hoare_option)
    fix r :: "attempt \<times> derr option"
    assume "snd r = None"
    show "hoare (\<lambda>s. (snd r = None \<longrightarrow> fst r = a\<lparr>at_started := True\<rparr>)
        \<and> rows_in (if snd r = None then insert (at_deployment a) R else R) s)
      (do {
         _ \<leftarrow> finishAttempt w (fst r) ''interrupted'' ''service_changed'' ErrServiceChanged;
         State_Monad.return (Inl (Some ErrServiceChanged))
       }) (\<lambda>r s. rows_in R s \<and> unstarted r)"
    proof (cases "fst r = a\<lparr>at_started := True\<rparr>")
      case True
      then have "hoare (rows_in (insert (at_deployment a) R))
          (finishAttempt w (fst r) ''interrupted'' ''service_changed'' ErrServiceChanged) (\<lambda>_. rows_in R)"
        using finishAttempt_rows [of "fst r" R w] by (simp add: attempt_rows_def)
      then show ?thesis
        by (rule hoare_pre [OF hoare_bind [OF _ hoare_return]]) (auto simp: \<open>snd r = None\<close>)
    qed (simp add: hoare_def \<open>snd r = None\<close>)
  qed (auto intro!: hoare_return)
  show ?thesis
    unfolding reloadDesired_def
    by (rule hoare_bind [OF rows_ask_neutral(2)], simp, intro hoare_sum hoare_prod hoare_if fail_unstarted
        assms changed) (auto intro!: hoare_return simp: assms)
qed
lemma publishUnchanged_rows: "\<not> at_started a \<Longrightarrow> kept (rows_in R) (publishUnchanged w a)"
  unfolding publishUnchanged_def by (simp, intro hoare_rules fail_kept) simp_all

lemma releasePending_rows: "kept (rows_in R) (releasePending w a force)"
  unfolding releasePending_def Let_def by (intro hoare_rules)

lemma inspectResolved_rows:
  assumes "\<not> at_started a"
  shows "hoare (rows_in R) (inspectResolved w a) (\<lambda>r s. rows_in R s \<and> unstarted r)"
  unfolding inspectResolved_def Let_def
  by (intro hoare_if hoare_bind [OF rows_ask_neutral(2)] hoare_sum fail_unstarted)
    (auto intro!: hoare_return simp: assms)

text \<open>Once begun: a step that returns an error has settled the deployment.\<close>

definition settles :: "attempt \<Rightarrow> derr option op \<Rightarrow> string set \<Rightarrow> bool" where
  "settles a m R \<longleftrightarrow> hoare (rows_in (insert (at_deployment a) R)) m
     (\<lambda>e. rows_in (if e = None then insert (at_deployment a) R else R))"

lemma fail_settles: "at_started a \<Longrightarrow> settles a (failDeployment w a code f) R"
  unfolding settles_def
  by (rule hoare_weaken [OF failDeployment_rows]) (auto simp: attempt_rows_def rows_in_def)

lemma return_settles: "settles a (State_Monad.return None) R"
  unfolding settles_def by (rule hoare_return) simp

lemma checkBlocked_settles:
  assumes "at_started a"
  shows "settles a (checkBlocked w a force) R"
proof -
  have skip: "hoare (rows_in (insert (at_deployment a) R))
      (do { _ \<leftarrow> finishAttempt w a ''skipped'' ''blocked_pair'' ErrBlockedPair; State_Monad.return (Some ErrBlockedPair) })
      (\<lambda>e. rows_in (if e = None then insert (at_deployment a) R else R))"
    using finishAttempt_rows [OF assms, of R w "''skipped''" "''blocked_pair''" ErrBlockedPair] assms
    by (intro hoare_bind [OF _ hoare_return]) (simp_all add: attempt_rows_def)
  show ?thesis
    unfolding checkBlocked_def settles_def
    by (intro hoare_if hoare_bind [OF rows_ask_neutral(2)] hoare_sum skip
        fail_settles [OF assms, unfolded settles_def] return_settles [unfolded settles_def]) simp_all
qed

lemma runBeforeDeploy_settles:
  assumes "at_started a"
  shows "settles a (runBeforeDeploy w a) R"
  unfolding runBeforeDeploy_def settles_def
  by (intro hoare_if hoare_bind [OF rows_ask_neutral(1)] hoare_option
      fail_settles [OF assms, unfolded settles_def] return_settles [unfolded settles_def]) simp_all

lemma settled_then:
  assumes "settles a m R" "hoare (rows_in (insert (at_deployment a) R)) n (\<lambda>_. rows_in R)"
  shows "hoare (rows_in (insert (at_deployment a) R))
    (do { e \<leftarrow> m; case e of None \<Rightarrow> n | Some e \<Rightarrow> State_Monad.return (Some e) }) (\<lambda>_. rows_in R)"
  by (rule hoare_bind [OF assms(1) [unfolded settles_def]], rule hoare_option)
    (use assms(2) in \<open>auto intro!: hoare_return\<close>)

lemma launch_rows:
  assumes "\<not> at_started a"
  shows "kept (rows_in R) (launch w a force)"
  unfolding launch_def
proof (rule hoare_bind [OF recordResolved_rows [OF assms]], rule hoare_option)
  fix r :: "attempt \<times> derr option"
  assume none: "snd r = None"
  let ?m = "do {
      b \<leftarrow> checkBlocked w (fst r) force;
      case b of
        None \<Rightarrow> do {
          e \<leftarrow> runBeforeDeploy w (fst r);
          case e of
            None \<Rightarrow> runDeployment w (at_desired (fst r)) (environmentOf (fst r)) (im_id (rs_image (at_source (fst r))))
          | Some e \<Rightarrow> State_Monad.return (Some e)
        }
      | Some e \<Rightarrow> State_Monad.return (Some e)
    }"
  show "hoare (\<lambda>s. (snd r = None \<longrightarrow> fst r = a\<lparr>at_started := True\<rparr>)
        \<and> rows_in (if snd r = None then insert (at_deployment a) R else R) s) ?m (\<lambda>_. rows_in R)"
  proof (cases "fst r = a\<lparr>at_started := True\<rparr>")
    case True
    then have started: "at_started (fst r)" and same: "at_deployment (fst r) = at_deployment a"
      by simp_all
    have "hoare (rows_in (insert (at_deployment (fst r)) R)) ?m (\<lambda>_. rows_in R)"
      using runDeployment_rows [of "environmentOf (fst r)"]
      by (intro settled_then checkBlocked_settles runBeforeDeploy_settles started)
        (simp add: environmentOf_def)
    then show ?thesis
      by (rule hoare_pre) (simp add: none same)
  qed (simp add: hoare_def none)
qed (auto intro!: hoare_return)

lemma unstarted_then:
  assumes "hoare (rows_in R) m (\<lambda>r s. rows_in R s \<and> unstarted r)"
    and "\<And>a. \<not> at_started a \<Longrightarrow> kept (rows_in R) (f a)"
  shows "kept (rows_in R) (do { r \<leftarrow> m; case r of Inl e \<Rightarrow> State_Monad.return e | Inr a \<Rightarrow> f a })"
proof (rule hoare_bind [OF assms(1)], rule hoare_sum)
  fix r :: "derr option + attempt" and b
  assume "r = Inr b"
  then show "hoare (\<lambda>s. rows_in R s \<and> unstarted r) (f b) (\<lambda>_. rows_in R)"
    by (intro hoare_pure assms(2)) simp
qed (auto intro!: hoare_return)

lemma deployResolved_rows:
  assumes "\<not> at_started a"
  shows "kept (rows_in R) (deployResolved w a force)"
  unfolding deployResolved_def
  by (intro hoare_if hoare_bind [OF releasePending_rows] publishUnchanged_rows assms unstarted_then
      inspectResolved_rows launch_rows) (rule hoare_return)

lemma deployAttempt_rows:
  assumes "\<not> at_started a"
  shows "kept (rows_in R) (deployAttempt w a u force)"
  unfolding deployAttempt_def growthRefused_def
  by (intro hoare_rules chooseSource_rows unstarted_then resolveImage_rows reloadDesired_rows
      deployResolved_rows) (use assms in simp_all)

lemma stopDisabled_rows: "kept (rows_in R) (stopDisabled w d)"
  unfolding stopDisabled_def by (intro hoare_rules) simp_all

lemma deployLocked_rows: "kept (rows_in R) (deployLocked w sid override u force)"
  unfolding deployLocked_def
  by (intro hoare_rules stopDisabled_rows deployAttempt_rows) simp_all

lemma admitted_cases:
  assumes "run_state (admitted kind sid f m) s = (r, s')"
  obtains g e where "gateBegin kind sid (ct_gate s) = (g, Inl e)" "r = f (GateRefused e)" "s' = s\<lparr>ct_gate := g\<rparr>"
  | g l t where "gateBegin kind sid (ct_gate s) = (g, Inr l)" "run_state m (s\<lparr>ct_gate := g\<rparr>) = (r, t)"
    "s' = t\<lparr>ct_gate := fst (leaseRelease (Some l) (ct_gate t))\<rparr>"
  using assms by (auto simp: admitted_def split: prod.splits sum.splits)

lemma admitted_rows:
  assumes "kept (rows_in R) m"
  shows "kept (rows_in R) (admitted kind sid f m)"
proof -
  have "rows_in R s'" if "rows_in R s" "run_state (admitted kind sid f m) s = (r, s')" for r s s'
    using that(2)
  proof (cases rule: admitted_cases)
    case (1 g e)
    then show ?thesis using that(1) by (simp add: rows_in_def)
  next
    case (2 g l t)
    then have "rows_in R t"
      using hoareD [OF assms _ 2(2)] that(1) by (simp add: rows_in_def)
    then show ?thesis by (simp add: 2(3) rows_in_def)
  qed
  then show ?thesis
    by (auto simp: hoare_def)
qed

text \<open>
  \<^bold>\<open>C1.\<close> Whatever its collaborators answer, \<^verbatim>\<open>Deploy\<close> leaves no deployment running: every deployment it
  records as begun has been activated, or it has asked the store to finish it as failed, interrupted
  or skipped, before it returns. The deployments open afterwards were open before.
\<close>

theorem deploy_settles_deployments:
  "open_rows (ct_history (snd (run_state (deployService w sid override uploaded force) s)))
     \<subseteq> open_rows (ct_history s)"
proof -
  have "kept (rows_in (open_rows (ct_history s))) (deployService w sid override uploaded force)"
    unfolding deployService_def by (intro admitted_rows deployLocked_rows)
  then show ?thesis
    by (auto simp: hoare_def rows_in_def split_beta)
qed

end
