(* ===== verification/Deployment_Samples.thy ===== *)
theory Deployment_Samples
  imports Deployment
begin

text \<open>Collaborators, a service and a controller state the deployment theorems are applied to.\<close>

text \<open>
  A service with one active container whose store refuses to activate the candidate: the old container
  is stopped, the candidate started, and the cut-over rolled back.
\<close>

definition refusing_store :: collaborators where
  "refusing_store =
     \<lparr>co_unit = (\<lambda>h c. case c of CActivate _ _ _ _ \<Rightarrow> Some (External ''conflict'') | _ \<Rightarrow> None),
      co_desired = (\<lambda>h c. Inl (External ''none'')), co_record = (\<lambda>h c. Inl (External ''none'')),
      co_revision = (\<lambda>h c. Inl (External ''none'')), co_flag = (\<lambda>h c. Inr True),
      co_image = (\<lambda>h c. Inl (External ''none'')),
      co_container = (\<lambda>h c. Inr \<lparr>cn_id = ''c2'', cn_state = ''running'', cn_exit = 0, cn_ips = (\<lambda>_. [])\<rparr>),
      co_exit = (\<lambda>h c. Inr 0), co_credential = (\<lambda>h c. Inr ([], [])),
      co_environment = (\<lambda>h c. Inr []),
      co_placement = (\<lambda>h c. Inr \<lparr>pl_network = ''n'', pl_gateway = ''g'', pl_search = ''s'', pl_cgroup = ''k''\<rparr>),
      co_id = (\<lambda>h c. Inr ''d2''), co_now = (\<lambda>h c. int (length h) * 3000000000), co_tick = (\<lambda>h c. True),
      co_status = (\<lambda>h c. Inr 200), has_credentials = False, has_environment = False,
      has_beforeDeploy = False, has_webhooks = False, volumeRoot = ''/v'',
      refs = sources.extend sample_sources
        \<lparr>ref_name = (\<lambda>s. s), ref_digested = (\<lambda>_. True), parse_digest = Some, with_name = Some,
         with_digest = (\<lambda>n d. Some (n @ ''@'' @ d))\<rparr>,
      encode_snapshot = (\<lambda>_. None), sha256_hex = (\<lambda>_. []), ready_fuel = 13\<rparr>"

definition served_desired :: desired where
  "served_desired =
     \<lparr>de_id = ''s'', de_project = ''p'', de_projectName = ''p'', de_name = ''web'', de_enabled = True,
      de_activeDeployment = ''d1'', de_activeDigest = [], de_activeHash = [],
      de_snapshot = sample_snapshot\<lparr>sn_healthCheck := None, sn_volumes := []\<rparr>\<rparr>"

definition serving_controller :: controller where
  "serving_controller =
     \<lparr>ct_gate = newGate,
      ct_active = [(''s'', \<lparr>ac_deployment = ''d1'',
        ac_container = \<lparr>cn_id = ''c1'', cn_state = ''running'', cn_exit = 0, cn_ips = (\<lambda>_. [])\<rparr>, ac_network = ''n''\<rparr>)],
      ct_history = []\<rparr>"

definition candidate_context :: environment_context where
  "candidate_context = \<lparr>ec_deployment = ''d2'', ec_kind = EnvironmentProduction, ec_previewURL = [],
     ec_revision = [], ec_commit = []\<rparr>"

end
