(* ===== verification/Deployment_Cutover.thy ===== *)
theory Deployment_Cutover
  imports Deployment_Safety Deployment_Samples
begin

text \<open>
  The cut-over of \<^verbatim>\<open>runDeployment\<close> as a protocol on the calls it makes. The old container serves until it
  was stopped; only then may the candidate be started; only a started candidate is activated; an
  abandoned cut-over starts the old container again. \<open>cut_step\<close> is the automaton: \<open>None\<close> is a call the
  protocol does not allow.
\<close>

section \<open>The protocol\<close>

datatype phase = Serving | Drained | Trying | Committed | RolledBack

definition old_id :: "active_container option \<Rightarrow> string \<Rightarrow> bool" where
  "old_id old c \<longleftrightarrow> (\<exists>a. old = Some a \<and> cn_id (ac_container a) = c)"

fun cut_step :: "active_container option \<Rightarrow> string \<Rightarrow> phase option \<Rightarrow> call \<times> bool \<Rightarrow> phase option" where
  "cut_step old dep None _ = None"
| "cut_step old dep (Some p) (CStop c, ok) =
     (if p = Serving \<and> old_id old c then Some (if ok then Drained else Serving) else None)"
| "cut_step old dep (Some p) (CStart c dep' sid, ok) =
     (if dep' = dep then (if p = Drained then Some (if ok then Trying else Drained) else None)
      else if old_id old c \<and> p \<in> {Serving, Drained, Trying} then Some RolledBack else None)"
| "cut_step old dep (Some p) (CActivate sid dep' e t, ok) =
     (if p = Trying \<and> dep' = dep then Some (if ok then Committed else Trying) else None)"
| "cut_step old dep (Some p) (CRemove c, ok) =
     (if old_id old c \<longleftrightarrow> p = Committed then Some p else None)"
| "cut_step old dep (Some p) _ = Some p"

definition cut_run :: "active_container option \<Rightarrow> string \<Rightarrow> history \<Rightarrow> phase option" where
  "cut_run old dep h = foldl (cut_step old dep) (Some (if old = None then Drained else Serving)) h"

definition cut_neutral :: "call \<Rightarrow> bool" where
  "cut_neutral c \<longleftrightarrow> (\<forall>old dep p ok. cut_step old dep (Some p) (c, ok) = Some p)"

lemma cut_neutral_simps [simp]:
  "idle_call c \<Longrightarrow> cut_neutral c" "cut_neutral (CFail x y z u)"
  by (cases c; simp add: cut_neutral_def) (simp add: cut_neutral_def)

lemma foldl_cut_neutral: "\<forall>x\<in>set h. cut_neutral (fst x) \<Longrightarrow> foldl (cut_step old dep) (Some p) h = Some p"
  by (induction h) (auto simp: cut_neutral_def)

text \<open>The state after some calls of the protocol from \<open>s0\<close>, with the table of active containers \<open>A\<close>.\<close>

definition in_phase ::
  "controller \<Rightarrow> active_container option \<Rightarrow> string \<Rightarrow> (string \<times> active_container) list \<Rightarrow> phase \<Rightarrow> controller \<Rightarrow> bool" where
  "in_phase s0 old dep A p s \<longleftrightarrow>
     (\<exists>h. ct_history s = ct_history s0 @ h \<and> cut_run old dep h = Some p) \<and> ct_active s = A"

lemma kept_phase:
  assumes "calls_in cut_neutral m"
  shows "kept (in_phase s0 old dep A p) m"
  unfolding hoare_def
proof (intro allI impI)
  fix s
  assume P: "in_phase s0 old dep A p s"
  obtain a s' where run: "run_state m s = (a, s')"
    by force
  with assms obtain g where g: "ct_history s' = ct_history s @ g" "\<forall>x\<in>set g. cut_neutral (fst x)"
    "ct_active s' = ct_active s"
    unfolding calls_in_def by blast
  from P obtain h where "ct_history s = ct_history s0 @ h" "cut_run old dep h = Some p" "ct_active s = A"
    by (auto simp: in_phase_def)
  then have "ct_history s' = ct_history s0 @ (h @ g)" "cut_run old dep (h @ g) = Some p" "ct_active s' = A"
    using g by (simp_all add: cut_run_def foldl_cut_neutral)
  then show "case run_state m s of (a, s') \<Rightarrow> in_phase s0 old dep A p s'"
    using run by (auto simp: in_phase_def)
qed

lemma kept_phase_idle: "calls_in idle_call m \<Longrightarrow> kept (in_phase s0 old dep A p) m"
  by (rule kept_phase) (erule calls_mono, simp)

lemma phase_call:
  assumes "\<And>r. cut_step old dep (Some p) (c, r = None) = Some (f r)"
  shows "hoare (in_phase s0 old dep A p) (ask_err w c) (\<lambda>r. in_phase s0 old dep A (f r))"
proof (rule hoare_ask_err)
  fix s r
  assume "in_phase s0 old dep A p s"
  then obtain h where "ct_history s = ct_history s0 @ h" "cut_run old dep h = Some p" "ct_active s = A"
    by (auto simp: in_phase_def)
  then show "in_phase s0 old dep A (f r) (s\<lparr>ct_history := ct_history s @ [(c, r = None)]\<rparr>)"
    using assms [of r] unfolding in_phase_def
    by (intro conjI exI [of _ "h @ [(c, r = None)]"]) (simp_all add: cut_run_def)
qed

lemma phase_idle_call [hoare_rules]:
  "idle_call c \<Longrightarrow> kept (in_phase s0 old dep A p) (ask_err w c)"
  "idle_call c \<Longrightarrow> kept (in_phase s0 old dep A p) (ask_res f c)"
  "kept (in_phase s0 old dep A p) (ask_now w)"
  "kept (in_phase s0 old dep A p) (dispatchDeployment w d dep' status code)"
  by (rule kept_phase_idle, auto intro!: call_rules)+

section \<open>The cut-over follows the protocol\<close>

lemma err_join_Some [simp]: "err_join (Some x) y \<noteq> None"
  by (simp add: err_join_def split: option.splits)

lemma hoare_true: "hoare P m (\<lambda>_ _. True)"
  by (simp add: hoare_def split_beta)

lemma deploy_fail_error: "hoare P (deploy_fail w dep code cause) (\<lambda>r _. r \<noteq> None)"
  unfolding deploy_fail_def
  by (intro hoare_bind [OF hoare_true] hoare_option hoare_sum hoare_return) (simp_all del: not_None_eq)

lemma deploy_fail_phase:
  "hoare (in_phase s0 old dep A p) (deploy_fail w dep code cause) (\<lambda>r s. r \<noteq> None \<and> in_phase s0 old dep A p s)"
proof -
  have "kept (in_phase s0 old dep A p) (deploy_fail w dep code cause)"
    unfolding deploy_fail_def by (rule kept_phase) (intro call_rules, simp_all)
  from hoare_conj [OF deploy_fail_error [where P = "\<lambda>_. True"] this] show ?thesis
    by simp
qed

lemma restoreOld_phase:
  assumes "\<forall>a. old = Some a \<longrightarrow> ac_deployment a \<noteq> dep" "p \<in> {Serving, Drained, Trying}"
  shows "hoare (in_phase s0 old dep A p) (restoreOld w d old)
    (\<lambda>_. in_phase s0 old dep A (if old = None then p else RolledBack))"
proof (cases old)
  case (Some a)
  have start: "hoare (in_phase s0 old dep A p) (startContainer w d (cn_id (ac_container a)) (ac_deployment a))
      (\<lambda>_. in_phase s0 old dep A RolledBack)"
    unfolding startContainer_def by (rule phase_call) (use assms Some in \<open>auto simp: old_id_def\<close>)
  show ?thesis
    unfolding restoreOld_def Some option.case
    by (rule hoare_bind [OF start [unfolded Some]]) (simp, intro hoare_rules, simp_all)
qed (simp add: restoreOld_def hoare_return)

lemma abandon_phase:
  assumes "\<forall>a. old = Some a \<longrightarrow> ac_deployment a \<noteq> dep" "p \<in> {Serving, Drained, Trying}"
  shows "hoare (in_phase s0 old dep A p) (abandon w d old dep code e)
    (\<lambda>r s. fst r \<and> snd r \<noteq> None \<and> in_phase s0 old dep A (if old = None then p else RolledBack) s)"
  unfolding abandon_def
  by (rule hoare_bind [OF restoreOld_phase [OF assms]], rule hoare_bind [OF deploy_fail_phase],
      rule hoare_return) simp

text \<open>How the cut-over ends: given up before the old container was touched, rolled back, or committed.\<close>

definition cut_end ::
  "controller \<Rightarrow> active_container option \<Rightarrow> string \<Rightarrow> string \<Rightarrow> bool \<times> derr option \<Rightarrow> controller \<Rightarrow> bool" where
  "cut_end s0 old dep sid r s \<longleftrightarrow>
     (if fst r then snd r \<noteq> None
        \<and> (\<exists>p. in_phase s0 old dep (ct_active s0) p s \<and> p \<noteq> Committed \<and> (old \<noteq> None \<longrightarrow> p \<in> {Serving, RolledBack}))
      else \<exists>c n. in_phase s0 old dep
        (AList.update sid \<lparr>ac_deployment = dep, ac_container = c, ac_network = n\<rparr> (ct_active s0)) Committed s)"

lemma abandon_end:
  assumes "\<forall>a. old = Some a \<longrightarrow> ac_deployment a \<noteq> dep" "p \<in> {Serving, Drained, Trying}"
  shows "hoare (in_phase s0 old dep (ct_active s0) p) (abandon w d old dep code e) (cut_end s0 old dep sid)"
  by (rule hoare_weaken [OF abandon_phase [OF assms]])
    (use assms(2) in \<open>auto simp: cut_end_def split: if_splits\<close>)

lemma setActive_phase:
  "hoare (in_phase s0 old dep A p) (setActive sid a) (\<lambda>_. in_phase s0 old dep (AList.update sid a A) p)"
  by (auto simp: hoare_def setActive_def in_phase_def)

lemma commitCandidate_end:
  assumes fresh: "\<forall>a. old = Some a \<longrightarrow> ac_deployment a \<noteq> dep"
  shows "hoare (in_phase s0 old dep (ct_active s0) Trying) (commitCandidate w d old dep pl ready)
    (cut_end s0 old dep (de_id d))"
proof -
  let ?A = "AList.update (de_id d) \<lparr>ac_deployment = dep, ac_container = ready, ac_network = pl_network pl\<rparr> (ct_active s0)"
  have activate: "hoare (in_phase s0 old dep (ct_active s0) Trying) (ask_err w (CActivate (de_id d) dep e t))
      (\<lambda>r. in_phase s0 old dep (ct_active s0) (if r = None then Committed else Trying))" for e t
    by (rule phase_call) simp
  have cleanup: "kept (in_phase s0 old dep ?A Committed)
      (case old of None \<Rightarrow> State_Monad.return ()
       | Some a \<Rightarrow> do { _ \<leftarrow> ask_err w (CRemove (cn_id (ac_container a))); State_Monad.return () })"
    by (intro hoare_option hoare_bind [OF phase_call [where f = "\<lambda>_. Committed"]] hoare_return)
      (auto simp: old_id_def)
  have fin: "in_phase s0 old dep ?A Committed s \<Longrightarrow> cut_end s0 old dep (de_id d) (False, r) s" for r s
    by (auto simp: cut_end_def)
  show ?thesis
    unfolding commitCandidate_def
  proof (rule hoare_bind [OF phase_idle_call(3)], rule hoare_bind [OF activate], rule hoare_option)
    show "hoare (in_phase s0 old dep (ct_active s0) (if r = None then Committed else Trying))
        (abandon w d old dep ''publication_commit_failed'' e) (cut_end s0 old dep (de_id d))"
      if "r = Some e" for r e
      using abandon_end [OF fresh] that by simp
  qed (simp, (rule hoare_bind [OF phase_idle_call(4)] hoare_bind [OF setActive_phase]
        hoare_bind [OF phase_idle_call(1)] hoare_bind [OF cleanup] hoare_option hoare_return
      | erule fin | simp)+)
qed

lemma startCandidate_end:
  assumes fresh: "\<forall>a. old = Some a \<longrightarrow> ac_deployment a \<noteq> dep"
  shows "hoare (in_phase s0 old dep (ct_active s0) Drained) (startCandidate w d old dep c pl)
    (cut_end s0 old dep (de_id d))"
proof -
  have start: "hoare (in_phase s0 old dep (ct_active s0) Drained) (startContainer w d (cn_id c) dep)
      (\<lambda>r. in_phase s0 old dep (ct_active s0) (if r = None then Trying else Drained))"
    unfolding startContainer_def by (rule phase_call) simp
  have give_up: "hoare (in_phase s0 old dep (ct_active s0) p) (abandon w d old dep code e)
      (cut_end s0 old dep (de_id d))" if "p \<in> {Drained, Trying}" for code e p
    by (rule abandon_end [OF fresh]) (use that in auto)
  show ?thesis
    unfolding startCandidate_def
    by (rule hoare_bind [OF start], rule hoare_option,
        rule hoare_bind [OF kept_phase_idle [OF calls_recordVolumeInitializations]], rule hoare_option,
        rule hoare_bind [OF kept_phase_idle [OF calls_waitReady]], rule hoare_sum)
      (auto intro: give_up commitCandidate_end [OF fresh])
qed

lemma cutOver_end:
  assumes fresh: "\<forall>a. map_of (ct_active s0) (de_id d) = Some a \<longrightarrow> ac_deployment a \<noteq> dep"
  defines "old \<equiv> map_of (ct_active s0) (de_id d)"
  shows "hoare (in_phase s0 old dep (ct_active s0) (if old = None then Drained else Serving))
    (cutOver w d dep c pl) (cut_end s0 old dep (de_id d))"
proof -
  have lookup: "hoare (in_phase s0 old dep (ct_active s0) p) (activeContainer (de_id d))
      (\<lambda>r s. in_phase s0 old dep (ct_active s0) p s \<and> r = old)" for p
    by (auto simp: hoare_def activeContainer_def in_phase_def old_def)
  have fr: "\<forall>a. old = Some a \<longrightarrow> ac_deployment a \<noteq> dep"
    using fresh by (simp add: old_def)
  have mismatch: "hoare (in_phase s0 old dep (ct_active s0) Serving)
      (do { r \<leftarrow> deploy_fail w dep code e; State_Monad.return (True, r) }) (cut_end s0 old dep (de_id d))" for code e
    by (rule hoare_bind [OF deploy_fail_phase], rule hoare_return) (auto simp: cut_end_def)
  show ?thesis
  proof (cases old)
    case None
    then show ?thesis
      unfolding cutOver_def using startCandidate_end [OF fr]
      by (intro hoare_bind [OF lookup]) (auto simp: None intro!: hoare_pure)
  next
    case (Some a)
    have stop: "hoare (in_phase s0 old dep (ct_active s0) Serving) (ask_err w (CStop (cn_id (ac_container a))))
        (\<lambda>r. in_phase s0 old dep (ct_active s0) (if r = None then Drained else Serving))"
      by (rule phase_call) (simp add: old_id_def Some)
    have give_up: "hoare (in_phase s0 old dep (ct_active s0) Serving) (abandon w d old dep code e)
        (cut_end s0 old dep (de_id d))" for code e
      by (rule abandon_end [OF fr]) simp_all
    have drain: "hoare (in_phase s0 old dep (ct_active s0) Serving) (do {
        e \<leftarrow> ask_err w (CStop (cn_id (ac_container a)));
        case e of None \<Rightarrow> startCandidate w d old dep c pl | Some e \<Rightarrow> abandon w d old dep ''old_stop_failed'' e
      }) (cut_end s0 old dep (de_id d))"
      by (rule hoare_bind [OF stop], rule hoare_option) (simp_all add: startCandidate_end [OF fr] give_up)
    have "hoare (in_phase s0 old dep (ct_active s0) Serving)
        (if ac_deployment a \<noteq> de_activeDeployment d then do {
           r \<leftarrow> deploy_fail w dep ''active_runtime_missing'' (Message ''active deployment has no matching runtime container'');
           State_Monad.return (True, r)
         }
         else do {
           e \<leftarrow> ask_err w (CWithdraw d);
           case e of
             None \<Rightarrow> do {
               e \<leftarrow> ask_err w (CStop (cn_id (ac_container a)));
               case e of None \<Rightarrow> startCandidate w d old dep c pl | Some e \<Rightarrow> abandon w d old dep ''old_stop_failed'' e
             }
           | Some e \<Rightarrow> abandon w d old dep ''publication_withdraw_failed'' e
         }) (cut_end s0 old dep (de_id d))"
      by (intro hoare_if mismatch hoare_bind [OF phase_idle_call(1)] hoare_option drain give_up) simp
    then show ?thesis
      unfolding cutOver_def
      by (intro hoare_bind [OF lookup]) (auto simp: Some intro!: hoare_pure)
  qed
qed

section \<open>Deployments\<close>

lemma created_by_engine:
  "hoare P (createRuntimeContainer w d ctx i)
     (\<lambda>r s. \<forall>c pl. r = Inr (c, pl) \<longrightarrow> (\<exists>h spec. co_container w h (CCreate spec) = Inr c))"
proof -
  have ask: "hoare P (ask_res f c) (\<lambda>r _. \<exists>h. f h c = r)" for P :: "controller \<Rightarrow> bool" and f c
    by (auto simp: hoare_def ask_res_def ask_def Let_def)
  show ?thesis
    unfolding createRuntimeContainer_def
    by (intro hoare_bind [OF hoare_true] hoare_sum hoare_bind [OF ask] hoare_return)
      (auto split: sum.splits)
qed

definition fresh_cutover :: "collaborators \<Rightarrow> controller \<Rightarrow> desired \<Rightarrow> string \<Rightarrow> bool" where
  "fresh_cutover w s d dep \<longleftrightarrow>
     (\<forall>a. map_of (ct_active s) (de_id d) = Some a \<longrightarrow>
        ac_deployment a \<noteq> dep
        \<and> (\<forall>h spec c. co_container w h (CCreate spec) = Inr c \<longrightarrow> cn_id c \<noteq> cn_id (ac_container a)))"

lemma cutOver_in_phase:
  assumes "in_phase s0 old dep (ct_active s0) (if old = None then Drained else Serving) s"
    and "old = map_of (ct_active s0) (de_id d)" "\<forall>a. old = Some a \<longrightarrow> ac_deployment a \<noteq> dep"
    and "run_state (cutOver w d dep c pl) s = (r, s')"
  shows "cut_end s0 old dep (de_id d) r s'"
  using hoareD [OF cutOver_end [of s0 d dep w c pl] _ assms(4)] assms(1-3) by simp

lemma removed_after_cut:
  assumes "cut_end s old dep sid e u" "fst e" "\<not> old_id old (cn_id c)"
    and "s' = u\<lparr>ct_history := ct_history u @ [(CRemove (cn_id c), b)]\<rparr>" "r = snd e"
  shows "\<exists>h p. ct_history s' = ct_history s @ h \<and> cut_run old dep h = Some p \<and> p \<noteq> Committed \<and> r \<noteq> None
    \<and> ct_active s' = ct_active s \<and> (old \<noteq> None \<longrightarrow> p \<in> {Serving, RolledBack}) \<and> fst (last h) = CRemove (cn_id c)"
proof -
  obtain h p where h: "ct_history u = ct_history s @ h" "cut_run old dep h = Some p"
    "ct_active u = ct_active s" "p \<noteq> Committed" "old \<noteq> None \<longrightarrow> p \<in> {Serving, RolledBack}" "snd e \<noteq> None"
    using assms(1,2) by (auto simp: cut_end_def in_phase_def)
  have "cut_run old dep (h @ [(CRemove (cn_id c), b)]) = Some p"
    using h(2,4) assms(3) by (simp add: cut_run_def)
  then show ?thesis
    using h assms(4,5) by (intro exI [of _ "h @ [(CRemove (cn_id c), b)]"] exI [of _ p]) simp
qed

lemma created_cutover:
  assumes "in_phase s old dep (ct_active s) (if old = None then Drained else Serving) t" "old = map_of (ct_active s) (de_id d)"
    and "\<forall>a. old = Some a \<longrightarrow> ac_deployment a \<noteq> dep" "\<not> old_id old (cn_id c)"
    and create: "run_state (createRuntimeContainer w d ctx imageID) s = (Inr (c, pl), t)" and "dep = ec_deployment ctx"
    and run: "run_state (runDeployment w d ctx imageID) s = (r, s')"
  shows "\<exists>h p. ct_history s' = ct_history s @ h \<and> cut_run old dep h = Some p
    \<and> (if p = Committed then
         \<exists>c n. ct_active s' = AList.update (de_id d) \<lparr>ac_deployment = dep, ac_container = c, ac_network = n\<rparr> (ct_active s)
       else r \<noteq> None \<and> ct_active s' = ct_active s \<and> (old \<noteq> None \<longrightarrow> p \<in> {Serving, RolledBack}) \<and> fst (last h) = CRemove (cn_id c))"
proof -
  obtain e u where cut: "run_state (cutOver w d dep c pl) t = (e, u)"
    by (metis surj_pair)
  have cut_end: "cut_end s old dep (de_id d) e u"
    by (rule cutOver_in_phase [OF assms(1-3) cut])
  show ?thesis
  proof (cases "fst e")
    case False
    then have "s' = u"
      using run create cut assms(6) by (simp add: runDeployment_def)
    then show ?thesis
      using cut_end False by (fastforce simp: cut_end_def in_phase_def)
  next
    case True
    then obtain b where "s' = u\<lparr>ct_history := ct_history u @ [(CRemove (cn_id c), b)]\<rparr>" "r = snd e"
      using run create cut assms(6) by (auto simp: runDeployment_def ask_err_def ask_def Let_def)
    note removed = removed_after_cut [OF cut_end True assms(4) this]
    show ?thesis
      by (rule ex_forward [OF removed], erule ex_forward) simp
  qed
qed

text \<open>
  \<^bold>\<open>C5.\<close> The calls of \<^verbatim>\<open>runDeployment\<close> follow the cut-over protocol, whatever the collaborators answer:
  the candidate is started only after the active container was stopped successfully, it is activated
  only after it was started successfully, the old container is removed only after the activation, and a cut-over
  abandoned after the stop starts the old container again. The table of active containers changes
  exactly when the activation succeeded; otherwise an error is returned and a candidate that was
  created is removed last.
\<close>

theorem cutover_protocol:
  fixes ctx :: environment_context
  assumes "fresh_cutover w s d (ec_deployment ctx)"
    and run: "run_state (runDeployment w d ctx imageID) s = (r, s')"
  shows "\<exists>h p. ct_history s' = ct_history s @ h
    \<and> cut_run (map_of (ct_active s) (de_id d)) (ec_deployment ctx) h = Some p
    \<and> (if p = Committed then
         \<exists>c n. ct_active s' = AList.update (de_id d)
           \<lparr>ac_deployment = ec_deployment ctx, ac_container = c, ac_network = n\<rparr> (ct_active s)
       else r \<noteq> None \<and> ct_active s' = ct_active s
         \<and> (map_of (ct_active s) (de_id d) \<noteq> None \<longrightarrow> p \<in> {Serving, RolledBack})
         \<and> (\<forall>c pl t. run_state (createRuntimeContainer w d ctx imageID) s = (Inr (c, pl), t)
              \<longrightarrow> fst (last h) = CRemove (cn_id c)))"
proof -
  define old dep where od: "old = map_of (ct_active s) (de_id d)" "dep = ec_deployment ctx"
  have fresh: "\<forall>a. old = Some a \<longrightarrow> ac_deployment a \<noteq> dep"
    using assms(1) by (auto simp: fresh_cutover_def od)
  obtain made t where create: "run_state (createRuntimeContainer w d ctx imageID) s = (made, t)"
    by force
  have start: "in_phase s old dep (ct_active s) (if old = None then Drained else Serving) s"
    by (auto simp: in_phase_def cut_run_def)
  from hoareD [OF kept_phase_idle [OF calls_createRuntimeContainer] start create]
  have phase_t: "in_phase s old dep (ct_active s) (if old = None then Drained else Serving) t" .
  show ?thesis
  proof (cases made)
    case (Inl e)
    then have "run_state (deploy_fail w dep ''candidate_create_failed'' e) t = (r, s')"
      using run create by (simp add: runDeployment_def od)
    from hoareD [OF deploy_fail_phase phase_t this]
    have "r \<noteq> None" "in_phase s old dep (ct_active s) (if old = None then Drained else Serving) s'"
      by simp_all
    then show ?thesis
      using create Inl by (auto simp: in_phase_def od split: if_splits)
  next
    case (Inr cp)
    obtain c pl where cp: "cp = (c, pl)"
      by force
    have "\<not> old_id old (cn_id c)"
      using hoareD [OF created_by_engine [where P = "\<lambda>_. True"] _ create] assms(1) Inr cp
      by (fastforce simp: old_id_def fresh_cutover_def od)
    note ends = created_cutover [OF phase_t od(1) fresh this create [unfolded Inr cp] od(2) run]
    show ?thesis
      by (rule ex_forward [OF ends], erule ex_forward) (use create Inr cp in \<open>simp add: od split: if_splits\<close>)
  qed
qed

text \<open>What a call does to a container, for the run below.\<close>

fun container_action :: "call \<Rightarrow> string list" where
  "container_action (CStop c) = [''stop'', c]"
| "container_action (CStart c dep sid) = [''start'', c, dep, sid]"
| "container_action (CRemove c) = [''remove'', c]"
| "container_action _ = []"

theorem cutover_protocol_witness:
  "fresh_cutover refusing_store serving_controller served_desired (ec_deployment candidate_context)
   \<and> (\<exists>h p. ct_history (snd (run_state (runDeployment refusing_store served_desired candidate_context ''i'') serving_controller)) = h
       \<and> cut_run (map_of (ct_active serving_controller) ''s'') ''d2'' h = Some p)
   \<and> filter (\<lambda>a. a \<noteq> []) (map (container_action \<circ> fst)
         (ct_history (snd (run_state (runDeployment refusing_store served_desired candidate_context ''i'') serving_controller))))
       = [[''stop'', ''c1''], [''start'', ''c2'', ''d2'', ''s''], [''start'', ''c1'', ''d1'', ''s''], [''remove'', ''c2'']]"
proof -
  have fresh: "fresh_cutover refusing_store serving_controller served_desired (ec_deployment candidate_context)"
    by (simp add: fresh_cutover_def refusing_store_def serving_controller_def served_desired_def candidate_context_def)
  have base: "ct_history serving_controller = []" "de_id served_desired = ''s''" "ec_deployment candidate_context = ''d2''"
    by (simp_all add: serving_controller_def served_desired_def candidate_context_def)
  obtain r s' where run: "run_state (runDeployment refusing_store served_desired candidate_context ''i'') serving_controller = (r, s')"
    by force
  from cutover_protocol [OF fresh run]
  have "\<exists>h p. ct_history s' = h \<and> cut_run (map_of (ct_active serving_controller) ''s'') ''d2'' h = Some p"
    unfolding base by auto
  moreover have "filter (\<lambda>a. a \<noteq> []) (map (container_action \<circ> fst)
         (ct_history (snd (run_state (runDeployment refusing_store served_desired candidate_context ''i'') serving_controller))))
       = [[''stop'', ''c1''], [''start'', ''c2'', ''d2'', ''s''], [''start'', ''c1'', ''d1'', ''s''], [''remove'', ''c2'']]"
    by code_simp
  ultimately show ?thesis
    using fresh run by simp
qed

end
