(* ===== verification/Deployment_Readiness.thy ===== *)
theory Deployment_Readiness
  imports Deployment_Safety Deployment_Samples
begin

text \<open>
  The readiness loop of \<^verbatim>\<open>waitReady\<close> ends. The only assumption is what \<^verbatim>\<open>time.NewTicker\<close> promises: the
  k-th tick received is received at least k probe intervals after the ticker was created.
\<close>

section \<open>The ticker\<close>

definition ticks :: "history \<Rightarrow> nat" where
  "ticks h = length (filter (\<lambda>x. x = (CTick, True)) h)"

definition ticker_runs :: "collaborators \<Rightarrow> history \<Rightarrow> bool" where
  "ticker_runs w h \<longleftrightarrow> (\<forall>g. co_now w h CNow + probeInterval * int (ticks g) \<le> co_now w (h @ g) CNow)"

lemma ticks_simps [simp]:
  "ticks [] = 0" "ticks (g @ h) = ticks g + ticks h"
  "ticks (x # h) = (if x = (CTick, True) then 1 else 0) + ticks h"
  by (simp_all add: ticks_def)

lemma ticker_runsD: "ticker_runs w h \<Longrightarrow> co_now w h CNow + probeInterval * int (ticks g) \<le> co_now w (h @ g) CNow"
  by (simp add: ticker_runs_def)

section \<open>One poll\<close>

text \<open>A poll makes no tick of its own, and it goes on only if it saw a time before the deadline.\<close>

definition polled :: "collaborators \<Rightarrow> instant \<Rightarrow> history \<Rightarrow> bool \<Rightarrow> controller \<Rightarrow> bool" where
  "polled w deadline h again s \<longleftrightarrow>
     (\<exists>g. ct_history s = h @ g \<and> ticks g = 0
        \<and> (again \<longrightarrow> (\<exists>g'. ticks g' = 0 \<and> co_now w (h @ g') CNow < deadline)))"

lemma polled_simps: "polled w deadline h False s \<longleftrightarrow> (\<exists>g. ct_history s = h @ g \<and> ticks g = 0)"
  by (simp add: polled_def)

lemma polled_ask:
  assumes "c \<noteq> CTick"
  shows "hoare (polled w deadline h False) (ask f ok c) (\<lambda>_. polled w deadline h False)"
  using assms unfolding hoare_def ask_def polled_simps
  by (auto simp: Let_def)

lemma polled_now:
  "hoare (polled w deadline h False) (ask_now w) (\<lambda>now. polled w deadline h (now < deadline))"
  unfolding hoare_def ask_now_def ask_def polled_def
  by (auto simp: Let_def)

lemma polled_drop: "polled w deadline h again s \<Longrightarrow> polled w deadline h False s"
  by (auto simp: polled_def)

lemma readyVerdict_polled:
  "hoare (polled w deadline h False) (readyVerdict w hc c network deadline) (\<lambda>v. polled w deadline h (v = None))"
proof (cases hc)
  case None
  then show ?thesis
    unfolding readyVerdict_def
    by (auto intro!: hoare_bind [OF polled_now] hoare_return)
next
  case (Some k)
  have now: "hoare (polled w deadline h False) (ask_now w) (\<lambda>_. polled w deadline h False)"
    by (rule hoare_weaken [OF polled_now]) (auto dest: polled_drop)
  have probe: "hoare (polled w deadline h False) (probeHTTP w a p q) (\<lambda>_. polled w deadline h False)" for a p q
    unfolding probeHTTP_def ask_res_def by (intro hoare_bind [OF polled_ask] hoare_return) simp_all
  have err: "hoare (polled w deadline h False)
      (ask_now w \<bind> (\<lambda>now. State_Monad.return (if now < deadline then None else Some (Inl e))))
      (\<lambda>_. polled w deadline h False)" for e :: derr
    by (rule hoare_bind [OF now]) (simp add: hoare_return)
  show ?thesis
    unfolding readyVerdict_def Some option.case
    apply (rule hoare_bind [where R = "\<lambda>_. polled w deadline h False"])
     apply (auto split: list.splits sum.splits bool.splits option.splits
        intro!: hoare_bind [OF probe] hoare_return err)[1]
    apply (rule hoare_option)
     apply (auto intro!: hoare_bind [OF polled_now] hoare_return dest: polled_drop)
    done
qed

lemma inspect_run:
  "run_state (ask_res (co_container w) (CInspect cid)) s =
     (co_container w (ct_history s) (CInspect cid),
      s\<lparr>ct_history := ct_history s @ [(CInspect cid, is_ok (co_container w (ct_history s) (CInspect cid)))]\<rparr>)"
  by (simp add: ask_res_def ask_def Let_def)

lemma tick_run:
  "run_state (ask (co_tick w) (\<lambda>b. b) CTick) s =
     (co_tick w (ct_history s) CTick, s\<lparr>ct_history := ct_history s @ [(CTick, co_tick w (ct_history s) CTick)]\<rparr>)"
  by (simp add: ask_def Let_def)

text \<open>A poll after \<open>j\<close> ticks asks for another one only if \<open>j\<close> intervals are shorter than the timeout.\<close>

lemma poll_step:
  assumes ticker: "ticker_runs w h0" and hist: "ct_history s = h0 @ g"
    and run: "run_state (readyVerdict w hc c network (co_now w h0 CNow + timeout)) s = (v, s')"
  shows "\<exists>g'. ct_history s' = h0 @ g' \<and> ticks g' = ticks g
    \<and> (v = None \<longrightarrow> probeInterval * int (ticks g) < timeout)"
proof -
  have "polled w (co_now w h0 CNow + timeout) (h0 @ g) False s"
    using hist by (simp add: polled_simps)
  from hoareD [OF readyVerdict_polled this run]
  obtain e where e: "ct_history s' = h0 @ (g @ e)" "ticks e = 0"
    "v = None \<longrightarrow> (\<exists>e'. ticks e' = 0 \<and> co_now w ((h0 @ g) @ e') CNow < co_now w h0 CNow + timeout)"
    by (auto simp: polled_def)
  have "probeInterval * int (ticks g) < timeout" if none: "v = None"
  proof -
    obtain e' where "ticks e' = 0" "co_now w (h0 @ (g @ e')) CNow < co_now w h0 CNow + timeout"
      using e(3) none by auto
    then show ?thesis
      using ticker_runsD [OF ticker, of "g @ e'"] by simp
  qed
  then show ?thesis
    using e(1,2) by (intro exI [of _ "g @ e"]) simp
qed

section \<open>The loop ends\<close>

lemma interval_lt: "probeInterval * int j < timeout \<Longrightarrow> timeout \<le> probeInterval * int k \<Longrightarrow> j < k"
proof -
  assume "probeInterval * int j < timeout" "timeout \<le> probeInterval * int k"
  then have "probeInterval * int j < probeInterval * int k" by simp
  then show ?thesis by (simp add: probeInterval_def)
qed

lemma readyLoop_enough:
  assumes ticker: "ticker_runs w h0" and k: "timeout \<le> probeInterval * int k"
  shows "ct_history s = h0 @ g \<Longrightarrow> ticks g \<le> k \<Longrightarrow> k < ticks g + n \<Longrightarrow> k < ticks g + m \<Longrightarrow>
    run_state (readyLoop w hc cid network (co_now w h0 CNow + timeout) n) s =
      run_state (readyLoop w hc cid network (co_now w h0 CNow + timeout) m) s
    \<and> (\<exists>g'. ct_history (snd (run_state (readyLoop w hc cid network (co_now w h0 CNow + timeout) n) s)) = h0 @ g'
         \<and> ticks g' \<le> k)"
proof (induction n arbitrary: m s g)
  case (Suc n)
  then obtain m' where m: "m = Suc m'"
    by (cases m) auto
  let ?c = "co_container w (ct_history s) (CInspect cid)"
  let ?s = "s\<lparr>ct_history := ct_history s @ [(CInspect cid, is_ok ?c)]\<rparr>"
  have hist: "ct_history ?s = h0 @ (g @ [(CInspect cid, is_ok ?c)])"
    using Suc.prems by simp
  show ?case
  proof (cases ?c)
    case (Inl e)
    then show ?thesis
      using hist Suc.prems by (auto simp: m inspect_run intro!: exI [of _ "g @ [(CInspect cid, is_ok ?c)]"])
  next
    case (Inr c)
    obtain v s1 where v: "run_state (readyVerdict w hc c network (co_now w h0 CNow + timeout)) ?s = (v, s1)"
      by force
    from poll_step [OF ticker hist v] obtain g1 where g1: "ct_history s1 = h0 @ g1" "ticks g1 = ticks g"
      "v = None \<longrightarrow> probeInterval * int (ticks g) < timeout"
      by auto
    let ?f = "co_tick w (ct_history s1) CTick"
    let ?s2 = "s1\<lparr>ct_history := ct_history s1 @ [(CTick, ?f)]\<rparr>"
    have IH: "run_state (readyLoop w hc cid network (co_now w h0 CNow + timeout) n) ?s2 =
          run_state (readyLoop w hc cid network (co_now w h0 CNow + timeout) m') ?s2
        \<and> (\<exists>g'. ct_history (snd (run_state (readyLoop w hc cid network (co_now w h0 CNow + timeout) n) ?s2)) = h0 @ g'
             \<and> ticks g' \<le> k)" if "v = None" "?f"
    proof (rule Suc.IH [of ?s2 "g1 @ [(CTick, ?f)]"])
      have "ticks g < k"
        using g1(3) that(1) k by (blast intro: interval_lt)
      then show "ticks (g1 @ [(CTick, ?f)]) \<le> k" "k < ticks (g1 @ [(CTick, ?f)]) + n" "k < ticks (g1 @ [(CTick, ?f)]) + m'"
        using that g1(2) Suc.prems by (simp_all add: m)
    qed (use g1 in simp)
    show ?thesis
    proof (cases "cn_state c = ''running''")
      case False
      then show ?thesis
        using Inr hist Suc.prems by (auto simp: m inspect_run intro!: exI [of _ "g @ [(CInspect cid, True)]"])
    next
      case running: True
      show ?thesis
      proof (cases v)
        case None
        have "\<not> ?f \<Longrightarrow> \<exists>g'. h0 @ g1 @ [(CTick, False)] = h0 @ g' \<and> ticks g' \<le> k"
          using g1 Suc.prems by (intro exI [of _ "g1 @ [(CTick, False)]"]) simp
        then show ?thesis
          using Inr running v None IH g1(1) by (cases ?f) (auto simp: m inspect_run tick_run)
      next
        case (Some x)
        then show ?thesis
          using Inr running v g1 Suc.prems by (auto simp: m inspect_run)
      qed
    qed
  qed
qed simp

section \<open>Waiting for readiness\<close>

text \<open>
  The history after which the deadline is computed and the ticker created, and the number of polls
  that reaches the deadline: twelve intervals of 250 ms for the startup grace, four for a second.
\<close>

definition ticker_start :: "desired \<Rightarrow> history \<Rightarrow> history" where
  "ticker_start d h = (if sn_healthCheck (de_snapshot d) = None then h @ [(CNow, True)] else h)"

definition readyPolls :: "desired \<Rightarrow> nat" where
  "readyPolls d = (case sn_healthCheck (de_snapshot d) of None \<Rightarrow> 13 | Some h \<Rightarrow> Suc (nat (4 * hc_timeout h)))"

definition readyTimeout :: "desired \<Rightarrow> int" where
  "readyTimeout d =
     (case sn_healthCheck (de_snapshot d) of None \<Rightarrow> processStartupGrace | Some h \<Rightarrow> hc_timeout h * 1000000000)"

lemma ask_now_fuel_field [simp]: "ask_now (w\<lparr>ready_fuel := n\<rparr>) = ask_now w"
  by (simp add: ask_now_def)

lemma readyVerdict_fuel_field [simp]:
  "readyVerdict (w\<lparr>ready_fuel := n\<rparr>) hc c network deadline = readyVerdict w hc c network deadline"
  by (simp add: readyVerdict_def probeHTTP_def cong: option.case_cong list.case_cong sum.case_cong)

lemma readyLoop_fuel_field [simp]:
  "readyLoop (w\<lparr>ready_fuel := n\<rparr>) hc cid network deadline k = readyLoop w hc cid network deadline k"
  by (induction k) (simp_all cong: sum.case_cong option.case_cong if_cong)

lemma waitReady_run:
  "\<exists>t. ct_history t = ticker_start d (ct_history s) @ [(CNow, True)]
     \<and> (\<forall>n. run_state (waitReady (w\<lparr>ready_fuel := n\<rparr>) d cid network) s =
          run_state (readyLoop w (sn_healthCheck (de_snapshot d)) cid network
            (co_now w (ticker_start d (ct_history s)) CNow + readyTimeout d) n) t)"
  unfolding waitReady_def readyTimeout_def
  by (rule exI [of _ "s\<lparr>ct_history := ticker_start d (ct_history s) @ [(CNow, True)]\<rparr>"],
      cases "sn_healthCheck (de_snapshot d)")
    (simp_all add: ticker_start_def ask_now_def ask_def Let_def)

lemma readyTimeout_polls: "readyTimeout d \<le> probeInterval * int (readyPolls d - 1)"
  by (auto simp: readyTimeout_def readyPolls_def probeInterval_def processStartupGrace_def split: option.split)

lemma readyPolls_pos: "0 < readyPolls d"
  by (simp add: readyPolls_def split: option.split)

text \<open>
  \<^bold>\<open>C27.\<close> The readiness loop ends within the polls its timeout allows: with a ticker that fires no
  earlier than every probe interval, \<open>readyPolls\<close> iterations (thirteen without a health check, four for
  each second of its timeout and one more with it) always reach a verdict, so that more fuel changes
  neither the result nor the calls, and fewer than \<open>readyPolls\<close> ticks are waited for.
\<close>

theorem wait_ready_terminates:
  assumes ticker: "ticker_runs w (ticker_start d (ct_history s))" and fuel: "readyPolls d \<le> n"
  shows "run_state (waitReady (w\<lparr>ready_fuel := n\<rparr>) d cid network) s =
      run_state (waitReady (w\<lparr>ready_fuel := readyPolls d\<rparr>) d cid network) s
    \<and> (\<exists>g. ct_history (snd (run_state (waitReady (w\<lparr>ready_fuel := n\<rparr>) d cid network) s)) =
          ticker_start d (ct_history s) @ g \<and> ticks g < readyPolls d)"
proof -
  obtain t where t: "ct_history t = ticker_start d (ct_history s) @ [(CNow, True)]"
    and run: "\<And>n. run_state (waitReady (w\<lparr>ready_fuel := n\<rparr>) d cid network) s =
          run_state (readyLoop w (sn_healthCheck (de_snapshot d)) cid network
            (co_now w (ticker_start d (ct_history s)) CNow + readyTimeout d) n) t"
    using waitReady_run by blast
  have "readyPolls d - 1 < ticks [(CNow, True)] + n" "readyPolls d - 1 < ticks [(CNow, True)] + readyPolls d"
    using fuel readyPolls_pos [of d] by simp_all
  note enough = readyLoop_enough [OF ticker readyTimeout_polls t _ this]
  have "run_state (waitReady (w\<lparr>ready_fuel := n\<rparr>) d cid network) s =
        run_state (waitReady (w\<lparr>ready_fuel := readyPolls d\<rparr>) d cid network) s"
    unfolding run by (rule conjunct1 [OF enough]) simp
  moreover have "\<exists>g. ct_history (snd (run_state (waitReady (w\<lparr>ready_fuel := n\<rparr>) d cid network) s)) =
          ticker_start d (ct_history s) @ g \<and> ticks g \<le> readyPolls d - 1"
    unfolding run by (rule conjunct2 [OF enough]) simp
  ultimately show ?thesis
    using readyPolls_pos [of d] by (metis Suc_pred less_Suc_eq_le diff_Suc_1 One_nat_def)
qed

lemma sample_ticker: "ticker_runs refusing_store h"
proof -
  have "250000000 * int (ticks g) \<le> 3000000000 * int (length g)" for g
    by (rule mult_mono) (simp_all add: ticks_def)
  then show ?thesis
    by (simp add: ticker_runs_def refusing_store_def probeInterval_def distrib_right)
qed

theorem wait_ready_terminates_witness:
  "ticker_runs refusing_store (ticker_start served_desired []) \<and> readyPolls served_desired = 13
   \<and> run_state (waitReady (refusing_store\<lparr>ready_fuel := 1000\<rparr>) served_desired ''c2'' ''n'') serving_controller =
      run_state (waitReady (refusing_store\<lparr>ready_fuel := 13\<rparr>) served_desired ''c2'' ''n'') serving_controller"
proof -
  have "readyPolls served_desired = 13" "ct_history serving_controller = []"
    by (simp_all add: readyPolls_def served_desired_def serving_controller_def)
  then show ?thesis
    using wait_ready_terminates [of refusing_store served_desired serving_controller 1000 "''c2''" "''n''"] sample_ticker
    by simp
qed

text \<open>
  What a report of readiness after a timeout rests on: \<open>s'\<close> is reached by a last inspection that found \<open>c\<close> running and a last look
  at the clock, which had passed the timeout since the history \<open>h0\<close>.
\<close>

definition seen_running :: "collaborators \<Rightarrow> history \<Rightarrow> int \<Rightarrow> string \<Rightarrow> container \<Rightarrow> controller \<Rightarrow> bool" where
  "seen_running w h0 timeout cid c s' \<longleftrightarrow>
     (\<exists>g. ct_history s' = h0 @ g @ [(CInspect cid, True), (CNow, True)]
        \<and> co_container w (h0 @ g) (CInspect cid) = Inr c \<and> cn_state c = ''running''
        \<and> co_now w h0 CNow + timeout \<le> co_now w (h0 @ g @ [(CInspect cid, True)]) CNow)"

text \<open>The verdict of a poll without a health check: ready exactly when the clock has reached the deadline.\<close>

lemma plain_verdict:
  "run_state (readyVerdict w None c network deadline) s =
     (if co_now w (ct_history s) CNow < deadline then None else Some (Inr c),
      s\<lparr>ct_history := ct_history s @ [(CNow, True)]\<rparr>)"
  by (simp add: readyVerdict_def ask_now_def ask_def Let_def)

lemma running_ready:
  assumes ticker: "ticker_runs w h0" and k: "timeout \<le> probeInterval * int k"
    and running: "\<forall>h. \<exists>c. co_container w h (CInspect cid) = Inr c \<and> cn_state c = ''running''"
    and fires: "\<forall>h. co_tick w h CTick"
  shows "ct_history s = h0 @ g \<Longrightarrow> ticks g \<le> k \<Longrightarrow> k < ticks g + n \<Longrightarrow>
    \<exists>c s'. run_state (readyLoop w None cid network (co_now w h0 CNow + timeout) n) s = (Inr c, s')
      \<and> seen_running w h0 timeout cid c s'"
proof (induction n arbitrary: s g)
  case (Suc n)
  obtain c where c: "co_container w (h0 @ g) (CInspect cid) = Inr c" "cn_state c = ''running''"
    using running by blast
  let ?s = "s\<lparr>ct_history := ct_history s @ [(CInspect cid, True)]\<rparr>"
  let ?now = "co_now w (h0 @ g @ [(CInspect cid, True)]) CNow"
  let ?s1 = "s\<lparr>ct_history := h0 @ g @ [(CInspect cid, True), (CNow, True)]\<rparr>"
  have v: "run_state (readyVerdict w None c network (co_now w h0 CNow + timeout)) ?s =
      (if ?now < co_now w h0 CNow + timeout then None else Some (Inr c), ?s1)"
    using Suc.prems(1) by (simp add: plain_verdict)
  show ?case
  proof (cases "?now < co_now w h0 CNow + timeout")
    case True
    let ?s2 = "?s1\<lparr>ct_history := ct_history ?s1 @ [(CTick, True)]\<rparr>"
    have "probeInterval * int (ticks g) < timeout"
      using True ticker_runsD [OF ticker, of "g @ [(CInspect cid, True)]"] by simp
    then have "ticks g < k"
      using k by (blast intro: interval_lt)
    then have "\<exists>c s'. run_state (readyLoop w None cid network (co_now w h0 CNow + timeout) n) ?s2 = (Inr c, s')
        \<and> seen_running w h0 timeout cid c s'"
      using Suc.prems
      by (intro Suc.IH [of ?s2 "g @ [(CInspect cid, True), (CNow, True), (CTick, True)]"]) simp_all
    then show ?thesis
      using Suc.prems c v True fires by (simp add: inspect_run tick_run)
  next
    case False
    then have "seen_running w h0 timeout cid c ?s1"
      using c unfolding seen_running_def by (intro exI [of _ g]) simp
    then show ?thesis
      using Suc.prems c v False by (simp add: inspect_run)
  qed
qed simp

text \<open>
  \<^bold>\<open>C28.\<close> A container without health check that keeps running is reported ready, and not before the
  startup grace has passed. When every inspection finds it running, the ticker keeps firing and the
  context is not cancelled, \<^verbatim>\<open>waitReady\<close> returns the container its last inspection found running, and the clock it
  read after that inspection was at least the grace past the one it computed its deadline from.
\<close>

theorem running_container_becomes_ready:
  assumes ticker: "ticker_runs w (ticker_start d (ct_history s))" and fuel: "readyPolls d \<le> ready_fuel w"
    and "sn_healthCheck (de_snapshot d) = None"
    and "\<forall>h. \<exists>c. co_container w h (CInspect cid) = Inr c \<and> cn_state c = ''running''"
    and "\<forall>h. co_tick w h CTick"
  shows "\<exists>c s' g. run_state (waitReady w d cid network) s = (Inr c, s') \<and> cn_state c = ''running''
    \<and> ct_history s' = ticker_start d (ct_history s) @ g @ [(CInspect cid, True), (CNow, True)]
    \<and> co_container w (ticker_start d (ct_history s) @ g) (CInspect cid) = Inr c
    \<and> co_now w (ticker_start d (ct_history s)) CNow + processStartupGrace
        \<le> co_now w (ticker_start d (ct_history s) @ g @ [(CInspect cid, True)]) CNow"
proof -
  obtain t where t: "ct_history t = ticker_start d (ct_history s) @ [(CNow, True)]"
    and run: "\<And>n. run_state (waitReady (w\<lparr>ready_fuel := n\<rparr>) d cid network) s =
          run_state (readyLoop w None cid network
            (co_now w (ticker_start d (ct_history s)) CNow + readyTimeout d) n) t"
    using waitReady_run [of d s w cid network] assms(3) by metis
  have "readyPolls d - 1 < ticks [(CNow, True)] + ready_fuel w"
    using fuel readyPolls_pos [of d] by simp
  from running_ready [OF ticker readyTimeout_polls assms(4,5) t _ this, of network] run [of "ready_fuel w"]
  obtain c s' where "run_state (waitReady w d cid network) s = (Inr c, s')"
    "seen_running w (ticker_start d (ct_history s)) (readyTimeout d) cid c s'"
    by auto
  moreover have "readyTimeout d = processStartupGrace"
    using assms(3) by (simp add: readyTimeout_def)
  ultimately show ?thesis
    unfolding seen_running_def by auto
qed

theorem running_container_becomes_ready_witness:
  "\<exists>c s' g. run_state (waitReady refusing_store served_desired ''c2'' ''n'') serving_controller = (Inr c, s')
     \<and> cn_state c = ''running''
     \<and> ct_history s' = ticker_start served_desired (ct_history serving_controller) @ g @ [(CInspect ''c2'', True), (CNow, True)]
     \<and> co_container refusing_store (ticker_start served_desired (ct_history serving_controller) @ g) (CInspect ''c2'') = Inr c
     \<and> co_now refusing_store (ticker_start served_desired (ct_history serving_controller)) CNow + processStartupGrace
         \<le> co_now refusing_store (ticker_start served_desired (ct_history serving_controller) @ g @ [(CInspect ''c2'', True)]) CNow"
proof (rule running_container_becomes_ready)
  show "ticker_runs refusing_store (ticker_start served_desired (ct_history serving_controller))"
    by (rule sample_ticker)
qed (simp_all add: readyPolls_def served_desired_def refusing_store_def)

end
