(* ===== verification/Deployment_Gate.thy ===== *)
theory Deployment_Gate
  imports Deployment_Safety Deployment_Samples
begin

text \<open>
  The controller and the admission gate. Every body an admitted operation runs leaves the gate alone,
  so the lease contract of the gate gives back the gate the operation found.
\<close>

section \<open>Bodies leave the gate alone\<close>

definition gate_kept :: "'a op \<Rightarrow> bool" where
  "gate_kept m \<longleftrightarrow> (\<forall>s. ct_gate (snd (run_state m s)) = ct_gate s)"

named_theorems gate_rules

lemma gate_kept_return [gate_rules]: "gate_kept (State_Monad.return a)"
  by (simp add: gate_kept_def)

lemma gate_kept_bind [gate_rules]: "gate_kept m \<Longrightarrow> (\<And>a. gate_kept (f a)) \<Longrightarrow> gate_kept (State_Monad.bind m f)"
  by (simp add: gate_kept_def split_beta)

lemma gate_kept_cases [gate_rules]:
  "(b \<Longrightarrow> gate_kept m) \<Longrightarrow> (\<not> b \<Longrightarrow> gate_kept n) \<Longrightarrow> gate_kept (if b then m else n)"
  "(\<And>x. gate_kept (fl x)) \<Longrightarrow> (\<And>y. gate_kept (fr y)) \<Longrightarrow> gate_kept (case r of Inl x \<Rightarrow> fl x | Inr y \<Rightarrow> fr y)"
  "gate_kept m \<Longrightarrow> (\<And>y. gate_kept (fs y)) \<Longrightarrow> gate_kept (case t of None \<Rightarrow> m | Some y \<Rightarrow> fs y)"
  "(\<And>x y. gate_kept (fp x y)) \<Longrightarrow> gate_kept (case p of (x, y) \<Rightarrow> fp x y)"
  "(\<And>x. gate_kept (f x)) \<Longrightarrow> gate_kept (let x = e in f x)"
  by (simp_all split: sum.splits option.splits prod.splits)

lemma gate_kept_calls: "calls_in N m \<Longrightarrow> gate_kept m"
  unfolding calls_in_def gate_kept_def by (metis prod.collapse)

lemma gate_kept_calls_True [gate_rules]:
  "gate_kept (ask f ok c)" "gate_kept (ask_err w c)" "gate_kept (ask_res g c)" "gate_kept (ask_now w)"
  "gate_kept (note_call c)" "gate_kept (activeContainer sid)" "gate_kept (startContainer w d cid dep)"
  "gate_kept (dispatchDeployment w d dep status code)"
  unfolding startContainer_def
  by (rule gate_kept_calls [where N = "\<lambda>_. True"], (rule call_rules)+, simp?)+

lemma gate_kept_table [gate_rules]: "gate_kept (setActive sid a)" "gate_kept (clearActive sid)"
  by (simp_all add: gate_kept_def setActive_def clearActive_def)

lemmas [gate_rules] =
  calls_createRuntimeContainer [THEN gate_kept_calls] calls_waitReady [THEN gate_kept_calls]
  calls_recordVolumeInitializations [THEN gate_kept_calls]

lemma gate_deploy_fail [gate_rules]: "gate_kept (deploy_fail w dep code e)"
  unfolding deploy_fail_def by (intro gate_rules)

lemma gate_restoreOld [gate_rules]: "gate_kept (restoreOld w d old)"
  unfolding restoreOld_def by (intro gate_rules)

lemma gate_stopDisabled [gate_rules]: "gate_kept (stopDisabled w d)"
  unfolding stopDisabled_def by (intro gate_rules)

lemma gate_abandon [gate_rules]: "gate_kept (abandon w d old dep code e)"
  unfolding abandon_def by (intro gate_rules)

lemma gate_commitCandidate [gate_rules]: "gate_kept (commitCandidate w d old dep p c)"
  unfolding commitCandidate_def by (intro gate_rules)

lemma gate_startCandidate [gate_rules]: "gate_kept (startCandidate w d old dep c p)"
  unfolding startCandidate_def by (intro gate_rules)

lemma gate_cutOver [gate_rules]: "gate_kept (cutOver w d dep c p)"
  unfolding cutOver_def by (intro gate_rules)

lemma gate_runDeployment [gate_rules]: "gate_kept (runDeployment w d ctx i)"
  unfolding runDeployment_def by (intro gate_rules)

lemma gate_beginDeployment [gate_rules]: "gate_kept (beginDeployment w a)"
  unfolding beginDeployment_def by (intro gate_rules)

lemma gate_failDeployment [gate_rules]: "gate_kept (failDeployment w a code e)"
  unfolding failDeployment_def by (intro gate_rules)

lemma gate_finishAttempt [gate_rules]: "gate_kept (finishAttempt w a status code e)"
  unfolding finishAttempt_def by (intro gate_rules)

lemma gate_recordResolvedDeployment [gate_rules]: "gate_kept (recordResolvedDeployment w a)"
  unfolding recordResolvedDeployment_def by (intro gate_rules)

lemma gate_uploadSource [gate_rules]: "gate_kept (uploadSource w sid d src)"
  unfolding uploadSource_def activeUpload_def latestUpload_def latestRevision_def by (intro gate_rules)

lemma gate_chooseSource [gate_rules]: "gate_kept (chooseSource w sid d u)"
  unfolding chooseSource_def by (intro gate_rules)

lemma gate_resolveImage [gate_rules]: "gate_kept (resolveImage w a u)"
  unfolding resolveImage_def resolveCredential_def pullImage_def checkImage_def by (intro gate_rules)

lemma gate_reloadDesired [gate_rules]: "gate_kept (reloadDesired w a)"
  unfolding reloadDesired_def by (intro gate_rules)

lemma gate_publishUnchanged [gate_rules]: "gate_kept (publishUnchanged w a)"
  unfolding publishUnchanged_def by (intro gate_rules)

lemma gate_launch [gate_rules]: "gate_kept (launch w a force)"
  unfolding launch_def checkBlocked_def runBeforeDeploy_def by (intro gate_rules)

lemma gate_deployResolved [gate_rules]: "gate_kept (deployResolved w a force)"
  unfolding deployResolved_def releasePending_def inspectResolved_def by (intro gate_rules)

lemma gate_deployAttempt [gate_rules]: "gate_kept (deployAttempt w a u force)"
  unfolding deployAttempt_def growthRefused_def by (intro gate_rules)

lemma gate_deployLocked [gate_rules]: "gate_kept (deployLocked w sid override u force)"
  unfolding deployLocked_def by (intro gate_rules)

lemma gate_activeImage [gate_rules]: "gate_kept (activeImage w d r)"
  unfolding activeImage_def pullActiveImage_def by (intro gate_rules)

lemma gate_restoreRecord [gate_rules]: "gate_kept (restoreRecord w d r)"
  unfolding restoreRecord_def startRestored_def by (intro gate_rules)

lemma gate_restoreCurrentLocked [gate_rules]: "gate_kept (restoreCurrentLocked w sid x)"
  unfolding restoreCurrentLocked_def by (intro gate_rules)

lemma gate_restartLocked [gate_rules]: "gate_kept (restartLocked w sid x)"
  unfolding restartLocked_def restartRestored_def by (intro gate_rules)

section \<open>Admitted operations\<close>

lemma admitted_view:
  assumes "gate_kept m" "token_fresh (ct_gate s)"
  shows "gate_view (ct_gate (snd (run_state (admitted kind sid f m) s))) = gate_view (ct_gate s)"
proof -
  obtain r s' where run: "run_state (admitted kind sid f m) s = (r, s')"
    by force
  then have "gate_view (ct_gate s') = gate_view (ct_gate s)"
  proof (cases rule: admitted_cases)
    case (1 g e)
    then show ?thesis
      by (auto simp: gateBegin_def Let_def split: if_splits)
  next
    case (2 g l t)
    have "begin_lease kind sid (ct_gate s) = Some (g, l)" "ct_gate t = g"
      using 2 assms(1) by (simp_all add: begin_lease_def gate_kept_def) (metis controller.select_convs(1) controller.surjective controller.update_convs(1) snd_conv)
    then show ?thesis
      using blocker_lease.release_restores [OF assms(2)] 2(3) by (simp add: release_lease_def)
  qed
  then show ?thesis
    using run by simp
qed

lemma admitted_updating:
  assumes "gate_updating (ct_gate s)" "validField kind" "validField sid"
  shows "run_state (admitted kind sid f m) s = (f (GateRefused ErrUpdating), s)"
  using assms by (simp add: admitted_def gateBegin_def)

text \<open>
  \<^bold>\<open>C29.\<close> The operations of the controller are balanced on the admission gate: whatever their
  collaborators answer and whichever way they return, the update flag and the table of blockers are
  afterwards what they were before.
\<close>

theorem controller_gate_balanced:
  assumes "token_fresh (ct_gate s)"
  shows "(\<forall>m \<in> {deployService w sid override u force, restore w sid, restartCurrent w sid dep, deleteService w d}.
      gate_view (ct_gate (snd (run_state m s))) = gate_view (ct_gate s))
    \<and> gate_view (ct_gate (snd (run_state (restoreCurrent w sid dep) s))) = gate_view (ct_gate s)"
  using assms unfolding deployService_def restore_def restartCurrent_def deleteService_def restoreCurrent_def
  by (auto intro!: admitted_view gate_rules)

theorem controller_gate_balanced_witness:
  "gate_view (ct_gate (snd (run_state (deployService refusing_store ''s'' [] None True) serving_controller))) = gate_view newGate
   \<and> gate_view (ct_gate (snd (run_state (restoreCurrent refusing_store ''s'' ''d1'') serving_controller))) = gate_view newGate"
proof -
  have "token_fresh (ct_gate serving_controller)" "ct_gate serving_controller = newGate"
    by (simp_all add: serving_controller_def token_fresh_def newGate_def)
  then show ?thesis
    using controller_gate_balanced [of serving_controller refusing_store "''s''" "[]" None True "''d1''"] by simp
qed

text \<open>
  While a platform update holds the gate, the operations of the controller return
  \<^verbatim>\<open>ErrUpdating\<close> at once: no collaborator is called and nothing changes.
\<close>

lemma update_blocks_controller:
  assumes "gate_updating (ct_gate s)" "validField sid" "validField (de_id d)"
  shows "run_state (deployService w sid override u force) s = (Some (GateRefused ErrUpdating), s)
    \<and> run_state (restore w sid) s = (Some (GateRefused ErrUpdating), s)
    \<and> run_state (restoreCurrent w sid dep) s = (Inl (GateRefused ErrUpdating), s)
    \<and> run_state (restartCurrent w sid dep) s = (Some (GateRefused ErrUpdating), s)
    \<and> run_state (deleteService w d) s = (Some (GateRefused ErrUpdating), s)"
proof -
  have "validField ''service_deploy''" "validField ''service_reconcile''" "validField ''service_restart''"
    "validField ''service_delete''"
    by code_simp+
  then show ?thesis
    unfolding deployService_def restore_def restartCurrent_def deleteService_def restoreCurrent_def
    using assms by (simp add: admitted_updating)
qed

end
