(* ===== verification/Go_Netip.thy ===== *)
theory Go_Netip
  imports Go_Prelude
begin

text \<open>
  The part of package \<^verbatim>\<open>net/netip\<close> the network planner uses: prefixes with their validity, masking and
  membership, and the set of IPv4 addresses a prefix stands for.
\<close>

unbundle bit_operations_syntax

type_synonym ipv4 = "32 word"

text \<open>\<^verbatim>\<open>netip.Prefix\<close>: the zero value, an IPv4 or an IPv6 address with a number of bits.\<close>

datatype ip_prefix = NoPrefix | Prefix4 ipv4 nat | Prefix6 "128 word" nat

fun prefix_valid :: "ip_prefix \<Rightarrow> bool" where
  "prefix_valid NoPrefix = False"
| "prefix_valid (Prefix4 a n) = (n \<le> 32)"
| "prefix_valid (Prefix6 a n) = (n \<le> 128)"

fun prefix_is4 :: "ip_prefix \<Rightarrow> bool" where
  "prefix_is4 (Prefix4 a n) = True"
| "prefix_is4 _ = False"

fun prefix_bits :: "ip_prefix \<Rightarrow> nat" where
  "prefix_bits NoPrefix = 0"
| "prefix_bits (Prefix4 a n) = n"
| "prefix_bits (Prefix6 a n) = n"

fun prefix_addr4 :: "ip_prefix \<Rightarrow> ipv4" where
  "prefix_addr4 (Prefix4 a n) = a"
| "prefix_addr4 _ = 0"

fun prefix_masked :: "ip_prefix \<Rightarrow> ip_prefix" where
  "prefix_masked (Prefix4 a n) = Prefix4 (push_bit (32 - n) (drop_bit (32 - n) a)) n"
| "prefix_masked (Prefix6 a n) = Prefix6 (push_bit (128 - n) (drop_bit (128 - n) a)) n"
| "prefix_masked NoPrefix = NoPrefix"

fun prefix_contains :: "ip_prefix \<Rightarrow> ipv4 \<Rightarrow> bool" where
  "prefix_contains (Prefix4 a n) ip = (n \<le> 32 \<and> drop_bit (32 - n) (ip XOR a) = 0)"
| "prefix_contains _ ip = False"

text \<open>\<^verbatim>\<open>Addr.IsPrivate\<close> for IPv4: 10.0.0.0/8, 172.16.0.0/12 and 192.168.0.0/16.\<close>

definition addr_private :: "ipv4 \<Rightarrow> bool" where
  "addr_private a \<longleftrightarrow> drop_bit 24 a = 10 \<or> drop_bit 20 a = 0xAC1 \<or> drop_bit 16 a = 0xC0A8"

lemma unat_succ_below: "i < n \<Longrightarrow> unat (i + 1) = Suc (unat i)" for i n :: "32 word"
proof -
  assume "i < n"
  then have "unat i + 1 < 2 ^ 32"
    using unat_lt32 [of n] by (simp add: word_less_nat_alt)
  then show ?thesis
    by (simp add: unat_word_ariths)
qed

section \<open>Addresses of a prefix\<close>

definition prefix_addrs :: "ip_prefix \<Rightarrow> ipv4 set" where
  "prefix_addrs p = {a. prefix_contains p a}"

lemma xor_zero_iff: "a XOR b = 0 \<longleftrightarrow> a = (b :: 'a::len word)"
  by (metis xor.left_neutral xor.assoc xor_self_eq xor.right_neutral)

lemma contains_iff: "prefix_contains (Prefix4 a n) ip \<longleftrightarrow> n \<le> 32 \<and> drop_bit (32 - n) ip = drop_bit (32 - n) a"
  by (simp add: drop_bit_xor xor_zero_iff)

lemma drop_bit_mono:
  "k \<le> l \<Longrightarrow> drop_bit k a = drop_bit k (b :: 'a::len word) \<Longrightarrow> drop_bit l a = drop_bit l b"
  by (metis add.commute drop_bit_drop_bit le_add_diff_inverse)

lemma drop_push_drop [simp]: "drop_bit k (push_bit k (drop_bit k (a :: 'a::len word))) = drop_bit k a"
  by (rule bit_eqI) (auto simp: bit_simps dest: bit_imp_le_length)

lemma push_drop_idem [simp]:
  "push_bit k (drop_bit k (push_bit k (drop_bit k (a :: 'a::len word)))) = push_bit k (drop_bit k a)"
  by simp

lemma masked_addrs [simp]: "prefix_addrs (prefix_masked p) = prefix_addrs p"
  by (cases p) (auto simp: prefix_addrs_def contains_iff simp del: prefix_contains.simps(1))

lemma masked_idem [simp]: "prefix_masked (prefix_masked p) = prefix_masked p"
  by (cases p) simp_all

text \<open>Two prefixes share an address only if one of them contains the base address of the other.\<close>

lemma overlap_iff:
  assumes "prefix_is4 p" "prefix_valid p" "prefix_is4 q" "prefix_valid q"
  shows "prefix_addrs p \<inter> prefix_addrs q \<noteq> {} \<longleftrightarrow>
    prefix_contains p (prefix_addr4 q) \<or> prefix_contains q (prefix_addr4 p)"
proof -
  obtain a n b m where pq: "p = Prefix4 a n" "q = Prefix4 b m" "n \<le> 32" "m \<le> 32"
    using assms by (cases p; cases q) auto
  show ?thesis
  proof
    assume "prefix_addrs p \<inter> prefix_addrs q \<noteq> {}"
    then obtain x where x: "drop_bit (32 - n) x = drop_bit (32 - n) a" "drop_bit (32 - m) x = drop_bit (32 - m) b"
      by (auto simp: prefix_addrs_def pq contains_iff simp del: prefix_contains.simps(1))
    show "prefix_contains p (prefix_addr4 q) \<or> prefix_contains q (prefix_addr4 p)"
    proof (cases "n \<le> m")
      case True
      then have "drop_bit (32 - n) x = drop_bit (32 - n) b"
        using drop_bit_mono [OF _ x(2)] by simp
      then show ?thesis
        using x(1) pq by (simp add: contains_iff del: prefix_contains.simps(1))
    next
      case False
      then have "drop_bit (32 - m) x = drop_bit (32 - m) a"
        using drop_bit_mono [OF _ x(1)] by simp
      then show ?thesis
        using x(2) pq by (simp add: contains_iff del: prefix_contains.simps(1))
    qed
  next
    assume "prefix_contains p (prefix_addr4 q) \<or> prefix_contains q (prefix_addr4 p)"
    moreover have "prefix_addr4 p \<in> prefix_addrs p" "prefix_addr4 q \<in> prefix_addrs q"
      using pq by (simp_all add: prefix_addrs_def)
    ultimately show "prefix_addrs p \<inter> prefix_addrs q \<noteq> {}"
      by (auto simp: prefix_addrs_def)
  qed
qed

lemma contains_unat: "prefix_contains (Prefix4 a n) ip \<longleftrightarrow> n \<le> 32 \<and> unat ip div 2 ^ (32 - n) = unat a div 2 ^ (32 - n)"
  unfolding contains_iff by (simp add: word_unat_eq_iff unat_drop_bit_eq flip: drop_bit_eq_div)

lemma unat_mask_word: "unat (push_bit k (drop_bit k a)) = unat a div 2 ^ k * 2 ^ k" for a :: "32 word"
proof -
  have "unat a div 2 ^ k * 2 ^ k < 2 ^ 32"
    using unat_lt32 [of a] div_times_less_eq_dividend le_less_trans by blast
  then show ?thesis
    unfolding unsigned_push_bit_eq unat_drop_bit_eq
    by (simp add: drop_bit_eq_div push_bit_eq_mult take_bit_nat_eq_self)
qed

end
