(* ===== verification/Project_Network.thy ===== *)
theory Project_Network
  imports Go_Netip
begin

text \<open>
  Package \<^verbatim>\<open>projectnetwork\<close>: the plan that gives every project a bridge and a /24 of the private pool,
  avoiding the prefixes the host already uses, and the host ranges inside such a subnet. SHA-256 is a
  parameter.
\<close>

section \<open>Data\<close>

record project =
  pj_id :: string
  pj_name :: string

record assignment =
  as_projectID :: string
  as_projectName :: string
  as_networkName :: string
  as_bridge :: string
  as_subnet :: ip_prefix
  as_gateway :: ipv4

datatype failure_error = BridgeCollision string | ErrPoolExhausted

record plan_failure =
  fl_projectID :: string
  fl_err :: failure_error

record plan_result =
  pr_assignments :: "assignment list"
  pr_failures :: "plan_failure list"

datatype plan_error = PoolInvalid | ProjectIncomplete | ProjectDuplicate string | OccupiedInvalid

definition defaultPool :: ip_prefix where
  "defaultPool = Prefix4 0x0A500000 12"

definition containerLeaseFirstHost :: int where "containerLeaseFirstHost = 2"
definition containerLeaseLastHost :: int where "containerLeaseLastHost = 159"
definition remoteVIPFirstHost :: int where "remoteVIPFirstHost = 160"
definition remoteVIPLastHost :: int where "remoteVIPLastHost = 191"
definition gatewayFirstHost :: int where "gatewayFirstHost = 192"
definition gatewayLastHost :: int where "gatewayLastHost = 254"
definition remoteVIPPrefixBits :: nat where "remoteVIPPrefixBits = 27"

section \<open>Operations\<close>

definition subnetAt :: "ip_prefix \<Rightarrow> 32 word \<Rightarrow> ip_prefix" where
  "subnetAt pool index = Prefix4 (prefix_addr4 (prefix_masked pool) + push_bit 8 index) 24"

fun overlapsAny :: "ip_prefix \<Rightarrow> ip_prefix list \<Rightarrow> bool" where
  "overlapsAny candidate [] = False"
| "overlapsAny candidate (p # ps) =
     (if prefix_contains candidate (prefix_addr4 p) \<or> prefix_contains p (prefix_addr4 candidate) then True
      else overlapsAny candidate ps)"

text \<open>\<^verbatim>\<open>base32.StdEncoding.WithPadding(NoPadding)\<close> on bytes, and \<^verbatim>\<open>BridgeName\<close>.\<close>

definition base32_alphabet :: string where
  "base32_alphabet = ''ABCDEFGHIJKLMNOPQRSTUVWXYZ234567''"

definition byte_bits :: "8 word \<Rightarrow> bool list" where
  "byte_bits b = map (bit b) [7, 6, 5, 4, 3, 2, 1, 0]"

definition bits_val :: "bool list \<Rightarrow> nat" where
  "bits_val bs = foldl (\<lambda>n b. 2 * n + of_bool b) 0 bs"

fun base32_groups :: "bool list \<Rightarrow> string" where
  "base32_groups (a # b # c # d # e # bs) = base32_alphabet ! bits_val [a, b, c, d, e] # base32_groups bs"
| "base32_groups [] = []"
| "base32_groups bs = [base32_alphabet ! bits_val (take 5 (bs @ replicate 5 False))]"

definition base32_encode :: "8 word list \<Rightarrow> string" where
  "base32_encode bs = base32_groups (concat (map byte_bits bs))"

definition ascii_lower :: "char \<Rightarrow> char" where
  "ascii_lower c = (if is_upper c then byte_chr (of_char c + 32) else c)"

definition bridgeName :: "(string \<Rightarrow> 8 word list) \<Rightarrow> string \<Rightarrow> string" where
  "bridgeName sha256 projectID =
     ''pd'' @ map ascii_lower (take 13 (base32_encode (sha256 projectID)))"

text \<open>The validation loops of \<^verbatim>\<open>planWithPool\<close>.\<close>

fun checkProjects :: "project option \<Rightarrow> project list \<Rightarrow> plan_error option" where
  "checkProjects previous [] = None"
| "checkProjects previous (p # ps) =
     (if pj_id p = [] \<or> pj_name p = [] then Some ProjectIncomplete
      else if (case previous of None \<Rightarrow> False | Some q \<Rightarrow> pj_id q = pj_id p) then Some (ProjectDuplicate (pj_id p))
      else checkProjects (Some p) ps)"

fun blockedPrefixes :: "ip_prefix list \<Rightarrow> plan_error + ip_prefix list" where
  "blockedPrefixes [] = Inr []"
| "blockedPrefixes (p # ps) =
     (if \<not> prefix_valid p \<or> \<not> prefix_is4 p then Inl OccupiedInvalid
      else res_bind (blockedPrefixes ps) (\<lambda>bs.
        Inr (if prefix_bits p = 0 then bs else prefix_masked p # bs)))"

text \<open>The search for the next free candidate: the index after it, and the subnet if there is one.\<close>

function nextSubnet :: "ip_prefix \<Rightarrow> ip_prefix list \<Rightarrow> 32 word \<Rightarrow> 32 word \<Rightarrow> 32 word \<times> ip_prefix" where
  "nextSubnet pool blocked limit index =
     (if index < limit then
        (let candidate = subnetAt pool index; index = index + 1
         in if \<not> overlapsAny candidate blocked then (index, candidate)
            else nextSubnet pool blocked limit index)
      else (index, NoPrefix))"
  by pat_completeness auto
termination
proof (relation "measure (\<lambda>(pool, blocked, limit, index). unat limit - unat index)")
  fix pool :: ip_prefix and blocked limit index candidate index'
  assume "index < (limit :: 32 word)" "index' = index + 1"
  then have "unat index' = unat index + 1" "unat index < unat limit"
    by (simp_all add: unat_succ_below word_less_nat_alt)
  then show "((pool, blocked, limit, index'), (pool, blocked, limit, index))
      \<in> measure (\<lambda>(pool, blocked, limit, index). unat limit - unat index)"
    by simp
qed simp

declare nextSubnet.simps [simp del]

record plan_state =
  ps_result :: plan_result
  ps_bridges :: "(string \<times> string) list"
  ps_blocked :: "ip_prefix list"
  ps_index :: "32 word"

definition planProject ::
  "(string \<Rightarrow> 8 word list) \<Rightarrow> ip_prefix \<Rightarrow> 32 word \<Rightarrow> plan_state \<Rightarrow> project \<Rightarrow> plan_state" where
  "planProject sha256 pool limit s p =
     (let bridge = bridgeName sha256 (pj_id p); r = ps_result s
      in case map_of (ps_bridges s) bridge of
           Some owner \<Rightarrow>
             s\<lparr>ps_result := r\<lparr>pr_failures :=
                 pr_failures r @ [\<lparr>fl_projectID = pj_id p, fl_err = BridgeCollision owner\<rparr>]\<rparr>\<rparr>
         | None \<Rightarrow>
             (let (index, subnet) = nextSubnet pool (ps_blocked s) limit (ps_index s);
                  s = s\<lparr>ps_bridges := AList.update bridge (pj_id p) (ps_bridges s), ps_index := index\<rparr>
              in if \<not> prefix_valid subnet then
                   s\<lparr>ps_result := r\<lparr>pr_failures :=
                       pr_failures r @ [\<lparr>fl_projectID = pj_id p, fl_err = ErrPoolExhausted\<rparr>]\<rparr>\<rparr>
                 else
                   s\<lparr>ps_blocked := ps_blocked s @ [subnet],
                     ps_result := r\<lparr>pr_assignments := pr_assignments r @
                       [\<lparr>as_projectID = pj_id p, as_projectName = pj_name p, as_networkName = bridge,
                         as_bridge = bridge, as_subnet = subnet, as_gateway = prefix_addr4 subnet + 1\<rparr>]\<rparr>\<rparr>))"

definition planWithPool ::
  "(string \<Rightarrow> 8 word list) \<Rightarrow> project list \<Rightarrow> ip_prefix list \<Rightarrow> ip_prefix \<Rightarrow> plan_error + plan_result" where
  "planWithPool sha256 projects occupied pool =
     (if \<not> prefix_valid pool \<or> \<not> prefix_is4 pool \<or> \<not> addr_private (prefix_addr4 pool) \<or> prefix_bits pool > 24
      then Inl PoolInvalid
      else
        (let canonical = sort_key pj_id projects
         in case checkProjects None canonical of
              Some e \<Rightarrow> Inl e
            | None \<Rightarrow>
                res_bind (blockedPrefixes occupied) (\<lambda>blocked.
                  Inr (ps_result (foldl (planProject sha256 pool (push_bit (24 - prefix_bits pool) 1))
                    \<lparr>ps_result = \<lparr>pr_assignments = [], pr_failures = []\<rparr>, ps_bridges = [],
                     ps_blocked = blocked, ps_index = 0\<rparr> canonical)))))"

definition plan :: "(string \<Rightarrow> 8 word list) \<Rightarrow> project list \<Rightarrow> ip_prefix list \<Rightarrow> plan_error + plan_result" where
  "plan sha256 projects occupied = planWithPool sha256 projects occupied defaultPool"

definition hostAddress :: "ip_prefix \<Rightarrow> int \<Rightarrow> ipv4 option" where
  "hostAddress subnet host =
     (if \<not> prefix_valid subnet \<or> \<not> prefix_is4 subnet \<or> prefix_bits subnet \<noteq> 24 \<or> host < 1 \<or> host > 254 then None
      else Some (push_bit 8 (drop_bit 8 (prefix_addr4 (prefix_masked subnet))) OR of_int host))"

definition remoteVIPPrefix :: "ip_prefix \<Rightarrow> ip_prefix option" where
  "remoteVIPPrefix subnet =
     (case hostAddress subnet remoteVIPFirstHost of
        None \<Rightarrow> None
      | Some address \<Rightarrow>
          (let prefix = Prefix4 address remoteVIPPrefixBits
           in if \<not> prefix_valid prefix \<or> \<not> prefix_contains prefix address then None
              else case hostAddress subnet remoteVIPLastHost of
                None \<Rightarrow> None
              | Some final \<Rightarrow> if \<not> prefix_contains prefix final then None else Some (prefix_masked prefix)))"

section \<open>Candidates of the pool\<close>

lemma pool_power: "n \<le> 24 \<Longrightarrow> (2::nat) ^ (32 - n) = 256 * 2 ^ (24 - n)"
proof -
  assume "n \<le> 24"
  then have "(2::nat) ^ (32 - n) = 2 ^ (8 + (24 - n))"
    by (intro arg_cong [where f = "(^) 2"]) simp
  also have "\<dots> = 2 ^ 8 * 2 ^ (24 - n)"
    by (rule power_add)
  finally show ?thesis
    by simp
qed

lemma pool_room:
  assumes "n \<le> 24" "i < (2::nat) ^ (24 - n)" "a < (2::nat) ^ 32" "r < 256"
  shows "256 * i + r < 2 ^ (32 - n)" "a div 2 ^ (32 - n) * 2 ^ (32 - n) + 256 * i + r < 2 ^ 32"
proof -
  show one: "256 * i + r < 2 ^ (32 - n)"
    unfolding pool_power [OF assms(1)] using assms(2,4) by linarith
  define P where "P = (2::nat) ^ (32 - n)"
  have "n + (32 - n) = 32"
    using assms(1) by simp
  then have q: "(2::nat) ^ 32 = 2 ^ n * P"
    unfolding P_def by (metis power_add)
  have "a div P < 2 ^ n"
    using assms(3) unfolding q by (rule less_mult_imp_div_less)
  then have "(a div P + 1) * P \<le> 2 ^ n * P"
    by (intro mult_right_mono) simp_all
  moreover have "(a div P + 1) * P = a div P * P + P"
    by (simp only: distrib_right mult_1)
  ultimately have "a div P * P + 256 * i + r < 2 ^ n * P"
    using one unfolding P_def [symmetric] by linarith
  then show "a div 2 ^ (32 - n) * 2 ^ (32 - n) + 256 * i + r < 2 ^ 32"
    unfolding q P_def .
qed

lemma subnetAt_addr:
  assumes "n \<le> 24" "unat i < 2 ^ (24 - n)"
  shows "\<exists>b. subnetAt (Prefix4 a n) i = Prefix4 b 24 \<and> unat b = unat a div 2 ^ (32 - n) * 2 ^ (32 - n) + 256 * unat i"
proof -
  let ?m = "push_bit (32 - n) (drop_bit (32 - n) a)"
  have "unat (push_bit 8 i) = 256 * unat i"
    using pool_room(1) [OF assms, of 0 0] assms
    unfolding unsigned_push_bit_eq
    using power_increasing [of "32 - n" 32 "2::nat"] by (simp add: push_bit_eq_mult take_bit_nat_eq_self)
  moreover have "unat ?m + 256 * unat i < 2 ^ 32"
    using pool_room(2) [OF assms, of "unat a" 0] unat_lt32 [of a] by (simp add: unat_mask_word)
  ultimately have "unat (?m + push_bit 8 i) = unat ?m + 256 * unat i"
    by (simp add: unat_word_ariths)
  then show ?thesis
    by (simp add: subnetAt_def unat_mask_word)
qed

lemma subnetAt_in_pool:
  assumes "n \<le> 24" "unat i < 2 ^ (24 - n)"
  shows "prefix_addrs (subnetAt (Prefix4 a n) i) \<subseteq> prefix_addrs (Prefix4 a n)"
proof
  obtain b where b: "subnetAt (Prefix4 a n) i = Prefix4 b 24"
    "unat b = unat a div 2 ^ (32 - n) * 2 ^ (32 - n) + 256 * unat i"
    using subnetAt_addr [OF assms] by blast
  fix x
  assume "x \<in> prefix_addrs (subnetAt (Prefix4 a n) i)"
  then have "unat x div 256 = unat b div 256"
    using b(1) by (simp add: prefix_addrs_def contains_unat del: prefix_contains.simps)
  then obtain r where r: "unat x = unat b div 256 * 256 + r" "r < 256"
    by (metis div_mult_mod_eq mod_less_divisor zero_less_numeral)
  moreover have "unat b = (unat a div 2 ^ (32 - n) * 2 ^ (24 - n) + unat i) * 256"
    using b(2) unfolding pool_power [OF assms(1)] by (simp add: algebra_simps)
  ultimately have "unat x = (unat a div 2 ^ (32 - n) * 2 ^ (24 - n) + unat i) * 256 + r"
    by simp
  then have x: "unat x = unat a div 2 ^ (32 - n) * 2 ^ (32 - n) + (256 * unat i + r)"
    unfolding pool_power [OF assms(1)] by (simp add: algebra_simps)
  have "unat x div 2 ^ (32 - n) = unat a div 2 ^ (32 - n)"
    unfolding x using pool_room(1) [OF assms, of 0 r] r(2) by simp
  then show "x \<in> prefix_addrs (Prefix4 a n)"
    using assms(1) by (simp add: prefix_addrs_def contains_unat del: prefix_contains.simps)
qed

lemma pool_covered:
  assumes "n \<le> 24" "x \<in> prefix_addrs (Prefix4 a n)"
  shows "\<exists>i. unat i < 2 ^ (24 - n) \<and> x \<in> prefix_addrs (subnetAt (Prefix4 a n) i)"
proof -
  note p = pool_power [OF assms(1)]
  have x: "unat x div 2 ^ (32 - n) = unat a div 2 ^ (32 - n)"
    using assms by (simp add: prefix_addrs_def contains_unat del: prefix_contains.simps)
  define i where "i = unat x mod 2 ^ (32 - n) div 256"
  have i: "i < 2 ^ (24 - n)"
    unfolding i_def p by (rule less_mult_imp_div_less) (simp add: mult.commute)
  have le: "(2::nat) ^ (24 - n) \<le> 2 ^ 24"
    by (rule power_increasing) simp_all
  then have ui: "unat (of_nat i :: 32 word) = i"
    using i by (simp add: unat_of_nat)
  obtain b where b: "subnetAt (Prefix4 a n) (of_nat i) = Prefix4 b 24"
    "unat b = unat a div 2 ^ (32 - n) * 2 ^ (32 - n) + 256 * i"
    using subnetAt_addr [OF assms(1), of "of_nat i" a] i ui by auto
  have "unat x = unat a div 2 ^ (32 - n) * 2 ^ (32 - n) + unat x mod 2 ^ (32 - n)"
    by (metis x div_mult_mod_eq)
  then have "unat x div 256 = unat b div 256"
    unfolding b(2) i_def p by (simp add: div_add1_eq [of _ "unat x mod _"] mult.assoc mult.left_commute)
  then have "x \<in> prefix_addrs (subnetAt (Prefix4 a n) (of_nat i))"
    by (simp add: b(1) prefix_addrs_def contains_unat del: prefix_contains.simps)
  then show ?thesis
    using i ui by metis
qed

section \<open>The search for a subnet\<close>

definition v4 :: "ip_prefix \<Rightarrow> bool" where
  "v4 p \<longleftrightarrow> prefix_is4 p \<and> prefix_valid p"

definition clear_of :: "ip_prefix \<Rightarrow> ip_prefix list \<Rightarrow> bool" where
  "clear_of c ps \<longleftrightarrow> (\<forall>p\<in>set ps. prefix_addrs c \<inter> prefix_addrs p = {})"

lemma overlapsAny_iff: "v4 c \<Longrightarrow> list_all v4 ps \<Longrightarrow> overlapsAny c ps \<longleftrightarrow> \<not> clear_of c ps"
  by (induction ps) (auto simp: clear_of_def v4_def overlap_iff)

lemma v4_subnetAt [simp]: "v4 (subnetAt pool i)"
  by (simp add: v4_def subnetAt_def)

lemma index_cases: "index < limit \<Longrightarrow> index \<le> j \<Longrightarrow> j = index \<or> index + 1 \<le> j" for index j :: "32 word"
  using unat_succ_below by (auto simp: word_le_nat_alt word_less_nat_alt word_unat_eq_iff)

lemma nextSubnet_found:
  assumes "nextSubnet pool blocked limit index = (index', c)" "prefix_valid c" "list_all v4 blocked"
  shows "\<exists>i. c = subnetAt pool i \<and> index \<le> i \<and> i < limit \<and> index' = i + 1 \<and> clear_of c blocked
    \<and> (\<forall>j. index \<le> j \<longrightarrow> j < i \<longrightarrow> \<not> clear_of (subnetAt pool j) blocked)"
  using assms
proof (induction pool blocked limit index rule: nextSubnet.induct)
  case (1 pool blocked limit index)
  note step = nextSubnet.simps [of pool blocked limit index]
  show ?case
  proof (cases "index < limit")
    case True
    show ?thesis
    proof (cases "overlapsAny (subnetAt pool index) blocked")
      case over: True
      then have "nextSubnet pool blocked limit (index + 1) = (index', c)"
        using "1.prems"(1) True by (simp add: step Let_def)
      from "1.IH" [OF True refl refl _ this "1.prems"(2,3)] over
      obtain i where i: "c = subnetAt pool i" "index + 1 \<le> i" "i < limit" "index' = i + 1" "clear_of c blocked"
        "\<forall>j. index + 1 \<le> j \<longrightarrow> j < i \<longrightarrow> \<not> clear_of (subnetAt pool j) blocked"
        by auto
      note sp = index_cases [OF True]
      have "index \<le> i"
        using i(2) unat_succ_below [OF True] by (simp add: word_le_nat_alt)
      moreover have "\<not> clear_of (subnetAt pool index) blocked"
        using over overlapsAny_iff [OF v4_subnetAt "1.prems"(3)] by blast
      ultimately show ?thesis
        using i sp by blast
    next
      case False
      then have "index' = index + 1" "c = subnetAt pool index"
        using "1.prems"(1) True by (auto simp: step Let_def)
      then show ?thesis
        using False True overlapsAny_iff [OF v4_subnetAt "1.prems"(3)] by (intro exI [of _ index]) auto
    qed
  next
    case False
    then show ?thesis
      using "1.prems" by (auto simp: step)
  qed
qed

lemma nextSubnet_none:
  assumes "nextSubnet pool blocked limit index = (index', c)" "\<not> prefix_valid c" "list_all v4 blocked" "index \<le> limit"
  shows "index' = limit \<and> (\<forall>j. index \<le> j \<longrightarrow> j < limit \<longrightarrow> \<not> clear_of (subnetAt pool j) blocked)"
  using assms
proof (induction pool blocked limit index rule: nextSubnet.induct)
  case (1 pool blocked limit index)
  note step = nextSubnet.simps [of pool blocked limit index]
  show ?case
  proof (cases "index < limit")
    case True
    have over: "overlapsAny (subnetAt pool index) blocked"
      using "1.prems"(1,2) True by (auto simp: step Let_def subnetAt_def split: if_splits)
    then have "nextSubnet pool blocked limit (index + 1) = (index', c)"
      using "1.prems"(1) True by (simp add: step Let_def)
    moreover have "index + 1 \<le> limit"
      using True unat_succ_below [OF True] by (simp add: word_less_nat_alt word_le_nat_alt)
    ultimately have i: "index' = limit" "\<forall>j. index + 1 \<le> j \<longrightarrow> j < limit \<longrightarrow> \<not> clear_of (subnetAt pool j) blocked"
      using "1.IH" [OF True refl refl] over "1.prems"(2,3) by auto
    have "\<not> clear_of (subnetAt pool index) blocked"
      using over overlapsAny_iff [OF v4_subnetAt "1.prems"(3)] by blast
    then show ?thesis
      using i index_cases [OF True] by blast
  next
    case False
    then have "index' = index"
      using "1.prems"(1) by (simp add: step)
    then show ?thesis
      using False "1.prems"(4) by auto
  qed
qed

section \<open>The invariant of the plan\<close>

definition subnets_of :: "plan_state \<Rightarrow> ip_prefix list" where
  "subnets_of s = map as_subnet (pr_assignments (ps_result s))"

definition assignment_ok ::
  "(string \<Rightarrow> 8 word list) \<Rightarrow> ip_prefix \<Rightarrow> 32 word \<Rightarrow> ip_prefix list \<Rightarrow> project list \<Rightarrow> assignment \<Rightarrow> bool" where
  "assignment_ok sha256 pool limit B ps a \<longleftrightarrow>
     (\<exists>p\<in>set ps. as_projectID a = pj_id p \<and> as_projectName a = pj_name p)
     \<and> as_bridge a = bridgeName sha256 (as_projectID a) \<and> as_networkName a = as_bridge a
     \<and> (\<exists>i<limit. as_subnet a = subnetAt pool i) \<and> as_gateway a = prefix_addr4 (as_subnet a) + 1
     \<and> clear_of (as_subnet a) B"

definition plan_inv ::
  "(string \<Rightarrow> 8 word list) \<Rightarrow> ip_prefix \<Rightarrow> 32 word \<Rightarrow> ip_prefix list \<Rightarrow> project list \<Rightarrow> plan_state \<Rightarrow> bool" where
  "plan_inv sha256 pool limit B ps s \<longleftrightarrow>
     ps_blocked s = B @ subnets_of s \<and> list_all v4 (ps_blocked s) \<and> ps_index s \<le> limit
     \<and> mset (map as_projectID (pr_assignments (ps_result s))) + mset (map fl_projectID (pr_failures (ps_result s)))
         = mset (map pj_id ps)
     \<and> (\<forall>a\<in>set (pr_assignments (ps_result s)). assignment_ok sha256 pool limit B ps a)
     \<and> as_bridge ` set (pr_assignments (ps_result s)) \<subseteq> dom (map_of (ps_bridges s))
     \<and> distinct (map as_bridge (pr_assignments (ps_result s)))
     \<and> sorted_wrt (\<lambda>p q. prefix_addrs p \<inter> prefix_addrs q = {}) (subnets_of s)
     \<and> (\<forall>j<ps_index s. \<not> clear_of (subnetAt pool j) (ps_blocked s))
     \<and> (ErrPoolExhausted \<in> fl_err ` set (pr_failures (ps_result s)) \<longrightarrow> ps_index s = limit)"

lemma assignment_ok_mono: "assignment_ok sha256 pool limit B ps a \<Longrightarrow> assignment_ok sha256 pool limit B (ps @ [p]) a"
  by (auto simp: assignment_ok_def)

lemma clear_of_append [simp]: "clear_of c (ps @ qs) \<longleftrightarrow> clear_of c ps \<and> clear_of c qs"
  by (auto simp: clear_of_def)

lemma clear_of_Cons [simp]: "clear_of c (p # ps) \<longleftrightarrow> prefix_addrs c \<inter> prefix_addrs p = {} \<and> clear_of c ps"
  by (auto simp: clear_of_def)

lemma addr_in_subnetAt: "prefix_addr4 (subnetAt pool i) \<in> prefix_addrs (subnetAt pool i)"
  by (simp add: subnetAt_def prefix_addrs_def)

lemma plan_inv_collision:
  assumes "plan_inv sha256 pool limit B ps s" "map_of (ps_bridges s) (bridgeName sha256 (pj_id p)) = Some owner"
  shows "plan_inv sha256 pool limit B (ps @ [p]) (planProject sha256 pool limit s p)"
  using assms by (auto simp: plan_inv_def planProject_def subnets_of_def Let_def intro: assignment_ok_mono)

lemma plan_inv_exhausted:
  assumes "plan_inv sha256 pool limit B ps s" "map_of (ps_bridges s) (bridgeName sha256 (pj_id p)) = None"
    and search: "nextSubnet pool (ps_blocked s) limit (ps_index s) = (index, c)" and "\<not> prefix_valid c"
  shows "plan_inv sha256 pool limit B (ps @ [p]) (planProject sha256 pool limit s p)"
proof -
  have v: "list_all v4 (ps_blocked s)"
    using assms(1) unfolding plan_inv_def by blast
  have none: "index = limit" "\<forall>j. ps_index s \<le> j \<longrightarrow> j < limit \<longrightarrow> \<not> clear_of (subnetAt pool j) (ps_blocked s)"
    using nextSubnet_none [OF search assms(4) v] assms(1) by (simp_all add: plan_inv_def)
  have "\<not> clear_of (subnetAt pool j) (ps_blocked s)" if "j < limit" for j
    using none that assms(1) by (cases "j < ps_index s") (auto simp: plan_inv_def)
  then show ?thesis
    using assms none(1) by (auto simp: plan_inv_def planProject_def subnets_of_def Let_def intro: assignment_ok_mono)
qed

lemma plan_inv_assigned:
  assumes "plan_inv sha256 pool limit B ps s" "map_of (ps_bridges s) (bridgeName sha256 (pj_id p)) = None"
    and search: "nextSubnet pool (ps_blocked s) limit (ps_index s) = (index, c)" and "prefix_valid c"
  shows "plan_inv sha256 pool limit B (ps @ [p]) (planProject sha256 pool limit s p)"
proof -
  have v: "list_all v4 (ps_blocked s)"
    using assms(1) unfolding plan_inv_def by blast
  obtain i where i: "c = subnetAt pool i" "ps_index s \<le> i" "i < limit" "index = i + 1" "clear_of c (ps_blocked s)"
    "\<forall>j. ps_index s \<le> j \<longrightarrow> j < i \<longrightarrow> \<not> clear_of (subnetAt pool j) (ps_blocked s)"
    using nextSubnet_found [OF search assms(4) v] by blast
  have used: "\<not> clear_of (subnetAt pool j) (ps_blocked s @ [c])" if "j < index" for j
  proof -
    have "j < i \<or> j = i"
      using that i(3,4) unat_succ_below [OF i(3)] by (auto simp: word_less_nat_alt word_unat_eq_iff)
    moreover have "\<not> clear_of c [c]"
      using addr_in_subnetAt [of pool i] i(1) by auto
    moreover have "\<not> clear_of (subnetAt pool j) (ps_blocked s)" if "j < i"
      using that i(6) assms(1) by (cases "j < ps_index s") (auto simp: plan_inv_def)
    ultimately show ?thesis
      using i(1) by auto
  qed
  have le: "index \<le> limit"
    using i(3,4) unat_succ_below [OF i(3)] by (simp add: word_less_nat_alt word_le_nat_alt)
  have new: "assignment_ok sha256 pool limit B (ps @ [p]) \<lparr>as_projectID = pj_id p, as_projectName = pj_name p,
      as_networkName = bridgeName sha256 (pj_id p), as_bridge = bridgeName sha256 (pj_id p), as_subnet = c,
      as_gateway = prefix_addr4 c + 1\<rparr>"
    using i assms(1) by (auto simp: assignment_ok_def plan_inv_def)
  have "ps_index s < limit"
    using i(2,3) by simp
  then show ?thesis
    using assms le new used i(1,5)
    by (auto simp: plan_inv_def planProject_def subnets_of_def Let_def sorted_wrt_append clear_of_def intro: assignment_ok_mono)
qed

lemma plan_inv_step:
  assumes "plan_inv sha256 pool limit B ps s"
  shows "plan_inv sha256 pool limit B (ps @ [p]) (planProject sha256 pool limit s p)"
proof (cases "map_of (ps_bridges s) (bridgeName sha256 (pj_id p))")
  case None
  obtain index c where "nextSubnet pool (ps_blocked s) limit (ps_index s) = (index, c)"
    by force
  then show ?thesis
    using plan_inv_exhausted [OF assms None] plan_inv_assigned [OF assms None] by blast
qed (rule plan_inv_collision [OF assms])

lemma plan_inv_fold:
  "plan_inv sha256 pool limit B ps s \<Longrightarrow> plan_inv sha256 pool limit B (ps @ qs) (foldl (planProject sha256 pool limit) s qs)"
proof (induction qs arbitrary: ps s)
  case (Cons q qs)
  from Cons.IH [OF plan_inv_step [OF Cons.prems]] show ?case
    by simp
qed simp

lemma blockedPrefixes_ok:
  "blockedPrefixes occupied = Inr B \<Longrightarrow> list_all v4 B
     \<and> (\<forall>c. clear_of c B \<longleftrightarrow> (\<forall>p\<in>set occupied. prefix_bits p \<noteq> 0 \<longrightarrow> prefix_addrs c \<inter> prefix_addrs p = {}))"
proof (induction occupied arbitrary: B)
  case (Cons p ps)
  then obtain C where C: "blockedPrefixes ps = Inr C" "prefix_valid p" "prefix_is4 p"
    "B = (if prefix_bits p = 0 then C else prefix_masked p # C)"
    by (auto simp: go_res split: if_splits)
  have "v4 (prefix_masked p)"
    using C(2,3) by (cases p) (auto simp: v4_def)
  then show ?case
    using Cons.IH [OF C(1)] C(4) by auto
qed (simp add: clear_of_def)

lemma planWithPool_inv:
  assumes "planWithPool sha256 projects occupied pool = Inr r"
  obtains B s a n where "pool = Prefix4 a n" "n \<le> 24" "blockedPrefixes occupied = Inr B" "r = ps_result s"
    "plan_inv sha256 pool (push_bit (24 - n) 1) B (sort_key pj_id projects) s"
proof -
  obtain B where B: "blockedPrefixes occupied = Inr B"
    and pool: "prefix_is4 pool" "prefix_bits pool \<le> 24"
    and r: "r = ps_result (foldl (planProject sha256 pool (push_bit (24 - prefix_bits pool) 1))
        \<lparr>ps_result = \<lparr>pr_assignments = [], pr_failures = []\<rparr>, ps_bridges = [], ps_blocked = B, ps_index = 0\<rparr>
        (sort_key pj_id projects))"
    using assms by (auto simp: planWithPool_def Let_def go_res split: if_splits option.splits)
  obtain a n where p: "pool = Prefix4 a n" "n \<le> 24"
    using pool by (cases pool) auto
  have "plan_inv sha256 pool (push_bit (24 - n) 1) B []
      \<lparr>ps_result = \<lparr>pr_assignments = [], pr_failures = []\<rparr>, ps_bridges = [], ps_blocked = B, ps_index = 0\<rparr>"
    using blockedPrefixes_ok [OF B] by (simp add: plan_inv_def subnets_of_def)
  from that [OF p B r] plan_inv_fold [OF this, of "sort_key pj_id projects"] p show ?thesis
    by simp
qed

lemma candidate_limit: "n \<le> 24 \<Longrightarrow> unat (push_bit (24 - n) 1 :: 32 word) = 2 ^ (24 - n)"
proof -
  have "(2::nat) ^ (24 - n) \<le> 2 ^ 24"
    by (rule power_increasing) simp_all
  then show ?thesis
    unfolding unsigned_push_bit_eq by (simp add: push_bit_eq_mult take_bit_nat_eq_self)
qed

lemma below_limit: "n \<le> 24 \<Longrightarrow> i < (push_bit (24 - n) 1 :: 32 word) \<longleftrightarrow> unat i < 2 ^ (24 - n)"
  unfolding word_less_nat_alt by (simp only: candidate_limit)

section \<open>What a plan guarantees\<close>

definition sample_sha256 :: "string \<Rightarrow> 8 word list" where
  "sample_sha256 s = take 32 (map of_char s @ replicate 32 0)"

definition sample_projects :: "project list" where
  "sample_projects = [\<lparr>pj_id = ''b'', pj_name = ''B''\<rparr>, \<lparr>pj_id = ''a'', pj_name = ''A''\<rparr>]"

definition sample_pool :: ip_prefix where
  "sample_pool = Prefix4 0x0A500000 23"

definition sample_result :: plan_result where
  "sample_result =
     \<lparr>pr_assignments =
        [\<lparr>as_projectID = ''a'', as_projectName = ''A'', as_networkName = ''pdmeaaaaaaaaaaa'',
           as_bridge = ''pdmeaaaaaaaaaaa'', as_subnet = Prefix4 173015296 24, as_gateway = 173015297\<rparr>],
      pr_failures = [\<lparr>fl_projectID = ''b'', fl_err = ErrPoolExhausted\<rparr>]\<rparr>"

lemma sample_plan: "planWithPool sample_sha256 sample_projects [Prefix4 0x0A500080 25] sample_pool = Inr sample_result"
  unfolding sample_sha256_def sample_projects_def sample_pool_def sample_result_def by code_simp

text \<open>
  \<^bold>\<open>C3.\<close> A network plan is a partition of the projects into assignments and failures whose bridges
  are all different and whose subnets are /24 prefixes of the pool that share no address with each
  other or with a prefix the host already uses (a default route apart).
\<close>

theorem plan_assigns_disjoint_subnets:
  assumes "planWithPool sha256 projects occupied pool = Inr r"
  shows "mset (map as_projectID (pr_assignments r)) + mset (map fl_projectID (pr_failures r)) = mset (map pj_id projects)
    \<and> distinct (map as_bridge (pr_assignments r))
    \<and> (\<forall>a\<in>set (pr_assignments r). as_bridge a = bridgeName sha256 (as_projectID a)
         \<and> prefix_bits (as_subnet a) = 24 \<and> prefix_addrs (as_subnet a) \<subseteq> prefix_addrs pool
         \<and> (\<forall>p\<in>set occupied. prefix_bits p \<noteq> 0 \<longrightarrow> prefix_addrs (as_subnet a) \<inter> prefix_addrs p = {}))
    \<and> sorted_wrt (\<lambda>a b. prefix_addrs (as_subnet a) \<inter> prefix_addrs (as_subnet b) = {}) (pr_assignments r)"
proof -
  obtain B s a n where p: "pool = Prefix4 a n" "n \<le> 24" and B: "blockedPrefixes occupied = Inr B"
    and r: "r = ps_result s" and inv: "plan_inv sha256 pool (push_bit (24 - n) 1) B (sort_key pj_id projects) s"
    by (rule planWithPool_inv [OF assms])
  have "as_bridge x = bridgeName sha256 (as_projectID x)
         \<and> prefix_bits (as_subnet x) = 24 \<and> prefix_addrs (as_subnet x) \<subseteq> prefix_addrs pool
         \<and> (\<forall>q\<in>set occupied. prefix_bits q \<noteq> 0 \<longrightarrow> prefix_addrs (as_subnet x) \<inter> prefix_addrs q = {})"
    if "x \<in> set (pr_assignments r)" for x
  proof -
    have ok: "assignment_ok sha256 pool (push_bit (24 - n) 1) B (sort_key pj_id projects) x"
      using that inv r unfolding plan_inv_def by blast
    then obtain i where i: "i < push_bit (24 - n) 1" "as_subnet x = subnetAt pool i" "clear_of (as_subnet x) B"
      "as_bridge x = bridgeName sha256 (as_projectID x)"
      unfolding assignment_ok_def by blast
    have "prefix_bits (as_subnet x) = 24"
      unfolding i(2) subnetAt_def by simp
    moreover have "prefix_addrs (as_subnet x) \<subseteq> prefix_addrs pool"
      unfolding i(2) p(1) by (rule subnetAt_in_pool [OF p(2) i(1) [unfolded below_limit [OF p(2)]]])
    ultimately show ?thesis
      using i(3,4) blockedPrefixes_ok [OF B] by blast
  qed
  then show ?thesis
    using inv unfolding plan_inv_def r subnets_of_def sorted_wrt_map mset_map mset_sort by blast
qed

theorem plan_assigns_disjoint_subnets_witness:
  "mset (map as_projectID (pr_assignments sample_result)) + mset (map fl_projectID (pr_failures sample_result)) = {#''b'', ''a''#}
    \<and> map as_subnet (pr_assignments sample_result) = [Prefix4 0x0A500100 24]
    \<and> prefix_addrs (Prefix4 0x0A500100 24) \<inter> prefix_addrs (Prefix4 0x0A500080 25) = {}"
  using plan_assigns_disjoint_subnets [OF sample_plan] by (simp add: sample_projects_def sample_result_def)

text \<open>
  The planner reports \<^verbatim>\<open>ErrPoolExhausted\<close> only when no /24 of the pool is left: around every
  address of the pool, the /24 overlaps a prefix of the host or an assigned subnet.
\<close>

lemma plan_fails_only_when_exhausted:
  assumes "planWithPool sha256 projects occupied pool = Inr r"
    and "f \<in> set (pr_failures r)" "fl_err f = ErrPoolExhausted" "x \<in> prefix_addrs pool"
  shows "\<exists>p. (p \<in> as_subnet ` set (pr_assignments r) \<or> p \<in> set occupied \<and> prefix_bits p \<noteq> 0)
    \<and> prefix_addrs (Prefix4 x 24) \<inter> prefix_addrs p \<noteq> {}"
proof -
  obtain B s a n where p: "pool = Prefix4 a n" "n \<le> 24" and B: "blockedPrefixes occupied = Inr B"
    and r: "r = ps_result s" and inv: "plan_inv sha256 pool (push_bit (24 - n) 1) B (sort_key pj_id projects) s"
    by (rule planWithPool_inv [OF assms(1)])
  obtain i where i: "unat i < 2 ^ (24 - n)" "x \<in> prefix_addrs (subnetAt pool i)"
    using pool_covered [OF p(2)] assms(4) p(1) by blast
  have same: "prefix_addrs (Prefix4 x 24) = prefix_addrs (subnetAt pool i)"
    using i(2) unfolding subnetAt_def prefix_addrs_def contains_iff by simp
  have "ErrPoolExhausted \<in> fl_err ` set (pr_failures (ps_result s))"
    using assms(2,3) r by (metis imageI)
  then have "ps_index s = push_bit (24 - n) 1"
    using inv unfolding plan_inv_def by blast
  then have "i < ps_index s"
    using i(1) by (simp only: below_limit [OF p(2)])
  then have "\<not> clear_of (subnetAt pool i) (B @ subnets_of s)"
    using inv unfolding plan_inv_def by metis
  moreover have "clear_of c (subnets_of s) \<longleftrightarrow>
      (\<forall>p\<in>as_subnet ` set (pr_assignments r). prefix_addrs c \<inter> prefix_addrs p = {})" for c
    unfolding clear_of_def subnets_of_def r set_map ..
  ultimately show ?thesis
    unfolding same clear_of_append using blockedPrefixes_ok [OF B] by blast
qed

text \<open>
  The plan does not depend on the order in which the projects are listed.
\<close>

lemma plan_independent_of_order:
  assumes "mset projects = mset projects'" "distinct (map pj_id projects)"
  shows "planWithPool sha256 projects occupied pool = planWithPool sha256 projects' occupied pool"
proof -
  have "sort_key pj_id projects = sort_key pj_id projects'"
    using assms by (intro sort_key_inj_key_eq) (simp_all add: distinct_map)
  then show ?thesis
    by (simp add: planWithPool_def)
qed

section \<open>Hosts of a subnet\<close>

lemma host_octet:
  assumes "1 \<le> host" "host \<le> 254"
  shows "unat (push_bit 8 (drop_bit 8 a) OR of_int host :: 32 word) = unat a div 256 * 256 + nat host"
proof -
  have "of_int host = (of_nat (nat host) :: 32 word)"
    using assms by simp
  then have h: "unat (of_int host :: 32 word) = nat host"
    using assms by (simp only: unat_of_nat) simp
  then have "of_int host = (take_bit 8 (of_int host) :: 32 word)"
    using assms by (simp add: word_unat_eq_iff unsigned_take_bit_eq take_bit_nat_eq_self)
  then have "bit (of_int host :: 32 word) n \<Longrightarrow> n < 8" for n
    by (metis bit_take_bit_iff)
  then have "push_bit 8 (drop_bit 8 a) OR of_int host = push_bit 8 (drop_bit 8 a) + (of_int host :: 32 word)"
    by (intro disjunctive_add [symmetric]) (metis bit_push_bit_iff not_le)
  moreover have "unat a div 256 < 16777216"
    using unat_lt32 [of a] by (intro less_mult_imp_div_less) simp
  then have "unat a div 256 * 256 + nat host < 4294967296"
    using assms by linarith
  ultimately show ?thesis
    using unat_mask_word [of 8 a] h by (simp add: unat_word_ariths)
qed

lemma hostAddress_24:
  "1 \<le> host \<Longrightarrow> host \<le> 254 \<Longrightarrow>
     \<exists>x. hostAddress (Prefix4 a 24) host = Some x \<and> unat x = unat a div 256 * 256 + nat host"
  using host_octet [of host a] by (simp add: hostAddress_def)

text \<open>
  The prefix of the remote virtual addresses of a /24 lies in it and holds exactly the hosts
  160 to 191, none of the container leases and of the gateways.
\<close>

lemma remote_vip_range:
  "\<exists>p. remoteVIPPrefix (Prefix4 a 24) = Some p \<and> prefix_addrs p \<subseteq> prefix_addrs (Prefix4 a 24)
    \<and> (\<forall>host x. hostAddress (Prefix4 a 24) host = Some x \<longrightarrow>
         (x \<in> prefix_addrs p \<longleftrightarrow> remoteVIPFirstHost \<le> host \<and> host \<le> remoteVIPLastHost))"
proof -
  define A where "A = unat a div 256"
  obtain f where f: "hostAddress (Prefix4 a 24) 160 = Some f" "unat f = A * 256 + 160"
    using hostAddress_24 [of 160 a] by (auto simp: A_def)
  obtain l where l: "hostAddress (Prefix4 a 24) 191 = Some l" "unat l = A * 256 + 191"
    using hostAddress_24 [of 191 a] by (auto simp: A_def)
  have block: "(A * 256 + h) div 32 = A * 8 + h div 32" for h
    using div_mult_self1 [of 32 h "A * 8"] by (simp add: mult.commute)
  have in_p: "y \<in> prefix_addrs (Prefix4 f 27) \<longleftrightarrow> unat y div 32 = A * 8 + 5" for y
    unfolding prefix_addrs_def mem_Collect_eq contains_unat f(2) by (simp add: block)
  then have p: "remoteVIPPrefix (Prefix4 a 24) = Some (prefix_masked (Prefix4 f 27))"
    using in_p [of f] in_p [of l] f l block [of 160] block [of 191]
    by (simp add: remoteVIPPrefix_def remoteVIPFirstHost_def remoteVIPLastHost_def remoteVIPPrefixBits_def Let_def
        prefix_addrs_def del: prefix_contains.simps prefix_masked.simps)
  have "y \<in> prefix_addrs (Prefix4 a 24)" if "y \<in> prefix_addrs (Prefix4 f 27)" for y
  proof -
    have "unat y div 256 = unat y div 32 div 8"
      by (simp flip: div_mult2_eq)
    then show ?thesis
      using that unfolding in_p unfolding prefix_addrs_def mem_Collect_eq contains_unat by (simp add: A_def)
  qed
  moreover have "x \<in> prefix_addrs (Prefix4 f 27) \<longleftrightarrow> 160 \<le> host \<and> host \<le> 191"
    if "hostAddress (Prefix4 a 24) host = Some x" for host x
  proof -
    have "1 \<le> host" "host \<le> 254"
      using that by (auto simp: hostAddress_def split: if_splits)
    then have "unat x = A * 256 + nat host" "1 \<le> host"
      using hostAddress_24 [of host a] that by (auto simp: A_def)
    moreover have "nat host div 32 = 5 \<longleftrightarrow> 160 \<le> nat host \<and> nat host \<le> 191"
      by linarith
    ultimately show ?thesis
      unfolding in_p block by auto
  qed
  ultimately show ?thesis
    unfolding p remoteVIPFirstHost_def remoteVIPLastHost_def
    by (intro exI [of _ "prefix_masked (Prefix4 f 27)"]) (auto simp del: prefix_masked.simps)
qed

lemma remote_vip_range_witness:
  "\<exists>p. remoteVIPPrefix (Prefix4 0x0A500100 24) = Some p \<and> 0x0A5001A5 \<in> prefix_addrs p \<and> 0x0A500109 \<notin> prefix_addrs p"
proof -
  have "hostAddress (Prefix4 0x0A500100 24) 165 = Some 0x0A5001A5" "hostAddress (Prefix4 0x0A500100 24) 9 = Some 0x0A500109"
    by code_simp+
  then show ?thesis
    using remote_vip_range [of "0x0A500100"] by (fastforce simp: remoteVIPFirstHost_def remoteVIPLastHost_def)
qed

end
