(* ===== verification/Go_Strconv.thy ===== *)
theory Go_Strconv
  imports Go_Prelude
begin

text \<open>
  The part of packages \<^verbatim>\<open>strconv\<close> and \<^verbatim>\<open>unicode/utf8\<close> the components use: decimal printing and parsing of
  integers and the width of a UTF-8 sequence.
\<close>

section \<open>Decimals\<close>

definition digit_chr :: "nat \<Rightarrow> char" where
  "digit_chr d = byte_chr (48 + d)"

fun itoa :: "nat \<Rightarrow> string" where
  "itoa n = (if n < 10 then [digit_chr n] else itoa (n div 10) @ [digit_chr (n mod 10)])"

declare itoa.simps [simp del]

definition format_int :: "int \<Rightarrow> string" where
  "format_int i = (if i < 0 then ''-'' @ itoa (nat (- i)) else itoa (nat i))"

text \<open>\<^verbatim>\<open>strconv.ParseInt(s, 10, bits)\<close>; \<open>None\<close> is a syntax or range error.\<close>

definition parse_signed :: "nat \<Rightarrow> bool \<Rightarrow> string \<Rightarrow> int option" where
  "parse_signed bits neg s =
     (if s = [] \<or> \<not> list_all is_digit s then None
      else if \<not> neg \<and> digits_val s \<ge> 2 ^ (bits - 1) then None
      else if neg \<and> digits_val s > 2 ^ (bits - 1) then None
      else Some (if neg then - int (digits_val s) else int (digits_val s)))"

fun parse_int :: "nat \<Rightarrow> string \<Rightarrow> int option" where
  "parse_int bits [] = None"
| "parse_int bits (c # s) =
     (if c = CHR ''+'' then parse_signed bits False s
      else if c = CHR ''-'' then parse_signed bits True s
      else parse_signed bits False (c # s))"

text \<open>\<^verbatim>\<open>strconv.ParseUint(s, 10, bits)\<close>.\<close>

definition parse_uint :: "nat \<Rightarrow> string \<Rightarrow> nat option" where
  "parse_uint bits s = (if s = [] \<or> \<not> list_all is_digit s \<or> digits_val s \<ge> 2 ^ bits then None else Some (digits_val s))"

lemma digit_chr: "d < 10 \<Longrightarrow> is_digit (digit_chr d) \<and> digit_val (digit_chr d) = d"
  by (auto simp: digit_chr_def byte_chr_def is_digit_def digit_val_def less_eq_char_def)

lemma itoa_digits: "list_all is_digit (itoa n)" "itoa n \<noteq> []" "digits_val (itoa n) = n"
proof (induction n rule: itoa.induct)
  case (1 n)
  have "digits_val [digit_chr n] = n" if "n < 10"
    using digit_chr [OF that] digits_val_snoc [of "[]"] by simp
  moreover have "digits_val (itoa (n div 10) @ [digit_chr (n mod 10)]) = n" if "\<not> n < 10"
    using 1(3) [OF that] digit_chr [of "n mod 10"] by (simp add: digits_val_snoc)
  ultimately show "list_all is_digit (itoa n)" "itoa n \<noteq> []" "digits_val (itoa n) = n"
    using 1 digit_chr [of n] digit_chr [of "n mod 10"] itoa.simps [of n] by (simp_all split: if_splits)
qed

lemma digit_not_sign: "is_digit c \<Longrightarrow> c \<noteq> CHR ''+'' \<and> c \<noteq> CHR ''-''"
  by (auto simp: is_digit_def less_eq_char_def)

lemma parse_int_digits:
  "list_all is_digit s \<Longrightarrow> s \<noteq> [] \<Longrightarrow> parse_int bits s = parse_signed bits False s"
  by (cases s) (auto dest: digit_not_sign)

lemma parse_format:
  assumes "- (2 ^ (bits - 1)) \<le> i" "i < 2 ^ (bits - 1)"
  shows "parse_int bits (format_int i) = Some i"
proof (cases "i < 0")
  case True
  have "\<not> nat (- i) > 2 ^ (bits - 1)"
    using assms(1) by (metis add.inverse_inverse linorder_not_less nat_le_iff neg_le_iff_le of_nat_numeral of_nat_power)
  then show ?thesis
    using True itoa_digits [of "nat (- i)"] by (simp add: format_int_def parse_signed_def)
next
  case False
  have "nat i < 2 ^ (bits - 1)"
    using assms(2) False by (simp add: nat_less_iff)
  then show ?thesis
    using False itoa_digits [of "nat i"] parse_int_digits by (simp add: format_int_def parse_signed_def)
qed

lemma format_nat: "format_int (int n) = itoa n"
  by (simp add: format_int_def)

lemma format_int_chars: "set (format_int i) \<subseteq> insert (CHR ''-'') {c. is_digit c}"
  using itoa_digits(1) by (auto simp: format_int_def list_all_iff)

section \<open>UTF-8\<close>

definition utf8_between :: "nat \<Rightarrow> nat \<Rightarrow> char \<Rightarrow> bool" where
  "utf8_between lo hi c = (lo \<le> of_char c \<and> of_char c \<le> hi)"

definition utf8_cont :: "char \<Rightarrow> bool" where
  "utf8_cont c = utf8_between 0x80 0xBF c"

text \<open>\<^verbatim>\<open>utf8.DecodeRune\<close>: the width of the sequence the string starts with, 0 when it is invalid.\<close>

fun utf8_width :: "string \<Rightarrow> nat" where
  "utf8_width [] = 0"
| "utf8_width (a # s) =
     (if of_char a < (0x80 :: nat) then 1
      else if utf8_between 0xC2 0xDF a then
        (case s of b # _ \<Rightarrow> if utf8_cont b then 2 else 0 | _ \<Rightarrow> 0)
      else if utf8_between 0xE0 0xEF a then
        (case s of b # c # _ \<Rightarrow>
           if (if of_char a = (0xE0 :: nat) then utf8_between 0xA0 0xBF b
               else if of_char a = (0xED :: nat) then utf8_between 0x80 0x9F b else utf8_cont b)
              \<and> utf8_cont c then 3 else 0 | _ \<Rightarrow> 0)
      else if utf8_between 0xF0 0xF4 a then
        (case s of b # c # d # _ \<Rightarrow>
           if (if of_char a = (0xF0 :: nat) then utf8_between 0x90 0xBF b
               else if of_char a = (0xF4 :: nat) then utf8_between 0x80 0x8F b else utf8_cont b)
              \<and> utf8_cont c \<and> utf8_cont d then 4 else 0 | _ \<Rightarrow> 0)
      else 0)"

text \<open>\<^verbatim>\<open>utf8.ValidString\<close>.\<close>

function utf8_valid :: "string \<Rightarrow> bool" where
  "utf8_valid s =
     (if s = [] then True else if utf8_width s = 0 then False else utf8_valid (drop (utf8_width s) s))"
  by pat_completeness auto
termination
  by (relation "measure length") auto

declare utf8_valid.simps [simp del]

definition replacement_rune :: string where
  "replacement_rune = [byte_chr 0xEF, byte_chr 0xBF, byte_chr 0xBD]"

end
