(* ===== verification/Redis_Resp.thy ===== *)
theory Redis_Resp
  imports Go_Strconv
begin

text \<open>
  The RESP client of package \<^verbatim>\<open>managedredis\<close> (\<^verbatim>\<open>resp.go\<close>): encoding a command, reading a response under a
  byte budget, and the operations built on them. A connection is the bytes written to it and the bytes
  that can still be read from it; what the server sends and the failures of the context and of the
  connection are parameters.
\<close>

section \<open>Data\<close>

definition maximumCommandBytes :: int where "maximumCommandBytes = 1048576"
definition maximumLineBytes :: nat where "maximumLineBytes = 65536"
definition maximumBulkBytes :: int where "maximumBulkBytes = 1048576"
definition maximumArrayElements :: int where "maximumArrayElements = 4096"
definition maximumResponseBytes :: int where "maximumResponseBytes = 2097152"
definition maximumNestingDepth :: nat where "maximumNestingDepth = 8"

text \<open>The size of the reader's buffer, from \<^verbatim>\<open>bufio.NewReaderSize\<close> in \<^verbatim>\<open>Dial\<close>.\<close>

definition readerSize :: nat where "readerSize = 32768"

datatype response =
    ResponseString string | ResponseInteger int | ResponseBulk string | ResponseArray "response list" | ResponseNull

datatype resp_error =
    TooDeep | EndOfFile | UnexpectedEOF | OverBudget | BadPrefix char | LineTooLong | LineTerminator
  | CommandError string | BadInteger | BadLength | BulkTerminator
  | InvalidCommand | CommandTooLong | ContextDone | DeadlineFailed | WriteFailed | DialFailed
  | CredentialsRequired | Unexpected string | MalformedInfo | IncompleteInfo

record reader =
  rd_input :: string
  rd_budget :: int

type_synonym 'a reading = "reader \<Rightarrow> (resp_error + 'a) \<times> reader"

section \<open>Reading\<close>

definition consumeBudget :: "int \<Rightarrow> unit reading" where
  "consumeBudget amount r =
     (if amount < 0 \<or> rd_budget r < amount then (Inl OverBudget, r)
      else (Inr (), r\<lparr>rd_budget := rd_budget r - amount\<rparr>))"

text \<open>
  \<^verbatim>\<open>ReadSlice\<close> finds the newline if it is among the first \<open>readerSize\<close> bytes; otherwise the buffer fills up
  or the input ends.
\<close>

definition readSlice :: "string reading" where
  "readSlice r =
     (case str_index (take readerSize (rd_input r)) [CHR 10] of
        Some i \<Rightarrow> (Inr (take (i + 1) (rd_input r)), r\<lparr>rd_input := drop (i + 1) (rd_input r)\<rparr>)
      | None \<Rightarrow>
          if length (rd_input r) \<ge> readerSize
          then (Inl LineTooLong, r\<lparr>rd_input := drop readerSize (rd_input r)\<rparr>)
          else (Inl EndOfFile, r\<lparr>rd_input := []\<rparr>))"

definition readLine :: "string reading" where
  "readLine r =
     (case readSlice r of
        (Inl e, r) \<Rightarrow> (Inl e, r)
      | (Inr line, r) \<Rightarrow>
          if length line > maximumLineBytes then (Inl LineTooLong, r)
          else case consumeBudget (int (length line)) r of
            (Inl e, r) \<Rightarrow> (Inl e, r)
          | (Inr _, r) \<Rightarrow>
              if length line < 2 \<or> line ! (length line - 2) \<noteq> CHR 13 then (Inl LineTerminator, r)
              else (Inr (take (length line - 2) line), r))"

definition parseLength :: "string \<Rightarrow> int \<Rightarrow> int option" where
  "parseLength s maximum =
     (case parse_int 32 s of
        None \<Rightarrow> None
      | Some n \<Rightarrow> if n < -1 \<or> n > maximum then None else Some n)"

definition parseDecimal :: "string \<Rightarrow> int option" where
  "parseDecimal s = parse_int 64 s"

text \<open>\<^verbatim>\<open>strings.Map\<close> over the runes: control characters and invalid bytes become the replacement rune.\<close>

function sanitizeRunes :: "string \<Rightarrow> string" where
  "sanitizeRunes s =
     (if s = [] then []
      else if utf8_width s = 0 then replacement_rune @ sanitizeRunes (tl s)
      else if utf8_width s = 1 \<and> (of_char (hd s) < (0x20 :: nat) \<or> of_char (hd s) = (0x7F :: nat))
        then replacement_rune @ sanitizeRunes (tl s)
      else take (utf8_width s) s @ sanitizeRunes (drop (utf8_width s) s))"
  by pat_completeness auto
termination
  by (relation "measure length") (auto simp: neq_Nil_conv)

declare sanitizeRunes.simps [simp del]

definition sanitizeError :: "string \<Rightarrow> string" where
  "sanitizeError s = sanitizeRunes (if length s > 512 then take 512 s else s)"

definition readHeader :: "(char \<times> string) reading" where
  "readHeader r =
     (case rd_input r of
        [] \<Rightarrow> (Inl EndOfFile, r)
      | tag # rest \<Rightarrow>
          (case consumeBudget 1 (r\<lparr>rd_input := rest\<rparr>) of
             (Inl e, r) \<Rightarrow> (Inl e, r)
           | (Inr _, r) \<Rightarrow>
               if tag \<notin> {CHR ''+'', CHR ''-'', CHR '':'', CHR ''$'', CHR ''*''} then (Inl (BadPrefix tag), r)
               else (case readLine r of
                 (Inl e, r) \<Rightarrow> (Inl e, r)
               | (Inr line, r) \<Rightarrow> (Inr (tag, line), r))))"

definition readBulk :: "int \<Rightarrow> response reading" where
  "readBulk length' r =
     (if length' = -1 then (Inr ResponseNull, r)
      else case consumeBudget (length' + 2) r of
        (Inl e, r) \<Rightarrow> (Inl e, r)
      | (Inr _, r) \<Rightarrow>
          (let n = nat length'; v = take (n + 2) (rd_input r); r' = r\<lparr>rd_input := drop (n + 2) (rd_input r)\<rparr>
           in if v = [] then (Inl EndOfFile, r')
              else if length v < n + 2 then (Inl UnexpectedEOF, r')
              else if v ! n \<noteq> CHR 13 \<or> v ! (n + 1) \<noteq> CHR 10 then (Inl BulkTerminator, r')
              else (Inr (ResponseBulk (take n v)), r')))"

definition readScalar :: "char \<Rightarrow> string \<Rightarrow> response reading" where
  "readScalar tag line r =
     (if tag = CHR ''+'' then (Inr (ResponseString line), r)
      else if tag = CHR ''-'' then (Inl (CommandError (sanitizeError line)), r)
      else if tag = CHR '':'' then
        (case parseDecimal line of None \<Rightarrow> (Inl BadInteger, r) | Some n \<Rightarrow> (Inr (ResponseInteger n), r))
      else
        (case parseLength line maximumBulkBytes of None \<Rightarrow> (Inl BadLength, r) | Some n \<Rightarrow> readBulk n r))"

function readResponse :: "nat \<Rightarrow> response reading"
  and readElements :: "nat \<Rightarrow> nat \<Rightarrow> response list reading" where
  "readResponse depth r =
     (if depth > maximumNestingDepth then (Inl TooDeep, r)
      else case readHeader r of
        (Inl e, r) \<Rightarrow> (Inl e, r)
      | (Inr (tag, line), r) \<Rightarrow>
          if tag \<noteq> CHR ''*'' then readScalar tag line r
          else case parseLength line maximumArrayElements of
            None \<Rightarrow> (Inl BadLength, r)
          | Some n \<Rightarrow>
              if n = -1 then (Inr ResponseNull, r)
              else case readElements (depth + 1) (nat n) r of
                (Inl e, r) \<Rightarrow> (Inl e, r)
              | (Inr values, r) \<Rightarrow> (Inr (ResponseArray values), r))"
| "readElements depth n r =
     (if n = 0 then (Inr [], r)
      else case readResponse depth r of
        (Inl e, r) \<Rightarrow> (Inl e, r)
      | (Inr v, r) \<Rightarrow>
          (case readElements depth (n - 1) r of
             (Inl e, r) \<Rightarrow> (Inl e, r)
           | (Inr vs, r) \<Rightarrow> (Inr (v # vs), r)))"
  by pat_completeness auto
termination
  by (relation "measures [\<lambda>x. case x of Inl (d, _) \<Rightarrow> 10 - d | Inr (d, _, _) \<Rightarrow> 10 - d,
      \<lambda>x. case x of Inl (d, _) \<Rightarrow> 0 | Inr (d, n, _) \<Rightarrow> n + 1]")
    (auto simp: maximumNestingDepth_def)

declare readResponse.simps [simp del] readElements.simps [simp del]

section \<open>Writing\<close>

definition crlf :: string where "crlf = [CHR 13, CHR 10]"

definition writeCommand :: "string list \<Rightarrow> string" where
  "writeCommand arguments =
     ''*'' @ itoa (length arguments) @ crlf
       @ concat (map (\<lambda>a. ''$'' @ itoa (length a) @ crlf @ a @ crlf) arguments)"

text \<open>The size check of \<^verbatim>\<open>command\<close>: \<open>None\<close> when a prefix of the arguments exceeds the limit.\<close>

fun encodedSize :: "int \<Rightarrow> string list \<Rightarrow> int option" where
  "encodedSize bytes [] = Some bytes"
| "encodedSize bytes (a # as) =
     (let bytes = bytes + int (length (itoa (length a))) + int (length a) + 5
      in if bytes > maximumCommandBytes then None else encodedSize bytes as)"

section \<open>The client\<close>

record client =
  cl_written :: string
  cl_input :: string

text \<open>
  What one command meets: the context before and after the lock is taken, the deadline, the write
  (\<open>Some n\<close> when it fails after \<open>n\<close> bytes), and the bytes the server sends in reply to everything written
  so far.
\<close>

record resp_world =
  rw_done :: bool
  rw_doneLocked :: bool
  rw_deadlineFails :: bool
  rw_writeFails :: "nat option"
  rw_reply :: "string \<Rightarrow> string"

definition command :: "resp_world \<Rightarrow> client option \<Rightarrow> string list \<Rightarrow> (resp_error + response) \<times> client option" where
  "command w c arguments =
     (if rw_done w then (Inl ContextDone, c)
      else case c of
        None \<Rightarrow> (Inl InvalidCommand, c)
      | Some cl \<Rightarrow>
          if arguments = [] \<or> int (length arguments) > maximumArrayElements then (Inl InvalidCommand, c)
          else case encodedSize (int (length (itoa (length arguments))) + 3) arguments of
            None \<Rightarrow> (Inl CommandTooLong, c)
          | Some _ \<Rightarrow>
              if rw_doneLocked w then (Inl ContextDone, c)
              else if rw_deadlineFails w then (Inl DeadlineFailed, c)
              else (case rw_writeFails w of
                Some n \<Rightarrow> (Inl WriteFailed, Some (cl\<lparr>cl_written := cl_written cl @ take n (writeCommand arguments)\<rparr>))
              | None \<Rightarrow>
                (let written = cl_written cl @ writeCommand arguments
                 in case readResponse 0 \<lparr>rd_input = cl_input cl @ rw_reply w written, rd_budget = maximumResponseBytes\<rparr> of
                      (v, r) \<Rightarrow> (v, Some \<lparr>cl_written = written, cl_input = rd_input r\<rparr>))))"

definition expectOK :: "resp_world \<Rightarrow> client option \<Rightarrow> string \<Rightarrow> string list \<Rightarrow> resp_error option \<times> client option" where
  "expectOK w c expected cmd =
     (case command w c cmd of
        (Inl e, c) \<Rightarrow> (Some e, c)
      | (Inr v, c) \<Rightarrow> (if v \<noteq> ResponseString expected then Some (Unexpected (hd cmd)) else None, c))"

definition ping :: "resp_world \<Rightarrow> client option \<Rightarrow> resp_error option \<times> client option" where
  "ping w c = expectOK w c ''PONG'' [''PING'']"

definition save :: "resp_world \<Rightarrow> client option \<Rightarrow> resp_error option \<times> client option" where
  "save w c = expectOK w c ''OK'' [''SAVE'']"

definition beginBackgroundSave :: "resp_world \<Rightarrow> client option \<Rightarrow> resp_error option \<times> client option" where
  "beginBackgroundSave w c = expectOK w c ''Background saving started'' [''BGSAVE'']"

definition killNormalClients :: "resp_world \<Rightarrow> client option \<Rightarrow> resp_error option \<times> client option" where
  "killNormalClients w c =
     (case command w c [''CLIENT'', ''KILL'', ''TYPE'', ''normal'', ''SKIPME'', ''yes''] of
        (Inl e, c) \<Rightarrow> (Some e, c)
      | (Inr v, c) \<Rightarrow>
          (case v of
             ResponseInteger n \<Rightarrow> (if n < 0 then Some (Unexpected ''CLIENT KILL'') else None, c)
           | _ \<Rightarrow> (Some (Unexpected ''CLIENT KILL''), c)))"

definition authenticate :: "resp_world \<Rightarrow> client option \<Rightarrow> string \<Rightarrow> resp_error option \<times> client option" where
  "authenticate w c password =
     (case command w c [''AUTH'', password] of
        (Inl e, c) \<Rightarrow> (Some e, c)
      | (Inr v, c) \<Rightarrow> (if v \<noteq> ResponseString ''OK'' then Some (Unexpected ''AUTH'') else None, c))"

definition dial :: "bool \<Rightarrow> resp_world \<Rightarrow> string \<Rightarrow> string \<Rightarrow> resp_error + client" where
  "dial reachable w address password =
     (if address = [] \<or> password = [] then Inl CredentialsRequired
      else if \<not> reachable then Inl DialFailed
      else case authenticate w (Some \<lparr>cl_written = [], cl_input = []\<rparr>) password of
        (Some e, _) \<Rightarrow> Inl e
      | (None, c) \<Rightarrow> Inr (the c))"

section \<open>Persistence status\<close>

record persistence_status =
  backgroundSaveInProgress :: bool
  lastBackgroundSaveOK :: bool
  lastSuccessfulSave :: int

text \<open>\<^verbatim>\<open>strings.Split\<close> at a carriage return followed by a newline.\<close>

fun split_crlf :: "string \<Rightarrow> string \<Rightarrow> string list" where
  "split_crlf acc [] = [acc]"
| "split_crlf acc [c] = [acc @ [c]]"
| "split_crlf acc (c # d # s) =
     (if c = CHR 13 \<and> d = CHR 10 then acc # split_crlf [] s else split_crlf (acc @ [c]) (d # s))"

fun infoFields :: "(string \<times> string) list \<Rightarrow> string list \<Rightarrow> resp_error + (string \<times> string) list" where
  "infoFields acc [] = Inr acc"
| "infoFields acc (line # lines) =
     (if line = [] \<or> prefix ''#'' line then infoFields acc lines
      else case str_cut line '':'' of
        (key, v, found) \<Rightarrow>
          if \<not> found \<or> key = [] \<or> v = [] then Inl MalformedInfo
          else infoFields (AList.update key v acc) lines)"

definition parsePersistenceStatus :: "string \<Rightarrow> resp_error + persistence_status" where
  "parsePersistenceStatus s =
     res_bind (infoFields [] (split_crlf [] s)) (\<lambda>info.
       case (map_of info ''rdb_bgsave_in_progress'', map_of info ''rdb_last_bgsave_status'',
             map_of info ''rdb_last_save_time'') of
         (Some p, Some status, Some t) \<Rightarrow>
           (case parse_int 64 t of
              None \<Rightarrow> Inl IncompleteInfo
            | Some unix \<Rightarrow>
                if p \<notin> {''0'', ''1''} \<or> status \<notin> {''ok'', ''err''} \<or> unix \<le> 0 then Inl IncompleteInfo
                else Inr \<lparr>backgroundSaveInProgress = (p = ''1''), lastBackgroundSaveOK = (status = ''ok''),
                  lastSuccessfulSave = unix\<rparr>)
       | _ \<Rightarrow> Inl IncompleteInfo)"

definition persistenceStatus :: "resp_world \<Rightarrow> client option \<Rightarrow> (resp_error + persistence_status) \<times> client option" where
  "persistenceStatus w c =
     (case command w c [''INFO'', ''persistence''] of
        (Inl e, c) \<Rightarrow> (Inl e, c)
      | (Inr v, c) \<Rightarrow>
          (case v of
             ResponseBulk b \<Rightarrow> (parsePersistenceStatus b, c)
           | _ \<Rightarrow> (Inl (Unexpected ''INFO persistence''), c)))"

section \<open>Lines\<close>

lemma consumeBudget_iff:
  "consumeBudget n r = (Inr u, r') \<longleftrightarrow> 0 \<le> n \<and> n \<le> rd_budget r \<and> r' = r\<lparr>rd_budget := rd_budget r - n\<rparr>"
  by (auto simp: consumeBudget_def)

text \<open>A step of a reading that succeeds, and the steps after it.\<close>

lemma reading_case_iff:
  "(case m of (Inl e, r) \<Rightarrow> (Inl e, r) | (Inr x, r) \<Rightarrow> f x r) = (Inr y, r') \<longleftrightarrow>
     (\<exists>x r1. m = (Inr x, r1) \<and> f x r1 = (Inr y, r'))"
  by (auto split: prod.splits sum.splits)

lemma takeWhile_first: "c \<notin> set a \<Longrightarrow> takeWhile (\<lambda>x. x \<noteq> c) (a @ c # b) = a"
  by (metis (mono_tags, lifting) append_Nil2 takeWhile.simps(2) takeWhile_append2)

lemma readSlice_found:
  assumes "rd_input r = s @ CHR 10 # rest" "CHR 10 \<notin> set s" "length s < readerSize"
  shows "readSlice r = (Inr (s @ [CHR 10]), r\<lparr>rd_input := rest\<rparr>)"
proof -
  have "take readerSize (rd_input r) = s @ CHR 10 # take (readerSize - length s - 1) rest"
    using assms(1,3) by (simp add: take_Cons')
  then show ?thesis
    using assms by (simp add: readSlice_def str_index_char takeWhile_first)
qed

lemma readSlice_iff:
  "readSlice r = (Inr line, r') \<longleftrightarrow>
     (\<exists>s rest. line = s @ [CHR 10] \<and> rd_input r = s @ CHR 10 # rest \<and> CHR 10 \<notin> set s
        \<and> length s < readerSize \<and> r' = r\<lparr>rd_input := rest\<rparr>)"
proof
  assume read: "readSlice r = (Inr line, r')"
  then have "CHR 10 \<in> set (take readerSize (rd_input r))"
    by (auto simp: readSlice_def str_index_char split: if_splits)
  then obtain s b where s: "take readerSize (rd_input r) = s @ CHR 10 # b" "CHR 10 \<notin> set s"
    by (meson split_list_first)
  then have "rd_input r = s @ CHR 10 # (b @ drop readerSize (rd_input r))"
    by (metis append.assoc append_Cons append_take_drop_id)
  moreover have "length s < readerSize"
    using arg_cong [OF s(1), of length] by simp
  ultimately show "\<exists>s rest. line = s @ [CHR 10] \<and> rd_input r = s @ CHR 10 # rest \<and> CHR 10 \<notin> set s
        \<and> length s < readerSize \<and> r' = r\<lparr>rd_input := rest\<rparr>"
    using readSlice_found [of r s] s(2) read by auto
qed (auto simp: readSlice_found)

lemma readLine_iff:
  "readLine r = (Inr s, r') \<longleftrightarrow>
     (\<exists>rest. rd_input r = s @ crlf @ rest \<and> CHR 10 \<notin> set s \<and> length s + 2 \<le> readerSize
        \<and> int (length s + 2) \<le> rd_budget r
        \<and> r' = r\<lparr>rd_input := rest, rd_budget := rd_budget r - int (length s + 2)\<rparr>)"
proof
  assume "readLine r = (Inr s, r')"
  then obtain line r1 where slice: "readSlice r = (Inr line, r1)"
    and line: "length line \<ge> 2" "line ! (length line - 2) = CHR 13" "s = take (length line - 2) line"
    and r': "int (length line) \<le> rd_budget r1" "r' = r1\<lparr>rd_budget := rd_budget r1 - int (length line)\<rparr>"
    by (auto simp: readLine_def consumeBudget_def split: prod.splits sum.splits if_splits)
  from slice obtain t rest where t: "line = t @ [CHR 10]" "rd_input r = t @ CHR 10 # rest" "CHR 10 \<notin> set t"
    "length t < readerSize" "r1 = r\<lparr>rd_input := rest\<rparr>"
    by (auto simp: readSlice_iff)
  obtain u x where u: "t = u @ [x]"
    using line(1) t(1) by (cases t rule: rev_cases) auto
  then have "t = s @ [CHR 13]"
    using line(2,3) t(1) by (simp add: nth_append)
  then show "\<exists>rest. rd_input r = s @ crlf @ rest \<and> CHR 10 \<notin> set s \<and> length s + 2 \<le> readerSize
        \<and> int (length s + 2) \<le> rd_budget r
        \<and> r' = r\<lparr>rd_input := rest, rd_budget := rd_budget r - int (length s + 2)\<rparr>"
    using t r' by (auto simp: crlf_def)
next
  assume "\<exists>rest. rd_input r = s @ crlf @ rest \<and> CHR 10 \<notin> set s \<and> length s + 2 \<le> readerSize
        \<and> int (length s + 2) \<le> rd_budget r
        \<and> r' = r\<lparr>rd_input := rest, rd_budget := rd_budget r - int (length s + 2)\<rparr>"
  then obtain rest where *: "rd_input r = (s @ [CHR 13]) @ CHR 10 # rest" "CHR 10 \<notin> set (s @ [CHR 13])"
    "length (s @ [CHR 13]) < readerSize" "int (length s + 2) \<le> rd_budget r"
    "r' = r\<lparr>rd_input := rest, rd_budget := rd_budget r - int (length s + 2)\<rparr>"
    by (auto simp: crlf_def)
  have "length s + 2 \<le> maximumLineBytes"
    using *(3) by (simp add: readerSize_def maximumLineBytes_def)
  then show "readLine r = (Inr s, r')"
    unfolding readLine_def readSlice_found [OF *(1-3)] using *(4,5)
    by (simp add: consumeBudget_def nth_append)
qed

lemma readHeader_iff:
  "readHeader r = (Inr (tag, line), r') \<longleftrightarrow>
     tag \<in> {CHR ''+'', CHR ''-'', CHR '':'', CHR ''$'', CHR ''*''}
     \<and> (\<exists>rest. rd_input r = tag # line @ crlf @ rest \<and> CHR 10 \<notin> set line \<and> length line + 2 \<le> readerSize
        \<and> int (length line + 3) \<le> rd_budget r
        \<and> r' = r\<lparr>rd_input := rest, rd_budget := rd_budget r - int (length line + 3)\<rparr>)"
proof (cases "rd_input r")
  case (Cons c cs)
  then have "readHeader r = (Inr (tag, line), r') \<longleftrightarrow>
      c \<in> {CHR ''+'', CHR ''-'', CHR '':'', CHR ''$'', CHR ''*''} \<and> 1 \<le> rd_budget r \<and> c = tag
      \<and> readLine (r\<lparr>rd_input := cs, rd_budget := rd_budget r - 1\<rparr>) = (Inr line, r')"
    unfolding readHeader_def by (auto simp: reading_case_iff consumeBudget_iff split: if_splits)
  then show ?thesis
    unfolding readLine_iff using Cons by auto
qed (simp add: readHeader_def)

lemma crlf_at:
  "k + 2 \<le> length xs \<and> xs ! k = CHR 13 \<and> xs ! (k + 1) = CHR 10 \<longleftrightarrow> (\<exists>b rest. xs = b @ crlf @ rest \<and> length b = k)"
proof
  assume at: "k + 2 \<le> length xs \<and> xs ! k = CHR 13 \<and> xs ! (k + 1) = CHR 10"
  then have "xs = take k xs @ xs ! k # xs ! (k + 1) # drop (k + 2) xs"
    using id_take_nth_drop [of k xs] Cons_nth_drop_Suc [of "Suc k" xs] by simp
  then show "\<exists>b rest. xs = b @ crlf @ rest \<and> length b = k"
    using at by (intro exI [of _ "take k xs"] exI [of _ "drop (k + 2) xs"]) (simp add: crlf_def)
qed (auto simp: crlf_def nth_append)

lemma readBulk_iff:
  assumes "n \<noteq> -1" "-1 \<le> n"
  shows "readBulk n r = (Inr v, r') \<longleftrightarrow>
     (\<exists>b rest. v = ResponseBulk b \<and> rd_input r = b @ crlf @ rest \<and> int (length b) = n \<and> n + 2 \<le> rd_budget r
        \<and> r' = r\<lparr>rd_input := rest, rd_budget := rd_budget r - (n + 2)\<rparr>)"
proof -
  obtain k where k: "n = int k"
    using assms zero_le_imp_eq_int [of n] by auto
  let ?i = "rd_input r"
  have "readBulk n r = (Inr v, r') \<longleftrightarrow> n + 2 \<le> rd_budget r \<and> k + 2 \<le> length ?i \<and> ?i ! k = CHR 13 \<and> ?i ! (k + 1) = CHR 10
      \<and> v = ResponseBulk (take k ?i) \<and> r' = r\<lparr>rd_input := drop (k + 2) ?i, rd_budget := rd_budget r - (n + 2)\<rparr>"
    using assms by (auto simp: readBulk_def reading_case_iff consumeBudget_iff Let_def k min_def split: if_splits)
  also have "\<dots> \<longleftrightarrow> n + 2 \<le> rd_budget r \<and> (\<exists>b rest. ?i = b @ crlf @ rest \<and> length b = k)
      \<and> v = ResponseBulk (take k ?i) \<and> r' = r\<lparr>rd_input := drop (k + 2) ?i, rd_budget := rd_budget r - (n + 2)\<rparr>"
    using crlf_at [of k ?i] by blast
  also have "\<dots> \<longleftrightarrow> (\<exists>b rest. v = ResponseBulk b \<and> ?i = b @ crlf @ rest \<and> int (length b) = n \<and> n + 2 \<le> rd_budget r
        \<and> r' = r\<lparr>rd_input := rest, rd_budget := rd_budget r - (n + 2)\<rparr>)"
    using k by (auto simp: crlf_def)
  finally show ?thesis .
qed

section \<open>The encoding a server uses\<close>

fun encode_response :: "response \<Rightarrow> string" where
  "encode_response (ResponseString s) = ''+'' @ s @ crlf"
| "encode_response (ResponseInteger i) = '':'' @ format_int i @ crlf"
| "encode_response (ResponseBulk b) = ''$'' @ itoa (length b) @ crlf @ b @ crlf"
| "encode_response (ResponseArray vs) = ''*'' @ itoa (length vs) @ crlf @ concat (map encode_response vs)"
| "encode_response ResponseNull = ''$-1'' @ crlf"

text \<open>The responses within the limits of the client, at a nesting depth.\<close>

fun fits :: "nat \<Rightarrow> response \<Rightarrow> bool" where
  "fits d (ResponseString s) \<longleftrightarrow> d \<le> maximumNestingDepth \<and> CHR 10 \<notin> set s \<and> length s + 2 \<le> readerSize"
| "fits d (ResponseInteger i) \<longleftrightarrow> d \<le> maximumNestingDepth \<and> - (2 ^ 63) \<le> i \<and> i < 2 ^ 63"
| "fits d (ResponseBulk b) \<longleftrightarrow> d \<le> maximumNestingDepth \<and> int (length b) \<le> maximumBulkBytes"
| "fits d (ResponseArray vs) \<longleftrightarrow> d \<le> maximumNestingDepth \<and> int (length vs) \<le> maximumArrayElements \<and> (\<forall>v\<in>set vs. fits (d + 1) v)"
| "fits d ResponseNull \<longleftrightarrow> d \<le> maximumNestingDepth"

definition consumed :: "reader \<Rightarrow> reader \<Rightarrow> bool" where
  "consumed r r' \<longleftrightarrow> (\<exists>bytes. rd_input r = bytes @ rd_input r' \<and> rd_budget r' = rd_budget r - int (length bytes))
     \<and> (0 \<le> rd_budget r \<longrightarrow> 0 \<le> rd_budget r')"

lemma consumed_refl [simp]: "consumed r r"
  by (simp add: consumed_def)

lemma consumed_trans: "consumed r r1 \<Longrightarrow> consumed r1 r2 \<Longrightarrow> consumed r r2"
  unfolding consumed_def by (metis append.assoc length_append of_nat_add diff_diff_eq)

lemma consumed_header: "readHeader r = (Inr (tag, line), r') \<Longrightarrow> consumed r r'"
  unfolding readHeader_iff consumed_def by (auto simp: crlf_def intro!: exI [of _ "tag # line @ crlf"])

lemma consumed_bulk: "readBulk n r = (Inr v, r') \<Longrightarrow> -1 \<le> n \<Longrightarrow> consumed r r'"
proof (cases "n = -1")
  case False
  assume "readBulk n r = (Inr v, r')" "-1 \<le> n"
  then obtain b rest where "rd_input r = (b @ crlf) @ rest" "int (length b) = n" "n + 2 \<le> rd_budget r"
    "r' = r\<lparr>rd_input := rest, rd_budget := rd_budget r - (n + 2)\<rparr>"
    using False by (auto simp: readBulk_iff)
  then show ?thesis
    unfolding consumed_def by (intro conjI exI [of _ "b @ crlf"]) (auto simp: crlf_def)
qed (simp add: readBulk_def)

lemma parse_signed_range:
  "parse_signed bits neg s = Some i \<Longrightarrow> - (2 ^ (bits - 1)) \<le> i \<and> i < 2 ^ (bits - 1)"
proof -
  assume p: "parse_signed bits neg s = Some i"
  define P :: int where "P = 2 ^ (bits - 1)"
  have P: "digits_val s < 2 ^ (bits - 1) \<longleftrightarrow> int (digits_val s) < P" "digits_val s \<le> 2 ^ (bits - 1) \<longleftrightarrow> int (digits_val s) \<le> P"
    "0 < P"
    unfolding P_def by simp_all
  then have "\<not> neg \<longrightarrow> int (digits_val s) < P" "neg \<longrightarrow> int (digits_val s) \<le> P"
    "i = (if neg then - int (digits_val s) else int (digits_val s))"
    using p by (auto simp: parse_signed_def split: if_splits)
  then show ?thesis
    using P(3) unfolding P_def [symmetric] by (cases neg) auto
qed

lemma parse_int_range: "parse_int bits s = Some i \<Longrightarrow> - (2 ^ (bits - 1)) \<le> i \<and> i < 2 ^ (bits - 1)"
  using parse_signed_range by (cases s) (auto split: if_splits)

lemma readScalar_sound:
  assumes "readScalar tag line r = (Inr v, r')" "tag \<noteq> CHR ''*''" "readHeader r0 = (Inr (tag, line), r)" "d \<le> maximumNestingDepth"
  shows "fits d v \<and> consumed r r'"
proof -
  have line: "CHR 10 \<notin> set line" "length line + 2 \<le> readerSize"
    using assms(3) by (auto simp: readHeader_iff)
  consider (str) "v = ResponseString line" "r' = r" | (int) i where "parse_int 64 line = Some i" "v = ResponseInteger i" "r' = r"
    | (bulk) n where "parseLength line maximumBulkBytes = Some n" "readBulk n r = (Inr v, r')"
    using assms(1) by (auto simp: readScalar_def parseDecimal_def split: if_splits option.splits)
  then show ?thesis
  proof cases
    case bulk
    then have n: "-1 \<le> n" "n \<le> maximumBulkBytes"
      by (auto simp: parseLength_def split: option.splits if_splits)
    have "fits d v"
      using bulk(2) n assms(4) by (cases "n = -1") (auto simp: readBulk_def [of "-1"] readBulk_iff)
    then show ?thesis
      using consumed_bulk [OF bulk(2) n(1)] by blast
  next
    case int
    then show ?thesis
      using parse_int_range [of 64 line] assms(4) by simp
  qed (use line assms(4) in simp_all)
qed

lemma reading_sound:
  "readResponse d r = (Inr v, r') \<Longrightarrow> fits d v \<and> consumed r r'"
  "readElements d n r = (Inr vs, r') \<Longrightarrow> length vs = n \<and> (\<forall>v\<in>set vs. fits d v) \<and> consumed r r'"
proof (induction d r and d n r arbitrary: v r' and vs r' rule: readResponse_readElements.induct)
  case (1 d r)
  have d: "d \<le> maximumNestingDepth"
    using 1(2) by (auto simp: readResponse.simps [of d r] split: if_splits)
  then obtain tag line r1 where h: "readHeader r = (Inr (tag, line), r1)"
    using 1(2) by (auto simp: readResponse.simps [of d r] reading_case_iff not_less split: prod.splits)
  show ?case
  proof (cases "tag = CHR ''*''")
    case False
    then have "readScalar tag line r1 = (Inr v, r')"
      using 1(2) d h by (simp add: readResponse.simps [of d r] not_less)
    from readScalar_sound [OF this False h d] show ?thesis
      using consumed_trans [OF consumed_header [OF h]] by blast
  next
    case True
    then obtain n where n: "parseLength line maximumArrayElements = Some n"
      using 1(2) d h by (auto simp: readResponse.simps [of d r] not_less split: option.splits)
    show ?thesis
    proof (cases "n = -1")
      case True
      then show ?thesis
        using 1(2) d h n \<open>tag = _\<close> consumed_header [OF h] by (simp add: readResponse.simps [of d r] not_less)
    next
      case False
      then obtain vs where vs: "readElements (d + 1) (nat n) r1 = (Inr vs, r')" "v = ResponseArray vs"
        using 1(2) d h n True by (auto simp: readResponse.simps [of d r] reading_case_iff not_less)
      have len: "0 \<le> n" "n \<le> maximumArrayElements"
        using n False by (auto simp: parseLength_def split: option.splits if_splits)
      have "length vs = nat n \<and> (\<forall>v\<in>set vs. fits (d + 1) v) \<and> consumed r1 r'"
        using d h n False True by (intro "1"(1) vs(1)) auto
      then show ?thesis
        using vs(2) len d consumed_trans [OF consumed_header [OF h]] by auto
    qed
  qed
next
  case (2 d n r)
  show ?case
  proof (cases n)
    case 0
    then show ?thesis
      using 2(3) by (simp add: readElements.simps [of d 0 r])
  next
    case (Suc m)
    then obtain v r1 ws where v: "readResponse d r = (Inr v, r1)" and ws: "readElements d m r1 = (Inr ws, r')" "vs = v # ws"
      using 2(3) by (auto simp: readElements.simps [of d "Suc m" r] reading_case_iff)
    have "fits d v \<and> consumed r r1"
      using Suc by (intro 2(1) v) simp
    moreover have "length ws = m \<and> (\<forall>v\<in>set ws. fits d v) \<and> consumed r1 r'"
      using 2(2) [OF _ v [symmetric] refl] Suc ws(1) by simp
    ultimately show ?thesis
      using ws(2) Suc consumed_trans by auto
  qed
qed

section \<open>Reading what a server encodes\<close>

lemma itoa_length: "n < 10 ^ k \<Longrightarrow> 0 < k \<Longrightarrow> length (itoa n) \<le> k"
proof (induction k arbitrary: n)
  case (Suc k)
  show ?case
  proof (cases "n < 10")
    case False
    then have "n div 10 < 10 ^ k" "0 < k"
      using Suc.prems(1) by (auto intro: less_mult_imp_div_less simp: mult.commute) (cases k; simp)
    then show ?thesis
      using Suc.IH [of "n div 10"] False itoa.simps [of n] by simp
  qed (simp add: itoa.simps [of n])
qed simp

lemma format_length: "- (2 ^ 63) \<le> i \<Longrightarrow> i < 2 ^ 63 \<Longrightarrow> length (format_int i) \<le> 20"
  using itoa_length [of "nat (- i)" 19] itoa_length [of "nat i" 19] by (auto simp: format_int_def nat_less_iff)

lemma newline_not_in_format [simp]: "CHR 10 \<notin> set (format_int i)" "CHR 10 \<notin> set (itoa n)"
  using format_int_chars [of i] itoa_digits(1) [of n] by (auto simp: is_digit_def less_eq_char_def list_all_iff)

lemma parseLength_itoa: "int n \<le> maximum \<Longrightarrow> int n < 2 ^ 31 \<Longrightarrow> parseLength (itoa n) maximum = Some (int n)"
  using parse_format [of 32 "int n"] by (simp add: parseLength_def format_nat)

lemma header_line:
  assumes "tag \<in> {CHR ''+'', CHR '':'', CHR ''$'', CHR ''*''}" "CHR 10 \<notin> set line" "length line + 2 \<le> readerSize"
    and "int (length line + 3) \<le> b"
  shows "readHeader \<lparr>rd_input = tag # line @ crlf @ rest, rd_budget = b\<rparr> =
    (Inr (tag, line), \<lparr>rd_input = rest, rd_budget = b - int (length line + 3)\<rparr>)"
  using assms by (auto simp: readHeader_iff)

lemma small_number: "int n \<le> maximumBulkBytes \<Longrightarrow> length (itoa n) + 2 \<le> readerSize"
  using itoa_length [of n 7] by (simp add: maximumBulkBytes_def readerSize_def)

lemma read_bulk_encoded:
  assumes "int (length b) \<le> maximumBulkBytes" "d \<le> maximumNestingDepth"
    and "int (length (encode_response (ResponseBulk b))) \<le> budget"
  shows "readResponse d \<lparr>rd_input = encode_response (ResponseBulk b) @ rest, rd_budget = budget\<rparr> =
    (Inr (ResponseBulk b), \<lparr>rd_input = rest, rd_budget = budget - int (length (encode_response (ResponseBulk b)))\<rparr>)"
proof -
  let ?k = "budget - int (length (itoa (length b)) + 3)"
  have h: "readHeader \<lparr>rd_input = CHR ''$'' # itoa (length b) @ crlf @ (b @ crlf @ rest), rd_budget = budget\<rparr> =
      (Inr (CHR ''$'', itoa (length b)), \<lparr>rd_input = b @ crlf @ rest, rd_budget = ?k\<rparr>)"
    using assms small_number [of "length b"] by (intro header_line) (simp_all add: crlf_def)
  have "parseLength (itoa (length b)) maximumBulkBytes = Some (int (length b))"
    using assms(1) by (intro parseLength_itoa) (simp_all add: maximumBulkBytes_def)
  moreover have "readBulk (int (length b)) \<lparr>rd_input = b @ crlf @ rest, rd_budget = ?k\<rparr> =
      (Inr (ResponseBulk b), \<lparr>rd_input = rest, rd_budget = ?k - (int (length b) + 2)\<rparr>)"
    using assms(3) by (subst readBulk_iff) (auto simp: crlf_def)
  ultimately show ?thesis
    using h assms(2) by (simp add: readResponse.simps [of d] readScalar_def crlf_def)
qed

lemma read_elements_encoded:
  assumes "\<And>v rest budget. v \<in> set vs \<Longrightarrow> int (length (encode_response v)) \<le> budget \<Longrightarrow>
      readResponse d \<lparr>rd_input = encode_response v @ rest, rd_budget = budget\<rparr> =
        (Inr v, \<lparr>rd_input = rest, rd_budget = budget - int (length (encode_response v))\<rparr>)"
    and "int (length (concat (map encode_response vs))) \<le> budget"
  shows "readElements d (length vs) \<lparr>rd_input = concat (map encode_response vs) @ rest, rd_budget = budget\<rparr> =
    (Inr vs, \<lparr>rd_input = rest, rd_budget = budget - int (length (concat (map encode_response vs)))\<rparr>)"
  using assms
proof (induction vs arbitrary: budget)
  case Nil
  show ?case
    by (simp add: readElements.simps [of d 0])
next
  case (Cons v vs)
  let ?n = "int (length (encode_response v))"
  have "readResponse d \<lparr>rd_input = encode_response v @ (concat (map encode_response vs) @ rest), rd_budget = budget\<rparr> =
      (Inr v, \<lparr>rd_input = concat (map encode_response vs) @ rest, rd_budget = budget - ?n\<rparr>)"
    using Cons.prems(2) by (intro Cons.prems(1)) simp_all
  moreover have "readElements d (length vs) \<lparr>rd_input = concat (map encode_response vs) @ rest, rd_budget = budget - ?n\<rparr> =
      (Inr vs, \<lparr>rd_input = rest, rd_budget = budget - ?n - int (length (concat (map encode_response vs)))\<rparr>)"
    using Cons.prems(2) by (intro Cons.IH Cons.prems(1)) simp_all
  ultimately show ?case
    by (simp add: readElements.simps [of d "Suc (length vs)"])
qed

lemma read_encoded:
  "fits d v \<Longrightarrow> int (length (encode_response v)) \<le> budget \<Longrightarrow>
     readResponse d \<lparr>rd_input = encode_response v @ rest, rd_budget = budget\<rparr> =
       (Inr v, \<lparr>rd_input = rest, rd_budget = budget - int (length (encode_response v))\<rparr>)"
proof (induction v arbitrary: d rest budget)
  case (ResponseString s)
  then show ?case
    using header_line [of "CHR ''+''" s budget rest]
    by (simp add: readResponse.simps [of d] readScalar_def crlf_def)
next
  case (ResponseInteger i)
  have "length (format_int i) + 2 \<le> readerSize"
    using ResponseInteger format_length [of i] by (simp add: readerSize_def)
  then show ?case
    using ResponseInteger header_line [of "CHR '':''" "format_int i" budget rest] parse_format [of 64 i]
    by (simp add: readResponse.simps [of d] readScalar_def parseDecimal_def crlf_def)
next
  case (ResponseBulk b)
  then show ?case
    by (intro read_bulk_encoded) simp_all
next
  case (ResponseArray vs)
  let ?l = "itoa (length vs)"
  let ?k = "budget - int (length ?l + 3)"
  have h: "readHeader \<lparr>rd_input = CHR ''*'' # ?l @ crlf @ (concat (map encode_response vs) @ rest), rd_budget = budget\<rparr> =
      (Inr (CHR ''*'', ?l), \<lparr>rd_input = concat (map encode_response vs) @ rest, rd_budget = ?k\<rparr>)"
    using ResponseArray.prems small_number [of "length vs"]
    by (intro header_line) (simp_all add: crlf_def maximumArrayElements_def maximumBulkBytes_def)
  have p: "parseLength ?l maximumArrayElements = Some (int (length vs))"
    using ResponseArray.prems by (intro parseLength_itoa) (simp_all add: maximumArrayElements_def)
  have "readElements (d + 1) (length vs) \<lparr>rd_input = concat (map encode_response vs) @ rest, rd_budget = ?k\<rparr> =
      (Inr vs, \<lparr>rd_input = rest, rd_budget = ?k - int (length (concat (map encode_response vs)))\<rparr>)"
    using ResponseArray.prems by (intro read_elements_encoded ResponseArray.IH) (auto simp: crlf_def)
  then show ?case
    using h p ResponseArray.prems by (simp add: readResponse.simps [of d] crlf_def)
next
  case ResponseNull
  have "parseLength ''-1'' maximumBulkBytes = Some (-1)"
    by code_simp
  then show ?case
    using ResponseNull header_line [of "CHR ''$''" "''-1''" budget rest]
    by (simp add: readResponse.simps [of d] readScalar_def readBulk_def crlf_def readerSize_def)
qed

text \<open>
  \<^bold>\<open>C18.\<close> The reader inverts the encoding: a response within the limits of the client that is encoded
  the way a server encodes it is read back unchanged, exactly its bytes are consumed, and what follows
  it stays in the reader.
\<close>

theorem response_roundtrip:
  assumes "fits 0 v" "int (length (encode_response v)) \<le> maximumResponseBytes"
  shows "readResponse 0 \<lparr>rd_input = encode_response v @ rest, rd_budget = maximumResponseBytes\<rparr> =
    (Inr v, \<lparr>rd_input = rest, rd_budget = maximumResponseBytes - int (length (encode_response v))\<rparr>)"
  using assms by (rule read_encoded)

definition sample_response :: response where
  "sample_response = ResponseArray [ResponseBulk ''ab'', ResponseInteger (-5), ResponseArray [], ResponseNull, ResponseString ''OK'']"

theorem response_roundtrip_witness:
  "readResponse 0 \<lparr>rd_input = encode_response sample_response @ ''+next'', rd_budget = maximumResponseBytes\<rparr> =
    (Inr sample_response, \<lparr>rd_input = ''+next'', rd_budget = maximumResponseBytes - int (length (encode_response sample_response))\<rparr>)"
proof (rule response_roundtrip)
  show "fits 0 sample_response" "int (length (encode_response sample_response)) \<le> maximumResponseBytes"
    by code_simp+
qed

text \<open>
  \<^bold>\<open>C17.\<close> Whatever a server sends, a response that is accepted is within the limits of the client at
  every level (nesting, array elements, bulk and line bytes, 64-bit integers), and at most
  \<^verbatim>\<open>maximumResponseBytes\<close> bytes were consumed for it.
\<close>

theorem response_within_limits:
  assumes "readResponse 0 \<lparr>rd_input = input, rd_budget = maximumResponseBytes\<rparr> = (Inr v, r)"
  shows "fits 0 v \<and> (\<exists>bytes. input = bytes @ rd_input r \<and> int (length bytes) \<le> maximumResponseBytes)"
proof -
  have "fits 0 v" "consumed \<lparr>rd_input = input, rd_budget = maximumResponseBytes\<rparr> r"
    using reading_sound(1) [OF assms] by blast+
  moreover have "0 \<le> maximumResponseBytes"
    by (simp add: maximumResponseBytes_def)
  ultimately show ?thesis
    by (auto simp: consumed_def)
qed

theorem response_within_limits_witness:
  "\<exists>v r. readResponse 0 \<lparr>rd_input = '':12'' @ crlf @ ''x'', rd_budget = maximumResponseBytes\<rparr> = (Inr v, r) \<and> fits 0 v
     \<and> (\<exists>bytes. '':12'' @ crlf @ ''x'' = bytes @ rd_input r \<and> int (length bytes) \<le> maximumResponseBytes)"
proof -
  obtain x r where run: "readResponse 0 \<lparr>rd_input = '':12'' @ crlf @ ''x'', rd_budget = maximumResponseBytes\<rparr> = (x, r)"
    by force
  have "is_ok (fst (readResponse 0 \<lparr>rd_input = '':12'' @ crlf @ ''x'', rd_budget = maximumResponseBytes\<rparr>))"
    by code_simp
  then obtain v where "x = Inr v"
    using run by (auto simp: is_ok_iff)
  then show ?thesis
    using response_within_limits run by blast
qed

section \<open>Commands\<close>

lemma encodedSize_sum:
  "encodedSize n as = Some m \<Longrightarrow> m = n + (\<Sum>a\<leftarrow>as. int (length (itoa (length a))) + int (length a) + 5)
     \<and> (as \<noteq> [] \<longrightarrow> m \<le> maximumCommandBytes)"
proof (induction as arbitrary: n)
  case (Cons a as)
  then have "\<not> n + int (length (itoa (length a))) + int (length a) + 5 > maximumCommandBytes"
    "encodedSize (n + int (length (itoa (length a))) + int (length a) + 5) as = Some m"
    by (simp_all add: Let_def split: if_splits)
  with Cons.IH [OF this(2)] show ?case
    by (cases as) simp_all
qed simp

lemma writeCommand_length:
  "int (length (writeCommand as)) =
     int (length (itoa (length as))) + 3 + (\<Sum>a\<leftarrow>as. int (length (itoa (length a))) + int (length a) + 5)"
proof -
  have "int (length (concat (map (\<lambda>a. ''$'' @ itoa (length a) @ crlf @ a @ crlf) as))) =
      (\<Sum>a\<leftarrow>as. int (length (itoa (length a))) + int (length a) + 5)"
    by (induction as) (simp_all add: crlf_def)
  then show ?thesis
    by (simp add: writeCommand_def crlf_def)
qed

lemma writeCommand_encode: "writeCommand as = encode_response (ResponseArray (map ResponseBulk as))"
  by (simp add: writeCommand_def comp_def)

lemma argument_bound:
  "a \<in> set as \<Longrightarrow> int (length a) \<le> (\<Sum>a\<leftarrow>as. int (length (itoa (length a))) + int (length a) + 5)"
proof (induction as)
  case (Cons b as)
  have "0 \<le> (\<Sum>a\<leftarrow>as. int (length (itoa (length a))) + int (length a) + 5)"
    by (rule sum_list_nonneg) auto
  then show ?case
    using Cons by auto
qed simp

lemma command_cases:
  assumes "command w (Some c) as = (v, c')"
  obtains (refused) "c' = Some c" "\<not> is_ok v"
  | (written) c1 bytes m where "as \<noteq> []" "int (length as) \<le> maximumArrayElements"
      "encodedSize (int (length (itoa (length as))) + 3) as = Some m"
      "c' = Some c1" "cl_written c1 = cl_written c @ bytes" "prefix bytes (writeCommand as)"
      "is_ok v \<longrightarrow> bytes = writeCommand as"
proof (cases "rw_done w \<or> as = [] \<or> int (length as) > maximumArrayElements
    \<or> encodedSize (int (length (itoa (length as))) + 3) as = None \<or> rw_doneLocked w \<or> rw_deadlineFails w")
  case True
  then have "c' = Some c \<and> \<not> is_ok v"
    using assms by (cases "encodedSize (int (length (itoa (length as))) + 3) as") (simp_all add: command_def split: if_splits, auto)
  then show ?thesis
    using refused by blast
next
  case False
  then obtain m where m: "encodedSize (int (length (itoa (length as))) + 3) as = Some m"
    by auto
  note written' = written [OF _ _ m]
  show ?thesis
  proof (cases "rw_writeFails w")
    case None
    obtain x r where "readResponse 0 \<lparr>rd_input = cl_input c @ rw_reply w (cl_written c @ writeCommand as),
        rd_budget = maximumResponseBytes\<rparr> = (x, r)"
      by force
    then have "c' = Some \<lparr>cl_written = cl_written c @ writeCommand as, cl_input = rd_input r\<rparr>"
      using assms False m None by (simp add: command_def Let_def)
    then show ?thesis
      using False by (intro written' [where ?c1.0 = "the c'" and bytes = "writeCommand as"]) simp_all
  next
    case (Some n)
    then have "c' = Some (c\<lparr>cl_written := cl_written c @ take n (writeCommand as)\<rparr>)" "v = Inl WriteFailed"
      using assms False m by (simp_all add: command_def)
    then show ?thesis
      using False by (intro written' [where ?c1.0 = "the c'" and bytes = "take n (writeCommand as)"]) (simp_all add: take_is_prefix)
  qed
qed

text \<open>
  A command writes a prefix of its encoding, and all of it unless it fails before the response
  is read. The size it checks beforehand is the number of bytes of the encoding, so that at most 1 MiB
  is written, and a reader of the same protocol decodes it to the arguments.
\<close>

lemma command_writes_encoding:
  assumes "command w (Some c) as = (v, c')"
  shows "\<exists>c1 bytes. c' = Some c1 \<and> cl_written c1 = cl_written c @ bytes \<and> prefix bytes (writeCommand as)
    \<and> (is_ok v \<longrightarrow> bytes = writeCommand as)
    \<and> (bytes \<noteq> [] \<longrightarrow> int (length (writeCommand as)) \<le> maximumCommandBytes
      \<and> readResponse 0 \<lparr>rd_input = writeCommand as @ rest, rd_budget = maximumResponseBytes\<rparr> =
          (Inr (ResponseArray (map ResponseBulk as)),
           \<lparr>rd_input = rest, rd_budget = maximumResponseBytes - int (length (writeCommand as))\<rparr>))"
  using assms
proof (cases rule: command_cases)
  case (written c1 bytes m)
  note m = written(1-3) and c1 = written(4-7)
  have len: "int (length (writeCommand as)) \<le> maximumCommandBytes"
    using encodedSize_sum [OF m(3)] m(1) by (simp add: writeCommand_length)
  have "int (length a) \<le> maximumBulkBytes" if "a \<in> set as" for a
    using argument_bound [OF that] len by (simp add: writeCommand_length maximumBulkBytes_def maximumCommandBytes_def)
  then have "fits 0 (ResponseArray (map ResponseBulk as))"
    using m(2) by (simp add: maximumNestingDepth_def)
  moreover have "int (length (encode_response (ResponseArray (map ResponseBulk as)))) \<le> maximumResponseBytes"
    using len unfolding writeCommand_encode [symmetric] by (simp add: maximumResponseBytes_def maximumCommandBytes_def)
  ultimately show ?thesis
    using c1 len read_encoded [of 0 "ResponseArray (map ResponseBulk as)" maximumResponseBytes rest]
    unfolding writeCommand_encode [symmetric] by blast
qed auto

end
