(* ===== verification/Transition.thy ===== *)
theory Transition
  imports Go_Prelude
begin

text \<open>
  Transition systems for the components whose goroutines interleave: the states a step relation reaches
  from its initial states, and the contract of an invariant. A component gives its initial states, its
  step relation and its invariants, interprets the locales below on them, and takes from the
  interpretation that the invariants hold in every reachable state.
\<close>

inductive reachable :: "('s \<Rightarrow> bool) \<Rightarrow> ('s \<Rightarrow> 's \<Rightarrow> bool) \<Rightarrow> 's \<Rightarrow> bool" for start step where
  reachable_start: "start s \<Longrightarrow> reachable start step s"
| reachable_step: "reachable start step s \<Longrightarrow> step s s' \<Longrightarrow> reachable start step s'"

text \<open>A step whose target is given up to an equation, for runs written out state by state.\<close>

lemma reachable_to: "reachable start step s \<Longrightarrow> step s s' \<Longrightarrow> s' = t \<Longrightarrow> reachable start step t"
  using reachable_step by metis

lemma reachable_steps: "reachable start step s \<Longrightarrow> step\<^sup>*\<^sup>* s s' \<Longrightarrow> reachable start step s'"
  by (rotate_tac 1, induction rule: rtranclp_induct) (auto intro: reachable_step)

section \<open>Invariants\<close>

locale inductive_invariant =
  fixes start :: "'s \<Rightarrow> bool" and step :: "'s \<Rightarrow> 's \<Rightarrow> bool" and inv :: "'s \<Rightarrow> bool"
  assumes inv_start: "start s \<Longrightarrow> inv s"
    and inv_step: "step s s' \<Longrightarrow> inv s \<Longrightarrow> inv s'"
begin

lemma invariant: "reachable start step s \<Longrightarrow> inv s"
  by (induction rule: reachable.induct) (auto intro: inv_start inv_step)

lemma invariant_after: "inv s \<Longrightarrow> step\<^sup>*\<^sup>* s s' \<Longrightarrow> inv s'"
  by (rotate_tac 1, induction rule: rtranclp_induct) (auto intro: inv_step)

end

text \<open>A second invariant whose preservation rests on the first.\<close>

locale layered_invariant = inductive_invariant start step inv
  for start :: "'s \<Rightarrow> bool" and step :: "'s \<Rightarrow> 's \<Rightarrow> bool" and inv :: "'s \<Rightarrow> bool" +
  fixes upper :: "'s \<Rightarrow> bool"
  assumes upper_start: "start s \<Longrightarrow> upper s"
    and upper_step: "step s s' \<Longrightarrow> inv s \<Longrightarrow> upper s \<Longrightarrow> upper s'"

sublocale layered_invariant \<subseteq> both: inductive_invariant start step "\<lambda>s. inv s \<and> upper s"
  by unfold_locales (auto intro: inv_start upper_start inv_step upper_step)

end
