(* ===== verification/Service_Restart.thy ===== *)
theory Service_Restart
  imports Transition
begin

text \<open>
  Package \<^verbatim>\<open>servicerestart\<close>: the manager that watches the published containers and restores a service
  whose container exits. The goroutines of \<^verbatim>\<open>wait\<close> are tasks with a program counter; every section under
  the manager's mutex is one step, and steps of tasks and of callers interleave freely. The engine, the
  controller, the clock and sleeping are nondeterministic.
\<close>

section \<open>Data\<close>

text \<open>A monitor; its cancel function is the number of its context.\<close>

record monitor =
  mn_deployment :: string
  mn_container :: string
  mn_startedAt :: int
  mn_ctx :: nat

record crash_state =
  cr_deployment :: string
  cr_attempts :: nat

datatype task_point =
    Waiting | Retrying | Exited | Preparing | Delaying | Sleeping int | Restoring | Returned

record task =
  tk_service :: string
  tk_entry :: monitor
  tk_point :: task_point

datatype restart_error = DependenciesIncomplete | DelayNotPositive | TimingNegative

record restart_config =
  rc_complete :: bool
  rc_backoff :: "int list"
  rc_stableRuntime :: int
  rc_waitRetry :: int

record restart_manager =
  mg_backoff :: "int list"
  mg_stableRuntime :: int
  mg_waitRetry :: int
  mg_done :: bool
  mg_closed :: bool
  mg_monitors :: "(string \<times> monitor) list"
  mg_crashes :: "(string \<times> crash_state) list"
  mg_contexts :: nat
  mg_cancelled :: "nat list"
  mg_tasks :: "task list"
  mg_results :: "(string \<times> bool) list"

definition defaultBackoff :: "int list" where
  "defaultBackoff = map (\<lambda>s. s * 1000000000) [1, 2, 4, 8, 16, 30]"

section \<open>Operations\<close>

definition newRestartManager :: "restart_config \<Rightarrow> restart_error + restart_manager" where
  "newRestartManager c =
     (if \<not> rc_complete c then Inl DependenciesIncomplete
      else
        (let backoff = (if rc_backoff c = [] then defaultBackoff else rc_backoff c)
         in if \<not> list_all (\<lambda>d. d > 0) backoff then Inl DelayNotPositive
            else
              (let stable = (if rc_stableRuntime c = 0 then 300000000000 else rc_stableRuntime c);
                   retry = (if rc_waitRetry c = 0 then 1000000000 else rc_waitRetry c)
               in if stable < 0 \<or> retry < 0 then Inl TimingNegative
                  else Inr \<lparr>mg_backoff = backoff, mg_stableRuntime = stable, mg_waitRetry = retry, mg_done = False,
                    mg_closed = False, mg_monitors = [], mg_crashes = [], mg_contexts = 0, mg_cancelled = [],
                    mg_tasks = [], mg_results = []\<rparr>)))"

definition cancel :: "nat \<Rightarrow> restart_manager \<Rightarrow> restart_manager" where
  "cancel ctx m = m\<lparr>mg_cancelled := ctx # mg_cancelled m\<rparr>"

text \<open>\<^verbatim>\<open>ctx.Err() != nil\<close> for the context of a monitor.\<close>

definition ctx_done :: "restart_manager \<Rightarrow> nat \<Rightarrow> bool" where
  "ctx_done m ctx \<longleftrightarrow> mg_done m \<or> ctx \<in> set (mg_cancelled m)"

definition publish :: "int \<Rightarrow> string \<Rightarrow> string \<Rightarrow> string \<Rightarrow> restart_manager \<Rightarrow> restart_manager" where
  "publish now sid dep cid m =
     (if mg_closed m then m
      else
        (let current = map_of (mg_monitors m) sid
         in if (case current of None \<Rightarrow> False | Some e \<Rightarrow> mn_deployment e = dep \<and> mn_container e = cid) then m
            else
              (let m = (case current of None \<Rightarrow> m | Some e \<Rightarrow> cancel (mn_ctx e) m);
                   m = (case map_of (mg_crashes m) sid of
                          None \<Rightarrow> m
                        | Some c \<Rightarrow>
                            if cr_deployment c \<noteq> [] \<and> cr_deployment c \<noteq> dep
                            then m\<lparr>mg_crashes := AList.delete sid (mg_crashes m)\<rparr> else m);
                   entry = \<lparr>mn_deployment = dep, mn_container = cid, mn_startedAt = now, mn_ctx = mg_contexts m\<rparr>
               in m\<lparr>mg_contexts := mg_contexts m + 1, mg_monitors := AList.update sid entry (mg_monitors m),
                    mg_tasks := mg_tasks m @ [\<lparr>tk_service = sid, tk_entry = entry, tk_point = Waiting\<rparr>]\<rparr>)))"

definition withdraw :: "string \<Rightarrow> restart_manager \<Rightarrow> restart_manager" where
  "withdraw sid m =
     (case map_of (mg_monitors m) sid of
        None \<Rightarrow> m
      | Some e \<Rightarrow> (cancel (mn_ctx e) m)\<lparr>mg_monitors := AList.delete sid (mg_monitors m)\<rparr>)"

definition closeManager :: "restart_manager \<Rightarrow> restart_manager" where
  "closeManager m =
     (if mg_closed m then m
      else m\<lparr>mg_closed := True, mg_done := True,
        mg_cancelled := map (mn_ctx \<circ> snd) (mg_monitors m) @ mg_cancelled m, mg_monitors := []\<rparr>)"

text \<open>The section of \<^verbatim>\<open>handleExit\<close> under the mutex; the flag says that it goes on.\<close>

definition handleExit :: "int \<Rightarrow> string \<Rightarrow> monitor \<Rightarrow> restart_manager \<Rightarrow> bool \<times> restart_manager" where
  "handleExit now sid entry m =
     (case map_of (mg_monitors m) sid of
        None \<Rightarrow> (False, m)
      | Some current \<Rightarrow>
          if mg_closed m \<or> mn_deployment current \<noteq> mn_deployment entry \<or> mn_container current \<noteq> mn_container entry
          then (False, m)
          else
            (let m = m\<lparr>mg_monitors := AList.delete sid (mg_monitors m)\<rparr>
             in (True, if now - mn_startedAt entry \<ge> mg_stableRuntime m
                       then m\<lparr>mg_crashes := AList.delete sid (mg_crashes m)\<rparr> else m)))"

definition nextDelay :: "string \<Rightarrow> string \<Rightarrow> restart_manager \<Rightarrow> int \<times> restart_manager" where
  "nextDelay sid dep m =
     (let state = (case map_of (mg_crashes m) sid of
                     None \<Rightarrow> \<lparr>cr_deployment = [], cr_attempts = 0\<rparr> | Some c \<Rightarrow> c);
          state = (if cr_deployment state \<noteq> dep then \<lparr>cr_deployment = dep, cr_attempts = 0\<rparr> else state);
          index = min (cr_attempts state) (length (mg_backoff m) - 1)
      in (mg_backoff m ! index,
          m\<lparr>mg_crashes := AList.update sid (state\<lparr>cr_attempts := cr_attempts state + 1\<rparr>) (mg_crashes m)\<rparr>))"

section \<open>Steps\<close>

definition set_point :: "nat \<Rightarrow> task_point \<Rightarrow> restart_manager \<Rightarrow> restart_manager" where
  "set_point i p m = m\<lparr>mg_tasks := (mg_tasks m)[i := (mg_tasks m ! i)\<lparr>tk_point := p\<rparr>]\<rparr>"

definition at_point :: "restart_manager \<Rightarrow> nat \<Rightarrow> task_point \<Rightarrow> bool" where
  "at_point m i p \<longleftrightarrow> i < length (mg_tasks m) \<and> tk_point (mg_tasks m ! i) = p"

definition report :: "string \<Rightarrow> bool \<Rightarrow> restart_manager \<Rightarrow> restart_manager" where
  "report sid ok m = m\<lparr>mg_results := mg_results m @ [(sid, ok)]\<rparr>"

text \<open>
  The calls of a manager and the moves of its goroutines. \<open>wait_*\<close> and \<open>retry_*\<close> are the loop of \<^verbatim>\<open>wait\<close>;
  the rest is \<^verbatim>\<open>handleExit\<close>. A sleep ends early only when its context is done (\<^verbatim>\<open>sleepContext\<close>).
\<close>

inductive restart_step :: "restart_manager \<Rightarrow> restart_manager \<Rightarrow> bool" where
  call_publish: "restart_step m (publish now sid dep cid m)"
| call_withdraw: "restart_step m (withdraw sid m)"
| call_close: "restart_step m (closeManager m)"
| parent_done: "restart_step m (m\<lparr>mg_done := True\<rparr>)"
| wait_cancelled: "at_point m i Waiting \<Longrightarrow> ctx_done m (mn_ctx (tk_entry (mg_tasks m ! i))) \<Longrightarrow>
    restart_step m (set_point i Returned m)"
| wait_exited: "at_point m i Waiting \<Longrightarrow> \<not> ctx_done m (mn_ctx (tk_entry (mg_tasks m ! i))) \<Longrightarrow>
    restart_step m (set_point i Exited m)"
| wait_failed: "at_point m i Waiting \<Longrightarrow> \<not> ctx_done m (mn_ctx (tk_entry (mg_tasks m ! i))) \<Longrightarrow>
    restart_step m (set_point i Retrying m)"
| retry_slept: "at_point m i Retrying \<Longrightarrow> restart_step m (set_point i Waiting m)"
| retry_stopped: "at_point m i Retrying \<Longrightarrow> ctx_done m (mn_ctx (tk_entry (mg_tasks m ! i))) \<Longrightarrow>
    restart_step m (set_point i Returned m)"
| exit_stale: "at_point m i Exited \<Longrightarrow>
    handleExit now (tk_service (mg_tasks m ! i)) (tk_entry (mg_tasks m ! i)) m = (False, m') \<Longrightarrow>
    restart_step m (set_point i Returned m')"
| exit_handled: "at_point m i Exited \<Longrightarrow>
    handleExit now (tk_service (mg_tasks m ! i)) (tk_entry (mg_tasks m ! i)) m = (True, m') \<Longrightarrow>
    restart_step m (set_point i Preparing m')"
| prepare_failed: "at_point m i Preparing \<Longrightarrow>
    m' = (if failed then report (tk_service (mg_tasks m ! i)) False m else m) \<Longrightarrow>
    \<not> prepared \<or> mg_done m \<Longrightarrow> restart_step m (set_point i Returned m')"
| prepared: "at_point m i Preparing \<Longrightarrow>
    m' = (if failed then report (tk_service (mg_tasks m ! i)) False m else m) \<Longrightarrow>
    \<not> mg_done m \<Longrightarrow> restart_step m (set_point i Delaying m')"
| delayed: "at_point m i Delaying \<Longrightarrow>
    nextDelay (tk_service (mg_tasks m ! i)) (mn_deployment (tk_entry (mg_tasks m ! i))) m = (d, m') \<Longrightarrow>
    restart_step m (set_point i (Sleeping d) m')"
| slept: "at_point m i (Sleeping d) \<Longrightarrow> restart_step m (set_point i Restoring m)"
| sleep_stopped: "at_point m i (Sleeping d) \<Longrightarrow> mg_done m \<Longrightarrow> restart_step m (set_point i Returned m)"
| restore_failed: "at_point m i Restoring \<Longrightarrow>
    restart_step m (set_point i Delaying (report (tk_service (mg_tasks m ! i)) False m))"
| restore_skipped: "at_point m i Restoring \<Longrightarrow> restart_step m (set_point i Returned m)"
| restored: "at_point m i Restoring \<Longrightarrow>
    restart_step m (set_point i Returned (report (tk_service (mg_tasks m ! i)) True m))"

definition restart_start :: "restart_manager \<Rightarrow> bool" where
  "restart_start m \<longleftrightarrow> (\<exists>c. newRestartManager c = Inr m)"

abbreviation "restart_reachable \<equiv> reachable restart_start restart_step"

section \<open>Every registered monitor is watched\<close>

definition watching :: "restart_manager \<Rightarrow> string \<Rightarrow> monitor \<Rightarrow> bool" where
  "watching m sid e \<longleftrightarrow> mn_ctx e < length (mg_tasks m) \<and> mn_ctx e \<notin> set (mg_cancelled m)
     \<and> tk_service (mg_tasks m ! mn_ctx e) = sid \<and> tk_entry (mg_tasks m ! mn_ctx e) = e
     \<and> (\<not> mg_done m \<longrightarrow> tk_point (mg_tasks m ! mn_ctx e) \<in> {Waiting, Retrying, Exited})"

definition restart_inv :: "restart_manager \<Rightarrow> bool" where
  "restart_inv m \<longleftrightarrow> (mg_closed m \<longrightarrow> mg_monitors m = []) \<and> mg_backoff m \<noteq> [] \<and> (\<forall>d\<in>set (mg_backoff m). 0 < d) \<and> alist_ok (mg_monitors m)
     \<and> mg_contexts m = length (mg_tasks m)
     \<and> (\<forall>i<length (mg_tasks m). mn_ctx (tk_entry (mg_tasks m ! i)) = i)
     \<and> (\<forall>c\<in>set (mg_cancelled m). c < length (mg_tasks m))
     \<and> (\<forall>sid e. map_of (mg_monitors m) sid = Some e \<longrightarrow> watching m sid e)
     \<and> (\<forall>t\<in>set (mg_tasks m). \<forall>d. tk_point t = Sleeping d \<longrightarrow> d \<in> set (mg_backoff m))"

lemma restart_inv_initial: "restart_start m \<Longrightarrow> restart_inv m"
  by (auto simp: restart_start_def newRestartManager_def Let_def restart_inv_def defaultBackoff_def list_all_iff split: if_splits)

text \<open>Two registered monitors have different contexts, because each context is the number of its task.\<close>

lemma monitors_distinct_ctx:
  assumes "restart_inv m" "map_of (mg_monitors m) sid = Some e" "map_of (mg_monitors m) sid' = Some e'" "sid \<noteq> sid'"
  shows "mn_ctx e \<noteq> mn_ctx e'"
  using assms unfolding restart_inv_def watching_def by metis

lemma restart_inv_cancel:
  assumes inv: "restart_inv m" and sid: "map_of (mg_monitors m) sid = Some e"
  shows "restart_inv (m\<lparr>mg_cancelled := mn_ctx e # mg_cancelled m, mg_monitors := AList.delete sid (mg_monitors m)\<rparr>)"
proof -
  have "mn_ctx e < length (mg_tasks m)"
    using inv sid unfolding restart_inv_def watching_def by blast
  moreover have "mn_ctx e' \<noteq> mn_ctx e" if "map_of (mg_monitors m) sid' = Some e'" "sid' \<noteq> sid" for sid' e'
    using monitors_distinct_ctx [OF inv sid that(1)] that(2) by simp
  ultimately show ?thesis
    using inv by (auto simp: restart_inv_def watching_def)
qed

lemma restart_inv_withdraw: "restart_inv m \<Longrightarrow> restart_inv (withdraw sid m)"
  using restart_inv_cancel by (simp add: withdraw_def cancel_def split: option.split)

lemma restart_inv_close: "restart_inv m \<Longrightarrow> restart_inv (closeManager m)"
proof -
  assume inv: "restart_inv m"
  have "mn_ctx e < length (mg_tasks m)" if "(sid, e) \<in> set (mg_monitors m)" for sid e
  proof -
    have "map_of (mg_monitors m) sid = Some e"
      using inv that by (simp add: restart_inv_def alist_ok_def)
    then show ?thesis
      using inv by (auto simp: restart_inv_def watching_def)
  qed
  then show ?thesis
    using inv by (auto simp: restart_inv_def watching_def closeManager_def)
qed

lemma restart_inv_crashes: "restart_inv m \<Longrightarrow> restart_inv (m\<lparr>mg_crashes := c\<rparr>)"
  by (simp add: restart_inv_def watching_def)

lemma restart_inv_register:
  assumes "restart_inv m" "\<not> mg_closed m"
  shows "restart_inv (m\<lparr>mg_contexts := mg_contexts m + 1,
      mg_monitors := AList.update sid \<lparr>mn_deployment = dep, mn_container = cid, mn_startedAt = now, mn_ctx = mg_contexts m\<rparr> (mg_monitors m),
      mg_tasks := mg_tasks m @ [\<lparr>tk_service = sid, tk_entry = \<lparr>mn_deployment = dep, mn_container = cid, mn_startedAt = now,
        mn_ctx = mg_contexts m\<rparr>, tk_point = Waiting\<rparr>]\<rparr>)"
  using assms by (auto simp: restart_inv_def watching_def nth_append less_Suc_eq dest!: bspec)

lemma restart_inv_monitors:
  "restart_inv m \<Longrightarrow> \<not> mg_closed m \<Longrightarrow> alist_ok ms \<Longrightarrow> map_of ms = map_of (mg_monitors m) \<Longrightarrow> restart_inv (m\<lparr>mg_monitors := ms\<rparr>)"
  by (simp add: restart_inv_def watching_def)

lemma restart_inv_publish:
  assumes inv: "restart_inv m"
  shows "restart_inv (publish now sid dep cid m)"
proof (cases "mg_closed m")
  case True
  then show ?thesis
    using inv by (simp add: publish_def)
next
  case open_manager: False
  define m1 where "m1 = (case map_of (mg_monitors m) sid of None \<Rightarrow> m
    | Some e \<Rightarrow> m\<lparr>mg_cancelled := mn_ctx e # mg_cancelled m, mg_monitors := AList.delete sid (mg_monitors m)\<rparr>)"
  define m2 where "m2 = (case map_of (mg_crashes m) sid of None \<Rightarrow> m1
    | Some c \<Rightarrow> if cr_deployment c \<noteq> [] \<and> cr_deployment c \<noteq> dep
        then m1\<lparr>mg_crashes := AList.delete sid (mg_crashes m1)\<rparr> else m1)"
  have "restart_inv m1"
    using inv restart_inv_cancel by (auto simp: m1_def split: option.split)
  then have "restart_inv m2"
    using restart_inv_crashes [of m1] by (auto simp: m2_def split: option.split)
  moreover have "\<not> mg_closed m2"
    using open_manager by (simp add: m1_def m2_def split: option.split)
  ultimately have "restart_inv m2" "\<not> mg_closed m2"
    by simp_all
  note reg = restart_inv_register [OF this, of sid dep cid now]
  let ?e = "\<lparr>mn_deployment = dep, mn_container = cid, mn_startedAt = now, mn_ctx = mg_contexts m2\<rparr>"
  have "mg_contexts m2 = mg_contexts m" "mg_tasks m2 = mg_tasks m"
    "map_of (AList.update sid ?e (mg_monitors m)) = map_of (AList.update sid ?e (mg_monitors m2))"
    by (auto simp: m1_def m2_def split: option.split)
  moreover have "alist_ok (AList.update sid ?e (mg_monitors m))"
    using inv by (simp add: restart_inv_def)
  ultimately have "restart_inv (m2\<lparr>mg_contexts := mg_contexts m2 + 1,
      mg_tasks := mg_tasks m2 @ [\<lparr>tk_service = sid, tk_entry = ?e, tk_point = Waiting\<rparr>],
      mg_monitors := AList.update sid ?e (mg_monitors m)\<rparr>)"
    using restart_inv_monitors [OF reg] \<open>\<not> mg_closed m2\<close> by simp
  moreover have "publish now sid dep cid m = m \<or> publish now sid dep cid m = m2\<lparr>mg_contexts := mg_contexts m2 + 1,
      mg_tasks := mg_tasks m2 @ [\<lparr>tk_service = sid, tk_entry = ?e, tk_point = Waiting\<rparr>],
      mg_monitors := AList.update sid ?e (mg_monitors m)\<rparr>"
    by (simp add: publish_def Let_def cancel_def m1_def m2_def split: option.split)
  ultimately show ?thesis
    using inv by metis
qed

text \<open>A task that moves keeps the invariant as long as it does not give up a monitor it watches.\<close>

lemma restart_inv_point:
  assumes inv: "restart_inv m" and "i < length (mg_tasks m)"
    and "\<forall>d. p = Sleeping d \<longrightarrow> d \<in> set (mg_backoff m)"
    and "p \<in> {Waiting, Retrying, Exited} \<or> ctx_done m i
      \<or> map_of (mg_monitors m) (tk_service (mg_tasks m ! i)) \<noteq> Some (tk_entry (mg_tasks m ! i))"
  shows "restart_inv (set_point i p m)"
proof -
  have watched: "watching (set_point i p m) sid e" if e: "map_of (mg_monitors m) sid = Some e" for sid e
  proof -
    have w: "watching m sid e" and ctx: "mn_ctx (tk_entry (mg_tasks m ! i)) = i"
      using inv assms(2) e unfolding restart_inv_def by blast+
    show ?thesis
    proof (cases "mn_ctx e = i")
      case True
      then have "p \<in> {Waiting, Retrying, Exited} \<or> ctx_done m i"
        using assms(4) e w by (auto simp: watching_def)
      then show ?thesis
        using w assms(2) True by (auto simp: watching_def set_point_def ctx_done_def)
    next
      case False
      then show ?thesis
        using w by (simp add: watching_def set_point_def)
    qed
  qed
  have "tk_point t = Sleeping d \<longrightarrow> d \<in> set (mg_backoff m)" if "t \<in> set (mg_tasks (set_point i p m))" for t d
    using that assms(3) inv by (auto simp: set_point_def restart_inv_def dest!: set_update_subset_insert [THEN subsetD])
  then show ?thesis
    using inv watched assms(2) unfolding restart_inv_def by (auto simp: set_point_def nth_list_update)
qed

lemma restart_inv_report [simp]: "restart_inv (report sid ok m) \<longleftrightarrow> restart_inv m"
  by (simp add: restart_inv_def watching_def report_def)

lemma report_simps [simp]:
  "mg_tasks (report sid ok m) = mg_tasks m" "mg_monitors (report sid ok m) = mg_monitors m"
  "mg_backoff (report sid ok m) = mg_backoff m" "ctx_done (report sid ok m) = ctx_done m"
  by (auto simp: report_def ctx_done_def)

lemma restart_inv_delete: "restart_inv m \<Longrightarrow> restart_inv (m\<lparr>mg_monitors := AList.delete sid (mg_monitors m)\<rparr>)"
  by (auto simp: restart_inv_def watching_def)

lemma handleExit_True:
  assumes "handleExit now sid entry m = (True, m')"
  shows "mg_tasks m' = mg_tasks m \<and> map_of (mg_monitors m') sid = None \<and> (restart_inv m \<longrightarrow> restart_inv m')"
proof -
  have "m' = m\<lparr>mg_monitors := AList.delete sid (mg_monitors m)\<rparr>
      \<or> m' = m\<lparr>mg_monitors := AList.delete sid (mg_monitors m), mg_crashes := AList.delete sid (mg_crashes m)\<rparr>"
    using assms by (auto simp: handleExit_def Let_def split: option.splits if_splits)
  then show ?thesis
    using restart_inv_delete [of m sid] restart_inv_crashes [OF restart_inv_delete] by fastforce
qed

lemma handleExit_False: "handleExit now sid entry m = (False, m') \<Longrightarrow> m' = m"
  by (auto simp: handleExit_def Let_def split: option.splits if_splits)

lemma nextDelay_inv:
  assumes "nextDelay sid dep m = (d, m')" "restart_inv m"
  shows "restart_inv m' \<and> mg_tasks m' = mg_tasks m \<and> mg_backoff m' = mg_backoff m \<and> mg_monitors m' = mg_monitors m
    \<and> d \<in> set (mg_backoff m)"
proof -
  obtain k c where d: "d = mg_backoff m ! min k (length (mg_backoff m) - 1)" "m' = m\<lparr>mg_crashes := c\<rparr>"
    using assms(1) by (auto simp: nextDelay_def Let_def)
  moreover have "min k (length (mg_backoff m) - 1) < length (mg_backoff m)"
    using assms(2) by (simp add: restart_inv_def min_less_iff_disj)
  ultimately show ?thesis
    using restart_inv_crashes [OF assms(2)] by simp
qed

text \<open>A task that has handled an exit never watches again, so it owns no monitor.\<close>

definition handling :: "task_point \<Rightarrow> bool" where
  "handling p \<longleftrightarrow> p \<notin> {Waiting, Retrying, Exited}"

lemma handling_unregistered:
  assumes "restart_inv m" "i < length (mg_tasks m)" "handling (tk_point (mg_tasks m ! i))" "\<not> mg_done m"
  shows "map_of (mg_monitors m) sid \<noteq> Some (tk_entry (mg_tasks m ! i))"
  using assms unfolding restart_inv_def watching_def handling_def by metis

lemma restart_inv_stale:
  assumes "restart_inv m" "i < length (mg_tasks m)"
    and "handleExit now (tk_service (mg_tasks m ! i)) (tk_entry (mg_tasks m ! i)) m = (False, m)"
  shows "restart_inv (set_point i Returned m)"
proof (rule restart_inv_point [OF assms(1,2)])
  show "Returned \<in> {Waiting, Retrying, Exited} \<or> ctx_done m i
      \<or> map_of (mg_monitors m) (tk_service (mg_tasks m ! i)) \<noteq> Some (tk_entry (mg_tasks m ! i))"
    using assms(1,3) by (auto simp: handleExit_def Let_def restart_inv_def split: option.splits if_splits)
qed simp

lemma restart_inv_move:
  assumes "restart_inv m" "at_point m i p" "handling p" "\<forall>d. q = Sleeping d \<longrightarrow> d \<in> set (mg_backoff m)"
  shows "restart_inv (set_point i q m)"
proof (rule restart_inv_point [OF assms(1) _ assms(4)])
  show "i < length (mg_tasks m)"
    using assms(2) by (simp add: at_point_def)
  show "q \<in> {Waiting, Retrying, Exited} \<or> ctx_done m i
      \<or> map_of (mg_monitors m) (tk_service (mg_tasks m ! i)) \<noteq> Some (tk_entry (mg_tasks m ! i))"
    using handling_unregistered [OF assms(1)] assms(2,3) by (auto simp: at_point_def ctx_done_def)
qed

lemma restart_inv_step:
  assumes "restart_step m m'" "restart_inv m"
  shows "restart_inv m'"
  using assms
proof (induction rule: restart_step.induct)
  case (parent_done m)
  then show ?case
    by (auto simp: restart_inv_def watching_def)
next
  case (wait_cancelled m i)
  then have "mn_ctx (tk_entry (mg_tasks m ! i)) = i"
    by (simp add: restart_inv_def at_point_def)
  then show ?case
    using wait_cancelled by (intro restart_inv_point) (simp_all add: at_point_def)
next
  case (retry_stopped m i)
  then have "mn_ctx (tk_entry (mg_tasks m ! i)) = i"
    by (simp add: restart_inv_def at_point_def)
  then show ?case
    using retry_stopped by (intro restart_inv_point) (simp_all add: at_point_def)
next
  case (exit_stale m i now m')
  then show ?case
    using handleExit_False [OF exit_stale(2)] by (intro restart_inv_stale) (simp_all add: at_point_def)
next
  case (exit_handled m i now m')
  then show ?case
    using handleExit_True [OF exit_handled(2)] by (intro restart_inv_point) (simp_all add: at_point_def)
next
  case (delayed m i d m')
  then show ?case
    using nextDelay_inv [OF delayed(2,3)]
    by (intro restart_inv_move [where p = Delaying]) (simp_all add: at_point_def handling_def)
next
  case (wait_exited m i)
  then show ?case
    by (intro restart_inv_point) (simp_all add: at_point_def)
next
  case (wait_failed m i)
  then show ?case
    by (intro restart_inv_point) (simp_all add: at_point_def)
next
  case (retry_slept m i)
  then show ?case
    by (intro restart_inv_point) (simp_all add: at_point_def)
qed (auto intro!: restart_inv_publish restart_inv_withdraw restart_inv_close restart_inv_move
    simp: at_point_def handling_def)

interpretation rm: inductive_invariant restart_start restart_step restart_inv
  by unfold_locales (fact restart_inv_initial, fact restart_inv_step)

section \<open>No other goroutine watches\<close>

text \<open>
  A goroutine watches a service while it is in the loop of \<^verbatim>\<open>wait\<close>, or has left it with an exit that it has not handled yet, and
  its context is live. Another goroutine may have taken over the container it watches: one of the same service, deployment and
  container that watches no more.
\<close>

definition live_watcher :: "restart_manager \<Rightarrow> string \<Rightarrow> nat \<Rightarrow> bool" where
  "live_watcher m sid i \<longleftrightarrow> i < length (mg_tasks m) \<and> tk_service (mg_tasks m ! i) = sid
     \<and> tk_point (mg_tasks m ! i) \<in> {Waiting, Retrying, Exited} \<and> \<not> ctx_done m (mn_ctx (tk_entry (mg_tasks m ! i)))"

definition same_container :: "task \<Rightarrow> task \<Rightarrow> bool" where
  "same_container t t' \<longleftrightarrow> tk_service t = tk_service t'
     \<and> mn_deployment (tk_entry t) = mn_deployment (tk_entry t') \<and> mn_container (tk_entry t) = mn_container (tk_entry t')"

definition taken_over :: "restart_manager \<Rightarrow> nat \<Rightarrow> bool" where
  "taken_over m i \<longleftrightarrow> (\<exists>j<length (mg_tasks m). j \<noteq> i \<and> same_container (mg_tasks m ! j) (mg_tasks m ! i)
     \<and> handling (tk_point (mg_tasks m ! j)))"

definition published_once :: "restart_manager \<Rightarrow> string \<Rightarrow> bool" where
  "published_once m sid \<longleftrightarrow> (\<forall>i<length (mg_tasks m). \<forall>j<length (mg_tasks m). tk_service (mg_tasks m ! i) = sid \<longrightarrow>
     same_container (mg_tasks m ! i) (mg_tasks m ! j) \<longrightarrow> i = j)"

definition watched_once :: "restart_manager \<Rightarrow> bool" where
  "watched_once m \<longleftrightarrow> (\<forall>sid i. live_watcher m sid i \<longrightarrow>
     map_of (mg_monitors m) sid = Some (tk_entry (mg_tasks m ! i)) \<or> taken_over m i)"

lemma watched_onceD:
  "watched_once m \<Longrightarrow> live_watcher m sid i \<Longrightarrow>
     map_of (mg_monitors m) sid = Some (tk_entry (mg_tasks m ! i)) \<or> taken_over m i"
  by (simp add: watched_once_def)

lemma live_watcher_done [simp]: "mg_done m \<Longrightarrow> \<not> live_watcher m sid i"
  by (simp add: live_watcher_def ctx_done_def)

lemma live_watcher_ctx: "restart_inv m \<Longrightarrow> live_watcher m sid i \<Longrightarrow> mn_ctx (tk_entry (mg_tasks m ! i)) = i \<and> i \<notin> set (mg_cancelled m)"
  by (auto simp: restart_inv_def live_watcher_def ctx_done_def)

text \<open>Cancelling the context of the registered monitor ends its only registered watcher.\<close>

lemma watched_once_cancel:
  assumes "restart_inv m" "watched_once m" "map_of (mg_monitors m) sid = Some e"
    and "live_watcher (m\<lparr>mg_cancelled := mn_ctx e # mg_cancelled m\<rparr>) sid i"
  shows "taken_over m i"
proof -
  have live: "live_watcher m sid i" and "mn_ctx (tk_entry (mg_tasks m ! i)) \<noteq> mn_ctx e"
    using assms(4) by (auto simp: live_watcher_def ctx_done_def)
  then show ?thesis
    using watched_onceD [OF assms(2) live] assms(3) by auto
qed

lemma live_watcher_cong:
  assumes "mg_tasks m' = mg_tasks m" "set (mg_cancelled m) \<subseteq> set (mg_cancelled m')" "mg_done m \<longrightarrow> mg_done m'"
  shows "live_watcher m' sid i \<Longrightarrow> live_watcher m sid i" "taken_over m' i \<longleftrightarrow> taken_over m i"
  using assms by (auto simp: live_watcher_def ctx_done_def taken_over_def)

lemma watched_once_withdraw:
  assumes "restart_inv m" "watched_once m"
  shows "watched_once (withdraw sid m)"
proof (cases "map_of (mg_monitors m) sid")
  case (Some e)
  have w: "withdraw sid m = m\<lparr>mg_cancelled := mn_ctx e # mg_cancelled m, mg_monitors := AList.delete sid (mg_monitors m)\<rparr>"
    using Some by (simp add: withdraw_def cancel_def)
  have "map_of (mg_monitors (withdraw sid m)) sid' = Some (tk_entry (mg_tasks m ! i)) \<or> taken_over m i"
    if live: "live_watcher (withdraw sid m) sid' i" for sid' i
  proof (cases "sid' = sid")
    case True
    then show ?thesis
      using watched_once_cancel [OF assms Some, of i] live by (simp add: w live_watcher_def ctx_done_def)
  next
    case False
    have "live_watcher m sid' i"
      using live by (auto simp: w live_watcher_def ctx_done_def)
    then show ?thesis
      using watched_onceD [OF assms(2)] False by (simp add: w)
  qed
  then show ?thesis
    by (simp add: watched_once_def w taken_over_def)
qed (use assms in \<open>simp add: withdraw_def\<close>)

lemma live_watcher_snoc:
  "live_watcher (m\<lparr>mg_contexts := n, mg_monitors := ms, mg_tasks := mg_tasks m @ [t]\<rparr>) sid i \<longleftrightarrow>
     live_watcher m sid i \<or> (i = length (mg_tasks m) \<and> tk_service t = sid \<and> tk_point t \<in> {Waiting, Retrying, Exited}
       \<and> \<not> ctx_done m (mn_ctx (tk_entry t)))"
  by (auto simp: live_watcher_def ctx_done_def nth_append)

lemma taken_over_snoc:
  "i < length (mg_tasks m) \<Longrightarrow> taken_over m i \<Longrightarrow>
     taken_over (m\<lparr>mg_contexts := n, mg_monitors := ms, mg_tasks := mg_tasks m @ [t]\<rparr>) i"
  by (auto simp: taken_over_def nth_append intro: less_SucI)

text \<open>Registering a monitor, once every goroutine that watches the service is taken over.\<close>

lemma watched_once_register:
  assumes once: "watched_once m" and others: "\<And>i. live_watcher m sid i \<Longrightarrow> taken_over m i"
  shows "watched_once (m\<lparr>mg_contexts := n, mg_monitors := AList.update sid e (mg_monitors m),
    mg_tasks := mg_tasks m @ [\<lparr>tk_service = sid, tk_entry = e, tk_point = Waiting\<rparr>]\<rparr>)"
    (is "watched_once ?m")
proof -
  have "map_of (mg_monitors ?m) sid' = Some (tk_entry (mg_tasks ?m ! i)) \<or> taken_over ?m i"
    if live: "live_watcher ?m sid' i" for sid' i
  proof (cases "i < length (mg_tasks m)")
    case True
    then have old: "live_watcher m sid' i"
      using live by (auto simp: live_watcher_snoc)
    then have "map_of (mg_monitors m) sid' = Some (tk_entry (mg_tasks m ! i)) \<and> sid' \<noteq> sid \<or> taken_over m i"
      using watched_onceD [OF once old] others by auto
    then show ?thesis
      using True taken_over_snoc [OF True] by (auto simp: nth_append)
  next
    case False
    then show ?thesis
      using live by (auto simp: live_watcher_snoc live_watcher_def nth_append)
  qed
  then show ?thesis
    by (simp add: watched_once_def)
qed

lemma watched_once_publish:
  assumes inv: "restart_inv m" and once: "watched_once m"
  shows "watched_once (publish now sid dep cid m)"
proof -
  define m1 where "m1 = (case map_of (mg_monitors m) sid of None \<Rightarrow> m | Some e \<Rightarrow> cancel (mn_ctx e) m)"
  define m2 where "m2 = (case map_of (mg_crashes m1) sid of None \<Rightarrow> m1
    | Some c \<Rightarrow> if cr_deployment c \<noteq> [] \<and> cr_deployment c \<noteq> dep
        then m1\<lparr>mg_crashes := AList.delete sid (mg_crashes m1)\<rparr> else m1)"
  have fields: "mg_tasks m2 = mg_tasks m1" "mg_cancelled m2 = mg_cancelled m1" "mg_done m2 = mg_done m1"
      "mg_monitors m2 = mg_monitors m1"
    by (simp_all add: m2_def split: option.split)
  have from2: "live_watcher m2 sid' i \<Longrightarrow> live_watcher m1 sid' i" "taken_over m2 i \<longleftrightarrow> taken_over m1 i" for sid' i
    using fields by (auto simp: live_watcher_def ctx_done_def taken_over_def)
  have from1: "live_watcher m1 sid' i \<Longrightarrow> live_watcher m sid' i" "taken_over m1 i \<longleftrightarrow> taken_over m i" for sid' i
    by (auto simp: m1_def cancel_def live_watcher_def ctx_done_def taken_over_def split: option.splits)
  have same: "mg_tasks m1 = mg_tasks m" "mg_monitors m1 = mg_monitors m"
    by (simp_all add: m1_def cancel_def split: option.split)
  have once2: "watched_once m2"
    using watched_onceD [OF once from1(1) [OF from2(1)]] unfolding watched_once_def from2(2) from1(2) fields same by blast
  have others: "taken_over m2 i" if live: "live_watcher m2 sid i" for i
  proof (cases "map_of (mg_monitors m) sid")
    case None
    then show ?thesis
      using watched_onceD [OF once from1(1) [OF from2(1) [OF live]]] by (simp add: from2(2) from1(2))
  next
    case (Some e)
    have "live_watcher (m\<lparr>mg_cancelled := mn_ctx e # mg_cancelled m\<rparr>) sid i"
      using from2(1) [OF live] Some by (simp add: m1_def cancel_def)
    then show ?thesis
      unfolding from2(2) from1(2) by (rule watched_once_cancel [OF inv once Some])
  qed
  have "publish now sid dep cid m = m \<or> (\<exists>e. publish now sid dep cid m = m2\<lparr>mg_contexts := mg_contexts m2 + 1,
      mg_monitors := AList.update sid e (mg_monitors m2),
      mg_tasks := mg_tasks m2 @ [\<lparr>tk_service = sid, tk_entry = e, tk_point = Waiting\<rparr>]\<rparr>)"
    unfolding publish_def Let_def m1_def [symmetric] m2_def [symmetric] by auto
  then show ?thesis
    using once watched_once_register [OF once2 others] by auto
qed

text \<open>A goroutine that moves without coming back to the loop, over a change of the table that takes over what it loses.\<close>

lemma watched_once_point:
  assumes once: "watched_once m" and i: "i < length (mg_tasks m)"
    and move: "handling (tk_point (mg_tasks m ! i)) \<Longrightarrow> handling p"
  shows "watched_once (set_point i p m)"
proof -
  have live: "live_watcher m sid k" if "live_watcher (set_point i p m) sid k" for sid k
    using that move i by (cases "k = i") (auto simp: live_watcher_def set_point_def ctx_done_def handling_def)
  have over: "taken_over (set_point i p m) k" if before: "taken_over m k" for k
  proof -
    obtain j where j: "j < length (mg_tasks m)" "j \<noteq> k" "same_container (mg_tasks m ! j) (mg_tasks m ! k)"
      "handling (tk_point (mg_tasks m ! j))"
      using before unfolding taken_over_def by blast
    have "same_container (mg_tasks (set_point i p m) ! j) (mg_tasks (set_point i p m) ! k)
      \<and> handling (tk_point (mg_tasks (set_point i p m) ! j))"
      using j i move by (auto simp: set_point_def nth_list_update same_container_def)
    then show ?thesis
      using j(1,2) by (auto simp: taken_over_def set_point_def)
  qed
  have "tk_entry (mg_tasks (set_point i p m) ! k) = tk_entry (mg_tasks m ! k)" for k
    using i by (cases "k = i") (auto simp: set_point_def)
  then show ?thesis
    using watched_onceD [OF once live] over by (auto simp: watched_once_def set_point_def)
qed

lemma watched_once_same:
  assumes "mg_tasks m' = mg_tasks m" "mg_monitors m' = mg_monitors m" "mg_cancelled m' = mg_cancelled m" "mg_done m' = mg_done m"
  shows "watched_once m' \<longleftrightarrow> watched_once m"
  using assms by (simp add: watched_once_def live_watcher_def ctx_done_def taken_over_def)

lemma watched_once_report [simp]: "watched_once (report sid ok m) \<longleftrightarrow> watched_once m"
  by (rule watched_once_same) (simp_all add: report_def)

lemma watched_once_delay: "nextDelay sid dep m = (d, m') \<Longrightarrow> watched_once m' \<longleftrightarrow> watched_once m"
  by (rule watched_once_same) (auto simp: nextDelay_def Let_def)

lemma handleExit_takes:
  assumes "handleExit now sid entry m = (True, m')"
  shows "\<exists>e. map_of (mg_monitors m) sid = Some e \<and> mn_deployment e = mn_deployment entry \<and> mn_container e = mn_container entry"
    and "mg_monitors m' = AList.delete sid (mg_monitors m)" "mg_tasks m' = mg_tasks m"
    and "mg_cancelled m' = mg_cancelled m" "mg_done m' = mg_done m"
  using assms by (auto simp: handleExit_def Let_def split: option.splits if_splits)

text \<open>The goroutine whose exit is handled takes over the container of the monitor it removes.\<close>

lemma watched_once_handled:
  assumes inv: "restart_inv m" and once: "watched_once m" and at: "at_point m j Exited"
    and handled: "handleExit now (tk_service (mg_tasks m ! j)) (tk_entry (mg_tasks m ! j)) m = (True, m')"
  shows "watched_once (set_point j Preparing m')"
proof -
  let ?n = "set_point j Preparing m'" and ?sid = "tk_service (mg_tasks m ! j)"
  note h = handleExit_takes [OF handled]
  have j: "j < length (mg_tasks m)"
    using at by (simp add: at_point_def)
  have tasks: "mg_tasks ?n ! k = (if k = j then (mg_tasks m ! j)\<lparr>tk_point := Preparing\<rparr> else mg_tasks m ! k)" for k
    using h(3) j by (simp add: set_point_def nth_list_update)
  have live: "live_watcher m sid k \<and> k \<noteq> j" if "live_watcher ?n sid k" for sid k
    using that h j by (cases "k = j") (auto simp: live_watcher_def ctx_done_def set_point_def nth_list_update)
  have over: "taken_over ?n k" if before: "taken_over m k" and k: "k \<noteq> j" for k
  proof -
    obtain l where "l < length (mg_tasks m)" "l \<noteq> k" "same_container (mg_tasks m ! l) (mg_tasks m ! k)"
      "handling (tk_point (mg_tasks m ! l))"
      using before unfolding taken_over_def by blast
    then have "l < length (mg_tasks ?n) \<and> l \<noteq> k \<and> same_container (mg_tasks ?n ! l) (mg_tasks ?n ! k)
        \<and> handling (tk_point (mg_tasks ?n ! l))"
      using k h(3) by (auto simp: tasks same_container_def) (simp_all add: set_point_def handling_def)
    then show ?thesis
      unfolding taken_over_def by blast
  qed
  have taken: "taken_over ?n k"
    if "map_of (mg_monitors m) ?sid = Some (tk_entry (mg_tasks m ! k))" "tk_service (mg_tasks m ! k) = ?sid" "k \<noteq> j" for k
  proof -
    have "j < length (mg_tasks ?n) \<and> j \<noteq> k \<and> same_container (mg_tasks ?n ! j) (mg_tasks ?n ! k)
        \<and> handling (tk_point (mg_tasks ?n ! j))"
      using that h j by (simp add: tasks same_container_def) (auto simp: set_point_def handling_def)
    then show ?thesis
      unfolding taken_over_def by blast
  qed
  have "map_of (mg_monitors ?n) sid = Some (tk_entry (mg_tasks ?n ! k)) \<or> taken_over ?n k"
    if "live_watcher ?n sid k" for sid k
  proof -
    have k: "live_watcher m sid k" "k \<noteq> j"
      using live [OF that] by blast+
    have sid: "tk_service (mg_tasks m ! k) = sid"
      using k(1) by (simp add: live_watcher_def)
    show ?thesis
    proof (cases "taken_over m k")
      case False
      then have reg: "map_of (mg_monitors m) sid = Some (tk_entry (mg_tasks m ! k))"
        using watched_onceD [OF once k(1)] by blast
      show ?thesis
        using taken [of k] reg sid k(2) h(2) tasks by (cases "sid = ?sid") (simp_all add: set_point_def)
    qed (use over k(2) in blast)
  qed
  then show ?thesis
    by (simp add: watched_once_def)
qed

lemma watched_once_step:
  assumes "restart_step m m'" "restart_inv m" "watched_once m"
  shows "watched_once m'"
  using assms
proof (induction rule: restart_step.induct)
  case (call_close m)
  then show ?case
    by (auto simp: closeManager_def watched_once_def)
next
  case (parent_done m)
  then show ?case
    by (simp add: watched_once_def)
next
  case (exit_stale m i now m')
  then show ?case
    using handleExit_False [OF exit_stale(2)] by (intro watched_once_point) (simp_all add: at_point_def handling_def)
next
  case (exit_handled m i now m')
  show ?case
    by (rule watched_once_handled [OF exit_handled(3,4,1,2)])
next
  case (delayed m i d m')
  then show ?case
    using nextDelay_inv [OF delayed(2,3)] watched_once_delay [OF delayed(2)]
    by (intro watched_once_point) (simp_all add: at_point_def handling_def)
next
  case (call_publish m now sid dep cid)
  then show ?case
    by (intro watched_once_publish)
next
  case (call_withdraw m sid)
  then show ?case
    by (intro watched_once_withdraw)
qed (rule watched_once_point; auto simp: at_point_def handling_def)+

lemma watched_once_initial: "restart_start m \<Longrightarrow> watched_once m"
  by (auto simp: restart_start_def newRestartManager_def Let_def watched_once_def live_watcher_def split: if_splits)

interpretation rw: layered_invariant restart_start restart_step restart_inv watched_once
  by unfold_locales (fact watched_once_initial, fact watched_once_step)

lemma registered_live:
  assumes "restart_inv m" "\<not> mg_done m" "map_of (mg_monitors m) sid = Some e"
  shows "live_watcher m sid (mn_ctx e) \<and> tk_entry (mg_tasks m ! mn_ctx e) = e"
proof -
  have "watching m sid e"
    using assms by (simp add: restart_inv_def)
  then show ?thesis
    using assms(2) by (simp add: watching_def live_watcher_def ctx_done_def)
qed

lemma published_once_carried:
  assumes "watched_once m" "published_once m sid" "live_watcher m sid i"
  shows "map_of (mg_monitors m) sid = Some (tk_entry (mg_tasks m ! i))"
proof -
  have "\<not> taken_over m i"
  proof
    assume "taken_over m i"
    then obtain j where "j < length (mg_tasks m)" "j \<noteq> i" "same_container (mg_tasks m ! j) (mg_tasks m ! i)"
      unfolding taken_over_def by blast
    then show False
      using assms(2,3) by (auto simp: published_once_def live_watcher_def same_container_def)
  qed
  then show ?thesis
    using watched_onceD [OF assms(1,3)] by blast
qed

text \<open>
  \<^bold>\<open>C19.\<close> Who watches a service, in every reachable state of a restart manager whose context is not done, whatever the
  interleaving. A registered monitor is watched: the goroutine it was registered with waits for the exit of its container, or has
  seen it and not handled it yet, and its context is live. No goroutine that watches a service with a live context is left
  behind: it carries the registered monitor, unless another goroutine for the same service, deployment and container has
  stopped watching. So for a service none of whose containers was
  published twice, exactly one goroutine watches while a monitor is registered, and none otherwise. A task that sleeps before a
  restart sleeps for one of the configured positive delays, so that a crashing service is never restarted in a hot loop.
\<close>

theorem restart_single_watcher:
  assumes "restart_reachable m" and "\<not> mg_done m"
  shows "(\<forall>e. map_of (mg_monitors m) sid = Some e \<longrightarrow>
        live_watcher m sid (mn_ctx e) \<and> tk_entry (mg_tasks m ! mn_ctx e) = e)
    \<and> (\<forall>i. live_watcher m sid i \<longrightarrow>
        map_of (mg_monitors m) sid = Some (tk_entry (mg_tasks m ! i)) \<or> taken_over m i)
    \<and> (published_once m sid \<longrightarrow>
        (case map_of (mg_monitors m) sid of
           None \<Rightarrow> \<forall>i. \<not> live_watcher m sid i
         | Some e \<Rightarrow> \<exists>!i. live_watcher m sid i))
    \<and> (at_point m i (Sleeping d) \<longrightarrow> d \<in> set (mg_backoff m) \<and> 0 < d)"
proof -
  have inv: "restart_inv m" and once: "watched_once m"
    using rw.both.invariant [OF assms(1)] by blast+
  have registered: "live_watcher m sid (mn_ctx e) \<and> tk_entry (mg_tasks m ! mn_ctx e) = e"
    if "map_of (mg_monitors m) sid = Some e" for e
    by (rule registered_live [OF inv assms(2) that])
  have single: "case map_of (mg_monitors m) sid of None \<Rightarrow> \<forall>i. \<not> live_watcher m sid i | Some e \<Rightarrow> \<exists>!i. live_watcher m sid i"
    if unshared: "published_once m sid"
  proof (cases "map_of (mg_monitors m) sid")
    case None
    then show ?thesis
      using published_once_carried [OF once unshared] by auto
  next
    case (Some e)
    have "i = mn_ctx e" if "live_watcher m sid i" for i
      using published_once_carried [OF once unshared that] live_watcher_ctx [OF inv that] Some by simp
    then show ?thesis
      using registered [OF Some] Some by auto
  qed
  have "at_point m i (Sleeping d) \<longrightarrow> d \<in> set (mg_backoff m) \<and> 0 < d"
    using inv unfolding at_point_def restart_inv_def by (metis nth_mem)
  then show ?thesis
    using registered watched_onceD [OF once] single by blast
qed

definition sample_manager :: restart_manager where
  "sample_manager = \<lparr>mg_backoff = [1, 2], mg_stableRuntime = 10, mg_waitRetry = 1, mg_done = False, mg_closed = False,
     mg_monitors = [], mg_crashes = [], mg_contexts = 0, mg_cancelled = [], mg_tasks = [], mg_results = []\<rparr>"

lemma sample_reachable: "restart_reachable sample_manager"
proof (rule reachable_start)
  have "newRestartManager \<lparr>rc_complete = True, rc_backoff = [1, 2], rc_stableRuntime = 10, rc_waitRetry = 1\<rparr> = Inr sample_manager"
    by (simp add: newRestartManager_def sample_manager_def)
  then show "restart_start sample_manager"
    unfolding restart_start_def by blast
qed

lemmas restart_eval = publish_def withdraw_def cancel_def handleExit_def sample_manager_def set_point_def at_point_def ctx_done_def Let_def

text \<open>A service that goes from one deployment to the next: the watcher of the first is cancelled.\<close>

theorem restart_single_watcher_witness:
  "(\<exists>!i. live_watcher (publish 6 ''s'' ''d2'' ''c2'' (publish 5 ''s'' ''d'' ''c'' sample_manager)) ''s'' i)
   \<and> length (mg_tasks (publish 6 ''s'' ''d2'' ''c2'' (publish 5 ''s'' ''d'' ''c'' sample_manager))) = 2"
proof -
  let ?m = "publish 6 ''s'' ''d2'' ''c2'' (publish 5 ''s'' ''d'' ''c'' sample_manager)"
  have "restart_reachable ?m"
    by (rule reachable_step [OF reachable_step [OF sample_reachable call_publish] call_publish])
  moreover have "\<not> mg_done ?m" "length (mg_tasks ?m) = 2"
    and "map_of (mg_monitors ?m) ''s'' = Some \<lparr>mn_deployment = ''d2'', mn_container = ''c2'', mn_startedAt = 6, mn_ctx = 1\<rparr>"
    and "published_once ?m ''s''"
    by (auto simp: restart_eval published_once_def same_container_def nth_Cons' less_Suc_eq)
  ultimately show ?thesis
    using restart_single_watcher [of ?m "''s''"] by simp
qed

text \<open>
  Why the property needs its proviso: \<^verbatim>\<open>handleExit\<close> compares the deployment and the container, not the monitor.
  A goroutine that saw its container exit, was withdrawn before it took the mutex and takes it after
  the same container was published again removes the new monitor. The goroutine of that monitor goes on
  watching with a live context, and nothing is registered that could cancel it or let it handle the next exit.
\<close>

definition republished_manager :: restart_manager where
  "republished_manager =
     publish 6 ''s'' ''d'' ''c'' (withdraw ''s'' (set_point 0 Exited (publish 5 ''s'' ''d'' ''c'' sample_manager)))"

lemma republished_reachable: "restart_reachable republished_manager"
proof -
  have "restart_step (publish 5 ''s'' ''d'' ''c'' sample_manager) (set_point 0 Exited (publish 5 ''s'' ''d'' ''c'' sample_manager))"
    by (rule wait_exited) (simp_all add: restart_eval)
  then have "restart_reachable (set_point 0 Exited (publish 5 ''s'' ''d'' ''c'' sample_manager))"
    by (rule reachable_step [OF reachable_step [OF sample_reachable call_publish]])
  then have "restart_reachable (withdraw ''s'' (set_point 0 Exited (publish 5 ''s'' ''d'' ''c'' sample_manager)))"
    by (rule reachable_step) (rule call_withdraw)
  then show ?thesis
    unfolding republished_manager_def by (rule reachable_step) (rule call_publish)
qed

lemma republished_monitor_lost:
  "\<exists>m. restart_reachable m \<and> \<not> mg_done m \<and> map_of (mg_monitors m) ''s'' = None \<and> live_watcher m ''s'' 1"
proof -
  let ?m = "republished_manager\<lparr>mg_monitors := []\<rparr>"
  have "handleExit 7 ''s'' (tk_entry (mg_tasks republished_manager ! 0)) republished_manager = (True, ?m)"
    by (simp add: republished_manager_def restart_eval)
  then have "restart_step republished_manager (set_point 0 Preparing ?m)"
    by (intro exit_handled [where now = 7]) (simp_all add: republished_manager_def restart_eval)
  then have "restart_reachable (set_point 0 Preparing ?m)"
    by (rule reachable_step [OF republished_reachable])
  moreover have "\<not> mg_done (set_point 0 Preparing ?m)" "map_of (mg_monitors (set_point 0 Preparing ?m)) ''s'' = None"
    "live_watcher (set_point 0 Preparing ?m) ''s'' 1"
    by (simp_all add: republished_manager_def restart_eval live_watcher_def)
  ultimately show ?thesis
    by blast
qed

section \<open>The backoff schedule\<close>

primrec delays :: "nat \<Rightarrow> string \<Rightarrow> string \<Rightarrow> restart_manager \<Rightarrow> int list" where
  "delays 0 sid dep m = []"
| "delays (Suc k) sid dep m = (case nextDelay sid dep m of (d, m') \<Rightarrow> d # delays k sid dep m')"

definition attempts :: "string \<Rightarrow> string \<Rightarrow> restart_manager \<Rightarrow> nat" where
  "attempts sid dep m =
     (case map_of (mg_crashes m) sid of
        None \<Rightarrow> 0 | Some c \<Rightarrow> if cr_deployment c = dep then cr_attempts c else 0)"

lemma nextDelay_attempts:
  assumes "nextDelay sid dep m = (d, m')" "dep \<noteq> []"
  shows "d = mg_backoff m ! min (attempts sid dep m) (length (mg_backoff m) - 1)
    \<and> attempts sid dep m' = attempts sid dep m + 1 \<and> mg_backoff m' = mg_backoff m
    \<and> (\<forall>sid' dep'. sid' \<noteq> sid \<longrightarrow> attempts sid' dep' m' = attempts sid' dep' m)"
  using assms by (auto simp: nextDelay_def Let_def attempts_def split: option.splits if_splits)
    (metis crash_state.select_convs(2))+

lemma delays_from:
  "dep \<noteq> [] \<Longrightarrow> delays k sid dep m =
     map (\<lambda>i. mg_backoff m ! min (attempts sid dep m + i) (length (mg_backoff m) - 1)) [0..<k]"
proof (induction k arbitrary: m)
  case (Suc k)
  obtain d m' where n: "nextDelay sid dep m = (d, m')"
    by force
  note a = nextDelay_attempts [OF n Suc.prems]
  have "delays (Suc k) sid dep m = d # map (\<lambda>i. mg_backoff m ! min (attempts sid dep m + 1 + i) (length (mg_backoff m) - 1)) [0..<k]"
    using n Suc.IH [OF Suc.prems, of m'] a by simp
  also have "\<dots> = map (\<lambda>i. mg_backoff m ! min (attempts sid dep m + i) (length (mg_backoff m) - 1)) (0 # map Suc [0..<k])"
    using a by (simp add: comp_def)
  finally show ?case
    by (simp add: map_Suc_upt upt_conv_Cons del: upt_Suc)
qed simp

text \<open>
  The delays before the restarts of a service follow the backoff list and stay at its last
  entry: after a stable run of the container, and after another deployment was published, the k-th
  restart of the deployment waits for entry min(k, n - 1) of the n configured delays.
\<close>

lemma restart_backoff_schedule:
  assumes "dep \<noteq> []"
    and "(\<exists>now entry m0. handleExit now sid entry m0 = (True, m) \<and> mg_stableRuntime m0 \<le> now - mn_startedAt entry)
      \<or> (\<exists>now cid m0 c. m = publish now sid dep cid m0 \<and> \<not> mg_closed m0 \<and> map_of (mg_monitors m0) sid = None
           \<and> map_of (mg_crashes m0) sid = Some c \<and> cr_deployment c \<noteq> [] \<and> cr_deployment c \<noteq> dep)"
  shows "delays k sid dep m = map (\<lambda>i. mg_backoff m ! min i (length (mg_backoff m) - 1)) [0..<k]"
proof -
  have "attempts sid dep m = 0"
    using assms(2) by (auto simp: attempts_def handleExit_def publish_def Let_def split: option.splits if_splits)
  then show ?thesis
    using delays_from [OF assms(1)] by simp
qed

end
