(* ===== verification/Service_Watcher.thy ===== *)
theory Service_Watcher
  imports Deployment Transition
begin

text \<open>
  Package \<^verbatim>\<open>servicewatcher\<close>: one goroutine per service that deploys it when it is woken or its timer fires.
  A loop object carries its channels (the wake-up and reset channels hold one value), its generation and
  the state of its goroutine; its number is its address. Sections under the mutex, channel operations
  and the calls of the store and of the deployer are steps that interleave freely. \<open>lp_requests\<close> and
  \<open>lp_served\<close> are history variables: the reconcile requests the loop got, and how many of them it had got
  when it last read its generation to deploy.
\<close>

section \<open>Timing\<close>

definition remoteInterval :: int where "remoteInterval = 60000000000"
definition remoteMaximumBackoff :: int where "remoteMaximumBackoff = 900000000000"
definition defaultConcurrency :: int where "defaultConcurrency = 4"

primrec doubleDelay :: "int \<Rightarrow> int \<Rightarrow> nat \<Rightarrow> int" where
  "doubleDelay delay maximum 0 = (if delay > maximum then maximum else delay)"
| "doubleDelay delay maximum (Suc n) =
     (if delay \<ge> maximum div 2 then maximum else doubleDelay (delay * 2) maximum n)"

definition exponentialDelay :: "int \<Rightarrow> int \<Rightarrow> int \<Rightarrow> int" where
  "exponentialDelay base maximum failures =
     (if failures < 1 then base else doubleDelay base maximum (nat (failures - 1)))"

section \<open>Data\<close>

datatype loop_point =
    AtSelect | AtSlot | AtGeneration | Deploying "64 word" | Loading "64 word" "derr option" | Removing | Ended

record service_loop =
  lp_service :: string
  lp_ctx :: nat
  lp_wake :: bool
  lp_reset :: "int option"
  lp_stopped :: bool
  lp_generation :: "64 word"
  lp_delay :: int
  lp_failures :: int
  lp_point :: loop_point
  lp_finished :: bool
  lp_requests :: nat
  lp_served :: nat

record watcher_config =
  wc_complete :: bool
  wc_remoteInterval :: int
  wc_remoteMaximumBackoff :: int
  wc_concurrency :: int

datatype watcher_error = WatcherIncomplete | WatcherInvalid | ContextNil | StoreFailed derr | AlreadyStarted | NotStarted

text \<open>
  \<open>wa_wakes\<close> and \<open>wa_resets\<close> are the callers that have released the mutex and are about to send to a loop.
\<close>

record watcher =
  wa_interval :: int
  wa_maximumBackoff :: int
  wa_concurrency :: nat
  wa_slots :: nat
  wa_started :: bool
  wa_ctx :: "nat option"
  wa_contexts :: nat
  wa_cancelled :: "nat list"
  wa_services :: "(string \<times> nat) list"
  wa_loops :: "service_loop list"
  wa_wakes :: "nat list"
  wa_resets :: "(nat \<times> int) list"

definition newWatcher :: "watcher_config \<Rightarrow> watcher_error + watcher" where
  "newWatcher c =
     (if \<not> wc_complete c then Inl WatcherIncomplete
      else
        (let interval = (if wc_remoteInterval c = 0 then remoteInterval else wc_remoteInterval c);
             maximum = (if wc_remoteMaximumBackoff c = 0 then remoteMaximumBackoff else wc_remoteMaximumBackoff c);
             concurrency = (if wc_concurrency c = 0 then defaultConcurrency else wc_concurrency c)
         in if interval \<le> 0 \<or> maximum < interval \<or> concurrency < 1 then Inl WatcherInvalid
            else Inr \<lparr>wa_interval = interval, wa_maximumBackoff = maximum, wa_concurrency = nat concurrency,
              wa_slots = 0, wa_started = False, wa_ctx = None, wa_contexts = 0, wa_cancelled = [],
              wa_services = [], wa_loops = [], wa_wakes = [], wa_resets = []\<rparr>))"

section \<open>Operations\<close>

definition failureDelay :: "watcher \<Rightarrow> int \<Rightarrow> int" where
  "failureDelay w failures = exponentialDelay (wa_interval w) (wa_maximumBackoff w) failures"

definition normalDelay :: "watcher \<Rightarrow> int" where
  "normalDelay w = wa_interval w"

definition initialDelay :: "watcher \<Rightarrow> bool \<Rightarrow> int" where
  "initialDelay w retry = (if retry then failureDelay w 1 else normalDelay w)"

definition set_loop :: "nat \<Rightarrow> (service_loop \<Rightarrow> service_loop) \<Rightarrow> watcher \<Rightarrow> watcher" where
  "set_loop i f w = w\<lparr>wa_loops := (wa_loops w)[i := f (wa_loops w ! i)]\<rparr>"

text \<open>\<^verbatim>\<open>coalesce\<close> and \<^verbatim>\<open>resetDelay\<close> on channels that hold one value.\<close>

definition coalesce :: "nat \<Rightarrow> watcher \<Rightarrow> watcher" where
  "coalesce i w = set_loop i (\<lambda>l. l\<lparr>lp_wake := True\<rparr>) w"

definition resetDelay :: "nat \<Rightarrow> int \<Rightarrow> watcher \<Rightarrow> watcher" where
  "resetDelay i d w = set_loop i (\<lambda>l. l\<lparr>lp_reset := Some d\<rparr>) w"

definition newLoop :: "string \<Rightarrow> nat \<Rightarrow> nat \<Rightarrow> int \<Rightarrow> service_loop" where
  "newLoop sid ctx requests delay =
     \<lparr>lp_service = sid, lp_ctx = ctx, lp_wake = False, lp_reset = None, lp_stopped = False,
      lp_generation = of_nat requests, lp_delay = delay, lp_failures = 0, lp_point = AtSelect,
      lp_finished = False, lp_requests = requests, lp_served = 0\<rparr>"

text \<open>Whether a service is watched continuously, or only deployed on request.\<close>

definition continuous :: "image_refs \<Rightarrow> desired \<Rightarrow> bool" where
  "continuous n d =
     (let reference = imageReference (sn_source (de_snapshot d))
      in \<not> (\<not> de_enabled d \<or> \<not> src_autoUpdate (sn_source (de_snapshot d))
           \<or> (reference \<noteq> [] \<and> isDigestReference n reference)))"

definition openWatcher :: "watcher \<Rightarrow> watcher_error + watcher" where
  "openWatcher w =
     (if wa_started w then Inl AlreadyStarted
      else Inr (w\<lparr>wa_ctx := Some (wa_contexts w), wa_contexts := wa_contexts w + 1, wa_started := True\<rparr>))"

definition closeWatcher :: "watcher \<Rightarrow> watcher" where
  "closeWatcher w =
     w\<lparr>wa_started := False, wa_services := [],
       wa_cancelled := (if wa_started w then (case wa_ctx w of None \<Rightarrow> [] | Some c \<Rightarrow> [c]) else []) @ wa_cancelled w\<rparr>"

definition stopService :: "string \<Rightarrow> watcher \<Rightarrow> watcher" where
  "stopService sid w =
     (case map_of (wa_services w) sid of
        None \<Rightarrow> w
      | Some i \<Rightarrow> set_loop i (\<lambda>l. l\<lparr>lp_stopped := True\<rparr>) (w\<lparr>wa_services := AList.delete sid (wa_services w)\<rparr>))"

text \<open>\<^verbatim>\<open>Track\<close> with the desired state the store returned.\<close>

definition track :: "image_refs \<Rightarrow> derr + desired \<Rightarrow> string \<Rightarrow> bool \<Rightarrow> watcher \<Rightarrow> watcher_error option \<times> watcher" where
  "track n loaded sid retry w =
     (case loaded of
        Inl e \<Rightarrow> (Some (StoreFailed e), w)
      | Inr d \<Rightarrow>
          if \<not> continuous n d then (None, stopService sid w)
          else (case wa_ctx w of
            None \<Rightarrow> (Some NotStarted, w)
          | Some ctx \<Rightarrow>
              if \<not> wa_started w then (Some NotStarted, w)
              else (case map_of (wa_services w) sid of
                Some i \<Rightarrow> (None, w\<lparr>wa_resets := (i, initialDelay w retry) # wa_resets w\<rparr>)
              | None \<Rightarrow>
                  (None, w\<lparr>wa_loops := wa_loops w @ [newLoop sid ctx 0 (initialDelay w retry)],
                     wa_services := AList.update sid (length (wa_loops w)) (wa_services w)\<rparr>))))"

definition notifyService :: "string \<Rightarrow> watcher \<Rightarrow> watcher" where
  "notifyService sid w =
     (case map_of (wa_services w) sid of None \<Rightarrow> w | Some i \<Rightarrow> w\<lparr>wa_wakes := i # wa_wakes w\<rparr>)"

text \<open>\<^verbatim>\<open>Reconcile\<close> up to the release of the mutex; the wake-up is sent by a later step.\<close>

definition reconcile :: "string \<Rightarrow> watcher \<Rightarrow> watcher_error option \<times> watcher" where
  "reconcile sid w =
     (case wa_ctx w of
        None \<Rightarrow> (Some NotStarted, w)
      | Some ctx \<Rightarrow>
          if \<not> wa_started w then (Some NotStarted, w)
          else (case map_of (wa_services w) sid of
            None \<Rightarrow>
              (None, w\<lparr>wa_loops := wa_loops w @ [newLoop sid ctx 1 (initialDelay w False)],
                 wa_services := AList.update sid (length (wa_loops w)) (wa_services w),
                 wa_wakes := length (wa_loops w) # wa_wakes w\<rparr>)
          | Some i \<Rightarrow>
              (None, set_loop i (\<lambda>l. l\<lparr>lp_generation := lp_generation l + 1, lp_requests := lp_requests l + 1\<rparr>)
                 (w\<lparr>wa_wakes := i # wa_wakes w\<rparr>))))"

definition finishOneShot :: "string \<Rightarrow> nat \<Rightarrow> 64 word \<Rightarrow> watcher \<Rightarrow> bool \<times> watcher" where
  "finishOneShot sid i generation w =
     (if map_of (wa_services w) sid \<noteq> Some i \<or> lp_generation (wa_loops w ! i) \<noteq> generation then (False, w)
      else (True, w\<lparr>wa_services := AList.delete sid (wa_services w)\<rparr>))"

definition removeLoop :: "string \<Rightarrow> nat \<Rightarrow> watcher \<Rightarrow> watcher" where
  "removeLoop sid i w =
     (if map_of (wa_services w) sid = Some i then w\<lparr>wa_services := AList.delete sid (wa_services w)\<rparr> else w)"

text \<open>\<^verbatim>\<open>Start\<close>: every enabled service is tracked; an error closes the watcher again.\<close>

fun trackAll :: "image_refs \<Rightarrow> (string \<Rightarrow> derr + desired) \<Rightarrow> (string \<Rightarrow> bool) \<Rightarrow> string list \<Rightarrow> watcher \<Rightarrow> watcher_error option \<times> watcher" where
  "trackAll n load failed [] w = (None, w)"
| "trackAll n load failed (sid # sids) w =
     (case track n (load sid) sid (failed sid) w of
        (Some e, w) \<Rightarrow> (Some e, closeWatcher w)
      | (None, w) \<Rightarrow> trackAll n load failed sids w)"

definition startWatcher ::
  "image_refs \<Rightarrow> bool \<Rightarrow> derr + string list \<Rightarrow> (string \<Rightarrow> derr + desired) \<Rightarrow> (string \<Rightarrow> bool) \<Rightarrow> watcher \<Rightarrow> watcher_error option \<times> watcher" where
  "startWatcher n hasContext enabled load failed w =
     (if \<not> hasContext then (Some ContextNil, w)
      else case enabled of
        Inl e \<Rightarrow> (Some (StoreFailed e), w)
      | Inr sids \<Rightarrow>
          (case openWatcher w of Inl e \<Rightarrow> (Some e, w) | Inr w \<Rightarrow> trackAll n load failed sids w))"

section \<open>Steps\<close>

definition loop_at :: "watcher \<Rightarrow> nat \<Rightarrow> loop_point \<Rightarrow> bool" where
  "loop_at w i p \<longleftrightarrow> i < length (wa_loops w) \<and> lp_point (wa_loops w ! i) = p"

definition loop_done :: "watcher \<Rightarrow> nat \<Rightarrow> bool" where
  "loop_done w i \<longleftrightarrow> lp_ctx (wa_loops w ! i) \<in> set (wa_cancelled w)"

definition go_to :: "nat \<Rightarrow> loop_point \<Rightarrow> watcher \<Rightarrow> watcher" where
  "go_to i p w = set_loop i (\<lambda>l. l\<lparr>lp_point := p\<rparr>) w"

text \<open>
  The cases of the select in \<^verbatim>\<open>waitForAction\<close> that are ready, each with what it returns (deploy, next delay,
  ok) and the channels it leaves; a delay of zero has no timer. Then how \<^verbatim>\<open>runService\<close> goes on.
\<close>

definition waitForAction :: "nat \<Rightarrow> watcher \<Rightarrow> ((bool \<times> int \<times> bool) \<times> watcher) list" where
  "waitForAction i w =
     (let l = wa_loops w ! i
      in (if loop_done w i then [((False, 0, False), w)] else [])
         @ (if lp_stopped l then [((False, 0, False), w)] else [])
         @ (if lp_wake l then [((True, 0, True), set_loop i (\<lambda>l. l\<lparr>lp_wake := False\<rparr>) w)] else [])
         @ (case lp_reset l of None \<Rightarrow> [] | Some d \<Rightarrow> [((False, d, True), set_loop i (\<lambda>l. l\<lparr>lp_reset := None\<rparr>) w)])
         @ (if lp_delay l \<noteq> 0 then [((True, 0, True), w)] else []))"

definition afterWait :: "nat \<Rightarrow> bool \<times> int \<times> bool \<Rightarrow> watcher \<Rightarrow> watcher" where
  "afterWait i r w =
     (case r of (deployNow, delay, ok) \<Rightarrow>
        if \<not> ok then go_to i Removing w
        else if \<not> deployNow then set_loop i (\<lambda>l. l\<lparr>lp_delay := delay\<rparr>) w
        else go_to i AtSlot w)"

text \<open>How \<^verbatim>\<open>runService\<close> goes on after a deployment, once the desired state was loaded.\<close>

definition afterDeploy :: "image_refs \<Rightarrow> nat \<Rightarrow> 64 word \<Rightarrow> derr option \<Rightarrow> derr + desired \<Rightarrow> watcher \<Rightarrow> watcher" where
  "afterDeploy n i generation err loaded w =
     (case loaded of
        Inl _ \<Rightarrow> go_to i Removing w
      | Inr d \<Rightarrow>
          if \<not> continuous n d then
            (case finishOneShot (lp_service (wa_loops w ! i)) i generation w of
               (True, w) \<Rightarrow> set_loop i (\<lambda>l. l\<lparr>lp_point := Removing, lp_finished := True\<rparr>) w
             | (False, w) \<Rightarrow> set_loop i (\<lambda>l. l\<lparr>lp_point := AtSelect, lp_delay := 0\<rparr>) w)
          else (case err of
            None \<Rightarrow> set_loop i (\<lambda>l. l\<lparr>lp_point := AtSelect, lp_failures := 0, lp_delay := normalDelay w\<rparr>) w
          | Some e \<Rightarrow>
              if err_is ErrBlockedPair e
              then set_loop i (\<lambda>l. l\<lparr>lp_point := AtSelect, lp_failures := 0, lp_delay := normalDelay w\<rparr>) w
              else set_loop i (\<lambda>l. l\<lparr>lp_point := AtSelect, lp_failures := lp_failures l + 1,
                lp_delay := failureDelay w (lp_failures l + 1)\<rparr>) w))"

text \<open>The calls of a watcher, the sends its callers still owe, and the moves of \<^verbatim>\<open>runService\<close>.\<close>

inductive watch_step :: "watcher \<Rightarrow> watcher \<Rightarrow> bool" where
  call_start: "openWatcher w = Inr w' \<Longrightarrow> watch_step w w'"
| call_close: "watch_step w (closeWatcher w)"
| parent_done: "watch_step w (w\<lparr>wa_cancelled := c # wa_cancelled w\<rparr>)"
| call_track: "watch_step w (snd (track n loaded sid retry w))"
| call_notify: "watch_step w (notifyService sid w)"
| call_reconcile: "watch_step w (snd (reconcile sid w))"
| send_wake: "i \<in> set (wa_wakes w) \<Longrightarrow> watch_step w (coalesce i (w\<lparr>wa_wakes := remove1 i (wa_wakes w)\<rparr>))"
| send_reset: "(i, d) \<in> set (wa_resets w) \<Longrightarrow>
    watch_step w (resetDelay i d (w\<lparr>wa_resets := remove1 (i, d) (wa_resets w)\<rparr>))"
| waited: "loop_at w i AtSelect \<Longrightarrow> (r, w') \<in> set (waitForAction i w) \<Longrightarrow> watch_step w (afterWait i r w')"
| slot_taken: "loop_at w i AtSlot \<Longrightarrow> wa_slots w < wa_concurrency w \<Longrightarrow>
    watch_step w (go_to i AtGeneration (w\<lparr>wa_slots := wa_slots w + 1\<rparr>))"
| slot_done: "loop_at w i AtSlot \<Longrightarrow> loop_done w i \<Longrightarrow> watch_step w (go_to i Removing w)"
| deploy_begun: "loop_at w i AtGeneration \<Longrightarrow>
    watch_step w (set_loop i (\<lambda>l. l\<lparr>lp_point := Deploying (lp_generation l), lp_served := lp_requests l\<rparr>) w)"
| deploy_ended: "loop_at w i (Deploying g) \<Longrightarrow>
    watch_step w (go_to i (Loading g err) (w\<lparr>wa_slots := wa_slots w - 1\<rparr>))"
| loaded: "loop_at w i (Loading g err) \<Longrightarrow> watch_step w (afterDeploy n i g err desired w)"
| removed: "loop_at w i Removing \<Longrightarrow> watch_step w (go_to i Ended (removeLoop (lp_service (wa_loops w ! i)) i w))"

definition watch_start :: "watcher \<Rightarrow> bool" where
  "watch_start w \<longleftrightarrow> (\<exists>c. newWatcher c = Inr w)"

abbreviation "watch_reachable \<equiv> reachable watch_start watch_step"

lemma waitForAction_cases:
  assumes "(r, w') \<in> set (waitForAction i w)"
  obtains (stopped) "loop_done w i \<or> lp_stopped (wa_loops w ! i)" "afterWait i r w' = go_to i Removing w"
    | (woken) "lp_wake (wa_loops w ! i)" "afterWait i r w' = go_to i AtSlot (set_loop i (\<lambda>l. l\<lparr>lp_wake := False\<rparr>) w)"
    | (reset) d where "lp_reset (wa_loops w ! i) = Some d"
        "afterWait i r w' = set_loop i (\<lambda>l. l\<lparr>lp_delay := d\<rparr>) (set_loop i (\<lambda>l. l\<lparr>lp_reset := None\<rparr>) w)"
    | (timer) "lp_delay (wa_loops w ! i) \<noteq> 0" "afterWait i r w' = go_to i AtSlot w"
  using assms by (auto simp: waitForAction_def afterWait_def Let_def split: if_splits option.splits dest: sym)

section \<open>No reconcile request is lost\<close>

text \<open>What the goroutine still owes: a request after the last deployment has left or will leave a wake-up.\<close>

definition owed :: "nat list \<Rightarrow> nat \<Rightarrow> service_loop \<Rightarrow> bool" where
  "owed wakes i l \<longleftrightarrow> lp_requests l = lp_served l \<or> lp_wake l \<or> i \<in> set wakes"

definition loop_ok :: "nat list \<Rightarrow> nat \<Rightarrow> service_loop \<Rightarrow> bool" where
  "loop_ok wakes i l \<longleftrightarrow> lp_generation l = of_nat (lp_requests l) \<and> lp_served l \<le> lp_requests l
     \<and> (case lp_point l of
          AtSelect \<Rightarrow> owed wakes i l
        | Deploying g \<Rightarrow> g = of_nat (lp_served l) \<and> owed wakes i l
        | Loading g _ \<Rightarrow> g = of_nat (lp_served l) \<and> owed wakes i l
        | _ \<Rightarrow> True)
     \<and> (lp_finished l \<longrightarrow> lp_generation l = of_nat (lp_served l) \<and> lp_point l \<in> {Removing, Ended})"

definition watch_inv :: "watcher \<Rightarrow> bool" where
  "watch_inv w \<longleftrightarrow>
     (\<forall>i<length (wa_loops w). loop_ok (wa_wakes w) i (wa_loops w ! i))
     \<and> (\<forall>sid i. map_of (wa_services w) sid = Some i \<longrightarrow> i < length (wa_loops w) \<and> lp_service (wa_loops w ! i) = sid
          \<and> \<not> lp_finished (wa_loops w ! i))
     \<and> (\<forall>i\<in>set (wa_wakes w). i < length (wa_loops w))
     \<and> (\<forall>i\<in>fst ` set (wa_resets w). i < length (wa_loops w))"

lemma watch_inv_initial: "watch_start w \<Longrightarrow> watch_inv w"
  by (auto simp: watch_start_def newWatcher_def Let_def watch_inv_def split: if_splits)

lemma set_loop_simps [simp]:
  "length (wa_loops (set_loop i f w)) = length (wa_loops w)"
  "i < length (wa_loops w) \<Longrightarrow> wa_loops (set_loop i f w) ! j = (if j = i then f (wa_loops w ! i) else wa_loops w ! j)"
  "wa_wakes (set_loop i f w) = wa_wakes w" "wa_resets (set_loop i f w) = wa_resets w"
  "wa_services (set_loop i f w) = wa_services w" "wa_slots (set_loop i f w) = wa_slots w"
  "wa_concurrency (set_loop i f w) = wa_concurrency w"
  by (auto simp: set_loop_def nth_list_update)

text \<open>A change of one loop that keeps its own condition and its service keeps the invariant.\<close>

lemma watch_inv_loop:
  assumes "watch_inv w" "i < length (wa_loops w)"
    and "loop_ok (wa_wakes w) i (f (wa_loops w ! i))" "lp_service (f (wa_loops w ! i)) = lp_service (wa_loops w ! i)"
    and "lp_finished (f (wa_loops w ! i)) \<longrightarrow> lp_finished (wa_loops w ! i) \<or> (\<forall>sid. map_of (wa_services w) sid \<noteq> Some i)"
  shows "watch_inv (set_loop i f w)"
  using assms unfolding watch_inv_def by (auto split: if_splits)

lemma watch_inv_services:
  "watch_inv w \<Longrightarrow> (\<And>sid i. map_of ss sid = Some i \<Longrightarrow> map_of (wa_services w) sid = Some i) \<Longrightarrow>
     watch_inv (w\<lparr>wa_services := ss\<rparr>)"
  unfolding watch_inv_def by simp metis

lemma watch_inv_other [simp]:
  "watch_inv (w\<lparr>wa_started := b\<rparr>) \<longleftrightarrow> watch_inv w" "watch_inv (w\<lparr>wa_ctx := c\<rparr>) \<longleftrightarrow> watch_inv w"
  "watch_inv (w\<lparr>wa_contexts := k\<rparr>) \<longleftrightarrow> watch_inv w" "watch_inv (w\<lparr>wa_cancelled := cs\<rparr>) \<longleftrightarrow> watch_inv w"
  "watch_inv (w\<lparr>wa_slots := k\<rparr>) \<longleftrightarrow> watch_inv w"
  by (simp_all add: watch_inv_def)

lemma watch_inv_delete: "watch_inv w \<Longrightarrow> watch_inv (w\<lparr>wa_services := AList.delete sid (wa_services w)\<rparr>)"
  by (rule watch_inv_services) (auto split: if_splits)

lemma watch_inv_registered: "watch_inv w \<Longrightarrow> map_of (wa_services w) sid = Some i \<Longrightarrow> i < length (wa_loops w)"
  by (auto simp: watch_inv_def)

lemma watch_inv_ok: "watch_inv w \<Longrightarrow> i < length (wa_loops w) \<Longrightarrow> loop_ok (wa_wakes w) i (wa_loops w ! i)"
  by (simp add: watch_inv_def)

lemma loop_ok_more: "loop_ok wakes i l \<Longrightarrow> loop_ok (j # wakes) i l"
  by (auto simp: loop_ok_def owed_def split: loop_point.splits)

lemma watch_inv_wake:
  assumes "watch_inv w" "i < length (wa_loops w)"
  shows "watch_inv (w\<lparr>wa_wakes := i # wa_wakes w\<rparr>)"
  using assms loop_ok_more unfolding watch_inv_def by simp

lemma loop_ok_new: "loop_ok wakes i (newLoop sid ctx 0 d)" "i \<in> set wakes \<Longrightarrow> loop_ok wakes i (newLoop sid ctx k d)"
  by (simp_all add: loop_ok_def newLoop_def owed_def)

lemma watch_inv_new:
  assumes "watch_inv w" "k = 0 \<and> wakes = wa_wakes w \<or> wakes = length (wa_loops w) # wa_wakes w"
  shows "watch_inv (w\<lparr>wa_loops := wa_loops w @ [newLoop sid ctx k d],
    wa_services := AList.update sid (length (wa_loops w)) (wa_services w), wa_wakes := wakes\<rparr>)"
proof -
  have "loop_ok wakes i ((wa_loops w @ [newLoop sid ctx k d]) ! i)" if "i < Suc (length (wa_loops w))" for i
    using that assms loop_ok_new watch_inv_ok [OF assms(1)] loop_ok_more
    by (cases "i = length (wa_loops w)") (auto simp: nth_append)
  then show ?thesis
    using assms unfolding watch_inv_def
    by (auto simp: nth_append newLoop_def less_Suc_eq)
qed

lemma loop_ok_fields [simp]:
  "loop_ok wakes i (l\<lparr>lp_stopped := b\<rparr>) \<longleftrightarrow> loop_ok wakes i l" "loop_ok wakes i (l\<lparr>lp_reset := r\<rparr>) \<longleftrightarrow> loop_ok wakes i l"
  "loop_ok wakes i (l\<lparr>lp_delay := d\<rparr>) \<longleftrightarrow> loop_ok wakes i l" "loop_ok wakes i (l\<lparr>lp_failures := k\<rparr>) \<longleftrightarrow> loop_ok wakes i l"
  by (simp_all add: loop_ok_def owed_def cong: loop_point.case_cong)

lemma watch_inv_stop:
  assumes "watch_inv w"
  shows "watch_inv (stopService sid w)"
proof (cases "map_of (wa_services w) sid")
  case (Some i)
  then have "i < length (wa_loops w)"
    using watch_inv_registered [OF assms] by blast
  then show ?thesis
    using Some watch_inv_delete [OF assms] watch_inv_ok [OF assms]
    by (simp add: stopService_def) (intro watch_inv_loop, simp_all)
qed (use assms in \<open>simp add: stopService_def\<close>)

lemma watch_inv_new0:
  assumes "watch_inv w"
  shows "watch_inv (w\<lparr>wa_loops := wa_loops w @ [newLoop sid ctx 0 d],
    wa_services := AList.update sid (length (wa_loops w)) (wa_services w)\<rparr>)"
proof -
  have "w\<lparr>wa_loops := ls, wa_services := ss, wa_wakes := wa_wakes w\<rparr> = w\<lparr>wa_loops := ls, wa_services := ss\<rparr>" for ls ss
    by (cases w) simp
  then show ?thesis
    using watch_inv_new [OF assms, of 0 "wa_wakes w"] by simp
qed

lemma watch_inv_reset:
  "watch_inv w \<Longrightarrow> map_of (wa_services w) sid = Some i \<Longrightarrow> watch_inv (w\<lparr>wa_resets := (i, d) # wa_resets w\<rparr>)"
  using watch_inv_registered [of w sid i] by (simp add: watch_inv_def)

lemma watch_inv_track:
  assumes "watch_inv w"
  shows "watch_inv (snd (track n l sid retry w))"
  by (simp add: track_def assms watch_inv_stop watch_inv_new0 watch_inv_reset split: sum.split option.split)

lemma watch_inv_request:
  assumes "watch_inv w" "map_of (wa_services w) sid = Some i"
  shows "watch_inv (set_loop i (\<lambda>l. l\<lparr>lp_generation := lp_generation l + 1, lp_requests := lp_requests l + 1\<rparr>)
    (w\<lparr>wa_wakes := i # wa_wakes w\<rparr>))"
proof -
  have i: "i < length (wa_loops w)" "\<not> lp_finished (wa_loops w ! i)"
    using assms by (auto simp: watch_inv_def)
  have "loop_ok (i # wa_wakes w) i ((wa_loops w ! i)\<lparr>lp_generation := lp_generation (wa_loops w ! i) + 1,
      lp_requests := lp_requests (wa_loops w ! i) + 1\<rparr>)"
    using watch_inv_ok [OF assms(1) i(1)] i(2) by (simp add: loop_ok_def owed_def split: loop_point.splits)
  then show ?thesis
    using watch_inv_wake [OF assms(1) i(1)] i by (intro watch_inv_loop) simp_all
qed

lemma watch_inv_reconcile:
  assumes "watch_inv w"
  shows "watch_inv (snd (reconcile sid w))"
  using watch_inv_request [OF assms] watch_inv_new [OF assms, of 1]
  by (simp add: reconcile_def assms split: option.split)

text \<open>The moves of a goroutine.\<close>

lemma watch_inv_go_to:
  assumes "watch_inv w" "i < length (wa_loops w)"
    and "p \<in> {AtSlot, AtGeneration} \<and> \<not> lp_finished (wa_loops w ! i) \<or> p \<in> {Removing, Ended}"
  shows "watch_inv (go_to i p w)"
  unfolding go_to_def
  using assms watch_inv_ok [OF assms(1,2)] by (intro watch_inv_loop) (auto simp: loop_ok_def)

lemma not_finished: "watch_inv w \<Longrightarrow> loop_at w i p \<Longrightarrow> p \<notin> {Removing, Ended} \<Longrightarrow> \<not> lp_finished (wa_loops w ! i)"
  using watch_inv_ok [of w i] by (auto simp: loop_at_def loop_ok_def)

lemma watch_inv_send_wake:
  assumes "watch_inv w" "i \<in> set (wa_wakes w)"
  shows "watch_inv (coalesce i (w\<lparr>wa_wakes := remove1 i (wa_wakes w)\<rparr>))"
proof -
  have i: "i < length (wa_loops w)"
    using assms by (simp add: watch_inv_def)
  have "loop_ok (remove1 i (wa_wakes w)) i ((wa_loops w ! i)\<lparr>lp_wake := True\<rparr>)"
    using watch_inv_ok [OF assms(1) i] by (auto simp: loop_ok_def owed_def split: loop_point.splits)
  moreover have "loop_ok (remove1 i (wa_wakes w)) j (wa_loops w ! j)" if "j < length (wa_loops w)" "j \<noteq> i" for j
    using watch_inv_ok [OF assms(1) that(1)] that(2) by (auto simp: loop_ok_def owed_def in_set_remove1 split: loop_point.splits)
  moreover have "\<forall>j\<in>set (remove1 i (wa_wakes w)). j < length (wa_loops w)"
    using assms(1) notin_set_remove1 unfolding watch_inv_def by fastforce
  ultimately show ?thesis
    using assms(1) i unfolding coalesce_def watch_inv_def by simp
qed

lemma watch_inv_send_reset:
  assumes "watch_inv w" "(i, d) \<in> set (wa_resets w)"
  shows "watch_inv (resetDelay i d (w\<lparr>wa_resets := remove1 (i, d) (wa_resets w)\<rparr>))"
proof -
  have i: "i < length (wa_loops w)"
    using assms by (force simp: watch_inv_def)
  have "watch_inv (w\<lparr>wa_resets := remove1 (i, d) (wa_resets w)\<rparr>)"
    using assms(1) unfolding watch_inv_def by (simp, meson notin_set_remove1)
  then show ?thesis
    unfolding resetDelay_def using i watch_inv_ok [OF assms(1) i] by (intro watch_inv_loop) simp_all
qed

lemma watch_inv_begin:
  assumes "watch_inv w" "loop_at w i AtGeneration"
  shows "watch_inv (set_loop i (\<lambda>l. l\<lparr>lp_point := Deploying (lp_generation l), lp_served := lp_requests l\<rparr>) w)"
  using assms watch_inv_ok [of w i] not_finished [OF assms]
  by (intro watch_inv_loop) (auto simp: loop_at_def loop_ok_def owed_def)

lemma watch_inv_end:
  assumes "watch_inv w" "loop_at w i (Deploying g)"
  shows "watch_inv (go_to i (Loading g err) (w\<lparr>wa_slots := k\<rparr>))"
  unfolding go_to_def using assms watch_inv_ok [of w i] not_finished [OF assms]
  by (intro watch_inv_loop) (auto simp: loop_at_def loop_ok_def owed_def)

lemma watch_inv_again:
  assumes "watch_inv w" "loop_at w i (Loading g err)"
  shows "watch_inv (set_loop i (\<lambda>l. l\<lparr>lp_point := AtSelect, lp_failures := k l, lp_delay := d l\<rparr>) w)"
    and "watch_inv (set_loop i (\<lambda>l. l\<lparr>lp_point := AtSelect, lp_delay := d l\<rparr>) w)"
  using assms watch_inv_ok [of w i] not_finished [OF assms]
  by (auto simp: loop_at_def loop_ok_def owed_def intro!: watch_inv_loop)

lemma watch_inv_finish:
  assumes "watch_inv w" "loop_at w i (Loading g err)"
    and "map_of (wa_services w) (lp_service (wa_loops w ! i)) = Some i" "lp_generation (wa_loops w ! i) = g"
  shows "watch_inv (set_loop i (\<lambda>l. l\<lparr>lp_point := Removing, lp_finished := True\<rparr>)
    (w\<lparr>wa_services := AList.delete (lp_service (wa_loops w ! i)) (wa_services w)\<rparr>))"
proof (rule watch_inv_loop [OF watch_inv_delete [OF assms(1)]])
  show "i < length (wa_loops (w\<lparr>wa_services := AList.delete (lp_service (wa_loops w ! i)) (wa_services w)\<rparr>))"
    using assms(2) by (simp add: loop_at_def)
next
  have "map_of (wa_services w) sid = Some i \<Longrightarrow> lp_service (wa_loops w ! i) = sid" for sid
    using assms(1) by (simp add: watch_inv_def)
  then show "lp_finished ((wa_loops (w\<lparr>wa_services := AList.delete (lp_service (wa_loops w ! i)) (wa_services w)\<rparr>) ! i)
        \<lparr>lp_point := Removing, lp_finished := True\<rparr>) \<longrightarrow>
      lp_finished (wa_loops (w\<lparr>wa_services := AList.delete (lp_service (wa_loops w ! i)) (wa_services w)\<rparr>) ! i)
      \<or> (\<forall>sid. map_of (wa_services (w\<lparr>wa_services := AList.delete (lp_service (wa_loops w ! i)) (wa_services w)\<rparr>)) sid \<noteq> Some i)"
    by (auto split: if_splits)
qed (use assms watch_inv_ok [of w i] in \<open>auto simp: loop_at_def loop_ok_def\<close>)

lemma watch_inv_afterDeploy:
  assumes "watch_inv w" "loop_at w i (Loading g err)"
  shows "watch_inv (afterDeploy n i g err desired w)"
proof -
  have "watch_inv (go_to i Removing w)"
    using assms by (intro watch_inv_go_to) (simp_all add: loop_at_def)
  then show ?thesis
    using watch_inv_again [OF assms] watch_inv_finish [OF assms]
    by (auto simp: afterDeploy_def finishOneShot_def split: sum.split option.split)
qed

lemma watch_inv_removed:
  assumes "watch_inv w" "loop_at w i Removing"
  shows "watch_inv (go_to i Ended (removeLoop sid i w))"
  using assms watch_inv_delete [OF assms(1)]
  by (intro watch_inv_go_to) (auto simp: loop_at_def removeLoop_def)

lemma watch_inv_waited:
  assumes "watch_inv w" "loop_at w i AtSelect" "(r, w') \<in> set (waitForAction i w)"
  shows "watch_inv (afterWait i r w')"
  using assms(3)
proof (cases rule: waitForAction_cases)
  case woken
  have twice: "go_to i AtSlot (set_loop i (\<lambda>l. l\<lparr>lp_wake := False\<rparr>) w) = set_loop i (\<lambda>l. l\<lparr>lp_wake := False, lp_point := AtSlot\<rparr>) w"
    using assms(2) by (simp add: go_to_def set_loop_def loop_at_def)
  show ?thesis
    unfolding woken(2) twice using assms(1,2) watch_inv_ok [of w i] not_finished [OF assms(1,2)]
    by (intro watch_inv_loop) (auto simp: loop_at_def loop_ok_def)
next
  case (reset d)
  have "watch_inv (set_loop i (\<lambda>l. l\<lparr>lp_reset := None\<rparr>) w)"
    using assms(1,2) watch_inv_ok [of w i] by (intro watch_inv_loop) (auto simp: loop_at_def)
  then show ?thesis
    unfolding reset(2) by (rule watch_inv_loop) (use assms(2) watch_inv_ok [OF assms(1)] in \<open>auto simp: loop_at_def\<close>)
qed (use assms not_finished [OF assms(1,2)] in \<open>auto intro!: watch_inv_go_to simp: loop_at_def\<close>)

lemma watch_inv_step: "watch_step w w' \<Longrightarrow> watch_inv w \<Longrightarrow> watch_inv w'"
proof (induction rule: watch_step.induct)
  case (call_start w w')
  then show ?case
    by (auto simp: openWatcher_def split: if_splits)
next
  case (call_close w)
  then show ?case
    by (auto simp: closeWatcher_def intro: watch_inv_services)
next
  case (call_notify w sid)
  then show ?case
    using watch_inv_wake watch_inv_registered by (simp add: notifyService_def split: option.split)
next
  case (waited w i r w')
  then show ?case
    by (intro watch_inv_waited)
qed (auto intro!: watch_inv_track watch_inv_reconcile watch_inv_send_wake watch_inv_send_reset watch_inv_go_to
    watch_inv_begin watch_inv_end watch_inv_afterDeploy watch_inv_removed dest: not_finished simp: loop_at_def)

interpretation wi: inductive_invariant watch_start watch_step watch_inv
  by unfold_locales (fact watch_inv_initial, fact watch_inv_step)

text \<open>
  \<^bold>\<open>C7.\<close> No reconcile request is lost by the teardown of a loop, whatever the interleaving: a loop that
  was finished after a deployment had served every request it got, and a request that arrived after a
  loop read its generation for its last deployment has left a wake-up in the loop's channel or is about
  to send it, while the loop waits, deploys or loads. Fewer than 2 to the 64 requests per loop are assumed.
\<close>

theorem no_reconcile_lost:
  assumes "watch_reachable w" "i < length (wa_loops w)" "lp_requests (wa_loops w ! i) < 2 ^ 64"
  shows "(lp_finished (wa_loops w ! i) \<longrightarrow> lp_served (wa_loops w ! i) = lp_requests (wa_loops w ! i))
    \<and> ((case lp_point (wa_loops w ! i) of AtSelect \<Rightarrow> True | Deploying _ \<Rightarrow> True | Loading _ _ \<Rightarrow> True | _ \<Rightarrow> False) \<longrightarrow>
        lp_served (wa_loops w ! i) = lp_requests (wa_loops w ! i) \<or> lp_wake (wa_loops w ! i) \<or> i \<in> set (wa_wakes w))"
proof -
  let ?l = "wa_loops w ! i"
  have ok: "loop_ok (wa_wakes w) i ?l"
    by (rule watch_inv_ok [OF wi.invariant [OF assms(1)] assms(2)])
  have "lp_served ?l = lp_requests ?l" if "lp_finished ?l"
  proof -
    have "(of_nat (lp_requests ?l) :: 64 word) = of_nat (lp_served ?l)" "lp_served ?l \<le> lp_requests ?l"
      using ok that by (auto simp: loop_ok_def)
    moreover from this(1) have "unat (of_nat (lp_requests ?l) :: 64 word) = unat (of_nat (lp_served ?l) :: 64 word)"
      by (rule arg_cong)
    then have "lp_requests ?l mod 2 ^ 64 = lp_served ?l mod 2 ^ 64"
      unfolding unat_of_nat by simp
    ultimately show ?thesis
      using assms(3) by (metis le_less_trans mod_less)
  qed
  then show ?thesis
    using ok by (auto simp: loop_ok_def owed_def split: loop_point.splits)
qed

text \<open>
  A run: the service \<open>s\<close> is reconciled, its loop wakes up and begins to deploy, and it is reconciled again
  while it deploys.
\<close>

definition sample_watcher :: "service_loop list \<Rightarrow> (string \<times> nat) list \<Rightarrow> nat list \<Rightarrow> nat \<Rightarrow> watcher" where
  "sample_watcher loops services wakes slots =
     \<lparr>wa_interval = 60, wa_maximumBackoff = 900, wa_concurrency = 1, wa_slots = slots, wa_started = True,
      wa_ctx = Some 0, wa_contexts = 1, wa_cancelled = [], wa_services = services, wa_loops = loops,
      wa_wakes = wakes, wa_resets = []\<rparr>"

definition sample_loop :: "bool \<Rightarrow> nat \<Rightarrow> nat \<Rightarrow> loop_point \<Rightarrow> service_loop" where
  "sample_loop wake requests served p =
     \<lparr>lp_service = ''s'', lp_ctx = 0, lp_wake = wake, lp_reset = None, lp_stopped = False,
      lp_generation = of_nat requests, lp_delay = 60, lp_failures = 0, lp_point = p, lp_finished = False,
      lp_requests = requests, lp_served = served\<rparr>"

lemma sample_opened: "watch_reachable (sample_watcher [] [] [] 0)"
proof -
  let ?w = "(sample_watcher [] [] [] 0)\<lparr>wa_started := False, wa_ctx := None, wa_contexts := 0\<rparr>"
  have "newWatcher \<lparr>wc_complete = True, wc_remoteInterval = 60, wc_remoteMaximumBackoff = 900, wc_concurrency = 1\<rparr> = Inr ?w"
    by (simp add: newWatcher_def sample_watcher_def)
  then have "watch_reachable ?w"
    unfolding watch_start_def by (blast intro: reachable_start)
  moreover have "watch_step ?w (sample_watcher [] [] [] 0)"
    by (rule call_start) (simp add: openWatcher_def sample_watcher_def)
  ultimately show ?thesis
    by (rule reachable_step)
qed

lemmas watch_to = reachable_to [of watch_start watch_step]

lemmas sample_defs = sample_watcher_def sample_loop_def reconcile_def newLoop_def initialDelay_def normalDelay_def
  coalesce_def set_loop_def loop_at_def go_to_def

lemma sample_deploying:
  "watch_reachable (sample_watcher [sample_loop False 1 1 (Deploying 1)] [(''s'', 0)] [] 1)"
proof -
  have "watch_reachable (sample_watcher [sample_loop False 1 0 AtSelect] [(''s'', 0)] [0] 0)"
    by (rule watch_to [OF sample_opened call_reconcile [of _ "''s''"]]) (simp add: sample_defs)
  then have "watch_reachable (sample_watcher [sample_loop True 1 0 AtSelect] [(''s'', 0)] [] 0)"
    by (rule watch_to [OF _ send_wake [of 0]]) (simp_all add: sample_defs)
  then have "watch_reachable (sample_watcher [sample_loop False 1 0 AtSlot] [(''s'', 0)] [] 0)"
    by (rule watch_to [OF _ waited [of _ 0 "(True, 0, True)" "sample_watcher [sample_loop False 1 0 AtSelect] [(''s'', 0)] [] 0"]])
      (simp_all add: sample_defs waitForAction_def afterWait_def Let_def)
  then have "watch_reachable (sample_watcher [sample_loop False 1 0 AtGeneration] [(''s'', 0)] [] 1)"
    by (rule watch_to [OF _ slot_taken [of _ 0]]) (simp_all add: sample_defs)
  then show ?thesis
    by (rule watch_to [OF _ deploy_begun [of _ 0]]) (simp_all add: sample_defs)
qed

lemma sample_reconciled:
  "watch_reachable (sample_watcher [sample_loop True 2 1 (Deploying 1)] [(''s'', 0)] [] 1)"
proof -
  have "watch_reachable (sample_watcher [sample_loop False 2 1 (Deploying 1)] [(''s'', 0)] [0] 1)"
    by (rule watch_to [OF sample_deploying call_reconcile [of _ "''s''"]]) (simp add: sample_defs)
  then show ?thesis
    by (rule watch_to [OF _ send_wake [of 0]]) (simp_all add: sample_defs)
qed

theorem no_reconcile_lost_witness:
  "lp_served (sample_loop True 2 1 (Deploying 1)) = lp_requests (sample_loop True 2 1 (Deploying 1))
     \<or> lp_wake (sample_loop True 2 1 (Deploying 1)) \<or> 0 \<in> set ([] :: nat list)"
  using no_reconcile_lost [OF sample_reconciled, of 0] by (simp add: sample_watcher_def sample_loop_def)

text \<open>
  \<^bold>\<open>C30.\<close> The guarantee does not cover a failing store: when the desired state cannot be loaded after the
  deployment, the loop returns and its pending wake-up is dropped, although nothing was cancelled.
\<close>

theorem reconcile_lost_on_load_error:
  "\<exists>w i. watch_reachable w \<and> loop_at w i Ended \<and> lp_served (wa_loops w ! i) < lp_requests (wa_loops w ! i)
     \<and> wa_started w \<and> \<not> loop_done w i \<and> \<not> lp_stopped (wa_loops w ! i) \<and> wa_services w = []"
proof -
  have "watch_reachable (sample_watcher [sample_loop True 2 1 (Loading 1 None)] [(''s'', 0)] [] 0)"
    by (rule watch_to [OF sample_reconciled deploy_ended [of _ 0]]) (simp_all add: sample_defs)
  then have "watch_reachable (sample_watcher [sample_loop True 2 1 Removing] [(''s'', 0)] [] 0)"
    by (rule watch_to [OF _ loaded [of _ 0 1 None _ "Inl (External ''io'')"]]) (simp_all add: sample_defs afterDeploy_def)
  then have "watch_reachable (sample_watcher [sample_loop True 2 1 Ended] [] [] 0)"
    by (rule watch_to [OF _ removed [of _ 0]]) (simp_all add: sample_defs removeLoop_def)
  then show ?thesis
    by (intro exI [of _ "sample_watcher [sample_loop True 2 1 Ended] [] [] 0"] exI [of _ 0])
      (simp add: sample_watcher_def sample_loop_def loop_at_def loop_done_def)
qed

section \<open>Bounded concurrency\<close>

definition holds_slot :: "service_loop \<Rightarrow> bool" where
  "holds_slot l \<longleftrightarrow> lp_point l = AtGeneration \<or> (\<exists>g. lp_point l = Deploying g)"

definition slots_inv :: "watcher \<Rightarrow> bool" where
  "slots_inv w \<longleftrightarrow> wa_slots w = length (filter holds_slot (wa_loops w)) \<and> wa_slots w \<le> wa_concurrency w"

lemma slots_same:
  assumes "slots_inv w" "i < length (wa_loops w)" "holds_slot (f (wa_loops w ! i)) = holds_slot (wa_loops w ! i)"
  shows "slots_inv (set_loop i f w)"
  using assms length_filter_update [OF assms(2), of holds_slot "f (wa_loops w ! i)"]
  by (simp add: slots_inv_def set_loop_def)

lemma slots_fields [simp]:
  "slots_inv (w\<lparr>wa_services := ss\<rparr>) \<longleftrightarrow> slots_inv w" "slots_inv (w\<lparr>wa_wakes := ws\<rparr>) \<longleftrightarrow> slots_inv w"
  "slots_inv (w\<lparr>wa_resets := rs\<rparr>) \<longleftrightarrow> slots_inv w" "slots_inv (w\<lparr>wa_cancelled := cs\<rparr>) \<longleftrightarrow> slots_inv w"
  "slots_inv (w\<lparr>wa_started := b\<rparr>) \<longleftrightarrow> slots_inv w" "slots_inv (w\<lparr>wa_ctx := c\<rparr>) \<longleftrightarrow> slots_inv w"
  "slots_inv (w\<lparr>wa_contexts := k\<rparr>) \<longleftrightarrow> slots_inv w"
  "slots_inv (w\<lparr>wa_loops := wa_loops w @ [newLoop sid ctx r d]\<rparr>) \<longleftrightarrow> slots_inv w"
  by (simp_all add: slots_inv_def newLoop_def holds_slot_def)

lemma slots_stop:
  assumes "slots_inv w" "watch_inv w"
  shows "slots_inv (stopService sid w)"
  using assms watch_inv_registered [OF assms(2), of sid]
  by (auto simp: stopService_def holds_slot_def split: option.split intro!: slots_same)

lemma slots_append [simp]:
  "slots_inv (w\<lparr>wa_loops := wa_loops w @ [newLoop sid ctx r d], wa_services := ss\<rparr>) \<longleftrightarrow> slots_inv w"
  "slots_inv (w\<lparr>wa_loops := wa_loops w @ [newLoop sid ctx r d], wa_services := ss, wa_wakes := ws\<rparr>) \<longleftrightarrow> slots_inv w"
  by (simp_all add: slots_inv_def newLoop_def holds_slot_def)

lemma slots_reconcile:
  assumes "slots_inv w" "watch_inv w"
  shows "slots_inv (snd (reconcile sid w))"
  using assms watch_inv_registered [OF assms(2), of sid]
  by (auto simp: reconcile_def holds_slot_def split: option.split intro!: slots_same)

lemma slots_loaded:
  assumes "slots_inv w" "loop_at w i (Loading g err)"
  shows "slots_inv (afterDeploy n i g err desired w)"
  using assms by (auto simp: afterDeploy_def finishOneShot_def go_to_def loop_at_def holds_slot_def
      split: sum.split option.split intro!: slots_same)

lemma slots_waited:
  assumes "slots_inv w" "loop_at w i AtSelect" "(r, w') \<in> set (waitForAction i w)"
  shows "slots_inv (afterWait i r w')"
  using assms(3) by (cases rule: waitForAction_cases)
    (use assms(1,2) in \<open>auto simp: go_to_def loop_at_def holds_slot_def intro!: slots_same\<close>)

lemma slots_inv_step:
  assumes "watch_step w w'" "watch_inv w" "slots_inv w"
  shows "slots_inv w'"
  using assms
proof (induction rule: watch_step.induct)
  case (slot_taken w i)
  then show ?case
    using length_filter_update [of i "wa_loops w" holds_slot "(wa_loops w ! i)\<lparr>lp_point := AtGeneration\<rparr>"]
    by (simp add: slots_inv_def go_to_def set_loop_def loop_at_def holds_slot_def)
next
  case (deploy_ended w i g err)
  then show ?case
    using length_filter_update [of i "wa_loops w" holds_slot "(wa_loops w ! i)\<lparr>lp_point := Loading g err\<rparr>"]
    by (auto simp: slots_inv_def go_to_def set_loop_def loop_at_def holds_slot_def)
next
  case (call_track w n loaded sid retry)
  then show ?case
    by (simp add: track_def slots_stop split: sum.split option.split)
next
  case (call_start w w')
  then show ?case
    by (auto simp: openWatcher_def split: if_splits)
next
  case (call_notify w sid)
  then show ?case
    by (simp add: notifyService_def split: option.split)
next
  case (call_reconcile w sid)
  then show ?case
    by (intro slots_reconcile)
next
  case (send_wake i w)
  then show ?case
    unfolding coalesce_def by (intro slots_same) (simp_all add: watch_inv_def holds_slot_def)
next
  case (send_reset i d w)
  then have "i < length (wa_loops w)"
    by (force simp: watch_inv_def)
  with send_reset show ?case
    unfolding resetDelay_def by (intro slots_same) (simp_all add: holds_slot_def)
next
  case (loaded w i g err n desired)
  then show ?case
    by (intro slots_loaded)
next
  case (waited w i r w')
  then show ?case
    by (intro slots_waited)
next
  case (removed w i)
  then show ?case
    unfolding go_to_def by (intro slots_same) (simp_all add: removeLoop_def loop_at_def holds_slot_def)
qed (simp_all add: closeWatcher_def go_to_def loop_at_def holds_slot_def slots_same)

lemma slots_inv_initial: "watch_start w \<Longrightarrow> slots_inv w"
  by (auto simp: watch_start_def newWatcher_def Let_def slots_inv_def split: if_splits)

interpretation sw: layered_invariant watch_start watch_step watch_inv slots_inv
  by unfold_locales (fact slots_inv_initial, fact slots_inv_step)

text \<open>
  \<^bold>\<open>C31.\<close> At most \<^verbatim>\<open>Concurrency\<close> services are deployed at the same time, whatever the interleaving: the
  slots in use are exactly the loops between taking and returning one.
\<close>

theorem deployments_bounded:
  assumes "watch_reachable w"
  shows "length (filter holds_slot (wa_loops w)) = wa_slots w \<and> wa_slots w \<le> wa_concurrency w"
  using sw.both.invariant [OF assms] by (simp add: slots_inv_def)

theorem deployments_bounded_witness:
  "length (filter holds_slot [sample_loop True 2 1 (Deploying 1)]) = 1"
  using deployments_bounded [OF sample_reconciled] by (simp add: sample_watcher_def)

section \<open>Backoff\<close>

lemma doubleDelay_closed:
  assumes "0 < delay" "delay \<le> maximum"
  shows "doubleDelay delay maximum n =
    (if n = 0 then delay else if delay * 2 ^ (n - 1) \<ge> maximum div 2 then maximum else delay * 2 ^ n)"
  using assms
proof (induction n arbitrary: delay)
  case (Suc n)
  show ?case
  proof (cases "delay \<ge> maximum div 2")
    case True
    have "delay \<le> delay * 2 ^ n"
      using Suc.prems(1) by simp
    then show ?thesis
      using True by simp
  next
    case False
    then have "delay * 2 \<le> maximum"
      by linarith
    then show ?thesis
      using Suc.IH [of "delay * 2"] Suc.prems False by (cases n) (simp_all add: mult.assoc)
  qed
qed simp

lemma doubleDelay_range:
  assumes "0 < delay" "delay \<le> maximum"
  shows "delay \<le> doubleDelay delay maximum n \<and> doubleDelay delay maximum n \<le> maximum
    \<and> doubleDelay delay maximum n \<le> doubleDelay delay maximum (Suc n)"
proof (cases n)
  case (Suc k)
  define p where "p = delay * 2 ^ k"
  have p: "delay \<le> p"
    using assms(1) by (simp add: p_def)
  have "doubleDelay delay maximum n = (if p \<ge> maximum div 2 then maximum else 2 * p)"
    "doubleDelay delay maximum (Suc n) = (if 2 * p \<ge> maximum div 2 then maximum else 4 * p)"
    unfolding doubleDelay_closed [OF assms] by (simp_all add: p_def Suc)
  then show ?thesis
    using p assms by (simp only:) (simp; linarith)
next
  case 0
  then show ?thesis
    using assms by auto
qed

text \<open>
  The delay after failures in a row doubles with each of them until the next step would come
  within a factor of two of the maximum, where it jumps to the maximum and stays: it lies between the
  base and the maximum and never decreases with the number of failures.
\<close>

lemma exponential_delay_doubles:
  assumes "0 < base" "base \<le> maximum" "1 \<le> failures"
  shows "exponentialDelay base maximum failures =
      (if failures = 1 then base
       else if base * 2 ^ nat (failures - 2) \<ge> maximum div 2 then maximum else base * 2 ^ nat (failures - 1))
    \<and> base \<le> exponentialDelay base maximum failures \<and> exponentialDelay base maximum failures \<le> maximum
    \<and> exponentialDelay base maximum failures \<le> exponentialDelay base maximum (failures + 1)"
proof -
  define n where "n = nat (failures - 1)"
  have n: "exponentialDelay base maximum failures = doubleDelay base maximum n"
    "exponentialDelay base maximum (failures + 1) = doubleDelay base maximum (Suc n)"
    "failures = 1 \<longleftrightarrow> n = 0" "nat (failures - 2) = n - 1"
    using assms(3) by (auto simp: exponentialDelay_def n_def nat_diff_distrib')
  show ?thesis
    unfolding n using doubleDelay_closed [OF assms(1,2), of n] doubleDelay_range [OF assms(1,2), of n]
    by (simp add: n_def)
qed

lemma exponential_delay_doubles_witness:
  "map (exponentialDelay 60 900) [1, 2, 3, 4, 5, 6] = [60, 120, 240, 480, 900, 900]
   \<and> exponentialDelay 60 900 5 \<le> exponentialDelay 60 900 6"
  using exponential_delay_doubles [of 60 900 5] by (simp add: exponentialDelay_def numeral_eq_Suc)

end
