(* ===== verification/Resource_Lock.thy ===== *)
theory Resource_Lock
  imports Transition
begin

text \<open>
  Package \<^verbatim>\<open>resourcelock\<close>: a pool with one reference-counted mutex per resource. A lock object is its
  number in \<open>rl_objects\<close>; a client is one caller between \<^verbatim>\<open>Get\<close> and the end of \<^verbatim>\<open>Unlock\<close> or a failed
  \<^verbatim>\<open>TryLock\<close>. \<^verbatim>\<open>Unlock\<close> and a failing \<^verbatim>\<open>TryLock\<close> leave the mutex and drop their
  reference in two steps.
\<close>

section \<open>Data and operations\<close>

record lock_object =
  lk_key :: string
  lk_held :: bool
  lk_refs :: int

datatype client_state = Got | Holding | Releasing | Gone

record pool =
  rl_locks :: "(string \<times> nat) list"
  rl_objects :: "lock_object list"
  rl_clients :: "(nat \<times> client_state) list"

definition emptyPool :: pool where
  "emptyPool = \<lparr>rl_locks = [], rl_objects = [], rl_clients = []\<rparr>"

definition set_object :: "nat \<Rightarrow> lock_object \<Rightarrow> pool \<Rightarrow> pool" where
  "set_object a l p = p\<lparr>rl_objects := (rl_objects p)[a := l]\<rparr>"

definition get :: "string \<Rightarrow> pool \<Rightarrow> nat \<times> pool" where
  "get key p =
     (let (a, p) = (case map_of (rl_locks p) key of
            Some a \<Rightarrow> (a, p)
          | None \<Rightarrow> (length (rl_objects p),
              p\<lparr>rl_objects := rl_objects p @ [\<lparr>lk_key = key, lk_held = False, lk_refs = 0\<rparr>],
                rl_locks := AList.update key (length (rl_objects p)) (rl_locks p)\<rparr>));
          l = rl_objects p ! a
      in (a, set_object a (l\<lparr>lk_refs := lk_refs l + 1\<rparr>) p))"

definition releaseReference :: "nat \<Rightarrow> pool \<Rightarrow> pool" where
  "releaseReference a p =
     (let l = rl_objects p ! a;
          p = set_object a (l\<lparr>lk_refs := lk_refs l - 1\<rparr>) p
      in if lk_refs l - 1 = 0 \<and> map_of (rl_locks p) (lk_key l) = Some a
         then p\<lparr>rl_locks := AList.delete (lk_key l) (rl_locks p)\<rparr> else p)"

definition acquire :: "nat \<Rightarrow> pool \<Rightarrow> pool" where
  "acquire a p = set_object a ((rl_objects p ! a)\<lparr>lk_held := True\<rparr>) p"

text \<open>The attempt of \<^verbatim>\<open>TryLock\<close> on the mutex; when it fails, the reference is dropped by a later step.\<close>

definition tryLock :: "nat \<Rightarrow> pool \<Rightarrow> bool \<times> pool" where
  "tryLock a p = (if \<not> lk_held (rl_objects p ! a) then (True, acquire a p) else (False, p))"

definition releaseMutex :: "nat \<Rightarrow> pool \<Rightarrow> pool" where
  "releaseMutex a p = set_object a ((rl_objects p ! a)\<lparr>lk_held := False\<rparr>) p"

section \<open>Clients\<close>

definition client_at :: "pool \<Rightarrow> nat \<Rightarrow> nat \<Rightarrow> client_state \<Rightarrow> bool" where
  "client_at p c a st \<longleftrightarrow> c < length (rl_clients p) \<and> rl_clients p ! c = (a, st)"

definition set_client :: "nat \<Rightarrow> nat \<Rightarrow> client_state \<Rightarrow> pool \<Rightarrow> pool" where
  "set_client c a st p = p\<lparr>rl_clients := (rl_clients p)[c := (a, st)]\<rparr>"

inductive lock_step :: "pool \<Rightarrow> pool \<Rightarrow> bool" where
  step_get: "get key p = (a, p') \<Longrightarrow> lock_step p (p'\<lparr>rl_clients := rl_clients p' @ [(a, Got)]\<rparr>)"
| step_lock: "client_at p c a Got \<Longrightarrow> \<not> lk_held (rl_objects p ! a) \<Longrightarrow> lock_step p (set_client c a Holding (acquire a p))"
| step_try: "client_at p c a Got \<Longrightarrow> tryLock a p = (ok, p') \<Longrightarrow>
    lock_step p (set_client c a (if ok then Holding else Releasing) p')"
| step_unlock: "client_at p c a Holding \<Longrightarrow> lock_step p (set_client c a Releasing (releaseMutex a p))"
| step_drop: "client_at p c a Releasing \<Longrightarrow> lock_step p (set_client c a Gone (releaseReference a p))"

abbreviation "lock_reachable \<equiv> reachable (\<lambda>p. p = emptyPool) lock_step"

section \<open>The invariant\<close>

text \<open>The references of an object are its clients that are not gone, and it is held by at most one.\<close>

definition users :: "pool \<Rightarrow> nat \<Rightarrow> nat" where
  "users p a = length (filter (\<lambda>c. fst c = a \<and> snd c \<noteq> Gone) (rl_clients p))"

definition holders :: "pool \<Rightarrow> nat \<Rightarrow> nat" where
  "holders p a = length (filter (\<lambda>c. fst c = a \<and> snd c = Holding) (rl_clients p))"

definition object_ok :: "pool \<Rightarrow> nat \<Rightarrow> lock_object \<Rightarrow> bool" where
  "object_ok p a l \<longleftrightarrow> lk_refs l = int (users p a) \<and> holders p a = of_bool (lk_held l)
     \<and> (map_of (rl_locks p) (lk_key l) = Some a \<longleftrightarrow> 0 < users p a)"

definition lock_inv :: "pool \<Rightarrow> bool" where
  "lock_inv p \<longleftrightarrow> (\<forall>a<length (rl_objects p). object_ok p a (rl_objects p ! a))
     \<and> (\<forall>k a. map_of (rl_locks p) k = Some a \<longrightarrow> a < length (rl_objects p) \<and> lk_key (rl_objects p ! a) = k)
     \<and> (\<forall>c\<in>set (rl_clients p). fst c < length (rl_objects p))"

lemma lock_inv_empty: "lock_inv emptyPool"
  by (simp add: lock_inv_def emptyPool_def)

lemma users_client:
  assumes "client_at p c a st"
  shows "users (set_client c a st' p) b + of_bool (a = b \<and> st \<noteq> Gone) = users p b + of_bool (a = b \<and> st' \<noteq> Gone)"
    and "holders (set_client c a st' p) b + of_bool (a = b \<and> st = Holding) = holders p b + of_bool (a = b \<and> st' = Holding)"
  using assms length_filter_update [of c "rl_clients p" "\<lambda>c. fst c = b \<and> snd c \<noteq> Gone" "(a, st')"]
    length_filter_update [of c "rl_clients p" "\<lambda>c. fst c = b \<and> snd c = Holding" "(a, st')"]
  by (auto simp: users_def holders_def client_at_def set_client_def)

lemma users_object [simp]: "users (set_object a l p) = users p" "holders (set_object a l p) = holders p"
  by (auto simp: users_def holders_def set_object_def fun_eq_iff)

lemma client_in:
  assumes "lock_inv p" "client_at p c a st"
  shows "(a, st) \<in> set (rl_clients p)" "a < length (rl_objects p)"
proof -
  show m: "(a, st) \<in> set (rl_clients p)"
    using assms(2) nth_mem [of c "rl_clients p"] by (simp add: client_at_def)
  show "a < length (rl_objects p)"
    using assms(1) m unfolding lock_inv_def by fastforce
qed

lemma client_users:
  assumes "lock_inv p" "client_at p c a st"
  shows "st \<noteq> Gone \<Longrightarrow> 0 < users p a" "st = Holding \<Longrightarrow> 0 < holders p a"
  using client_in(1) [OF assms]
  by (force simp: users_def holders_def length_greater_0_conv filter_empty_conv simp del: length_0_conv)+

lemma object_okD: "lock_inv p \<Longrightarrow> a < length (rl_objects p) \<Longrightarrow> object_ok p a (rl_objects p ! a)"
  by (simp add: lock_inv_def)

text \<open>A client moves and the object it uses changes with it.\<close>

lemma lock_inv_move:
  assumes inv: "lock_inv p" and c: "client_at p c a st"
    and l: "lk_key l = lk_key (rl_objects p ! a)"
      "lk_refs l + of_bool (st \<noteq> Gone) = lk_refs (rl_objects p ! a) + of_bool (st' \<noteq> Gone)"
      "of_bool (lk_held l) + of_bool (st = Holding) = (of_bool (lk_held (rl_objects p ! a)) + of_bool (st' = Holding) :: nat)"
    and ls: "\<And>k b. map_of ls k = Some b \<longleftrightarrow> map_of (rl_locks p) k = Some b \<and> (b = a \<longrightarrow> lk_refs l \<noteq> 0)"
    and st: "st \<noteq> Gone"
  shows "lock_inv (set_client c a st' ((set_object a l p)\<lparr>rl_locks := ls\<rparr>))"
proof -
  let ?p = "set_client c a st' ((set_object a l p)\<lparr>rl_locks := ls\<rparr>)"
  have a: "a < length (rl_objects p)"
    by (rule client_in(2) [OF inv c])
  have same: "users ?p b = users (set_client c a st' p) b" "holders ?p b = holders (set_client c a st' p) b" for b
    by (simp_all add: users_def holders_def set_client_def set_object_def)
  have objs: "rl_objects ?p = (rl_objects p)[a := l]" "rl_locks ?p = ls"
    by (simp_all add: set_client_def set_object_def)
  have old: "object_ok p b (rl_objects p ! b)" if "b < length (rl_objects p)" for b
    using inv that by (simp add: lock_inv_def)
  have ok: "object_ok ?p b (rl_objects ?p ! b)" if b: "b < length (rl_objects p)" for b
  proof (cases "b = a")
    case True
    have pos: "0 < users p a"
      using client_users(1) [OF inv c st] .
    have u: "int (users ?p a) = lk_refs l"
      using old [OF a] users_client(1) [OF c, of st' a] l(2) st unfolding same object_ok_def
      by (cases "st' = Gone") simp_all
    have h: "holders ?p a = of_bool (lk_held l)"
      using old [OF a] users_client(2) [OF c, of st' a] l(3) unfolding same object_ok_def by simp
    show ?thesis
      using True a u pos h old [OF a] l(1) ls [of "lk_key l" a] unfolding object_ok_def objs by auto
  next
    case False
    then have "users ?p b = users p b" "holders ?p b = holders p b"
      using users_client [OF c, of st' b] unfolding same by simp_all
    then show ?thesis
      using False old [OF b] ls [of "lk_key (rl_objects p ! b)" b] by (simp add: object_ok_def objs)
  qed
  moreover have "b < length (rl_objects ?p) \<and> lk_key (rl_objects ?p ! b) = k" if "map_of (rl_locks ?p) k = Some b" for k b
    using that inv a l(1) unfolding objs ls lock_inv_def by (cases "b = a") auto
  moreover have "\<forall>x\<in>set (rl_clients ?p). fst x < length (rl_objects ?p)"
    using inv a by (auto simp: lock_inv_def set_client_def set_object_def dest!: set_update_subset_insert [THEN subsetD])
  ultimately show ?thesis
    unfolding lock_inv_def objs by simp
qed

lemma lock_inv_keep:
  assumes "lock_inv p" "client_at p c a st" "st \<noteq> Gone" "st' \<noteq> Gone"
    and "of_bool b + of_bool (st = Holding) = (of_bool (lk_held (rl_objects p ! a)) + of_bool (st' = Holding) :: nat)"
  shows "lock_inv (set_client c a st' (set_object a ((rl_objects p ! a)\<lparr>lk_held := b\<rparr>) p))"
proof -
  let ?l = "(rl_objects p ! a)\<lparr>lk_held := b\<rparr>"
  have "lk_refs ?l \<noteq> 0"
    using object_okD [OF assms(1) client_in(2) [OF assms(1,2)]] client_users(1) [OF assms(1-3)] by (simp add: object_ok_def)
  then have "lock_inv (set_client c a st' ((set_object a ?l p)\<lparr>rl_locks := rl_locks p\<rparr>))"
    using assms by (intro lock_inv_move) simp_all
  moreover have "(set_object a ?l p)\<lparr>rl_locks := rl_locks p\<rparr> = set_object a ?l p"
    by (cases p) (simp add: set_object_def)
  ultimately show ?thesis
    by simp
qed

lemma lock_inv_drop:
  assumes "lock_inv p" "client_at p c a st" "st \<notin> {Gone, Holding}"
  shows "lock_inv (set_client c a Gone (releaseReference a p))"
proof -
  let ?l = "(rl_objects p ! a)\<lparr>lk_refs := lk_refs (rl_objects p ! a) - 1\<rparr>"
  let ?k = "lk_key (rl_objects p ! a)"
  let ?ls = "if lk_refs ?l = 0 \<and> map_of (rl_locks p) ?k = Some a then AList.delete ?k (rl_locks p) else rl_locks p"
  have reg: "map_of (rl_locks p) ?k = Some a"
    using object_okD [OF assms(1) client_in(2) [OF assms(1,2)]] client_users(1) [OF assms(1,2)] assms(3)
    by (simp add: object_ok_def)
  have key: "map_of (rl_locks p) k = Some a \<Longrightarrow> k = ?k" for k
    using assms(1) by (simp add: lock_inv_def)
  have "releaseReference a p = (set_object a ?l p)\<lparr>rl_locks := ?ls\<rparr>"
    by (cases p) (simp add: releaseReference_def set_object_def Let_def)
  moreover have "map_of ?ls k = Some b \<longleftrightarrow> map_of (rl_locks p) k = Some b \<and> (b = a \<longrightarrow> lk_refs ?l \<noteq> 0)" for k b
  proof (cases "lk_refs ?l = 0")
    case True
    then show ?thesis
      using reg key [of k] by (cases "k = ?k") auto
  qed simp
  then have "lock_inv (set_client c a Gone ((set_object a ?l p)\<lparr>rl_locks := ?ls\<rparr>))"
    using assms(3) by (intro lock_inv_move [OF assms(1,2)]) simp_all
  ultimately show ?thesis
    by simp
qed

lemma users_new:
  "users (p\<lparr>rl_clients := rl_clients p @ [(a, Got)]\<rparr>) b = users p b + of_bool (a = b)"
  "holders (p\<lparr>rl_clients := rl_clients p @ [(a, Got)]\<rparr>) b = holders p b"
  by (simp_all add: users_def holders_def)

lemma lock_inv_get_existing:
  assumes inv: "lock_inv p" and b: "map_of (rl_locks p) key = Some b"
  shows "lock_inv ((set_object b ((rl_objects p ! b)\<lparr>lk_refs := lk_refs (rl_objects p ! b) + 1\<rparr>) p)
    \<lparr>rl_clients := rl_clients p @ [(b, Got)]\<rparr>)"
proof -
  let ?q = "set_object b ((rl_objects p ! b)\<lparr>lk_refs := lk_refs (rl_objects p ! b) + 1\<rparr>) p"
  have q: "rl_clients ?q = rl_clients p" "rl_locks ?q = rl_locks p" "length (rl_objects ?q) = length (rl_objects p)"
    by (simp_all add: set_object_def)
  have len: "b < length (rl_objects p)" "lk_key (rl_objects p ! b) = key"
    using inv b by (auto simp: lock_inv_def)
  have at: "rl_objects ?q ! x = (if x = b then (rl_objects p ! b)\<lparr>lk_refs := lk_refs (rl_objects p ! b) + 1\<rparr> else rl_objects p ! x)" for x
    using len(1) by (simp add: set_object_def)
  have "object_ok (?q\<lparr>rl_clients := rl_clients ?q @ [(b, Got)]\<rparr>) x (rl_objects ?q ! x)" if "x < length (rl_objects p)" for x
  proof -
    have "object_ok p x (rl_objects p ! x)"
      using inv that by (simp add: lock_inv_def)
    then show ?thesis
      using b len unfolding object_ok_def users_new at by (auto simp: q)
  qed
  then show ?thesis
    using inv len unfolding lock_inv_def q by (auto simp: q at)
qed

lemma lock_inv_get_new:
  assumes inv: "lock_inv p" and none: "map_of (rl_locks p) key = None"
  shows "lock_inv (p\<lparr>rl_locks := AList.update key (length (rl_objects p)) (rl_locks p),
    rl_objects := rl_objects p @ [\<lparr>lk_key = key, lk_held = False, lk_refs = 1\<rparr>], rl_clients := rl_clients p @ [(length (rl_objects p), Got)]\<rparr>)"
    (is "lock_inv ?q")
proof -
  let ?n = "length (rl_objects p)"
  have u: "users ?q x = users p x + of_bool (?n = x)" "holders ?q x = holders p x" for x
    by (simp_all add: users_def holders_def)
  have fresh: "users p ?n = 0" "holders p ?n = 0"
    using inv by (auto simp: lock_inv_def users_def holders_def filter_empty_conv)
  have "object_ok ?q x (rl_objects ?q ! x)" if "x < length (rl_objects ?q)" for x
  proof (cases "x = ?n")
    case True
    then show ?thesis
      using fresh unfolding object_ok_def u by simp
  next
    case False
    then have "object_ok p x (rl_objects p ! x)"
      using inv that by (simp add: lock_inv_def)
    then show ?thesis
      using False that none unfolding object_ok_def u by (auto simp: nth_append)
  qed
  moreover have "x < length (rl_objects ?q) \<and> lk_key (rl_objects ?q ! x) = k" if "map_of (rl_locks ?q) k = Some x" for k x
    using that inv by (auto simp: lock_inv_def nth_append less_Suc_eq split: if_splits)
  ultimately show ?thesis
    using inv unfolding lock_inv_def by (auto simp: less_Suc_eq)
qed

lemma lock_inv_get:
  assumes "lock_inv p" "get key p = (a, p')"
  shows "lock_inv (p'\<lparr>rl_clients := rl_clients p' @ [(a, Got)]\<rparr>)"
proof (cases "map_of (rl_locks p) key")
  case (Some b)
  then show ?thesis
    using assms(2) lock_inv_get_existing [OF assms(1) Some] by (auto simp: get_def Let_def set_object_def)
next
  case None
  then show ?thesis
    using assms(2) lock_inv_get_new [OF assms(1) None] by (auto simp: get_def Let_def set_object_def)
qed

lemma lock_inv_step: "lock_step p p' \<Longrightarrow> lock_inv p \<Longrightarrow> lock_inv p'"
proof (induction rule: lock_step.induct)
  case (step_get key p a p')
  then show ?case
    by (intro lock_inv_get)
next
  case (step_lock p c a)
  then show ?case
    unfolding acquire_def by (intro lock_inv_keep [where st = Got]) simp_all
next
  case (step_try p c a ok p')
  show ?case
  proof (cases "lk_held (rl_objects p ! a)")
    case True
    then have "ok = False" "p' = p"
      using step_try(2) by (simp_all add: tryLock_def)
    moreover have "set_object a ((rl_objects p ! a)\<lparr>lk_held := lk_held (rl_objects p ! a)\<rparr>) p = p"
      by (simp add: set_object_def)
    ultimately show ?thesis
      using lock_inv_keep [OF step_try(3,1), of Releasing "lk_held (rl_objects p ! a)"] by simp
  next
    case False
    then have "ok = True" "p' = acquire a p"
      using step_try(2) by (simp_all add: tryLock_def)
    then show ?thesis
      using lock_inv_keep [OF step_try(3,1), of Holding True] False by (simp add: acquire_def)
  qed
next
  case (step_unlock p c a)
  have "lk_held (rl_objects p ! a)"
    using object_okD [OF step_unlock(2) client_in(2) [OF step_unlock(2,1)]] client_users(2) [OF step_unlock(2,1)]
    by (simp add: object_ok_def split: if_splits)
  with step_unlock show ?case
    unfolding releaseMutex_def by (intro lock_inv_keep [where st = Holding]) simp_all
next
  case (step_drop p c a)
  then show ?case
    by (intro lock_inv_drop [where st = Releasing]) simp_all
qed

interpretation lp: inductive_invariant "\<lambda>p. p = emptyPool" lock_step lock_inv
  by unfold_locales (simp add: lock_inv_empty, fact lock_inv_step)

text \<open>
  \<^bold>\<open>C8.\<close> The pool excludes mutually by key and keeps no idle lock, whatever the interleaving: two
  clients that hold a lock of the same key are the same client, although lock objects come and go, and
  the table has an entry for a key exactly while some client has got its lock and not given it back.
\<close>

theorem pool_mutual_exclusion:
  assumes "lock_reachable p"
  shows "(client_at p c a Holding \<and> client_at p d b Holding
      \<and> lk_key (rl_objects p ! a) = lk_key (rl_objects p ! b) \<longrightarrow> c = d)
    \<and> (map_of (rl_locks p) k \<noteq> None \<longleftrightarrow>
        (\<exists>c a st. client_at p c a st \<and> st \<noteq> Gone \<and> lk_key (rl_objects p ! a) = k))"
proof -
  have inv: "lock_inv p"
    by (rule lp.invariant [OF assms])
  have reg: "map_of (rl_locks p) (lk_key (rl_objects p ! a)) = Some a" if "client_at p c a st" "st \<noteq> Gone" for c a st
    using object_okD [OF inv client_in(2) [OF inv that(1)]] client_users(1) [OF inv that] by (simp add: object_ok_def)
  have excl: "c = d" if c: "client_at p c a Holding" and d: "client_at p d b Holding"
    and k: "lk_key (rl_objects p ! a) = lk_key (rl_objects p ! b)"
  proof (rule ccontr)
    assume "c \<noteq> d"
    have "map_of (rl_locks p) (lk_key (rl_objects p ! a)) = Some a" "map_of (rl_locks p) (lk_key (rl_objects p ! b)) = Some b"
      by (rule reg [OF c], simp, rule reg [OF d], simp)
    then have ab: "a = b"
      unfolding k by simp
    have "card {c, d} \<le> card {i. i < length (rl_clients p) \<and> fst (rl_clients p ! i) = a \<and> snd (rl_clients p ! i) = Holding}"
      using c d ab by (intro card_mono) (auto simp: client_at_def)
    then have "2 \<le> holders p a"
      using \<open>c \<noteq> d\<close> by (simp add: holders_def length_filter_conv_card)
    then show False
      using object_okD [OF inv client_in(2) [OF inv c]] by (cases "lk_held (rl_objects p ! a)") (simp_all add: object_ok_def)
  qed
  have "\<exists>c st. client_at p c a st \<and> st \<noteq> Gone" if "map_of (rl_locks p) k = Some a" for a
  proof -
    have "a < length (rl_objects p)" "lk_key (rl_objects p ! a) = k"
      using inv that by (auto simp: lock_inv_def)
    then have "0 < users p a"
      using object_okD [OF inv] that by (auto simp: object_ok_def)
    then obtain x where "x \<in> set (rl_clients p)" "fst x = a" "snd x \<noteq> Gone"
      by (auto simp: users_def length_greater_0_conv filter_empty_conv simp del: length_0_conv)
    then show ?thesis
      by (metis client_at_def in_set_conv_nth prod.collapse)
  qed
  moreover have "lk_key (rl_objects p ! a) = k" if "map_of (rl_locks p) k = Some a" for a
    using inv that by (simp add: lock_inv_def)
  ultimately have "map_of (rl_locks p) k \<noteq> None \<longrightarrow> (\<exists>c a st. client_at p c a st \<and> st \<noteq> Gone \<and> lk_key (rl_objects p ! a) = k)"
    by blast
  moreover have "map_of (rl_locks p) k \<noteq> None" if "client_at p c a st" "st \<noteq> Gone" "lk_key (rl_objects p ! a) = k" for c a st
    using reg [OF that(1,2)] that(3) by simp
  ultimately show ?thesis
    using excl by blast
qed

theorem pool_mutual_exclusion_witness:
  "\<exists>p. lock_reachable p \<and> client_at p 0 0 Holding \<and> client_at p 1 0 Got
     \<and> (\<forall>d b. client_at p d b Holding \<and> lk_key (rl_objects p ! b) = ''s'' \<longrightarrow> d = 0)"
proof -
  let ?p1 = "\<lparr>rl_locks = [(''s'', 0)], rl_objects = [\<lparr>lk_key = ''s'', lk_held = False, lk_refs = 1\<rparr>], rl_clients = [(0, Got)]\<rparr>"
  let ?p2 = "\<lparr>rl_locks = [(''s'', 0)], rl_objects = [\<lparr>lk_key = ''s'', lk_held = True, lk_refs = 1\<rparr>], rl_clients = [(0, Holding)]\<rparr>"
  let ?p3 = "\<lparr>rl_locks = [(''s'', 0)], rl_objects = [\<lparr>lk_key = ''s'', lk_held = True, lk_refs = 2\<rparr>], rl_clients = [(0, Holding), (0, Got)]\<rparr>"
  have "lock_step emptyPool ?p1"
    using step_get [of "''s''" emptyPool] by (simp add: get_def emptyPool_def set_object_def)
  moreover have "lock_step ?p1 ?p2"
    using step_lock [of ?p1 0 0] by (simp add: client_at_def set_client_def acquire_def set_object_def)
  moreover have "lock_step ?p2 ?p3"
    using step_get [of "''s''" ?p2] by (simp add: get_def set_object_def)
  moreover have "lock_reachable emptyPool"
    by (rule reachable_start) simp
  ultimately have reach: "lock_reachable ?p3"
    by (blast intro: reachable_step)
  have "client_at ?p3 0 0 Holding" "client_at ?p3 1 0 Got"
    by (simp_all add: client_at_def)
  moreover from this(1) have "client_at ?p3 d b Holding \<and> lk_key (rl_objects ?p3 ! b) = ''s'' \<longrightarrow> d = 0" for d b
    using pool_mutual_exclusion [OF reach, of d b 0 0 "''s''"] by simp
  ultimately show ?thesis
    using reach by blast
qed

end
