(* ===== verification/Go_Base64.thy ===== *)
theory Go_Base64
  imports Go_Prelude
begin

text \<open>
  \<^verbatim>\<open>base64.RawURLEncoding\<close>: the alphabet of URLs and file names, without padding. The decoder skips
  carriage returns and line feeds, refuses every other byte outside the alphabet and a single left-over
  digit, and ignores the unused bits of the last digit, as the decoder of the standard library does.
\<close>

type_synonym bytes = "8 word list"

section \<open>Digits\<close>

definition b64_alphabet :: string where
  "b64_alphabet = ''ABCDEFGHIJKLMNOPQRSTUVWXYZabcdefghijklmnopqrstuvwxyz0123456789-_''"

definition b64_digit :: "nat \<Rightarrow> char" where
  "b64_digit n = b64_alphabet ! n"

fun index_of :: "'a \<Rightarrow> 'a list \<Rightarrow> nat option" where
  "index_of x [] = None"
| "index_of x (y # ys) = (if x = y then Some 0 else map_option Suc (index_of x ys))"

definition b64_value :: "char \<Rightarrow> nat option" where
  "b64_value c = index_of c b64_alphabet"

lemma index_of_nth: "distinct ys \<Longrightarrow> i < length ys \<Longrightarrow> index_of (ys ! i) ys = Some i"
proof (induction ys arbitrary: i)
  case (Cons y ys)
  then show ?case
    by (cases i) (auto dest: nth_mem)
qed simp

lemma index_of_Some: "index_of x ys = Some i \<Longrightarrow> i < length ys \<and> ys ! i = x"
  by (induction ys arbitrary: i) (auto split: if_splits)

lemma b64_alphabet_facts: "length b64_alphabet = 64" "distinct b64_alphabet"
  by (simp_all add: b64_alphabet_def)

lemma b64_value_digit [simp]: "n < 64 \<Longrightarrow> b64_value (b64_digit n) = Some n"
  unfolding b64_value_def b64_digit_def by (rule index_of_nth) (simp_all add: b64_alphabet_facts)

lemma b64_value_range: "b64_value c = Some n \<Longrightarrow> n < 64 \<and> b64_digit n = c"
  unfolding b64_value_def b64_digit_def by (drule index_of_Some) (simp add: b64_alphabet_facts)

section \<open>Encoding and decoding\<close>

fun b64_groups :: "nat list \<Rightarrow> nat list" where
  "b64_groups (a # b # c # r) = (a div 4) # ((a mod 4) * 16 + b div 16) # ((b mod 16) * 4 + c div 64) # (c mod 64) # b64_groups r"
| "b64_groups [a, b] = [a div 4, (a mod 4) * 16 + b div 16, (b mod 16) * 4]"
| "b64_groups [a] = [a div 4, (a mod 4) * 16]"
| "b64_groups [] = []"

fun b64_ungroup :: "nat list \<Rightarrow> nat list option" where
  "b64_ungroup (p # q # r # s # t) =
     map_option (\<lambda>u. (p * 4 + q div 16) # ((q mod 16) * 16 + r div 4) # ((r mod 4) * 64 + s) # u) (b64_ungroup t)"
| "b64_ungroup [p, q, r] = Some [p * 4 + q div 16, (q mod 16) * 16 + r div 4]"
| "b64_ungroup [p, q] = Some [p * 4 + q div 16]"
| "b64_ungroup [p] = None"
| "b64_ungroup [] = Some []"

definition b64_encode :: "bytes \<Rightarrow> string" where
  "b64_encode bs = map b64_digit (b64_groups (map unat bs))"

fun all_some :: "'a option list \<Rightarrow> 'a list option" where
  "all_some [] = Some []"
| "all_some (None # r) = None"
| "all_some (Some x # r) = map_option (Cons x) (all_some r)"

definition b64_decode :: "string \<Rightarrow> bytes option" where
  "b64_decode s =
     (case all_some (map b64_value (filter (\<lambda>c. c \<noteq> CHR 0x0A \<and> c \<noteq> CHR 0x0D) s)) of
        None \<Rightarrow> None
      | Some ds \<Rightarrow> map_option (map of_nat) (b64_ungroup ds))"

section \<open>Round trip\<close>

lemma all_some_map: "(\<And>x. x \<in> set xs \<Longrightarrow> f x = Some (g x)) \<Longrightarrow> all_some (map f xs) = Some (map g xs)"
  by (induction xs) auto

lemma all_some_length: "all_some xs = Some ys \<Longrightarrow> length ys = length xs"
  by (induction xs arbitrary: ys rule: all_some.induct) auto

lemma b64_groups_range: "\<forall>x\<in>set xs. x < 256 \<Longrightarrow> d \<in> set (b64_groups xs) \<Longrightarrow> d < 64"
proof (induction xs rule: b64_groups.induct)
  case (1 a b c r)
  then have "a div 4 < 64" "b div 16 < 16" "c div 64 < 4" "a < 256" "b < 256"
    by auto
  moreover have "a mod 4 < 4" "b mod 16 < 16" "c mod 64 < 64"
    by simp_all
  ultimately have "a div 4 < 64" "(a mod 4) * 16 + b div 16 < 64" "(b mod 16) * 4 + c div 64 < 64" "c mod 64 < 64"
    by linarith+
  with 1 show ?case
    by auto
next
  case (2 a b)
  then have "a div 4 < 64" "b div 16 < 16"
    by auto
  moreover have "a mod 4 < 4" "b mod 16 < 16"
    by simp_all
  ultimately have "a div 4 < 64" "(a mod 4) * 16 + b div 16 < 64" "(b mod 16) * 4 < 64"
    by linarith+
  with 2 show ?case
    by auto
next
  case (3 a)
  then have "a div 4 < 64"
    by auto
  moreover have "a mod 4 * 16 < 64"
    using mod_less_divisor [of 4 a] by linarith
  ultimately show ?case
    using 3 by auto
qed simp

lemma b64_ungroup_groups: "\<forall>x\<in>set xs. x < 256 \<Longrightarrow> b64_ungroup (b64_groups xs) = Some xs"
proof (induction xs rule: b64_groups.induct)
  case (1 a b c r)
  then have "b div 16 < 16" "c div 64 < 4"
    by auto
  then have "b div 16 div 16 = 0" "b div 16 mod 16 = b div 16" "c div 64 div 4 = 0" "c div 64 mod 4 = c div 64"
    by simp_all
  with 1 show ?case
    by simp
qed auto

lemma length_b64_groups: "length (b64_groups xs) = (8 * length xs + 5) div 6"
  by (induction xs rule: b64_groups.induct) auto

lemma length_b64_encode [simp]: "length (b64_encode bs) = (8 * length bs + 5) div 6"
  by (simp add: b64_encode_def length_b64_groups)

lemma byte_range: "\<forall>x\<in>set (map unat (bs :: bytes)). x < 256"
  by (auto intro: order_less_le_trans [OF unsigned_less])

lemma b64_digit_graphic: "n < 64 \<Longrightarrow> b64_digit n \<in> set b64_alphabet"
  by (simp add: b64_digit_def b64_alphabet_facts)

lemma b64_encode_chars: "set (b64_encode bs) \<subseteq> set b64_alphabet"
  unfolding b64_encode_def using b64_groups_range [OF byte_range] b64_digit_graphic by auto

lemma no_newline_in_alphabet: "CHR 0x0A \<notin> set b64_alphabet" "CHR 0x0D \<notin> set b64_alphabet"
  by (simp_all add: b64_alphabet_def)

lemma b64_decode_encode [simp]: "b64_decode (b64_encode bs) = Some bs"
proof -
  have "filter (\<lambda>c. c \<noteq> CHR 0x0A \<and> c \<noteq> CHR 0x0D) (b64_encode bs) = b64_encode bs"
    using b64_encode_chars [of bs] no_newline_in_alphabet by (auto simp: filter_id_conv)
  moreover have "all_some (map b64_value (b64_encode bs)) = Some (b64_groups (map unat bs))"
    unfolding b64_encode_def using b64_groups_range [OF byte_range [of bs]]
    by (simp add: comp_def) (subst all_some_map [where g = id], simp_all)
  ultimately show ?thesis
    by (simp add: b64_decode_def b64_ungroup_groups [OF byte_range] comp_def)
qed

lemma b64_encode_inj: "b64_encode bs = b64_encode cs \<Longrightarrow> bs = cs"
  by (metis b64_decode_encode option.inject)

section \<open>The standard alphabet\<close>

text \<open>\<^verbatim>\<open>base64.RawStdEncoding\<close>: the same code over the alphabet that ends in plus and slash.\<close>

definition std_alphabet :: string where
  "std_alphabet = ''ABCDEFGHIJKLMNOPQRSTUVWXYZabcdefghijklmnopqrstuvwxyz0123456789+/''"

definition std_encode :: "bytes \<Rightarrow> string" where
  "std_encode bs = map (nth std_alphabet) (b64_groups (map unat bs))"

definition std_decode :: "string \<Rightarrow> bytes option" where
  "std_decode s =
     (case all_some (map (\<lambda>c. index_of c std_alphabet) (filter (\<lambda>c. c \<noteq> CHR 0x0A \<and> c \<noteq> CHR 0x0D) s)) of
        None \<Rightarrow> None
      | Some ds \<Rightarrow> map_option (map of_nat) (b64_ungroup ds))"

lemma std_alphabet_facts: "length std_alphabet = 64" "distinct std_alphabet"
  "CHR 0x0A \<notin> set std_alphabet" "CHR 0x0D \<notin> set std_alphabet" "CHR ''$'' \<notin> set std_alphabet"
  by (simp_all add: std_alphabet_def)

lemma std_encode_chars: "set (std_encode bs) \<subseteq> set std_alphabet"
  unfolding std_encode_def using b64_groups_range [OF byte_range] std_alphabet_facts(1) by (auto intro!: nth_mem)

lemma std_decode_encode [simp]: "std_decode (std_encode bs) = Some bs"
proof -
  have "filter (\<lambda>c. c \<noteq> CHR 0x0A \<and> c \<noteq> CHR 0x0D) (std_encode bs) = std_encode bs"
    using std_encode_chars [of bs] std_alphabet_facts by (auto simp: filter_id_conv)
  moreover have "all_some (map (\<lambda>c. index_of c std_alphabet) (std_encode bs)) = Some (b64_groups (map unat bs))"
    unfolding std_encode_def
    using b64_groups_range [OF byte_range [of bs]] index_of_nth [OF std_alphabet_facts(2)] std_alphabet_facts(1)
    by (simp add: comp_def) (subst all_some_map [where g = id], simp_all)
  ultimately show ?thesis
    by (simp add: std_decode_def b64_ungroup_groups [OF byte_range] comp_def)
qed

end
