(* ===== verification/Api_Token.thy ===== *)
theory Api_Token
  imports Go_Base64
begin

text \<open>
  Packages \<^verbatim>\<open>id\<close> and \<^verbatim>\<open>apitoken\<close>: the text form of an API token and the verifier of its secret.
  \<open>isCuid\<close> stands for the validity check of the CUID2 package, \<open>hkdf\<close> and \<open>hmac\<close> for the primitives of
  the standard library; a random source is the list of bytes it will deliver.
\<close>

section \<open>Model\<close>

type_synonym cuid_check = "string \<Rightarrow> bool"
type_synonym hmac_fn = "bytes \<Rightarrow> bytes \<Rightarrow> bytes"

datatype token_error = PublicIDInvalid | RandomFailed | PrefixInvalid | FormatInvalid | SecretInvalid | KeyDerivation

definition id_length :: nat where "id_length = 24"

definition id_valid :: "cuid_check \<Rightarrow> string \<Rightarrow> bool" where
  "id_valid isCuid v \<longleftrightarrow> length v = id_length \<and> isCuid v"

definition token_prefix :: string where "token_prefix = ''ptk_''"
definition secretSize :: nat where "secretSize = 32"
definition encodedSecretSize :: nat where "encodedSecretSize = 43"
definition tokenSize :: nat where "tokenSize = length token_prefix + id_length + 1 + encodedSecretSize"

text \<open>\<^verbatim>\<open>io.ReadFull\<close>: the next bytes of the source, or an error when it has too few.\<close>

definition read_full :: "nat \<Rightarrow> bytes \<Rightarrow> (bytes \<times> bytes) option" where
  "read_full n src = (if length src < n then None else Some (take n src, drop n src))"

definition token_generate :: "cuid_check \<Rightarrow> string \<Rightarrow> bytes \<Rightarrow> token_error + string \<times> string" where
  "token_generate isCuid publicID random =
     (if \<not> id_valid isCuid publicID then Inl PublicIDInvalid
      else case read_full secretSize random of
        None \<Rightarrow> Inl RandomFailed
      | Some (secretBytes, _) \<Rightarrow>
          (let secret = b64_encode secretBytes
           in Inr (token_prefix @ publicID @ ''_'' @ secret, secret)))"

definition token_parse :: "cuid_check \<Rightarrow> string \<Rightarrow> token_error + string \<times> string" where
  "token_parse isCuid v =
     (if length v \<noteq> tokenSize \<or> take (length token_prefix) v \<noteq> token_prefix then Inl PrefixInvalid
      else case str_cut (drop (length token_prefix) v) ''_'' of
        (publicID, secret, found) \<Rightarrow>
          if \<not> found \<or> \<not> id_valid isCuid publicID \<or> length secret \<noteq> encodedSecretSize then Inl FormatInvalid
          else (case b64_decode secret of
            None \<Rightarrow> Inl SecretInvalid
          | Some decoded \<Rightarrow>
              if length decoded \<noteq> secretSize \<or> b64_encode decoded \<noteq> secret then Inl SecretInvalid
              else Inr (publicID, secret)))"

definition str_bytes :: "string \<Rightarrow> bytes" where
  "str_bytes s = map of_char s"

definition newVerifier :: "(bytes \<Rightarrow> bytes \<Rightarrow> string \<Rightarrow> nat \<Rightarrow> bytes option) \<Rightarrow> bytes \<Rightarrow> token_error + bytes" where
  "newVerifier hkdf master =
     (case hkdf master (str_bytes ''platformd'') ''platformd/api-token-hmac/v1'' 32 of
        None \<Rightarrow> Inl KeyDerivation
      | Some derived \<Rightarrow> Inr (take 32 (derived @ replicate 32 0)))"

definition token_digest :: "hmac_fn \<Rightarrow> bytes \<Rightarrow> string \<Rightarrow> string \<Rightarrow> bytes" where
  "token_digest hmac key publicID secret = hmac key (str_bytes publicID @ [0] @ str_bytes secret)"

definition token_verify :: "hmac_fn \<Rightarrow> bytes \<Rightarrow> string \<Rightarrow> string \<Rightarrow> bytes \<Rightarrow> bool" where
  "token_verify hmac key publicID secret expected \<longleftrightarrow>
     (let actual = token_digest hmac key publicID secret
      in length expected = 32 \<and> actual = expected)"

section \<open>The text form\<close>

text \<open>What the CUID2 package documents of an accepted identifier: lower case letters and digits.\<close>

definition cuid_alphabet :: "cuid_check \<Rightarrow> bool" where
  "cuid_alphabet isCuid \<longleftrightarrow> (\<forall>v. isCuid v \<longrightarrow> list_all (\<lambda>c. is_lower c \<or> is_digit c) v)"

lemma cuid_chars:
  assumes "cuid_alphabet isCuid" "isCuid v"
  shows "CHR ''_'' \<notin> set v" "CHR 0x00 \<notin> set v"
proof -
  have "is_lower c \<or> is_digit c" if "c \<in> set v" for c
    using assms that by (auto simp: cuid_alphabet_def list_all_iff)
  moreover have "\<not> (is_lower c \<or> is_digit c)" if "c = CHR ''_'' \<or> c = CHR 0x00" for c
    using that by (auto simp: is_lower_def is_digit_def less_eq_char_def)
  ultimately show "CHR ''_'' \<notin> set v" "CHR 0x00 \<notin> set v"
    by blast+
qed

definition sample_id :: string where "sample_id = ''abcdefghijklmnopqrstuvwx''"

definition sample_isCuid :: cuid_check where
  "sample_isCuid v \<longleftrightarrow> v \<noteq> [] \<and> list_all (\<lambda>c. is_lower c \<or> is_digit c) v"

lemma sample_cuid: "cuid_alphabet sample_isCuid" "id_valid sample_isCuid sample_id"
  by (simp_all add: cuid_alphabet_def sample_isCuid_def id_valid_def id_length_def sample_id_def is_lower_def)

text \<open>
  \<^verbatim>\<open>Parse\<close> accepts exactly the tokens \<^verbatim>\<open>Generate\<close> can produce: a value is accepted with an
  identifier and a secret if and only if \<^verbatim>\<open>Generate\<close>, given that identifier and some random bytes, returns this
  value and this secret. In particular every token has a single text form.
\<close>

lemma token_parse_generated:
  assumes "cuid_alphabet isCuid"
  shows "token_parse isCuid v = Inr (publicID, secret) \<longleftrightarrow>
    (\<exists>random. token_generate isCuid publicID random = Inr (v, secret))"
proof
  assume parsed: "token_parse isCuid v = Inr (publicID, secret)"
  let ?n = "length token_prefix"
  obtain decoded where v: "take ?n v = token_prefix" and cut: "str_cut (drop ?n v) ''_'' = (publicID, secret, True)"
    and ok: "id_valid isCuid publicID" "length decoded = secretSize" "b64_encode decoded = secret"
    using parsed by (auto simp: token_parse_def split: if_splits option.splits prod.splits)
  have "drop ?n v = publicID @ ''_'' @ secret"
    using cut by (simp add: str_cut_char_found)
  then have "v = token_prefix @ publicID @ ''_'' @ secret"
    using v by (metis append_take_drop_id)
  then have "token_generate isCuid publicID decoded = Inr (v, secret)"
    using ok by (simp add: token_generate_def read_full_def)
  then show "\<exists>random. token_generate isCuid publicID random = Inr (v, secret)"
    by blast
next
  assume "\<exists>random. token_generate isCuid publicID random = Inr (v, secret)"
  then obtain random where gen: "token_generate isCuid publicID random = Inr (v, secret)" ..
  define bs where "bs = take 32 random"
  have ok: "id_valid isCuid publicID" "length bs = 32" "secret = b64_encode bs"
    and v: "v = ''ptk_'' @ publicID @ ''_'' @ secret"
    using gen by (auto simp: token_generate_def read_full_def secretSize_def token_prefix_def Let_def bs_def split: if_splits)
  have "CHR ''_'' \<notin> set publicID"
    using cuid_chars(1) [OF assms] ok(1) by (simp add: id_valid_def)
  then have "str_cut (publicID @ ''_'' @ secret) ''_'' = (publicID, secret, True)"
    by (simp add: str_cut_char_found)
  then show "token_parse isCuid v = Inr (publicID, secret)"
    using ok v by (simp add: token_parse_def tokenSize_def token_prefix_def encodedSecretSize_def secretSize_def id_valid_def id_length_def)
qed

lemma generated_graphic:
  assumes "cuid_alphabet isCuid" "token_generate isCuid publicID random = Inr (v, secret)"
  shows "v \<noteq> []" "c \<in> set v \<Longrightarrow> c \<notin> {CHR '' '', CHR 0x09, CHR 0x0D, CHR 0x0A}"
proof -
  have v: "v = token_prefix @ publicID @ ''_'' @ b64_encode (take secretSize random)" and ok: "isCuid publicID"
    using assms(2) by (auto simp: token_generate_def read_full_def id_valid_def Let_def split: if_splits)
  show "v \<noteq> []"
    by (simp add: v token_prefix_def)
  have "is_lower c \<or> is_digit c" if "c \<in> set publicID" for c
    using assms(1) ok that by (auto simp: cuid_alphabet_def list_all_iff)
  moreover have "\<not> is_lower c \<and> \<not> is_digit c \<and> c \<notin> set b64_alphabet \<and> c \<notin> set token_prefix \<and> c \<noteq> CHR ''_''"
    if "c \<in> {CHR '' '', CHR 0x09, CHR 0x0D, CHR 0x0A}" for c
    using that by (auto simp: is_lower_def is_digit_def less_eq_char_def b64_alphabet_def token_prefix_def)
  ultimately show "c \<in> set v \<Longrightarrow> c \<notin> {CHR '' '', CHR 0x09, CHR 0x0D, CHR 0x0A}"
    using v b64_encode_chars [of "take secretSize random"] by fastforce
qed

section \<open>The digest\<close>

text \<open>
  The digest is taken over an unambiguous encoding of the identifier and the secret: a stored digest
  verifies another pair only when the keyed hash has a collision.
\<close>

lemma byte_of_char: "unat (of_char c :: 8 word) = of_char c"
proof -
  have "of_char c = (of_nat (of_char c) :: 8 word)"
    by (simp only: of_nat_of_char)
  moreover have "of_char c < (256 :: nat)"
    by (metis of_char_mod_256 mod_less_divisor zero_less_numeral)
  ultimately show ?thesis
    by (simp add: unat_of_nat)
qed

lemma str_bytes_inj: "str_bytes s = str_bytes t \<longleftrightarrow> s = t"
proof -
  have "inj (of_char :: char \<Rightarrow> 8 word)"
    by (rule injI) (metis byte_of_char of_char_eq_iff)
  then show ?thesis
    unfolding str_bytes_def by (rule inj_map_eq_map)
qed

lemma digest_message_inj:
  assumes "CHR 0x00 \<notin> set a" "CHR 0x00 \<notin> set b"
  shows "str_bytes a @ [0] @ str_bytes x = str_bytes b @ [0] @ str_bytes y \<longleftrightarrow> a = b \<and> x = y"
proof -
  have join: "str_bytes u @ [0] @ str_bytes w = str_bytes (u @ CHR 0x00 # w)" for u w
    by (simp add: str_bytes_def)
  have "a @ CHR 0x00 # x = b @ CHR 0x00 # y \<longleftrightarrow> a = b \<and> x = y"
    using assms by (metis str_cut_char_found prod.inject)
  then show ?thesis
    unfolding join str_bytes_inj .
qed

lemma verify_digest:
  assumes "cuid_alphabet isCuid" "isCuid publicID" "isCuid owner"
    and "token_verify hmac key publicID secret (token_digest hmac key owner stored)"
  shows "publicID = owner \<and> secret = stored
    \<or> (\<exists>m m'. m \<noteq> m' \<and> hmac key m = hmac key m' \<and> m = str_bytes publicID @ [0] @ str_bytes secret)"
  using assms(4) digest_message_inj [OF cuid_chars(2) [OF assms(1,2)] cuid_chars(2) [OF assms(1,3)]]
  unfolding token_verify_def token_digest_def Let_def by metis

end
