(* ===== verification/Failure_Limiter.thy ===== *)
theory Failure_Limiter
  imports Go_Time
begin

text \<open>
  The failure limiter of package \<^verbatim>\<open>automationauth\<close>: fixed windows of a minute per pair of token and source
  and per source, in two maps that are swept from time to time. Every operation reads the clock once,
  under the mutex; the reading is an argument. The abstract limiter is the list of all failures.
\<close>

section \<open>Model\<close>

record failure_window =
  fw_startedAt :: instant
  fw_count :: int

type_synonym failure_key = "string \<times> string"

record failure_limiter =
  fl_pairs :: "(failure_key \<times> failure_window) list"
  fl_sources :: "(string \<times> failure_window) list"
  fl_lastSweep :: instant

definition failureWindow :: int where "failureWindow = 60000000000"
definition retryAfter :: int where "retryAfter = 60000000000"
definition pairFailureLimit :: int where "pairFailureLimit = 10"
definition sourceFailureLimit :: int where "sourceFailureLimit = 100"

definition newInMemoryFailureLimiter :: "instant \<Rightarrow> failure_limiter" where
  "newInMemoryFailureLimiter now = \<lparr>fl_pairs = [], fl_sources = [], fl_lastSweep = now\<rparr>"

text \<open>A lookup of a Go map: the zero value when the key is missing. The zero time is the instant 0.\<close>

definition window_in :: "('k \<times> failure_window) list \<Rightarrow> 'k \<Rightarrow> failure_window" where
  "window_in m k = (case map_of m k of None \<Rightarrow> \<lparr>fw_startedAt = 0, fw_count = 0\<rparr> | Some w \<Rightarrow> w)"

definition currentFailureWindow :: "failure_window \<Rightarrow> instant \<Rightarrow> failure_window" where
  "currentFailureWindow w now =
     (if fw_startedAt w = 0 \<or> \<not> now < fw_startedAt w + failureWindow
      then \<lparr>fw_startedAt = now, fw_count = 0\<rparr> else w)"

definition sweepWindows :: "instant \<Rightarrow> ('k \<times> failure_window) list \<Rightarrow> ('k \<times> failure_window) list" where
  "sweepWindows now m = filter (\<lambda>e. now < fw_startedAt (snd e) + failureWindow) m"

definition sweep :: "instant \<Rightarrow> failure_limiter \<Rightarrow> failure_limiter" where
  "sweep now l =
     (if now < fl_lastSweep l + failureWindow then l
      else l\<lparr>fl_pairs := sweepWindows now (fl_pairs l), fl_sources := sweepWindows now (fl_sources l),
             fl_lastSweep := now\<rparr>)"

definition permit :: "instant \<Rightarrow> string \<Rightarrow> string \<Rightarrow> failure_limiter \<Rightarrow> (bool \<times> int) \<times> failure_limiter" where
  "permit now publicID source l =
     (let l = sweep now l;
          sourceState = currentFailureWindow (window_in (fl_sources l) source) now;
          pairLimited = (publicID \<noteq> [] \<and>
            pairFailureLimit \<le> fw_count (currentFailureWindow (window_in (fl_pairs l) (publicID, source)) now))
      in ((if pairLimited \<or> sourceFailureLimit \<le> fw_count sourceState then (False, retryAfter) else (True, 0)), l))"

definition countFailure :: "instant \<Rightarrow> 'k \<Rightarrow> ('k \<times> failure_window) list \<Rightarrow> ('k \<times> failure_window) list" where
  "countFailure now k m =
     (let w = currentFailureWindow (window_in m k) now
      in AList.update k (w\<lparr>fw_count := fw_count w + 1\<rparr>) m)"

definition failed :: "instant \<Rightarrow> string \<Rightarrow> string \<Rightarrow> failure_limiter \<Rightarrow> failure_limiter" where
  "failed now publicID source l =
     l\<lparr>fl_pairs := (if publicID \<noteq> [] then countFailure now (publicID, source) (fl_pairs l) else fl_pairs l),
       fl_sources := countFailure now source (fl_sources l)\<rparr>"

definition succeeded :: "string \<Rightarrow> string \<Rightarrow> failure_limiter \<Rightarrow> failure_limiter" where
  "succeeded publicID source l = l"

section \<open>The abstract limiter\<close>

text \<open>
  A failure is its time, token and source. The window of a list of times: its start and how many of them
  it has; a time that is not within a minute of the start opens a new window.
\<close>

type_synonym failure = "instant \<times> string \<times> string"

definition extend_window :: "(instant \<times> nat) option \<Rightarrow> instant \<Rightarrow> (instant \<times> nat) option" where
  "extend_window w t =
     (case w of None \<Rightarrow> Some (t, 1)
      | Some (s, n) \<Rightarrow> if t < s + failureWindow then Some (s, n + 1) else Some (t, 1))"

definition window_of :: "instant list \<Rightarrow> (instant \<times> nat) option" where
  "window_of ts = foldl extend_window None ts"

definition live_count :: "instant list \<Rightarrow> instant \<Rightarrow> nat" where
  "live_count ts now =
     (case window_of ts of None \<Rightarrow> 0 | Some (s, n) \<Rightarrow> if now < s + failureWindow then n else 0)"

definition pair_times :: "failure list \<Rightarrow> failure_key \<Rightarrow> instant list" where
  "pair_times h k = map fst (filter (\<lambda>f. snd f = k \<and> fst (snd f) \<noteq> []) h)"

definition source_times :: "failure list \<Rightarrow> string \<Rightarrow> instant list" where
  "source_times h src = map fst (filter (\<lambda>f. snd (snd f) = src) h)"

definition limited :: "failure list \<Rightarrow> instant \<Rightarrow> string \<Rightarrow> string \<Rightarrow> bool" where
  "limited h now publicID source \<longleftrightarrow>
     publicID \<noteq> [] \<and> 10 \<le> live_count (pair_times h (publicID, source)) now
     \<or> 100 \<le> live_count (source_times h source) now"

text \<open>A map that carries the windows of a family of lists of times, up to windows that are over.\<close>

definition tracked :: "instant \<Rightarrow> failure_window option \<Rightarrow> (instant \<times> nat) option \<Rightarrow> bool" where
  "tracked t entry w \<longleftrightarrow>
     (case entry of
        Some e \<Rightarrow> \<exists>n. w = Some (fw_startedAt e, n) \<and> fw_count e = int n \<and> 0 < fw_startedAt e
      | None \<Rightarrow> (case w of None \<Rightarrow> True | Some (s, n) \<Rightarrow> s + failureWindow \<le> t))"

definition tracks :: "instant \<Rightarrow> ('k \<times> failure_window) list \<Rightarrow> ('k \<Rightarrow> instant list) \<Rightarrow> bool" where
  "tracks t m hs \<longleftrightarrow> alist_ok m \<and> (\<forall>k. tracked t (map_of m k) (window_of (hs k)))"

definition knows :: "failure_limiter \<Rightarrow> instant \<Rightarrow> failure list \<Rightarrow> bool" where
  "knows l t h \<longleftrightarrow> tracks t (fl_pairs l) (pair_times h) \<and> tracks t (fl_sources l) (source_times h)"

lemma window_of_snoc: "window_of (ts @ [t]) = extend_window (window_of ts) t"
  by (simp add: window_of_def)

lemma tracks_empty: "(\<And>k. hs k = []) \<Longrightarrow> tracks t [] hs"
  by (simp add: tracks_def tracked_def window_of_def)

lemma tracked_later: "tracked t e w \<Longrightarrow> t \<le> t' \<Longrightarrow> tracked t' e w"
  by (auto simp: tracked_def split: option.splits)

lemma tracks_later: "tracks t m hs \<Longrightarrow> t \<le> t' \<Longrightarrow> tracks t' m hs"
  unfolding tracks_def by (blast intro: tracked_later)

lemma tracks_current:
  assumes "tracks t m hs" "t \<le> now"
  shows "currentFailureWindow (window_in m k) now =
    (case window_of (hs k) of
       Some (s, n) \<Rightarrow> if now < s + failureWindow then \<lparr>fw_startedAt = s, fw_count = int n\<rparr> else \<lparr>fw_startedAt = now, fw_count = 0\<rparr>
     | None \<Rightarrow> \<lparr>fw_startedAt = now, fw_count = 0\<rparr>)"
proof (cases "map_of m k")
  case None
  then show ?thesis
    using assms by (auto simp: tracks_def tracked_def currentFailureWindow_def window_in_def split: option.splits dest!: spec [of _ k])
next
  case (Some w)
  then obtain n where "window_of (hs k) = Some (fw_startedAt w, n)" "fw_count w = int n" "0 < fw_startedAt w"
    using assms(1) by (auto simp: tracks_def tracked_def dest!: spec [of _ k])
  then show ?thesis
    using Some by (cases w) (auto simp: currentFailureWindow_def window_in_def)
qed

lemma tracks_count:
  assumes "tracks t m hs" "t \<le> now"
  shows "fw_count (currentFailureWindow (window_in m k) now) = int (live_count (hs k) now)"
  unfolding tracks_current [OF assms] live_count_def by (simp split: option.split)

lemma tracks_sweep:
  assumes "tracks t m hs" "t \<le> now"
  shows "tracks now (sweepWindows now m) hs"
proof -
  have ok: "alist_ok m"
    using assms(1) by (simp add: tracks_def)
  have "map_of (sweepWindows now m) k =
      (case map_of m k of None \<Rightarrow> None | Some w \<Rightarrow> if now < fw_startedAt w + failureWindow then Some w else None)" for k
    using map_of_filter_value [OF ok, of "\<lambda>_ w. now < fw_startedAt w + failureWindow" k]
    by (simp add: sweepWindows_def case_prod_beta')
  moreover have "alist_ok (sweepWindows now m)"
    using ok by (simp add: sweepWindows_def)
  ultimately show ?thesis
    using tracks_later [OF assms] by (fastforce simp: tracks_def tracked_def split: option.splits if_splits)
qed

lemma tracks_countFailure:
  assumes "tracks t m hs" "t \<le> now" "0 < now"
  shows "tracks now (countFailure now k m) (hs(k := hs k @ [now]))"
proof -
  let ?w = "currentFailureWindow (window_in m k) now"
  have pos: "0 < s" if "window_of (hs k) = Some (s, n)" "now < s + failureWindow" for s n
    using assms that by (fastforce simp: tracks_def tracked_def split: option.splits dest!: spec [of _ k])
  have "tracked now (Some (?w\<lparr>fw_count := fw_count ?w + 1\<rparr>)) (window_of (hs k @ [now]))"
    using assms(3) pos unfolding tracks_current [OF assms(1,2)] window_of_snoc extend_window_def
    by (auto simp: tracked_def split: option.splits)
  moreover have "tracks now m hs"
    by (rule tracks_later [OF assms(1,2)])
  ultimately show ?thesis
    unfolding tracks_def countFailure_def Let_def by simp
qed

section \<open>The contract of a limiter\<close>

text \<open>
  What the authenticator relies on: the limiter represents the failures it was told of, up to the time it
  last heard of; it answers as the abstract limiter does, and answering does not change what it knows.
\<close>

locale failure_limiting =
  fixes allow :: "instant \<Rightarrow> string \<Rightarrow> string \<Rightarrow> 'l \<Rightarrow> (bool \<times> int) \<times> 'l"
    and fail :: "instant \<Rightarrow> string \<Rightarrow> string \<Rightarrow> 'l \<Rightarrow> 'l"
    and represents :: "'l \<Rightarrow> instant \<Rightarrow> failure list \<Rightarrow> bool"
  assumes allow_answer: "represents l t h \<Longrightarrow> t \<le> now \<Longrightarrow>
      fst (allow now publicID source l) = (if limited h now publicID source then (False, retryAfter) else (True, 0))"
    and allow_represents: "represents l t h \<Longrightarrow> t \<le> now \<Longrightarrow> represents (snd (allow now publicID source l)) now h"
    and fail_represents: "represents l t h \<Longrightarrow> t \<le> now \<Longrightarrow> 0 < now \<Longrightarrow>
      represents (fail now publicID source l) now (h @ [(now, publicID, source)])"

lemma knows_permit:
  assumes "knows l t h" "t \<le> now"
  shows "knows (snd (permit now publicID source l)) now h"
proof -
  have p: "tracks t (fl_pairs l) (pair_times h)" and s: "tracks t (fl_sources l) (source_times h)"
    using assms(1) by (simp_all add: knows_def)
  show ?thesis
    using tracks_later [OF p assms(2)] tracks_later [OF s assms(2)] tracks_sweep [OF p assms(2)] tracks_sweep [OF s assms(2)]
    by (simp add: knows_def permit_def sweep_def Let_def)
qed

lemma knows_failed:
  assumes "knows l t h" "t \<le> now" "0 < now"
  shows "knows (failed now publicID source l) now (h @ [(now, publicID, source)])"
proof -
  have p: "pair_times (h @ [(now, publicID, source)]) =
      (if publicID = [] then pair_times h else (pair_times h)((publicID, source) := pair_times h (publicID, source) @ [now]))"
    by (auto simp: pair_times_def)
  have s: "source_times (h @ [(now, publicID, source)]) = (source_times h)(source := source_times h source @ [now])"
    by (auto simp: source_times_def)
  have pairs: "tracks t (fl_pairs l) (pair_times h)" and sources: "tracks t (fl_sources l) (source_times h)"
    using assms(1) by (simp_all add: knows_def)
  show ?thesis
    using tracks_later [OF pairs assms(2)] tracks_countFailure [OF pairs assms(2,3), of "(publicID, source)"]
      tracks_countFailure [OF sources assms(2,3), of source]
    unfolding knows_def p s by (simp add: failed_def)
qed

lemma permit_answer:
  assumes "knows l t h" "t \<le> now"
  shows "fst (permit now publicID source l) = (if limited h now publicID source then (False, retryAfter) else (True, 0))"
proof -
  have "knows (sweep now l) now h"
    using knows_permit [OF assms] by (simp add: permit_def Let_def)
  then have "fw_count (currentFailureWindow (window_in (fl_pairs (sweep now l)) k) now) = int (live_count (pair_times h k) now)"
    "fw_count (currentFailureWindow (window_in (fl_sources (sweep now l)) s) now) = int (live_count (source_times h s) now)" for k s
    by (simp_all add: knows_def tracks_count [where t = now])
  then show ?thesis
    by (simp add: permit_def Let_def limited_def pairFailureLimit_def sourceFailureLimit_def)
qed

interpretation fl: failure_limiting permit failed knows
  by unfold_locales (simp_all add: permit_answer knows_permit knows_failed)

section \<open>Refinement\<close>

datatype limiter_call = Permit instant string string | Failed instant string string

fun call_time :: "limiter_call \<Rightarrow> instant" where
  "call_time (Permit now _ _) = now"
| "call_time (Failed now _ _) = now"

fun limiter_step :: "limiter_call \<Rightarrow> failure_limiter \<Rightarrow> failure_limiter" where
  "limiter_step (Permit now publicID source) l = snd (permit now publicID source l)"
| "limiter_step (Failed now publicID source) l = failed now publicID source l"

fun failures_of :: "limiter_call list \<Rightarrow> failure list" where
  "failures_of [] = []"
| "failures_of (Permit _ _ _ # calls) = failures_of calls"
| "failures_of (Failed now publicID source # calls) = (now, publicID, source) # failures_of calls"

lemma knows_new: "knows (newInMemoryFailureLimiter now) t []"
  by (simp add: knows_def newInMemoryFailureLimiter_def pair_times_def source_times_def tracks_empty)

lemma knows_run:
  assumes "knows l t h" "sorted (t # map call_time calls)" "0 < t"
  shows "\<exists>t'. knows (fold limiter_step calls l) t' (h @ failures_of calls) \<and> t' \<le> List.last (t # map call_time calls)"
  using assms
proof (induction calls arbitrary: l t h)
  case (Cons c calls)
  show ?case
  proof (cases c)
    case (Permit now publicID source)
    then show ?thesis
      using Cons.IH [OF knows_permit [OF Cons.prems(1), of now publicID source]] Cons.prems by auto
  next
    case (Failed now publicID source)
    then show ?thesis
      using Cons.IH [OF knows_failed [OF Cons.prems(1), of now publicID source]] Cons.prems by auto
  qed
qed auto

text \<open>
  \<^bold>\<open>C13.\<close> The limiter with its maps and its sweeps answers as the abstract limiter that remembers every
  failure: after any sequence of calls whose clock does not go back, \<^verbatim>\<open>Permit\<close> refuses, with a minute to
  wait, exactly when the current window of the pair has ten failures or that of the source a hundred.
\<close>

theorem limiter_refines_history:
  assumes "sorted (start # map call_time calls @ [now])" "0 < start"
  shows "fst (permit now publicID source (fold limiter_step calls (newInMemoryFailureLimiter start)))
    = (if limited (failures_of calls) now publicID source then (False, 60000000000) else (True, 0))"
proof -
  have "sorted (start # map call_time calls)"
    using assms(1) by (simp add: sorted_append)
  then obtain t' where k: "knows (fold limiter_step calls (newInMemoryFailureLimiter start)) t' (failures_of calls)"
    and t': "t' \<le> List.last (start # map call_time calls)"
    using knows_run [OF knows_new _ assms(2)] by fastforce
  have "List.last (start # map call_time calls) \<in> set (start # map call_time calls)"
    by (rule last_in_set) simp
  then have "t' \<le> now"
    using t' assms(1) by (auto simp: sorted_append)
  then show ?thesis
    by (simp add: permit_answer [OF k] retryAfter_def)
qed

theorem limiter_refines_history_witness:
  "limited (failures_of (replicate 10 (Failed 5 ''t'' ''s''))) 6 ''t'' ''s''
   \<and> fst (permit 6 ''t'' ''s'' (fold limiter_step (replicate 10 (Failed 5 ''t'' ''s'')) (newInMemoryFailureLimiter 1)))
     = (False, 60000000000)"
proof -
  have "limited (failures_of (replicate 10 (Failed 5 ''t'' ''s''))) 6 ''t'' ''s''"
    by (simp add: limited_def live_count_def window_of_def pair_times_def extend_window_def failureWindow_def numeral_eq_Suc)
  then show ?thesis
    using limiter_refines_history [of 1 "replicate 10 (Failed 5 ''t'' ''s'')" 6 "''t''" "''s''"] by (simp add: sorted_append sorted_replicate)
qed

end
