(* ===== verification/Automation_Auth.thy ===== *)
theory Automation_Auth
  imports Api_Token Failure_Limiter Transition Go_Strconv
begin

text \<open>
  The authenticator of package \<^verbatim>\<open>automationauth\<close>: one bearer token per request, looked up in the store of
  API tokens, behind the failure limiter. The source address of the request is an argument; the store, the
  keyed hash and the check of identifiers are parameters. \<open>attempt_step\<close> interleaves the requests of many
  clients: between \<^verbatim>\<open>Permit\<close> and \<^verbatim>\<open>Failed\<close> of one request, other requests make progress.
\<close>

section \<open>Model\<close>

record api_token =
  at_id :: string
  at_name :: string
  at_role :: string
  at_projectID :: "string option"
  at_secretHMAC :: bytes
  at_createdAtMillis :: int
  at_lastUsedMillis :: "int option"
  at_revokedAtMillis :: "int option"

record identity =
  id_tokenID :: string
  id_role :: string
  id_projectID :: "string option"

definition allowsProject :: "identity \<Rightarrow> string \<Rightarrow> bool" where
  "allowsProject i projectID \<longleftrightarrow> id_projectID i = None \<or> id_projectID i = Some projectID"

definition isAdmin :: "identity \<Rightarrow> bool" where
  "isAdmin i \<longleftrightarrow> id_role i = ''admin''"

datatype auth_error = RateLimited | OneHeaderRequired | NotBearer | BadToken token_error | InvalidAPIToken

text \<open>\<^verbatim>\<open>strings.EqualFold\<close> against a word whose letters have no folds outside ASCII.\<close>

definition fold_char :: "char \<Rightarrow> char" where
  "fold_char c = (if is_upper c then byte_chr (of_char c + 32) else c)"

definition equal_fold :: "string \<Rightarrow> string \<Rightarrow> bool" where
  "equal_fold s t \<longleftrightarrow> map fold_char s = map fold_char t"

definition bearerCredential :: "cuid_check \<Rightarrow> string list \<Rightarrow> auth_error + string \<times> string" where
  "bearerCredential isCuid values =
     (case values of
        [header] \<Rightarrow>
          (case str_cut header '' '' of
             (scheme, v, found) \<Rightarrow>
               if \<not> found \<or> \<not> equal_fold scheme ''Bearer'' \<or> v = []
                  \<or> (\<exists>c\<in>set v. c \<in> {CHR '' '', CHR 0x09, CHR 0x0D, CHR 0x0A})
               then Inl NotBearer
               else (case token_parse isCuid v of Inl e \<Rightarrow> Inl (BadToken e) | Inr p \<Rightarrow> Inr p))
      | _ \<Rightarrow> Inl OneHeaderRequired)"

text \<open>What remains of \<^verbatim>\<open>authenticate\<close> once the limiter has let the request pass.\<close>

definition checkCredential ::
  "hmac_fn \<Rightarrow> bytes \<Rightarrow> (string \<Rightarrow> api_token option) \<Rightarrow> auth_error + string \<times> string \<Rightarrow> auth_error + identity" where
  "checkCredential hmac key store parsed =
     (case parsed of
        Inl e \<Rightarrow> Inl e
      | Inr (publicID, secret) \<Rightarrow>
          (case store publicID of
             None \<Rightarrow> Inl InvalidAPIToken
           | Some c \<Rightarrow>
               if at_id c \<noteq> publicID \<or> at_revokedAtMillis c \<noteq> None
                  \<or> \<not> token_verify hmac key publicID secret (at_secretHMAC c)
               then Inl InvalidAPIToken
               else Inr \<lparr>id_tokenID = at_id c, id_role = at_role c, id_projectID = at_projectID c\<rparr>))"

text \<open>
  \<^verbatim>\<open>authenticate\<close> with the two readings of the clock by the limiter: the delay to wait, the identity or
  the error, and the limiter it leaves.
\<close>

definition authenticate ::
  "cuid_check \<Rightarrow> hmac_fn \<Rightarrow> bytes \<Rightarrow> (string \<Rightarrow> api_token option) \<Rightarrow> instant \<Rightarrow> instant \<Rightarrow> string \<Rightarrow> string list
    \<Rightarrow> failure_limiter \<Rightarrow> (int \<times> (auth_error + identity)) \<times> failure_limiter" where
  "authenticate isCuid hmac key store now later source values l =
     (let parsed = bearerCredential isCuid values;
          publicID = (case parsed of Inl _ \<Rightarrow> [] | Inr (p, _) \<Rightarrow> p)
      in case permit now publicID source l of
           ((allowed, retry), l) \<Rightarrow>
             if \<not> allowed then ((retry, Inl RateLimited), l)
             else (case checkCredential hmac key store parsed of
               Inl e \<Rightarrow> ((0, Inl e), failed later publicID source l)
             | Inr i \<Rightarrow> ((0, Inr i), succeeded publicID source l)))"

datatype auth_outcome = Served identity | Refused int

record auth_response =
  ar_headers :: "(string \<times> string) list"
  ar_outcome :: auth_outcome

text \<open>\<^verbatim>\<open>Protect\<close>: the headers it sets, and whether the protected handler is called with the identity.\<close>

definition protect :: "int \<times> (auth_error + identity) \<Rightarrow> auth_response" where
  "protect result =
     (let headers = [(''Cache-Control'', ''private, no-store''), (''Cloudflare-CDN-Cache-Control'', ''no-store'')]
      in case result of (retry, outcome) \<Rightarrow>
           if 0 < retry then
             \<lparr>ar_headers = headers @ [(''Retry-After'', format_int (max 1 ((retry + 999999999) div 1000000000)))],
              ar_outcome = Refused 429\<rparr>
           else (case outcome of
             Inl _ \<Rightarrow>
               \<lparr>ar_headers = headers
                  @ [(''WWW-Authenticate'', ''Bearer realm='' @ [CHR 0x22] @ ''platformd automation'' @ [CHR 0x22])],
                ar_outcome = Refused 401\<rparr>
           | Inr i \<Rightarrow> \<lparr>ar_headers = headers, ar_outcome = Served i\<rparr>))"

section \<open>Who is let in\<close>

lemma bearerCredential_iff:
  assumes "cuid_alphabet isCuid"
  shows "bearerCredential isCuid values = Inr (publicID, secret) \<longleftrightarrow>
    (\<exists>scheme token random. values = [scheme @ CHR '' '' # token] \<and> CHR '' '' \<notin> set scheme \<and> equal_fold scheme ''Bearer''
       \<and> token_generate isCuid publicID random = Inr (token, secret))"
  (is "_ \<longleftrightarrow> ?R")
proof
  assume "bearerCredential isCuid values = Inr (publicID, secret)"
  then obtain header scheme token where h: "values = [header]" "str_cut header '' '' = (scheme, token, True)"
    "equal_fold scheme ''Bearer''" "token_parse isCuid token = Inr (publicID, secret)"
    by (auto simp: bearerCredential_def split: list.splits prod.splits if_splits sum.splits)
  then show ?R
    using token_parse_generated [OF assms] by (auto simp: str_cut_char_found)
next
  assume ?R
  then obtain scheme token random where v: "values = [scheme @ CHR '' '' # token]" "CHR '' '' \<notin> set scheme"
    "equal_fold scheme ''Bearer''" and g: "token_generate isCuid publicID random = Inr (token, secret)"
    by blast
  have "token_parse isCuid token = Inr (publicID, secret)"
    using token_parse_generated [OF assms] g by blast
  moreover have "str_cut (scheme @ CHR '' '' # token) '' '' = (scheme, token, True)"
    using v by (simp add: str_cut_char_found)
  moreover have "token \<noteq> [] \<and> \<not> (\<exists>c\<in>set token. c \<in> {CHR '' '', CHR 0x09, CHR 0x0D, CHR 0x0A})"
    using generated_graphic [OF assms g] by auto
  ultimately show "bearerCredential isCuid values = Inr (publicID, secret)"
    using v by (simp add: bearerCredential_def)
qed

lemma authenticate_Inr:
  "fst (authenticate isCuid hmac key store now later source values l) = (retry, Inr i) \<longleftrightarrow>
    (\<exists>publicID secret c. bearerCredential isCuid values = Inr (publicID, secret)
       \<and> fst (fst (permit now publicID source l)) \<and> retry = 0
       \<and> store publicID = Some c \<and> at_id c = publicID \<and> at_revokedAtMillis c = None
       \<and> token_verify hmac key publicID secret (at_secretHMAC c)
       \<and> i = \<lparr>id_tokenID = at_id c, id_role = at_role c, id_projectID = at_projectID c\<rparr>)"
  by (auto simp: authenticate_def checkCredential_def Let_def split: sum.splits prod.splits option.splits if_splits)

text \<open>
  \<^bold>\<open>C4.\<close> A request is authenticated exactly when it has a single Authorization header with a bearer token
  of the form \<^verbatim>\<open>Generate\<close> returns, the pair of token and source and the source have failed less often than the
  limits in their current windows, and the store has an unrevoked credential under the identifier of the
  token whose digest is that of the identifier and the secret; the identity is that of the credential.
\<close>

theorem authenticated_iff:
  assumes "cuid_alphabet isCuid" "knows l t h" "t \<le> now"
  shows "fst (authenticate isCuid hmac key store now later source values l) = (0, Inr i) \<longleftrightarrow>
    (\<exists>scheme token publicID random secret c.
       values = [scheme @ CHR '' '' # token] \<and> CHR '' '' \<notin> set scheme \<and> equal_fold scheme ''Bearer''
       \<and> token_generate isCuid publicID random = Inr (token, secret)
       \<and> \<not> limited h now publicID source
       \<and> store publicID = Some c \<and> at_id c = publicID \<and> at_revokedAtMillis c = None
       \<and> length (at_secretHMAC c) = 32 \<and> at_secretHMAC c = token_digest hmac key publicID secret
       \<and> i = \<lparr>id_tokenID = publicID, id_role = at_role c, id_projectID = at_projectID c\<rparr>)"
proof -
  have allowed: "fst (fst (permit now publicID source l)) \<longleftrightarrow> \<not> limited h now publicID source" for publicID
    using fl.allow_answer [OF assms(2,3)] by simp
  have verify: "token_verify hmac key publicID secret d \<longleftrightarrow> length d = 32 \<and> d = token_digest hmac key publicID secret"
    for publicID secret d
    by (auto simp: token_verify_def Let_def)
  show ?thesis
    unfolding authenticate_Inr bearerCredential_iff [OF assms(1)] allowed verify by blast
qed

definition sample_hmac :: hmac_fn where
  "sample_hmac key m = take 32 (m @ replicate 32 0)"

definition sample_secret :: string where
  "sample_secret = b64_encode (replicate 32 0x17)"

definition sample_token :: api_token where
  "sample_token = \<lparr>at_id = sample_id, at_name = ''ci'', at_role = ''admin'', at_projectID = None,
     at_secretHMAC = token_digest sample_hmac [] sample_id sample_secret, at_createdAtMillis = 0,
     at_lastUsedMillis = None, at_revokedAtMillis = None\<rparr>"

lemma not_limited_empty [simp]: "\<not> limited [] now publicID source"
  by (simp add: limited_def live_count_def window_of_def pair_times_def source_times_def)

theorem authenticated_iff_witness:
  "fst (authenticate sample_isCuid sample_hmac [] (\<lambda>_. Some sample_token) 5 6 ''s''
      [''bearer '' @ token_prefix @ sample_id @ ''_'' @ sample_secret] (newInMemoryFailureLimiter 1))
     = (0, Inr \<lparr>id_tokenID = sample_id, id_role = ''admin'', id_projectID = None\<rparr>)"
proof -
  have gen: "token_generate sample_isCuid sample_id (replicate 32 0x17)
      = Inr (token_prefix @ sample_id @ ''_'' @ sample_secret, sample_secret)"
    by (simp add: token_generate_def read_full_def secretSize_def sample_cuid Let_def sample_secret_def)
  have "length (at_secretHMAC sample_token) = 32"
    by (simp add: sample_token_def token_digest_def sample_hmac_def)
  moreover have "equal_fold ''bearer'' ''Bearer''"
    by code_simp
  ultimately show ?thesis
    using gen unfolding authenticated_iff [OF sample_cuid(1) knows_new order_refl]
    by (intro exI [of _ "''bearer''"] exI [of _ "token_prefix @ sample_id @ ''_'' @ sample_secret"] exI [of _ sample_id]
        exI [of _ "replicate 32 0x17"] exI [of _ sample_secret] exI [of _ sample_token]) (simp add: sample_token_def)
qed

section \<open>How fast a secret can be guessed\<close>

text \<open>
  Requests in flight: those of the pair \<open>k\<close> the limiter has let pass and that have not failed or succeeded
  yet are counted, and at most \<open>m\<close> of them exist at any time. Requests of other pairs come and go freely.
\<close>

record 'l attempts =
  ap_limiter :: 'l
  ap_time :: instant
  ap_inflight :: nat
  ap_failures :: "failure list"

inductive attempt_step ::
  "(instant \<Rightarrow> string \<Rightarrow> string \<Rightarrow> 'l \<Rightarrow> (bool \<times> int) \<times> 'l) \<Rightarrow> (instant \<Rightarrow> string \<Rightarrow> string \<Rightarrow> 'l \<Rightarrow> 'l) \<Rightarrow>
    nat \<Rightarrow> failure_key \<Rightarrow> 'l attempts \<Rightarrow> 'l attempts \<Rightarrow> bool"
  for allow fail m k where
  attempt_allowed: "ap_time s \<le> now \<Longrightarrow> fst (fst (allow now publicID source (ap_limiter s))) \<Longrightarrow>
    n = ap_inflight s + of_bool ((publicID, source) = k) \<Longrightarrow> n \<le> m \<Longrightarrow>
    attempt_step allow fail m k s
      (s\<lparr>ap_limiter := snd (allow now publicID source (ap_limiter s)), ap_time := now, ap_inflight := n\<rparr>)"
| attempt_refused: "ap_time s \<le> now \<Longrightarrow> \<not> fst (fst (allow now publicID source (ap_limiter s))) \<Longrightarrow>
    attempt_step allow fail m k s
      (s\<lparr>ap_limiter := snd (allow now publicID source (ap_limiter s)), ap_time := now\<rparr>)"
| attempt_failed: "ap_time s \<le> now \<Longrightarrow> ((publicID, source) = k \<longrightarrow> 0 < ap_inflight s) \<Longrightarrow>
    n = ap_inflight s - of_bool ((publicID, source) = k) \<Longrightarrow>
    attempt_step allow fail m k s
      (s\<lparr>ap_limiter := fail now publicID source (ap_limiter s), ap_time := now, ap_inflight := n,
         ap_failures := ap_failures s @ [(now, publicID, source)]\<rparr>)"
| attempt_succeeded: "0 < ap_inflight s \<Longrightarrow> attempt_step allow fail m k s (s\<lparr>ap_inflight := ap_inflight s - 1\<rparr>)"

text \<open>A call of \<open>authenticate\<close> is a run of this system: the interleaving covers what the code does.\<close>

lemma authenticate_attempts:
  assumes "ap_time s \<le> now" "now \<le> later" "ap_inflight s < m"
  obtains s' where "(attempt_step permit failed m k)\<^sup>*\<^sup>* s s'" "ap_inflight s' = ap_inflight s"
    "ap_limiter s' = snd (authenticate isCuid hmac key store now later source values (ap_limiter s))"
proof -
  let ?step = "attempt_step permit failed m k"
  define publicID where "publicID = (case bearerCredential isCuid values of Inl _ \<Rightarrow> [] | Inr (p, _) \<Rightarrow> p)"
  obtain allowed retry l where p: "permit now publicID source (ap_limiter s) = ((allowed, retry), l)"
    by (cases "permit now publicID source (ap_limiter s)") auto
  have auth: "snd (authenticate isCuid hmac key store now later source values (ap_limiter s)) =
      (if \<not> allowed then l
       else case checkCredential hmac key store (bearerCredential isCuid values) of
         Inl e \<Rightarrow> failed later publicID source l | Inr i \<Rightarrow> l)"
    unfolding authenticate_def Let_def publicID_def [symmetric] p by (simp add: succeeded_def split: sum.split)
  let ?s1 = "s\<lparr>ap_limiter := l, ap_time := now, ap_inflight := ap_inflight s + of_bool ((publicID, source) = k)\<rparr>"
  show ?thesis
  proof (cases allowed)
    case False
    have "?step s (s\<lparr>ap_limiter := l, ap_time := now\<rparr>)"
      using attempt_refused [of s now permit publicID source failed m k] assms(1) p False by simp
    then show ?thesis
      by (intro that [of "s\<lparr>ap_limiter := l, ap_time := now\<rparr>"]) (simp_all add: auth False)
  next
    case True
    have s1: "?step s ?s1"
      using attempt_allowed [of s now permit publicID source _ k m failed] assms p True by simp
    show ?thesis
    proof (cases "checkCredential hmac key store (bearerCredential isCuid values)")
      case (Inl e)
      let ?s2 = "s\<lparr>ap_limiter := failed later publicID source l, ap_time := later,
        ap_failures := ap_failures s @ [(later, publicID, source)]\<rparr>"
      have "?step ?s1 ?s2"
        using attempt_failed [of ?s1 later publicID source k _ permit failed m] assms(2) by simp
      then show ?thesis
        using s1 by (intro that [of ?s2]) (auto simp: auth True Inl)
    next
      case (Inr i)
      let ?s2 = "s\<lparr>ap_limiter := l, ap_time := now\<rparr>"
      have "?step\<^sup>*\<^sup>* ?s1 ?s2"
      proof (cases "(publicID, source) = k")
        case True
        then show ?thesis
          using attempt_succeeded [of ?s1 permit failed m k] by simp
      qed simp
      then show ?thesis
        using s1 by (intro that [of ?s2]) (auto simp: auth True Inr)
    qed
  qed
qed

definition guess_window_ok :: "nat \<Rightarrow> instant \<Rightarrow> instant \<Rightarrow> nat \<Rightarrow> instant list \<Rightarrow> bool" where
  "guess_window_ok m t0 t inflight ts \<longleftrightarrow>
     (case window_of ts of
        None \<Rightarrow> ts = []
      | Some (s, n) \<Rightarrow> t0 \<le> s \<and> s \<le> t \<and> n \<le> 9 + m \<and> n \<le> length ts \<and> (t < s + failureWindow \<longrightarrow> n + inflight \<le> 9 + m)
          \<and> int (length ts) - int n \<le> int (9 + m) * ((s - t0) div failureWindow))"

definition guess_inv ::
  "('l \<Rightarrow> instant \<Rightarrow> failure list \<Rightarrow> bool) \<Rightarrow> nat \<Rightarrow> failure_key \<Rightarrow> instant \<Rightarrow> 'l attempts \<Rightarrow> bool" where
  "guess_inv represents m k t0 s \<longleftrightarrow>
     represents (ap_limiter s) (ap_time s) (ap_failures s) \<and> 0 < t0 \<and> t0 \<le> ap_time s \<and> ap_inflight s \<le> m
     \<and> guess_window_ok m t0 (ap_time s) (ap_inflight s) (pair_times (ap_failures s) k)"

lemma failureWindow_pos: "0 < failureWindow"
  by (simp add: failureWindow_def)

lemma guess_window_later:
  "guess_window_ok m t0 t j ts \<Longrightarrow> t \<le> t' \<Longrightarrow> j' \<le> j \<Longrightarrow> guess_window_ok m t0 t' j' ts"
  by (auto simp: guess_window_ok_def split: option.splits)

lemma guess_window_allowed:
  assumes "guess_window_ok m t0 t j ts" "t \<le> now" "live_count ts now < 10" "j' \<le> m"
  shows "guess_window_ok m t0 now j' ts"
  using assms by (auto simp: guess_window_ok_def live_count_def split: option.splits)

lemma guess_window_failed:
  assumes "guess_window_ok m t0 t j ts" "t \<le> now" "t0 \<le> now" "0 < j" "j \<le> m"
  shows "guess_window_ok m t0 now (j - 1) (ts @ [now])"
proof (cases "window_of ts")
  case None
  then have "ts = []"
    using assms(1) by (simp add: guess_window_ok_def)
  then show ?thesis
    using assms(3-5) pos_imp_zdiv_nonneg_iff [OF failureWindow_pos, of "now - t0"]
    by (simp add: guess_window_ok_def window_of_def extend_window_def)
next
  case (Some w)
  obtain s n where w: "w = (s, n)"
    by force
  have old: "t0 \<le> s" "s \<le> t" "n \<le> 9 + m" "n \<le> length ts" "t < s + failureWindow \<longrightarrow> n + j \<le> 9 + m"
    "int (length ts) - int n \<le> int (9 + m) * ((s - t0) div failureWindow)"
    using assms(1) Some w by (simp_all add: guess_window_ok_def)
  show ?thesis
  proof (cases "now < s + failureWindow")
    case True
    then show ?thesis
      using old assms(2,4) Some w unfolding guess_window_ok_def window_of_snoc extend_window_def by auto
  next
    case False
    then have "(s - t0) div failureWindow + 1 \<le> (now - t0) div failureWindow"
      using zdiv_mono1 [OF _ failureWindow_pos, of "s - t0 + failureWindow" "now - t0"] failureWindow_pos
      by (simp add: div_add_self2)
    then have "int (9 + m) * ((s - t0) div failureWindow) + int (9 + m) \<le> int (9 + m) * ((now - t0) div failureWindow)"
      by (metis (no_types, lifting) mult.commute mult.right_neutral distrib_left mult_left_mono of_nat_0_le_iff)
    then show ?thesis
      using False old assms(3-5) Some w unfolding guess_window_ok_def window_of_snoc extend_window_def by auto
  qed
qed

lemma pair_times_snoc:
  "fst k \<noteq> [] \<Longrightarrow> pair_times (h @ [(now, publicID, source)]) k
     = (if (publicID, source) = k then pair_times h k @ [now] else pair_times h k)"
  by (auto simp: pair_times_def)

context failure_limiting
begin

lemma guess_inv_step:
  assumes "attempt_step allow fail m k s s'" "guess_inv represents m k t0 s" "fst k \<noteq> []"
  shows "guess_inv represents m k t0 s'"
  using assms
proof (induction rule: attempt_step.induct)
  case (attempt_allowed s now publicID source n)
  have live: "live_count (pair_times (ap_failures s) k) now < 10" if "(publicID, source) = k"
    using attempt_allowed(2) allow_answer [of "ap_limiter s" "ap_time s" "ap_failures s" now publicID source]
      attempt_allowed(1,5,6) that by (auto simp: guess_inv_def limited_def split: if_splits)
  have ok: "guess_window_ok m t0 (ap_time s) (ap_inflight s) (pair_times (ap_failures s) k)"
    using attempt_allowed(5) by (simp add: guess_inv_def)
  have "guess_window_ok m t0 now n (pair_times (ap_failures s) k)"
    using guess_window_allowed [OF ok attempt_allowed(1) live attempt_allowed(4)]
      guess_window_later [OF ok attempt_allowed(1), of n] attempt_allowed(3) by (cases "(publicID, source) = k") auto
  then show ?case
    using attempt_allowed allow_represents by (auto simp: guess_inv_def)
next
  case (attempt_refused s now publicID source)
  then show ?case
    using allow_represents guess_window_later by (auto simp: guess_inv_def)
next
  case (attempt_failed s now publicID source n)
  have ok: "guess_window_ok m t0 (ap_time s) (ap_inflight s) (pair_times (ap_failures s) k)"
    "t0 \<le> now" "ap_inflight s \<le> m" "0 < now"
    using attempt_failed by (simp_all add: guess_inv_def)
  have "guess_window_ok m t0 now n (pair_times (ap_failures s @ [(now, publicID, source)]) k)"
    using guess_window_failed [OF ok(1) attempt_failed(1) ok(2)] guess_window_later [OF ok(1) attempt_failed(1), of n]
      attempt_failed(2,3) ok(3) unfolding pair_times_snoc [OF attempt_failed(5)] by auto
  then show ?case
    using attempt_failed ok fail_represents [of "ap_limiter s" "ap_time s" "ap_failures s" now]
    by (auto simp: guess_inv_def)
next
  case (attempt_succeeded s)
  then show ?case
    using guess_window_later [of m t0 "ap_time s"] by (auto simp: guess_inv_def)
qed

end

definition attempts_start :: "instant \<Rightarrow> failure_limiter attempts \<Rightarrow> bool" where
  "attempts_start t0 s \<longleftrightarrow> s = \<lparr>ap_limiter = newInMemoryFailureLimiter t0, ap_time = t0, ap_inflight = 0, ap_failures = []\<rparr>"

abbreviation "attempts_reachable m k t0 \<equiv> reachable (attempts_start t0) (attempt_step permit failed m k)"

lemma guess_inv_start: "0 < t0 \<Longrightarrow> attempts_start t0 s \<Longrightarrow> guess_inv knows m k t0 s"
  by (simp add: attempts_start_def guess_inv_def guess_window_ok_def knows_new pair_times_def window_of_def)

text \<open>
  \<^bold>\<open>C32.\<close> The rate of wrong secrets is bounded whatever the interleaving: when a pair of token and source
  never has more than \<open>m\<close> requests between \<^verbatim>\<open>Permit\<close> and \<^verbatim>\<open>Failed\<close> at a time, the failures it has been told of
  in a span of time are at most \<open>9 + m\<close> for every minute begun; with one request at a time these are the ten
  per minute the limit names.
\<close>

theorem guesses_bounded:
  assumes "attempts_reachable m k t0 s" "0 < t0" "fst k \<noteq> []"
  shows "int (length (pair_times (ap_failures s) k)) \<le> int (9 + m) * ((ap_time s - t0) div failureWindow + 1)"
proof -
  have "inductive_invariant (attempts_start t0) (attempt_step permit failed m k) (guess_inv knows m k t0)"
    using guess_inv_start [OF assms(2)] fl.guess_inv_step [OF _ _ assms(3)] by unfold_locales
  then have "guess_inv knows m k t0 s"
    using assms(1) by (rule inductive_invariant.invariant)
  then have ok: "guess_window_ok m t0 (ap_time s) (ap_inflight s) (pair_times (ap_failures s) k)" and t0: "t0 \<le> ap_time s"
    by (simp_all add: guess_inv_def)
  show ?thesis
  proof (cases "window_of (pair_times (ap_failures s) k)")
    case None
    then show ?thesis
      using ok t0 pos_imp_zdiv_nonneg_iff [OF failureWindow_pos, of "ap_time s - t0"] by (simp add: guess_window_ok_def)
  next
    case (Some w)
    obtain b n where bn: "w = (b, n)"
      by force
    have w: "b \<le> ap_time s" "n \<le> 9 + m"
      "int (length (pair_times (ap_failures s) k)) - int n \<le> int (9 + m) * ((b - t0) div failureWindow)"
      using ok Some bn by (simp_all add: guess_window_ok_def)
    have "int (9 + m) * ((b - t0) div failureWindow) \<le> int (9 + m) * ((ap_time s - t0) div failureWindow)"
      using zdiv_mono1 [OF _ failureWindow_pos, of "b - t0" "ap_time s - t0"] w(1) by (intro mult_left_mono) simp_all
    moreover have "int n \<le> int (9 + m)"
      using w(2) by (rule of_nat_mono)
    ultimately show ?thesis
      using w(3) unfolding distrib_left mult_1_right by linarith
  qed
qed

theorem guesses_bounded_witness:
  "\<exists>s. attempts_reachable 1 (''t'', ''s'') 1 s \<and> length (pair_times (ap_failures s) (''t'', ''s'')) = 1
     \<and> int (length (pair_times (ap_failures s) (''t'', ''s''))) \<le> 10 * ((ap_time s - 1) div failureWindow + 1)"
proof -
  let ?l = "newInMemoryFailureLimiter 1"
  let ?s0 = "\<lparr>ap_limiter = ?l, ap_time = 1, ap_inflight = 0, ap_failures = []\<rparr>"
  let ?s1 = "\<lparr>ap_limiter = snd (permit 2 ''t'' ''s'' ?l), ap_time = 2, ap_inflight = 1, ap_failures = []\<rparr>"
  let ?s2 = "\<lparr>ap_limiter = failed 3 ''t'' ''s'' (snd (permit 2 ''t'' ''s'' ?l)), ap_time = 3, ap_inflight = 0,
    ap_failures = [(3, ''t'', ''s'')]\<rparr>"
  have r0: "attempts_reachable 1 (''t'', ''s'') 1 ?s0"
    by (rule reachable_start) (simp add: attempts_start_def)
  have "attempt_step permit failed 1 (''t'', ''s'') ?s0 ?s1"
    using attempt_allowed [of ?s0 2 permit "''t''" "''s''" 1 "(''t'', ''s'')" 1 failed]
      fl.allow_answer [OF knows_new, of 2 2 "''t''" "''s''" 1] by simp
  with r0 have r1: "attempts_reachable 1 (''t'', ''s'') 1 ?s1"
    by (rule reachable_step)
  have "attempt_step permit failed 1 (''t'', ''s'') ?s1 ?s2"
    using attempt_failed [of ?s1 3 "''t''" "''s''" "(''t'', ''s'')" 0 permit failed 1] by simp
  with r1 have r2: "attempts_reachable 1 (''t'', ''s'') 1 ?s2"
    by (rule reachable_step)
  have "length (pair_times (ap_failures ?s2) (''t'', ''s'')) = 1"
    by (simp add: pair_times_def)
  then show ?thesis
    using guesses_bounded [OF r2] r2 by (intro exI [of _ ?s2]) simp
qed

end
