(* ===== verification/Go_Bytes.thy ===== *)
theory Go_Bytes
  imports Go_Base64
begin

text \<open>
  The parts of packages \<^verbatim>\<open>encoding/binary\<close>, \<^verbatim>\<open>encoding/hex\<close> and \<^verbatim>\<open>fmt\<close> the components use: unsigned integers
  in big-endian order (a value that does not fit loses its high bytes, as the conversion in Go does),
  lower case hexadecimal text, and decimals padded with zeros.
\<close>

section \<open>Big-endian integers\<close>

primrec be_bytes :: "nat \<Rightarrow> nat \<Rightarrow> bytes" where
  "be_bytes 0 n = []"
| "be_bytes (Suc k) n = be_bytes k (n div 256) @ [of_nat n]"

definition be_value :: "bytes \<Rightarrow> nat" where
  "be_value bs = foldl (\<lambda>a b. a * 256 + unat b) 0 bs"

lemma length_be_bytes [simp]: "length (be_bytes k n) = k"
  by (induction k arbitrary: n) simp_all

lemma be_value_snoc: "be_value (bs @ [b]) = be_value bs * 256 + unat b"
  by (simp add: be_value_def)

lemma be_value_bytes: "be_value (be_bytes k n) = n mod 256 ^ k"
proof (induction k arbitrary: n)
  case (Suc k)
  have "unat (of_nat n :: 8 word) = n mod 256"
    by (simp add: unat_of_nat)
  then show ?case
    using Suc mod_mult2_eq [of n 256 "256 ^ k"] by (simp add: be_value_snoc mult.commute)
qed (simp add: be_value_def)

lemma be_bytes_inj: "n < 256 ^ k \<Longrightarrow> m < 256 ^ k \<Longrightarrow> be_bytes k n = be_bytes k m \<longleftrightarrow> n = m"
  by (metis be_value_bytes mod_less)

lemma be_bytes_value: "length bs = k \<Longrightarrow> be_bytes k (be_value bs) = bs"
proof (induction bs arbitrary: k rule: rev_induct)
  case (snoc b bs)
  then obtain j where k: "k = Suc j"
    by auto
  have "unat b < 256"
    using unsigned_less [of b] by simp
  then have "(be_value bs * 256 + unat b) div 256 = be_value bs"
    by simp
  moreover have "unat (of_nat (be_value bs * 256 + unat b) :: 8 word) = unat b"
    using \<open>unat b < 256\<close> by (simp only: unat_of_nat) simp
  then have "(of_nat (be_value bs * 256 + unat b) :: 8 word) = b"
    by (rule unsigned_word_eqI)
  ultimately show ?case
    using snoc k by (simp add: be_value_snoc)
qed simp

section \<open>Hexadecimal text\<close>

definition hex_digits :: string where
  "hex_digits = ''0123456789abcdef''"

definition hex_digit :: "nat \<Rightarrow> char" where
  "hex_digit n = hex_digits ! n"

definition hex_encode :: "bytes \<Rightarrow> string" where
  "hex_encode bs = concat (map (\<lambda>b. [hex_digit (unat b div 16), hex_digit (unat b mod 16)]) bs)"

definition hex_lower :: "char \<Rightarrow> bool" where
  "hex_lower c \<longleftrightarrow> c \<in> set hex_digits"

definition hex_nibble :: "char \<Rightarrow> nat option" where
  "hex_nibble c = (if hex_lower c then index_of c hex_digits else index_of c ''0123456789ABCDEF'')"

fun hex_decode :: "string \<Rightarrow> bytes option" where
  "hex_decode [] = Some []"
| "hex_decode [c] = None"
| "hex_decode (c # d # s) =
     (case hex_nibble c of
        None \<Rightarrow> None
      | Some h \<Rightarrow> (case hex_nibble d of
          None \<Rightarrow> None
        | Some l \<Rightarrow> map_option (Cons (of_nat (16 * h + l))) (hex_decode s)))"

lemma hex_digits_facts: "length hex_digits = 16" "distinct hex_digits"
  by (simp_all add: hex_digits_def)

lemma hex_digit_lower: "n < 16 \<Longrightarrow> hex_lower (hex_digit n)"
  unfolding hex_lower_def hex_digit_def by (rule nth_mem) (simp add: hex_digits_facts)

lemma hex_nibble_digit [simp]: "n < 16 \<Longrightarrow> hex_nibble (hex_digit n) = Some n"
  using hex_digit_lower index_of_nth [OF hex_digits_facts(2), of n] by (simp add: hex_nibble_def hex_digit_def hex_digits_facts)

lemma hex_encode_simps [simp]:
  "hex_encode [] = []"
  "hex_encode (b # bs) = hex_digit (unat b div 16) # hex_digit (unat b mod 16) # hex_encode bs"
  by (simp_all add: hex_encode_def)

lemma length_hex_encode [simp]: "length (hex_encode bs) = 2 * length bs"
  by (induction bs) simp_all

lemma byte_lt: "unat (b :: 8 word) < 256"
  using unsigned_less [of b] by simp

lemma hex_encode_lower: "list_all hex_lower (hex_encode bs)"
proof (induction bs)
  case (Cons b bs)
  have "unat b div 16 < 16" "unat b mod 16 < 16"
    using byte_lt [of b] by auto
  then show ?case
    using Cons hex_digit_lower by simp
qed simp

lemma hex_decode_encode: "hex_decode (hex_encode bs) = Some bs"
proof (induction bs)
  case (Cons b bs)
  have "unat b div 16 < 16" "unat b mod 16 < 16" "16 * (unat b div 16) + unat b mod 16 = unat b"
    using byte_lt [of b] by auto
  then show ?case
    using Cons by (simp del: of_nat_add of_nat_mult)
qed simp

lemma hex_encode_inj: "hex_encode bs = hex_encode cs \<longleftrightarrow> bs = cs"
  by (metis hex_decode_encode option.inject)


end
