(* ===== verification/Crypto_Box.thy ===== *)
theory Crypto_Box
  imports Api_Token Go_Bytes
begin

text \<open>
  Package \<^verbatim>\<open>cryptobox\<close>: sealed values with a format tag, a random nonce and the output of an authenticated
  cipher. HKDF and the cipher, XChaCha20-Poly1305 of \<^verbatim>\<open>golang.org/x/crypto\<close>, are parameters.
\<close>

section \<open>Model\<close>

record aead =
  ae_seal :: "bytes \<Rightarrow> bytes \<Rightarrow> bytes \<Rightarrow> bytes \<Rightarrow> bytes"
  ae_open :: "bytes \<Rightarrow> bytes \<Rightarrow> bytes \<Rightarrow> bytes \<Rightarrow> bytes option"

type_synonym hkdf_fn = "bytes \<Rightarrow> bytes \<Rightarrow> string \<Rightarrow> nat \<Rightarrow> bytes option"

datatype box_error = MasterKeyLength | EmptySalt | EmptyDomain | DeriveKey | CreateCipher | NonceFailed
  | Truncated | UnsupportedFormat | AuthenticationFailed

definition keySize :: nat where "keySize = 32"
definition formatSize :: nat where "formatSize = 4"
definition box_format :: bytes where "box_format = [0x50, 0x44, 0x58, 1]"

text \<open>\<^verbatim>\<open>NonceSize\<close> and \<^verbatim>\<open>Overhead\<close> of XChaCha20-Poly1305.\<close>

definition nonceSize :: nat where "nonceSize = 24"
definition overhead :: nat where "overhead = 16"

definition parseMasterKey :: "bytes \<Rightarrow> box_error + bytes" where
  "parseMasterKey v = (if length v \<noteq> keySize then Inl MasterKeyLength else Inr v)"

definition newBox :: "hkdf_fn \<Rightarrow> bytes \<Rightarrow> bytes \<Rightarrow> string \<Rightarrow> box_error + bytes" where
  "newBox hkdf master salt info =
     (if salt = [] then Inl EmptySalt
      else if info = [] then Inl EmptyDomain
      else case hkdf master salt info keySize of
        None \<Rightarrow> Inl DeriveKey
      | Some derived \<Rightarrow> Inr (take keySize (derived @ replicate keySize 0)))"

definition sealWith :: "aead \<Rightarrow> bytes \<Rightarrow> bytes \<Rightarrow> bytes \<Rightarrow> bytes \<Rightarrow> box_error + bytes \<times> bytes" where
  "sealWith a key random plaintext additionalData =
     (if length key \<noteq> keySize then Inl CreateCipher
      else case read_full nonceSize random of
        None \<Rightarrow> Inl NonceFailed
      | Some (nonce, random) \<Rightarrow> Inr (box_format @ nonce @ ae_seal a key nonce plaintext additionalData, random))"

definition boxOpen :: "aead \<Rightarrow> bytes \<Rightarrow> bytes \<Rightarrow> bytes \<Rightarrow> box_error + bytes" where
  "boxOpen a key sealed additionalData =
     (if length key \<noteq> keySize then Inl CreateCipher
      else let headerSize = formatSize + nonceSize
      in if length sealed < headerSize + overhead then Inl Truncated
         else if take formatSize sealed \<noteq> box_format then Inl UnsupportedFormat
         else let nonce = take nonceSize (drop formatSize sealed)
         in case ae_open a key nonce (drop headerSize sealed) additionalData of
              None \<Rightarrow> Inl AuthenticationFailed
            | Some plaintext \<Rightarrow> Inr plaintext)"

section \<open>What the cipher promises\<close>

text \<open>
  The documented behaviour of the cipher: the output is longer than the plaintext by the overhead, and
  opening succeeds exactly on the output of sealing the plaintext with the same key, nonce and additional
  data. That nobody can find such an output without the key is not a law of functions and is not assumed.
\<close>

definition aead_ok :: "aead \<Rightarrow> bool" where
  "aead_ok a \<longleftrightarrow>
     (\<forall>key nonce plaintext ad. length (ae_seal a key nonce plaintext ad) = length plaintext + overhead)
     \<and> (\<forall>key nonce sealed ad plaintext.
          ae_open a key nonce sealed ad = Some plaintext \<longleftrightarrow> sealed = ae_seal a key nonce plaintext ad)"

lemma aead_okD:
  assumes "aead_ok a"
  shows "length (ae_seal a key nonce plaintext ad) = length plaintext + overhead"
    and "ae_open a key nonce sealed ad = Some plaintext \<longleftrightarrow> sealed = ae_seal a key nonce plaintext ad"
    and "ae_open a key nonce (ae_seal a key nonce plaintext ad) ad = Some plaintext"
  using assms by (simp_all add: aead_ok_def)

lemma sealWith_Inr:
  "sealWith a key random plaintext ad = Inr (sealed, rest) \<longleftrightarrow>
    length key = keySize \<and> nonceSize \<le> length random \<and> rest = drop nonceSize random
    \<and> sealed = box_format @ take nonceSize random @ ae_seal a key (take nonceSize random) plaintext ad"
  by (auto simp: sealWith_def read_full_def)

lemma boxOpen_Inr:
  assumes "aead_ok a"
  shows "boxOpen a key sealed ad = Inr plaintext \<longleftrightarrow>
    length key = keySize \<and> (\<exists>nonce. length nonce = nonceSize \<and> sealed = box_format @ nonce @ ae_seal a key nonce plaintext ad)"
    (is "_ \<longleftrightarrow> ?R")
proof
  assume opened: "boxOpen a key sealed ad = Inr plaintext"
  let ?nonce = "take nonceSize (drop formatSize sealed)"
  have k: "length key = keySize" "formatSize + nonceSize + overhead \<le> length sealed" "take formatSize sealed = box_format"
    and "drop (formatSize + nonceSize) sealed = ae_seal a key ?nonce plaintext ad"
    using opened aead_okD(2) [OF assms] by (auto simp: boxOpen_def Let_def split: if_splits option.splits)
  moreover have "sealed = take formatSize sealed @ ?nonce @ drop (formatSize + nonceSize) sealed"
    by (metis append_take_drop_id drop_drop add.commute)
  ultimately have "sealed = box_format @ ?nonce @ ae_seal a key ?nonce plaintext ad"
    by simp
  then show ?R
    using k by (intro conjI exI [of _ ?nonce]) simp_all
next
  assume ?R
  then obtain nonce where n: "length key = keySize" "length nonce = nonceSize"
    "sealed = box_format @ nonce @ ae_seal a key nonce plaintext ad"
    by blast
  have "length box_format = formatSize"
    by (simp add: box_format_def formatSize_def)
  then show "boxOpen a key sealed ad = Inr plaintext"
    using n aead_okD(1,3) [OF assms] by (simp add: boxOpen_def Let_def)
qed

lemma boxOpen_seal:
  "aead_ok a \<Longrightarrow> sealWith a key random plaintext ad = Inr (sealed, rest) \<Longrightarrow> boxOpen a key sealed ad = Inr plaintext"
  unfolding boxOpen_Inr sealWith_Inr by (intro conjI exI [of _ "take nonceSize random"]) simp_all

text \<open>A cipher that keeps these laws: the plaintext followed by a checksum of the additional data.\<close>

definition sample_tag :: "bytes \<Rightarrow> bytes" where
  "sample_tag ad = take overhead (ad @ replicate overhead 0)"

definition sample_aead :: aead where
  "sample_aead = \<lparr>ae_seal = (\<lambda>key nonce p ad. p @ sample_tag ad),
     ae_open = (\<lambda>key nonce c ad.
       if overhead \<le> length c \<and> drop (length c - overhead) c = sample_tag ad then Some (take (length c - overhead) c) else None)\<rparr>"

lemma sample_tag_length [simp]: "length (sample_tag ad) = overhead"
  by (simp add: sample_tag_def)

lemma sample_aead_ok: "aead_ok sample_aead"
proof -
  have "overhead \<le> length c \<and> drop (length c - overhead) c = sample_tag ad \<and> take (length c - overhead) c = p
      \<longleftrightarrow> c = p @ sample_tag ad" for c p ad
    using sample_tag_length [of ad] by (metis append_eq_conv_conj append_take_drop_id diff_add_inverse2 le_add2 length_append)
  then show ?thesis
    by (auto simp: aead_ok_def sample_aead_def)
qed

end
