(* ===== verification/Backup_Chunks.thy ===== *)
theory Backup_Chunks
  imports Crypto_Box Go_Path Go_Strconv
begin

text \<open>
  Package \<^verbatim>\<open>backupcrypto\<close>: a backup is cut into chunks of 8 MiB, each sealed with its identity as additional
  data, and written to a work directory. The files of the directory are a map from paths to contents;
  \<open>fault\<close> says what goes wrong with the n-th file the writer opens. SHA-256 is a parameter.
\<close>

section \<open>Model\<close>

type_synonym hash_fn = "bytes \<Rightarrow> bytes"

record chunk =
  ck_index :: int
  ck_plaintextSize :: int
  ck_ciphertextSize :: int
  ck_sha :: string

record work_chunk =
  wk_chunk :: chunk
  wk_path :: string

record resource_cipher =
  rc_resourceID :: string
  rc_key :: bytes

datatype chunk_error = ResourceIDEmpty | BoxFailed box_error | ChunkInvalid | DescriptorInvalid | ChecksumDiffers
  | SizeDiffers | WriterInvalid | WriterClosed | NotClosed | FileFailed | WriterPanic

definition resourceKeyDomain :: string where "resourceKeyDomain = ''platformd/backup/v1''"
definition controlKeyDomain :: string where "controlKeyDomain = ''platformd/backup/control/v1''"
definition defaultChunkSize :: nat where "defaultChunkSize = 8388608"

definition newCipher :: "hkdf_fn \<Rightarrow> bytes \<Rightarrow> string \<Rightarrow> string \<Rightarrow> chunk_error + resource_cipher" where
  "newCipher hkdf master resourceID domain =
     (if resourceID = [] then Inl ResourceIDEmpty
      else case newBox hkdf master (str_bytes resourceID) domain of
        Inl e \<Rightarrow> Inl (BoxFailed e)
      | Inr key \<Rightarrow> Inr \<lparr>rc_resourceID = resourceID, rc_key = key\<rparr>)"

definition newResourceCipher :: "hkdf_fn \<Rightarrow> bytes \<Rightarrow> string \<Rightarrow> chunk_error + resource_cipher" where
  "newResourceCipher hkdf master resourceID = newCipher hkdf master resourceID resourceKeyDomain"

definition newControlCipher :: "hkdf_fn \<Rightarrow> bytes \<Rightarrow> string \<Rightarrow> chunk_error + resource_cipher" where
  "newControlCipher hkdf master installationID = newCipher hkdf master installationID controlKeyDomain"

definition appendLengthPrefixed :: "bytes \<Rightarrow> string \<Rightarrow> bytes" where
  "appendLengthPrefixed destination v = destination @ be_bytes 4 (length v) @ str_bytes v"

definition chunkAdditionalData :: "string \<Rightarrow> string \<Rightarrow> nat \<Rightarrow> nat \<Rightarrow> bytes" where
  "chunkAdditionalData resourceID generationID index plaintextSize =
     appendLengthPrefixed (appendLengthPrefixed [1] resourceID) generationID @ be_bytes 8 index @ be_bytes 8 plaintextSize"

definition sealChunk ::
  "aead \<Rightarrow> hash_fn \<Rightarrow> resource_cipher \<Rightarrow> string \<Rightarrow> int \<Rightarrow> bytes \<Rightarrow> bytes \<Rightarrow> chunk_error + bytes \<times> chunk \<times> bytes" where
  "sealChunk a sha256 c generationID index plaintext random =
     (if generationID = [] \<or> index < 0 \<or> length plaintext > defaultChunkSize then Inl ChunkInvalid
      else case sealWith a (rc_key c) random plaintext
              (chunkAdditionalData (rc_resourceID c) generationID (nat index) (length plaintext)) of
        Inl e \<Rightarrow> Inl (BoxFailed e)
      | Inr (sealed, random) \<Rightarrow>
          Inr (sealed,
            \<lparr>ck_index = index, ck_plaintextSize = int (length plaintext), ck_ciphertextSize = int (length sealed),
             ck_sha = hex_encode (sha256 sealed)\<rparr>, random))"

definition openChunk ::
  "aead \<Rightarrow> hash_fn \<Rightarrow> resource_cipher \<Rightarrow> string \<Rightarrow> chunk \<Rightarrow> bytes \<Rightarrow> chunk_error + bytes" where
  "openChunk a sha256 c generationID d sealed =
     (if generationID = [] \<or> ck_index d < 0 \<or> ck_plaintextSize d < 0 \<or> ck_plaintextSize d > int defaultChunkSize
         \<or> ck_ciphertextSize d \<noteq> int (length sealed) then Inl DescriptorInvalid
      else if hex_encode (sha256 sealed) \<noteq> ck_sha d then Inl ChecksumDiffers
      else case boxOpen a (rc_key c) sealed
              (chunkAdditionalData (rc_resourceID c) generationID (nat (ck_index d)) (nat (ck_plaintextSize d))) of
        Inl e \<Rightarrow> Inl (BoxFailed e)
      | Inr plaintext \<Rightarrow>
          if int (length plaintext) \<noteq> ck_plaintextSize d then Inl SizeDiffers else Inr plaintext)"

text \<open>
  What can go wrong with a file: it cannot be created, or writing, syncing or closing it fails and it is
  removed, or removing it fails as well and a part of it stays.
\<close>

datatype file_fault = NoFault | CreateFault | WriteFault "bytes option"

record work_writer =
  ww_cipher :: resource_cipher
  ww_generationID :: string
  ww_root :: string
  ww_random :: bytes
  ww_buffer :: bytes
  ww_chunks :: "work_chunk list"
  ww_closed :: bool
  ww_files :: "(string \<times> bytes) list"
  ww_opens :: nat

definition newWorkWriter ::
  "resource_cipher option \<Rightarrow> string \<Rightarrow> string \<Rightarrow> bytes \<Rightarrow> (string \<times> bytes) list \<Rightarrow> chunk_error + work_writer" where
  "newWorkWriter cipher generationID root random files =
     (case cipher of
        None \<Rightarrow> Inl WriterInvalid
      | Some c \<Rightarrow>
          if generationID = [] \<or> \<not> is_abs root \<or> path_clean root \<noteq> root \<or> root = ''/'' then Inl WriterInvalid
          else Inr \<lparr>ww_cipher = c, ww_generationID = generationID, ww_root = root, ww_random = random, ww_buffer = [],
            ww_chunks = [], ww_closed = False, ww_files = files, ww_opens = 0\<rparr>)"

text \<open>\<^verbatim>\<open>fmt\<close>'s \<open>%08d\<close> of a number that is not negative, and \<^verbatim>\<open>filepath.Join\<close> of a directory and a name.\<close>

definition pad8 :: "nat \<Rightarrow> string" where
  "pad8 n = replicate (8 - length (itoa n)) CHR ''0'' @ itoa n"

definition path_join :: "string \<Rightarrow> string \<Rightarrow> string" where
  "path_join dir name = path_clean (dir @ ''/'' @ name)"

definition chunkPath :: "string \<Rightarrow> nat \<Rightarrow> string" where
  "chunkPath root index = path_join root (''chunk-'' @ pad8 index @ ''.pdx'')"

definition flush :: "aead \<Rightarrow> hash_fn \<Rightarrow> (nat \<Rightarrow> file_fault) \<Rightarrow> work_writer \<Rightarrow> chunk_error option \<times> work_writer" where
  "flush a sha256 fault w =
     (let index = length (ww_chunks w)
      in case sealChunk a sha256 (ww_cipher w) (ww_generationID w) (int index) (ww_buffer w) (ww_random w) of
           Inl e \<Rightarrow> (Some e, w)
         | Inr (sealed, descriptor, random) \<Rightarrow>
             (let path = chunkPath (ww_root w) index;
                  outcome = fault (ww_opens w);
                  w = w\<lparr>ww_random := random, ww_opens := ww_opens w + 1\<rparr>
              in if map_of (ww_files w) path \<noteq> None then (Some FileFailed, w)
                 else case outcome of
                   CreateFault \<Rightarrow> (Some FileFailed, w)
                 | WriteFault left \<Rightarrow>
                     (Some FileFailed, w\<lparr>ww_files := (case left of None \<Rightarrow> ww_files w | Some part \<Rightarrow> (path, part) # ww_files w)\<rparr>)
                 | NoFault \<Rightarrow>
                     (None, w\<lparr>ww_files := (path, sealed) # ww_files w,
                        ww_chunks := ww_chunks w @ [\<lparr>wk_chunk = descriptor, wk_path = path\<rparr>], ww_buffer := []\<rparr>)))"

lemma flush_None:
  assumes "flush a sha256 fault w = (None, w')"
  obtains sealed d random where
    "sealChunk a sha256 (ww_cipher w) (ww_generationID w) (int (length (ww_chunks w))) (ww_buffer w) (ww_random w) = Inr (sealed, d, random)"
    "map_of (ww_files w) (chunkPath (ww_root w) (length (ww_chunks w))) = None"
    "w' = w\<lparr>ww_random := random, ww_opens := ww_opens w + 1, ww_files := (chunkPath (ww_root w) (length (ww_chunks w)), sealed) # ww_files w,
       ww_chunks := ww_chunks w @ [\<lparr>wk_chunk = d, wk_path = chunkPath (ww_root w) (length (ww_chunks w))\<rparr>], ww_buffer := []\<rparr>"
  using assms by (auto simp: flush_def Let_def split: sum.splits if_splits file_fault.splits option.splits)

text \<open>
  \<^verbatim>\<open>Write\<close>: the count of bytes taken and the error. A buffer longer than a chunk, which would make the
  slice expression of the code panic, does not occur.
\<close>

function writeLoop ::
  "aead \<Rightarrow> hash_fn \<Rightarrow> (nat \<Rightarrow> file_fault) \<Rightarrow> work_writer \<Rightarrow> bytes \<Rightarrow> nat \<Rightarrow> (nat \<times> chunk_error option) \<times> work_writer" where
  "writeLoop a sha256 fault w input written =
     (if input = [] then ((written, None), w)
      else if defaultChunkSize < length (ww_buffer w) then ((written, Some WriterPanic), w)
      else let remaining = defaultChunkSize - length (ww_buffer w);
               count = min remaining (length input);
               w = w\<lparr>ww_buffer := ww_buffer w @ take count input\<rparr>;
               input = drop count input;
               written = written + count
           in if length (ww_buffer w) = defaultChunkSize then
                (case flush a sha256 fault w of
                   (Some e, w) \<Rightarrow> ((written, Some e), w)
                 | (None, w) \<Rightarrow> writeLoop a sha256 fault w input written)
              else writeLoop a sha256 fault w input written)"
  by pat_completeness auto
termination
proof (relation "measure (\<lambda>(a, sha256, fault, w, input, written).
    2 * length input + of_bool (length (ww_buffer w) = defaultChunkSize))", goal_cases)
  case (2 a sha256 fault w input written remaining count w1 rest written1 e w2)
  then have "flush a sha256 fault w1 = (None, w2)"
    by simp
  then have "ww_buffer w2 = []"
    by (rule flush_None) simp
  moreover have "count = 0 \<longrightarrow> length (ww_buffer w) = defaultChunkSize"
    using 2(1-4) by (auto simp: min_def split: if_splits)
  moreover have "length rest = length input - count" "count \<le> length input" "defaultChunkSize \<noteq> 0" "input \<noteq> []"
    using 2(1,4,6) by (auto simp: defaultChunkSize_def)
  ultimately show ?case
    by (cases "count = 0") auto
next
  case (3 a sha256 fault w input written remaining count w1 rest written1)
  have "count \<noteq> 0"
    using 3 by (auto simp: min_def split: if_splits)
  then have "length rest < length input"
    using 3(1,4,6) by simp
  then show ?case
    using 3(8) by simp
qed simp

declare writeLoop.simps [simp del]

definition writer_write ::
  "aead \<Rightarrow> hash_fn \<Rightarrow> (nat \<Rightarrow> file_fault) \<Rightarrow> bytes \<Rightarrow> work_writer \<Rightarrow> (nat \<times> chunk_error option) \<times> work_writer" where
  "writer_write a sha256 fault input w =
     (if ww_closed w then ((0, Some WriterClosed), w) else writeLoop a sha256 fault w input 0)"

definition writer_close :: "aead \<Rightarrow> hash_fn \<Rightarrow> (nat \<Rightarrow> file_fault) \<Rightarrow> work_writer \<Rightarrow> chunk_error option \<times> work_writer" where
  "writer_close a sha256 fault w =
     (if ww_closed w then (None, w)
      else let w = w\<lparr>ww_closed := True\<rparr>
      in if ww_buffer w \<noteq> [] \<or> ww_chunks w = [] then flush a sha256 fault w else (None, w))"

definition writer_chunks :: "work_writer \<Rightarrow> chunk_error + work_chunk list" where
  "writer_chunks w = (if \<not> ww_closed w then Inl NotClosed else Inr (ww_chunks w))"

section \<open>One chunk\<close>

lemma sealChunk_Inr:
  "sealChunk a sha256 c gen index plaintext random = Inr (sealed, d, rest) \<longleftrightarrow>
    gen \<noteq> [] \<and> 0 \<le> index \<and> length plaintext \<le> defaultChunkSize
    \<and> sealWith a (rc_key c) random plaintext (chunkAdditionalData (rc_resourceID c) gen (nat index) (length plaintext)) = Inr (sealed, rest)
    \<and> d = \<lparr>ck_index = index, ck_plaintextSize = int (length plaintext), ck_ciphertextSize = int (length sealed),
         ck_sha = hex_encode (sha256 sealed)\<rparr>"
  by (auto simp: sealChunk_def split: sum.splits)

lemma openChunk_Inr:
  "openChunk a sha256 c gen d sealed = Inr plaintext \<longleftrightarrow>
    gen \<noteq> [] \<and> 0 \<le> ck_index d \<and> ck_plaintextSize d = int (length plaintext) \<and> length plaintext \<le> defaultChunkSize
    \<and> ck_ciphertextSize d = int (length sealed) \<and> hex_encode (sha256 sealed) = ck_sha d
    \<and> boxOpen a (rc_key c) sealed (chunkAdditionalData (rc_resourceID c) gen (nat (ck_index d)) (length plaintext)) = Inr plaintext"
  (is "?L \<longleftrightarrow> ?R")
proof
  assume ?L
  then have "boxOpen a (rc_key c) sealed
      (chunkAdditionalData (rc_resourceID c) gen (nat (ck_index d)) (nat (ck_plaintextSize d))) = Inr plaintext"
    "int (length plaintext) = ck_plaintextSize d" "gen \<noteq> []" "0 \<le> ck_index d" "ck_plaintextSize d \<le> int defaultChunkSize"
    "ck_ciphertextSize d = int (length sealed)" "hex_encode (sha256 sealed) = ck_sha d"
    by (simp_all add: openChunk_def split: sum.splits if_splits)
  then show ?R
    by (metis nat_int of_nat_le_iff)
next
  assume ?R
  then show ?L
    by (simp add: openChunk_def)
qed

lemma openChunk_seal:
  assumes "aead_ok a" "sealChunk a sha256 c gen index plaintext random = Inr (sealed, d, rest)"
  shows "openChunk a sha256 c gen d sealed = Inr plaintext"
  using assms(2) boxOpen_seal [OF assms(1)] unfolding sealChunk_Inr openChunk_Inr by auto

lemma same_length_prefix: "length xs = length ys \<Longrightarrow> xs @ us = ys @ vs \<Longrightarrow> xs = ys \<and> us = vs"
  by simp

lemma length_prefixed_inj:
  assumes "length v < 256 ^ 4" "length v' < 256 ^ 4"
    and "be_bytes 4 (length v) @ str_bytes v @ us = be_bytes 4 (length v') @ str_bytes v' @ vs"
  shows "v = v' \<and> us = vs"
proof -
  have first: "be_bytes 4 (length v) = be_bytes 4 (length v')" "str_bytes v @ us = str_bytes v' @ vs"
    using same_length_prefix [OF _ assms(3)] unfolding length_be_bytes by blast+
  then have "length (str_bytes v) = length (str_bytes v')"
    using be_bytes_inj [OF assms(1,2)] by (simp add: str_bytes_def)
  then show ?thesis
    using same_length_prefix [OF _ first(2)] str_bytes_inj by blast
qed

lemma additional_data_inj:
  assumes "length r < 256 ^ 4" "length r' < 256 ^ 4" "length g < 256 ^ 4" "length g' < 256 ^ 4"
    and "i < 256 ^ 8" "i' < 256 ^ 8" "n < 256 ^ 8" "n' < 256 ^ 8"
    and "chunkAdditionalData r g i n = chunkAdditionalData r' g' i' n'"
  shows "r = r' \<and> g = g' \<and> i = i' \<and> n = n'"
proof -
  have "be_bytes 4 (length r) @ str_bytes r @ be_bytes 4 (length g) @ str_bytes g @ be_bytes 8 i @ be_bytes 8 n
      = be_bytes 4 (length r') @ str_bytes r' @ be_bytes 4 (length g') @ str_bytes g' @ be_bytes 8 i' @ be_bytes 8 n'"
    using assms(9) unfolding chunkAdditionalData_def appendLengthPrefixed_def append_assoc append_Cons append_Nil list.inject
    by blast
  note r = length_prefixed_inj [OF assms(1,2) this]
  note g = length_prefixed_inj [OF assms(3,4) conjunct2 [OF r]]
  have "be_bytes 8 i = be_bytes 8 i' \<and> be_bytes 8 n = be_bytes 8 n'"
    using same_length_prefix [OF _ conjunct2 [OF g]] unfolding length_be_bytes by blast
  then show ?thesis
    using r g be_bytes_inj [OF assms(5,6)] be_bytes_inj [OF assms(7,8)] by blast
qed

text \<open>
  \<^bold>\<open>C33.\<close> A sealed chunk is accepted only as what it was sealed as: when a ciphertext that \<^verbatim>\<open>SealChunk\<close>
  returned is opened with the same key under any descriptor, the resource, the generation, the index and
  the plaintext are those it was sealed with. The only exception is a forgery of this very chunk: the additional data of the two
  identities differ, and under the key and the nonce it was sealed with the cipher returns for the opened plaintext with the
  additional data of the second identity what it returned for the sealed one with those of the first.
\<close>

theorem chunk_bound_to_identity:
  assumes "aead_ok a" "rc_key c' = rc_key c"
    and "sealChunk a sha256 c gen index plaintext random = Inr (sealed, d, rest)"
    and "openChunk a sha256 c' gen' d' sealed = Inr opened"
    and "length (rc_resourceID c) < 2 ^ 32" "length (rc_resourceID c') < 2 ^ 32" "length gen < 2 ^ 32" "length gen' < 2 ^ 32"
    and "index < 2 ^ 63" "ck_index d' < 2 ^ 63"
  shows "rc_resourceID c' = rc_resourceID c \<and> gen' = gen \<and> ck_index d' = index \<and> opened = plaintext
    \<or> (chunkAdditionalData (rc_resourceID c) gen (nat index) (length plaintext)
          \<noteq> chunkAdditionalData (rc_resourceID c') gen' (nat (ck_index d')) (length opened)
        \<and> ae_seal a (rc_key c) (take nonceSize random) plaintext
            (chunkAdditionalData (rc_resourceID c) gen (nat index) (length plaintext))
          = ae_seal a (rc_key c) (take nonceSize random) opened
            (chunkAdditionalData (rc_resourceID c') gen' (nat (ck_index d')) (length opened)))"
proof -
  let ?ad = "chunkAdditionalData (rc_resourceID c) gen (nat index) (length plaintext)"
  let ?ad' = "chunkAdditionalData (rc_resourceID c') gen' (nat (ck_index d')) (length opened)"
  have s: "0 \<le> index" "length plaintext \<le> defaultChunkSize" "sealWith a (rc_key c) random plaintext ?ad = Inr (sealed, rest)"
    using assms(3) unfolding sealChunk_Inr by simp_all
  have o: "0 \<le> ck_index d'" "length opened \<le> defaultChunkSize" "boxOpen a (rc_key c) sealed ?ad' = Inr opened"
    using assms(2,4) unfolding openChunk_Inr by simp_all
  let ?nonce = "take nonceSize random"
  obtain nonce where "length nonce = nonceSize" "sealed = box_format @ nonce @ ae_seal a (rc_key c) nonce opened ?ad'"
    using o(3) unfolding boxOpen_Inr [OF assms(1)] by blast
  then have same: "ae_seal a (rc_key c) ?nonce plaintext ?ad = ae_seal a (rc_key c) ?nonce opened ?ad'"
    using s(3) unfolding sealWith_Inr by (auto simp: append_eq_append_conv)
  have "defaultChunkSize < 256 ^ 8"
    by (simp add: defaultChunkSize_def)
  then have sizes: "length plaintext < 256 ^ 8" "length opened < 256 ^ 8"
    using s(2) o(2) by (blast intro: le_less_trans)+
  have "(2::int) ^ 63 = int (2 ^ 63)" "(2::nat) ^ 63 < 256 ^ 8" "(2::nat) ^ 32 = 256 ^ 4"
    by simp_all
  then have bounds: "nat index < 256 ^ 8" "nat (ck_index d') < 256 ^ 8" "length (rc_resourceID c) < 256 ^ 4"
    "length (rc_resourceID c') < 256 ^ 4" "length gen < 256 ^ 4" "length gen' < 256 ^ 4"
    using assms(5-10) by linarith+
  show ?thesis
  proof (cases "?ad = ?ad'")
    case True
    have "rc_resourceID c = rc_resourceID c' \<and> gen = gen' \<and> nat index = nat (ck_index d') \<and> length plaintext = length opened"
      by (rule additional_data_inj [OF bounds(3-6) bounds(1,2) sizes True])
    moreover have "Some plaintext = Some opened"
      using same True aead_okD(3) [OF assms(1)] by metis
    ultimately have "rc_resourceID c' = rc_resourceID c \<and> gen' = gen \<and> ck_index d' = index \<and> opened = plaintext"
      using s(1) o(1) by (simp add: eq_nat_nat_iff)
    then show ?thesis ..
  next
    case False
    show ?thesis
      by (intro disjI2 conjI False same)
  qed
qed

definition sample_cipher :: resource_cipher where
  "sample_cipher = \<lparr>rc_resourceID = ''r'', rc_key = replicate 32 7\<rparr>"

definition sample_sha256 :: hash_fn where
  "sample_sha256 bs = take 32 (bs @ replicate 32 0)"

lemma sample_seal:
  "\<exists>sealed d. sealChunk sample_aead sample_sha256 sample_cipher ''g'' 0 [1, 2] (replicate 24 3) = Inr (sealed, d, [])
     \<and> openChunk sample_aead sample_sha256 sample_cipher ''g'' d sealed = Inr [1, 2]"
proof -
  obtain sealed d where s: "sealChunk sample_aead sample_sha256 sample_cipher ''g'' 0 [1, 2] (replicate 24 3) = Inr (sealed, d, [])"
    by (simp add: sealChunk_def sealWith_def read_full_def sample_cipher_def keySize_def nonceSize_def defaultChunkSize_def)
  then show ?thesis
    using openChunk_seal [OF sample_aead_ok] by blast
qed

text \<open>The additional data of two generations differ within the tag of the sample cipher.\<close>

lemma sample_bytes_differ: "(of_char CHR ''g'' :: 8 word) \<noteq> of_char CHR ''h''"
  by simp

lemma sample_tags_differ:
  "sample_tag (chunkAdditionalData ''r'' ''g'' i n) \<noteq> sample_tag (chunkAdditionalData ''r'' ''h'' j m)"
proof -
  have "sample_tag (chunkAdditionalData ''r'' [ch] i n) ! 10 = of_char ch" for ch i n
    by (simp add: sample_tag_def overhead_def chunkAdditionalData_def appendLengthPrefixed_def str_bytes_def nth_append nth_Cons')
  from this [of "CHR ''g''"] this [of "CHR ''h''"] show ?thesis
    by (metis (full_types) sample_bytes_differ)
qed

theorem chunk_bound_to_identity_witness:
  "\<exists>sealed d. sealChunk sample_aead sample_sha256 sample_cipher ''g'' 0 [1, 2] (replicate 24 3) = Inr (sealed, d, [])
     \<and> (\<forall>opened. openChunk sample_aead sample_sha256 sample_cipher ''h'' d sealed \<noteq> Inr opened)"
proof -
  obtain sealed d where s: "sealChunk sample_aead sample_sha256 sample_cipher ''g'' 0 [1, 2] (replicate 24 3) = Inr (sealed, d, [])"
    using sample_seal by blast
  have "ck_index d = 0"
    using s by (simp add: sealChunk_Inr)
  moreover have "ae_seal sample_aead k nonce p (chunkAdditionalData ''r'' ''g'' i n)
      \<noteq> ae_seal sample_aead k nonce p' (chunkAdditionalData ''r'' ''h'' j m)" for k nonce p p' i n j m
    using sample_tags_differ by (simp add: sample_aead_def append_eq_append_conv)
  ultimately have "openChunk sample_aead sample_sha256 sample_cipher ''h'' d sealed \<noteq> Inr opened" for opened
    using chunk_bound_to_identity [OF sample_aead_ok refl s, where gen' = "''h''" and d' = d and opened = opened]
    by (auto simp: sample_cipher_def)
  then show ?thesis
    using s by blast
qed

section \<open>A whole backup\<close>

text \<open>The plaintext of a written chunk, read back from its file; and what the writer keeps.\<close>

definition stored :: "aead \<Rightarrow> hash_fn \<Rightarrow> resource_cipher \<Rightarrow> string \<Rightarrow> (string \<times> bytes) list \<Rightarrow> work_chunk \<Rightarrow> bytes \<Rightarrow> bool" where
  "stored a sha256 c gen files d p \<longleftrightarrow>
     (\<exists>sealed. map_of files (wk_path d) = Some sealed \<and> openChunk a sha256 c gen (wk_chunk d) sealed = Inr p)"

definition holds_data :: "aead \<Rightarrow> hash_fn \<Rightarrow> work_writer \<Rightarrow> bytes list \<Rightarrow> bool" where
  "holds_data a sha256 w ps \<longleftrightarrow>
     list_all2 (stored a sha256 (ww_cipher w) (ww_generationID w) (ww_files w)) (ww_chunks w) ps
     \<and> map (ck_index \<circ> wk_chunk) (ww_chunks w) = map int [0..<length (ww_chunks w)]
     \<and> length (ww_buffer w) \<le> defaultChunkSize"

lemma stored_more: "stored a sha256 c gen files d p \<Longrightarrow> map_of files path = None \<Longrightarrow> stored a sha256 c gen ((path, x) # files) d p"
  by (auto simp: stored_def)

lemma flush_holds:
  assumes "aead_ok a" "holds_data a sha256 w ps" "flush a sha256 fault w = (None, w')"
  shows "holds_data a sha256 w' (ps @ [ww_buffer w])"
  using assms(3)
proof (rule flush_None)
  fix sealed d random
  let ?path = "chunkPath (ww_root w) (length (ww_chunks w))"
  assume seal: "sealChunk a sha256 (ww_cipher w) (ww_generationID w) (int (length (ww_chunks w))) (ww_buffer w) (ww_random w)
      = Inr (sealed, d, random)"
    and new: "map_of (ww_files w) ?path = None"
    and w': "w' = w\<lparr>ww_random := random, ww_opens := ww_opens w + 1, ww_files := (?path, sealed) # ww_files w,
       ww_chunks := ww_chunks w @ [\<lparr>wk_chunk = d, wk_path = ?path\<rparr>], ww_buffer := []\<rparr>"
  have "list_all2 (stored a sha256 (ww_cipher w) (ww_generationID w) ((?path, sealed) # ww_files w)) (ww_chunks w) ps"
    using assms(2) stored_more [OF _ new] unfolding holds_data_def by (auto elim: list_all2_mono)
  moreover have "stored a sha256 (ww_cipher w) (ww_generationID w) ((?path, sealed) # ww_files w)
      \<lparr>wk_chunk = d, wk_path = ?path\<rparr> (ww_buffer w)"
    using openChunk_seal [OF assms(1) seal] by (simp add: stored_def)
  moreover have "ck_index d = int (length (ww_chunks w))"
    using seal by (simp add: sealChunk_Inr)
  ultimately show ?thesis
    using assms(2) by (simp add: holds_data_def w' list_all2_appendI)
qed

lemma flush_failed:
  assumes "holds_data a sha256 w ps" "flush a sha256 fault w = (Some e, w')"
  shows "holds_data a sha256 w' ps" "ww_buffer w' = ww_buffer w" "ww_chunks w' = ww_chunks w"
  using assms stored_more
  by (auto simp: flush_def Let_def holds_data_def split: sum.splits if_splits file_fault.splits option.splits elim!: list_all2_mono)

lemma flush_fields:
  assumes "flush a sha256 fault w = (r, w')"
  shows "ww_closed w' = ww_closed w" "ww_cipher w' = ww_cipher w" "ww_generationID w' = ww_generationID w"
  using assms by (auto simp: flush_def Let_def split: sum.splits if_splits file_fault.splits option.splits)

text \<open>
  What a call of \<^verbatim>\<open>Write\<close> leaves, on every outcome: the chunks, which are full, and the buffer hold the data
  they held followed by the bytes counted as written; without an error these are all bytes of the input.
\<close>

definition wrote :: "aead \<Rightarrow> hash_fn \<Rightarrow> work_writer \<Rightarrow> bytes \<Rightarrow> bytes \<Rightarrow> nat \<Rightarrow> chunk_error option \<Rightarrow> work_writer \<Rightarrow> bool" where
  "wrote a sha256 w data input n err w' \<longleftrightarrow>
     (\<exists>qs. holds_data a sha256 w' qs \<and> (\<forall>p\<in>set qs. length p = defaultChunkSize)
        \<and> concat qs @ ww_buffer w' = data @ take n input)
     \<and> (err = None \<longrightarrow> n = length input)
     \<and> ww_closed w' = ww_closed w \<and> ww_cipher w' = ww_cipher w \<and> ww_generationID w' = ww_generationID w"

lemma wrote_more:
  assumes "wrote a sha256 w1 (data @ take c input) (drop c input) n err w'" "c \<le> length input"
    and "ww_closed w1 = ww_closed w" "ww_cipher w1 = ww_cipher w" "ww_generationID w1 = ww_generationID w"
  shows "wrote a sha256 w data input (c + n) err w'"
  using assms unfolding wrote_def by (simp add: take_add)

lemma flush_wrote:
  assumes "aead_ok a" "holds_data a sha256 w ps" "\<forall>p\<in>set ps. length p = defaultChunkSize"
    and "length (ww_buffer w) = defaultChunkSize" "flush a sha256 fault w = (r, w')"
  shows "\<exists>qs. holds_data a sha256 w' qs \<and> (\<forall>p\<in>set qs. length p = defaultChunkSize)
    \<and> concat qs @ ww_buffer w' = concat ps @ ww_buffer w"
proof (cases r)
  case None
  then have "holds_data a sha256 w' (ps @ [ww_buffer w])" "ww_buffer w' = []"
    using flush_holds [OF assms(1,2)] assms(5) by (auto elim: flush_None)
  then show ?thesis
    using assms(3,4) by (intro exI [of _ "ps @ [ww_buffer w]"]) simp
next
  case (Some e)
  then show ?thesis
    using flush_failed [OF assms(2), of fault e w'] assms(3,5) by (intro exI [of _ ps]) simp
qed

text \<open>One round of the loop, with the bytes it takes and the buffer it leaves.\<close>

lemma writeLoop_round:
  assumes "input \<noteq> []" "\<not> defaultChunkSize < length (ww_buffer w)"
    and "c = min (defaultChunkSize - length (ww_buffer w)) (length input)"
    and "w1 = w\<lparr>ww_buffer := ww_buffer w @ take c input\<rparr>"
  shows "writeLoop a sha256 fault w input written =
    (if length (ww_buffer w1) = defaultChunkSize then
       (case flush a sha256 fault w1 of
          (Some e, w) \<Rightarrow> ((written + c, Some e), w)
        | (None, w) \<Rightarrow> writeLoop a sha256 fault w (drop c input) (written + c))
     else writeLoop a sha256 fault w1 (drop c input) (written + c))"
  unfolding writeLoop.simps [of a sha256 fault w input written] Let_def assms(3) [symmetric] assms(4) [symmetric]
  using assms(1,2) by simp

lemma wrote_resume:
  assumes "ww_buffer w1 = ww_buffer w @ take c input" "c \<le> length input"
    and "written + c \<le> n \<and> wrote a sha256 w2 (concat ps @ ww_buffer w1) (drop c input) (n - (written + c)) err w'"
    and "ww_closed w2 = ww_closed w" "ww_cipher w2 = ww_cipher w" "ww_generationID w2 = ww_generationID w"
  shows "written \<le> n \<and> wrote a sha256 w (concat ps @ ww_buffer w) input (n - written) err w'"
  using assms wrote_more [of a sha256 w2 "concat ps @ ww_buffer w" c input "n - (written + c)" err w' w] by simp

lemma writeLoop_wrote:
  assumes "aead_ok a" "holds_data a sha256 w ps" "\<forall>p\<in>set ps. length p = defaultChunkSize"
    and "writeLoop a sha256 fault w input written = ((n, err), w')"
  shows "written \<le> n \<and> wrote a sha256 w (concat ps @ ww_buffer w) input (n - written) err w'"
  using assms
proof (induction a sha256 fault w input written arbitrary: ps rule: writeLoop.induct)
  case (1 a sha256 fault w input written)
  show ?case
  proof (cases "input = [] \<or> defaultChunkSize < length (ww_buffer w)")
    case True
    then have "n = written" "w' = w" "err = None \<longrightarrow> input = []"
      using 1(6) by (auto simp: writeLoop.simps [of a sha256 fault w input written] split: if_splits)
    then show ?thesis
      using 1(4,5) by (auto simp: wrote_def)
  next
    case False
    then have go: "input \<noteq> []" "\<not> defaultChunkSize < length (ww_buffer w)"
      by auto
    define count where "count = min (defaultChunkSize - length (ww_buffer w)) (length input)"
    define w1 where "w1 = w\<lparr>ww_buffer := ww_buffer w @ take count input\<rparr>"
    note loop = writeLoop_round [OF go count_def w1_def, of a sha256 fault written]
    note IH1 = 1(1) [OF go refl refl refl refl refl, folded count_def, folded w1_def]
    note IH2 = 1(2) [OF go refl refl refl refl refl, folded count_def, folded w1_def]
    have w1: "ww_buffer w1 = ww_buffer w @ take count input" "ww_closed w1 = ww_closed w" "ww_cipher w1 = ww_cipher w"
      "ww_generationID w1 = ww_generationID w" and count: "count \<le> length input"
      by (simp_all add: w1_def count_def)
    have held: "holds_data a sha256 w1 ps"
      using 1(4) go by (simp add: holds_data_def w1_def count_def)
    note more = wrote_resume [OF w1(1) count]
    show ?thesis
    proof (cases "length (ww_buffer w1) = defaultChunkSize")
      case False
      then have "writeLoop a sha256 fault w1 (drop count input) (written + count) = ((n, err), w')"
        using 1(6) loop by simp
      from more [OF IH2 [OF False 1(3) held 1(5) this] w1(2-4)] show ?thesis .
    next
      case full: True
      obtain r w2 where f: "flush a sha256 fault w1 = (r, w2)"
        by force
      obtain qs where q: "holds_data a sha256 w2 qs" "\<forall>p\<in>set qs. length p = defaultChunkSize"
        "concat qs @ ww_buffer w2 = concat ps @ ww_buffer w1"
        using flush_wrote [OF 1(3) held 1(5) full f] by blast
      have w2: "ww_closed w2 = ww_closed w" "ww_cipher w2 = ww_cipher w" "ww_generationID w2 = ww_generationID w"
        using flush_fields [OF f] w1 by simp_all
      show ?thesis
      proof (cases r)
        case None
        then have "writeLoop a sha256 fault w2 (drop count input) (written + count) = ((n, err), w')"
          using 1(6) loop full f by simp
        from more [OF IH1 [OF full f [symmetric] None 1(3) q(1,2) this, unfolded q(3)] w2] show ?thesis .
      next
        case (Some e)
        then have n: "n = written + count" "err = Some e" "w' = w2"
          using 1(6) loop full f by simp_all
        show ?thesis
          using q w2 by (auto simp: wrote_def n w1(1))
      qed
    qed
  qed
qed

text \<open>A sequence of writes that all succeed.\<close>

primrec write_all :: "aead \<Rightarrow> hash_fn \<Rightarrow> (nat \<Rightarrow> file_fault) \<Rightarrow> bytes list \<Rightarrow> work_writer \<Rightarrow> work_writer option" where
  "write_all a sha256 fault [] w = Some w"
| "write_all a sha256 fault (input # inputs) w =
     (case writer_write a sha256 fault input w of
        ((_, None), w) \<Rightarrow> write_all a sha256 fault inputs w
      | ((_, Some e), w) \<Rightarrow> None)"

lemma write_all_holds:
  assumes "aead_ok a" "holds_data a sha256 w ps" "\<forall>p\<in>set ps. length p = defaultChunkSize"
    and "write_all a sha256 fault inputs w = Some w'"
  shows "\<exists>qs. holds_data a sha256 w' qs \<and> (\<forall>p\<in>set qs. length p = defaultChunkSize)
    \<and> concat qs @ ww_buffer w' = concat ps @ ww_buffer w @ concat inputs
    \<and> ww_closed w' = ww_closed w \<and> ww_cipher w' = ww_cipher w \<and> ww_generationID w' = ww_generationID w"
  using assms(2-4)
proof (induction inputs arbitrary: w ps)
  case (Cons input inputs)
  obtain n w1 where first: "writer_write a sha256 fault input w = ((n, None), w1)"
    and rest: "write_all a sha256 fault inputs w1 = Some w'"
    using Cons.prems(3) by (auto split: prod.splits option.splits)
  have "writeLoop a sha256 fault w input 0 = ((n, None), w1)"
    using first by (simp add: writer_write_def split: if_splits)
  then have w1: "wrote a sha256 w (concat ps @ ww_buffer w) input n None w1"
    using writeLoop_wrote [OF assms(1) Cons.prems(1,2)] by fastforce
  then obtain qs where q: "holds_data a sha256 w1 qs" "\<forall>p\<in>set qs. length p = defaultChunkSize"
    "concat qs @ ww_buffer w1 = concat ps @ ww_buffer w @ input"
    by (auto simp: wrote_def)
  obtain rs where "holds_data a sha256 w' rs" "\<forall>p\<in>set rs. length p = defaultChunkSize"
    "concat rs @ ww_buffer w' = concat qs @ ww_buffer w1 @ concat inputs"
    "ww_closed w' = ww_closed w1 \<and> ww_cipher w' = ww_cipher w1 \<and> ww_generationID w' = ww_generationID w1"
    using Cons.IH [OF q(1,2) rest] by blast
  then show ?case
    using q(3) w1 by (intro exI [of _ rs]) (metis append.assoc concat.simps(2) wrote_def)
qed (use assms in auto)

text \<open>
  A backup can be read back: when every write of a sequence and closing the writer succeed, the
  chunks are numbered from zero, their files open under their descriptors, and the plaintexts of the chunks
  in order are the bytes written in order, however the writes were cut; every chunk but the last is full,
  and there is at least one.
\<close>

lemma backup_roundtrip:
  assumes "aead_ok a" "newWorkWriter (Some c) gen root random files = Inr w0"
    and "write_all a sha256 fault inputs w0 = Some w1" "writer_close a sha256 fault w1 = (None, w2)"
  shows "\<exists>cs ps. writer_chunks w2 = Inr cs \<and> cs \<noteq> []
    \<and> list_all2 (stored a sha256 c gen (ww_files w2)) cs ps \<and> concat ps = concat inputs
    \<and> map (ck_index \<circ> wk_chunk) cs = map int [0..<length cs]
    \<and> (\<forall>p\<in>set (butlast ps). length p = defaultChunkSize)"
proof -
  have w0: "holds_data a sha256 w0 []" "ww_buffer w0 = []" "\<not> ww_closed w0" "ww_cipher w0 = c" "ww_generationID w0 = gen"
    using assms(2) by (auto simp: newWorkWriter_def holds_data_def split: if_splits)
  obtain qs where q: "holds_data a sha256 w1 qs" "\<forall>p\<in>set qs. length p = defaultChunkSize"
    "concat qs @ ww_buffer w1 = concat inputs" "\<not> ww_closed w1" "ww_cipher w1 = c" "ww_generationID w1 = gen"
    using write_all_holds [OF assms(1) w0(1) _ assms(3)] w0 by auto
  let ?w = "w1\<lparr>ww_closed := True\<rparr>"
  have held: "holds_data a sha256 ?w qs"
    using q(1) by (simp add: holds_data_def)
  show ?thesis
  proof (cases "ww_buffer w1 \<noteq> [] \<or> ww_chunks w1 = []")
    case True
    then have f: "flush a sha256 fault ?w = (None, w2)"
      using assms(4) q(4) by (simp add: writer_close_def)
    have "holds_data a sha256 w2 (qs @ [ww_buffer w1])"
      using flush_holds [OF assms(1) held f] by simp
    moreover have "ww_closed w2" "ww_cipher w2 = c" "ww_generationID w2 = gen"
      using flush_fields [OF f] q by simp_all
    moreover have "ww_chunks w2 \<noteq> []"
      using f by (rule flush_None) simp
    ultimately show ?thesis
      using q(2,3) by (intro exI [of _ "ww_chunks w2"] exI [of _ "qs @ [ww_buffer w1]"]) (simp add: holds_data_def writer_chunks_def)
  next
    case False
    then have "w2 = ?w"
      using assms(4) q(4) by (simp add: writer_close_def)
    then show ?thesis
      using held q False
      by (intro exI [of _ "ww_chunks w1"] exI [of _ qs]) (auto simp: holds_data_def writer_chunks_def dest: in_set_butlastD)
  qed
qed

end
