(* ===== verification/Backup_Resource.thy ===== *)
theory Backup_Resource
  imports Backup_Chunks
begin

text \<open>
  Package \<^verbatim>\<open>backup\<close>, the format of a resource backup (\<^verbatim>\<open>resource_format.go\<close>): the envelope that lists the
  chunks, the completion marker that commits a generation, the attachments and the names of the objects.
  \<open>codec\<close> stands for the JSON encoder and for the strict decoder, which refuses unknown fields, duplicate
  keys and trailing data; sizes are 64-bit integers whose overflow the code checks.
\<close>

section \<open>Data\<close>

record envelope =
  en_formatVersion :: int
  en_resourceKind :: string
  en_resourceID :: string
  en_generationID :: string
  en_createdAt :: int
  en_plaintextSize :: int
  en_chunks :: "chunk list"
  en_attachmentCount :: int
  en_attachmentSize :: int
  en_attachmentRoot :: string

record completion =
  co_formatVersion :: int
  co_resourceKind :: string
  co_resourceID :: string
  co_generationID :: string
  co_envelopeSHA :: string
  co_plaintextSize :: int
  co_remoteSize :: int
  co_completedAt :: int

record attachment =
  am_index :: int
  am_size :: int
  am_sha :: string

record codec =
  json_envelope :: "envelope \<Rightarrow> bytes option"
  parse_envelope :: "bytes \<Rightarrow> envelope option"
  json_completion :: "completion \<Rightarrow> bytes option"
  parse_completion :: "bytes \<Rightarrow> completion option"

datatype backup_error = BuildIncomplete | EnvelopeSize | EnvelopeJSON | EnvelopeFields | EnvelopeChunk | EnvelopeOverflow
  | EnvelopeTotal | CompletionSize | CompletionJSON | CompletionFields | AttachmentCountDiffers | AttachmentsDiffer
  | AttachmentInvalid | AttachmentSizeDiffers | AttachmentChecksum | AttachmentUnverified | NoProgress | UnexpectedEOF
  | PlaintextEmpty | RemoteSizeOverflow | ChunkFailed chunk_error | RemoteFailed | RemoteSize | RemoteLength
  | PublicationIncomplete | EnvelopeDiffers | EnvelopeIdentity | CompletionDiffers | ListInvalid | CompletionIdentity
  | DuplicateGeneration | RetentionInvalid | FileMissing | WorkDirectory | ShortWrite

definition controlFormatVersion :: int where "controlFormatVersion = 2"
definition maximumResourceEnvelopeSize :: nat where "maximumResourceEnvelopeSize = 1048576"
definition maxInt64 :: int where "maxInt64 = 9223372036854775807"

section \<open>Validation\<close>

definition validBackupResourceKind :: "string \<Rightarrow> bool" where
  "validBackupResourceKind v \<longleftrightarrow> v \<in> {''image'', ''object_store'', ''postgres'', ''redis'', ''volume''}"

definition identifier_char :: "char \<Rightarrow> bool" where
  "identifier_char c \<longleftrightarrow> is_lower c \<or> is_upper c \<or> is_digit c \<or> c = CHR ''-'' \<or> c = CHR ''_''"

definition validControlIdentifier :: "string \<Rightarrow> bool" where
  "validControlIdentifier v \<longleftrightarrow> 1 \<le> length v \<and> length v \<le> 128 \<and> list_all identifier_char v"

definition safeBackupRoot :: "string \<Rightarrow> bool" where
  "safeBackupRoot v \<longleftrightarrow> is_abs v \<and> path_clean v = v \<and> v \<noteq> ''/''"

text \<open>\<^verbatim>\<open>validSHA256\<close>: 64 digits, equal to their lower case, that \<^verbatim>\<open>hex.DecodeString\<close> accepts.\<close>

definition no_upper :: "string \<Rightarrow> bool" where
  "no_upper v \<longleftrightarrow> list_all (\<lambda>c. \<not> is_upper c) v"

definition validSHA256 :: "string \<Rightarrow> bool" where
  "validSHA256 v \<longleftrightarrow> length v = 64 \<and> no_upper v \<and> hex_decode v \<noteq> None"

fun checkChunks :: "int \<Rightarrow> int \<Rightarrow> chunk list \<Rightarrow> backup_error + int" where
  "checkChunks index acc [] = Inr acc"
| "checkChunks index acc (c # cs) =
     (if ck_index c \<noteq> index \<or> ck_plaintextSize c < 0 \<or> ck_plaintextSize c > int defaultChunkSize
         \<or> ck_ciphertextSize c \<le> 0 \<or> length (ck_sha c) \<noteq> 64 \<or> \<not> no_upper (ck_sha c) then Inl EnvelopeChunk
      else if hex_decode (ck_sha c) = None then Inl EnvelopeChunk
      else if ck_plaintextSize c > maxInt64 - acc then Inl EnvelopeOverflow
      else checkChunks (index + 1) (acc + ck_plaintextSize c) cs)"

definition decodeResourceEnvelope :: "codec \<Rightarrow> bytes \<Rightarrow> backup_error + envelope" where
  "decodeResourceEnvelope j v =
     (if v = [] \<or> length v > maximumResourceEnvelopeSize then Inl EnvelopeSize
      else case parse_envelope j v of
        None \<Rightarrow> Inl EnvelopeJSON
      | Some e \<Rightarrow>
          if en_formatVersion e \<noteq> controlFormatVersion \<or> \<not> validBackupResourceKind (en_resourceKind e)
             \<or> \<not> validControlIdentifier (en_resourceID e) \<or> \<not> validControlIdentifier (en_generationID e)
             \<or> en_createdAt e \<le> 0 \<or> en_plaintextSize e \<le> 0 \<or> en_chunks e = []
             \<or> en_attachmentCount e < 0 \<or> en_attachmentSize e < 0
             \<or> (en_attachmentCount e = 0 \<and> (en_attachmentSize e \<noteq> 0 \<or> en_attachmentRoot e \<noteq> []))
             \<or> (en_attachmentCount e > 0 \<and> (en_attachmentSize e \<le> 0 \<or> \<not> validSHA256 (en_attachmentRoot e)))
          then Inl EnvelopeFields
          else (case checkChunks 0 0 (en_chunks e) of
            Inl err \<Rightarrow> Inl err
          | Inr acc \<Rightarrow> if acc \<noteq> en_plaintextSize e then Inl EnvelopeTotal else Inr e))"

definition validateResourceCompletion :: "completion \<Rightarrow> backup_error option" where
  "validateResourceCompletion c =
     (if co_formatVersion c \<noteq> controlFormatVersion \<or> \<not> validBackupResourceKind (co_resourceKind c)
         \<or> \<not> validControlIdentifier (co_resourceID c) \<or> \<not> validControlIdentifier (co_generationID c)
         \<or> co_completedAt c \<le> 0 \<or> co_plaintextSize c \<le> 0 \<or> co_remoteSize c \<le> 0
         \<or> length (co_envelopeSHA c) \<noteq> 64 \<or> \<not> no_upper (co_envelopeSHA c) then Some CompletionFields
      else if hex_decode (co_envelopeSHA c) = None then Some CompletionFields
      else None)"

definition decodeResourceCompletion :: "codec \<Rightarrow> bytes \<Rightarrow> backup_error + completion" where
  "decodeResourceCompletion j v =
     (if v = [] \<or> length v > 65536 then Inl CompletionSize
      else case parse_completion j v of
        None \<Rightarrow> Inl CompletionJSON
      | Some c \<Rightarrow> (case validateResourceCompletion c of Some e \<Rightarrow> Inl e | None \<Rightarrow> Inr c))"

section \<open>Attachments\<close>

definition attachmentCommitment :: "attachment \<Rightarrow> bytes" where
  "attachmentCommitment m =
     be_bytes 8 (nat (am_index m)) @ be_bytes 8 (nat (am_size m))
     @ (case hex_decode (am_sha m) of None \<Rightarrow> [] | Some checksum \<Rightarrow> checksum)"

definition attachmentDomain :: bytes where
  "attachmentDomain = str_bytes ''platformd/resource-attachments/v1'' @ [0]"

fun checkAttachments :: "int \<Rightarrow> int \<Rightarrow> bytes \<Rightarrow> attachment list \<Rightarrow> (int \<times> bytes) option" where
  "checkAttachments index acc hashed [] = Some (acc, hashed)"
| "checkAttachments index acc hashed (m # ms) =
     (if am_index m \<noteq> index \<or> am_size m \<le> 0 \<or> \<not> validSHA256 (am_sha m) \<or> am_size m > maxInt64 - acc then None
      else checkAttachments (index + 1) (acc + am_size m) (hashed @ attachmentCommitment m) ms)"

definition validateResourceAttachments :: "hash_fn \<Rightarrow> envelope \<Rightarrow> attachment list \<Rightarrow> backup_error option" where
  "validateResourceAttachments sha256 e ms =
     (if en_attachmentCount e \<noteq> int (length ms) then Some AttachmentCountDiffers
      else if ms = [] then
        (if en_attachmentSize e \<noteq> 0 \<or> en_attachmentRoot e \<noteq> [] then Some AttachmentsDiffer else None)
      else case checkAttachments 0 0 attachmentDomain ms of
        None \<Rightarrow> Some AttachmentInvalid
      | Some (acc, hashed) \<Rightarrow>
          if acc \<noteq> en_attachmentSize e \<or> hex_encode (sha256 hashed) \<noteq> en_attachmentRoot e then Some AttachmentsDiffer
          else None)"

section \<open>Names\<close>

definition resourceGenerationsPrefix :: "string \<Rightarrow> string \<Rightarrow> string" where
  "resourceGenerationsPrefix kind rid = ''resources/'' @ kind @ ''/'' @ rid @ ''/generations''"

definition resourceGenerationPrefix :: "string \<Rightarrow> string \<Rightarrow> string \<Rightarrow> string" where
  "resourceGenerationPrefix kind rid gen = resourceGenerationsPrefix kind rid @ ''/'' @ gen"

text \<open>\<^verbatim>\<open>%08d\<close> of an index: the sign of a negative one counts as a digit of the width.\<close>

definition format_08d :: "int \<Rightarrow> string" where
  "format_08d i =
     (if i < 0 then ''-'' @ replicate (7 - length (itoa (nat (- i)))) CHR ''0'' @ itoa (nat (- i)) else pad8 (nat i))"

definition resourceChunkKey :: "string \<Rightarrow> string \<Rightarrow> string \<Rightarrow> int \<Rightarrow> string" where
  "resourceChunkKey kind rid gen index = resourceGenerationPrefix kind rid gen @ ''/chunk-'' @ format_08d index @ ''.pdx''"

definition resourceEnvelopeKey :: "string \<Rightarrow> string \<Rightarrow> string \<Rightarrow> string" where
  "resourceEnvelopeKey kind rid gen = resourceGenerationPrefix kind rid gen @ ''/envelope.json''"

definition resourceAttachmentKey :: "string \<Rightarrow> string \<Rightarrow> string \<Rightarrow> int \<Rightarrow> string" where
  "resourceAttachmentKey kind rid gen index =
     resourceGenerationPrefix kind rid gen @ ''/attachment-'' @ format_08d index @ ''.bin''"

definition resourceCompletionKey :: "string \<Rightarrow> string \<Rightarrow> string \<Rightarrow> string" where
  "resourceCompletionKey kind rid gen = resourceGenerationPrefix kind rid gen @ ''/complete.json''"

section \<open>What a decoded envelope guarantees\<close>

lemma checkChunks_Inr:
  assumes "checkChunks index acc cs = Inr n"
  shows "map ck_index cs = map (\<lambda>i. index + int i) [0..<length cs]"
    and "n = acc + sum_list (map ck_plaintextSize cs)"
    and "\<forall>c\<in>set cs. 0 \<le> ck_plaintextSize c \<and> ck_plaintextSize c \<le> int defaultChunkSize \<and> 0 < ck_ciphertextSize c"
proof -
  have "map ck_index cs = map (\<lambda>i. index + int i) [0..<length cs] \<and> n = acc + sum_list (map ck_plaintextSize cs)
      \<and> (\<forall>c\<in>set cs. 0 \<le> ck_plaintextSize c \<and> ck_plaintextSize c \<le> int defaultChunkSize \<and> 0 < ck_ciphertextSize c)"
    using assms
  proof (induction cs arbitrary: index acc)
    case (Cons c cs)
    then have c: "ck_index c = index" "0 \<le> ck_plaintextSize c" "ck_plaintextSize c \<le> int defaultChunkSize" "0 < ck_ciphertextSize c"
      and rest: "checkChunks (index + 1) (acc + ck_plaintextSize c) cs = Inr n"
      by (simp_all split: if_splits)
    have "map (\<lambda>i. index + 1 + int i) [0..<length cs] = map (\<lambda>i. index + int i) [Suc 0..<Suc (length cs)]"
      by (simp add: map_Suc_upt [symmetric] comp_def algebra_simps del: upt_Suc)
    moreover have "[0..<length (c # cs)] = 0 # [Suc 0..<Suc (length cs)]"
      by (simp add: upt_conv_Cons del: upt_Suc)
    ultimately show ?case
      using Cons.IH [OF rest] c by (simp del: upt_Suc)
  qed simp
  then show "map ck_index cs = map (\<lambda>i. index + int i) [0..<length cs]"
    and "n = acc + sum_list (map ck_plaintextSize cs)"
    and "\<forall>c\<in>set cs. 0 \<le> ck_plaintextSize c \<and> ck_plaintextSize c \<le> int defaultChunkSize \<and> 0 < ck_ciphertextSize c"
    by blast+
qed

lemma decode_envelope_chunks:
  assumes "decodeResourceEnvelope j v = Inr e"
  shows "map ck_index (en_chunks e) = map int [0..<length (en_chunks e)]"
    and "en_plaintextSize e = sum_list (map ck_plaintextSize (en_chunks e))" and "0 < en_plaintextSize e"
    and "validControlIdentifier (en_generationID e)"
    and "\<forall>c\<in>set (en_chunks e). 0 \<le> ck_plaintextSize c"
proof -
  obtain n where n: "checkChunks 0 0 (en_chunks e) = Inr n" "n = en_plaintextSize e" "0 < en_plaintextSize e"
    "validControlIdentifier (en_generationID e)"
    using assms by (auto simp: decodeResourceEnvelope_def split: if_splits option.splits sum.splits)
  then show "map ck_index (en_chunks e) = map int [0..<length (en_chunks e)]"
    "en_plaintextSize e = sum_list (map ck_plaintextSize (en_chunks e))" "0 < en_plaintextSize e"
    "validControlIdentifier (en_generationID e)" "\<forall>c\<in>set (en_chunks e). 0 \<le> ck_plaintextSize c"
    using checkChunks_Inr [OF n(1)] by simp_all
qed

end
