(* ===== verification/Backup_Remote.thy ===== *)
theory Backup_Remote
  imports Backup_Resource Go_Effects
begin

text \<open>
  Package \<^verbatim>\<open>backup\<close>, publishing and reading a resource backup (\<^verbatim>\<open>resource_remote.go\<close>, \<^verbatim>\<open>control_remote.go\<close>). The
  object storage is a collaborator whose answers are functions of the history of the calls, so that every
  behaviour, failures and wrong data included, is an instance of the record \<open>remote\<close>. The names of the
  objects are those of package \<^verbatim>\<open>remotes3\<close>. Contexts are not cancelled.
\<close>

section \<open>The object storage\<close>

text \<open>The body of a response: the data that successive reads deliver, then the end or a failure.\<close>

datatype body_event = Data bytes | Fail

record response =
  rs_body :: "body_event list"
  rs_size :: int
  rs_closeOk :: bool

record page =
  pg_keys :: "string list"
  pg_continuation :: string

datatype remote_event = RPut string bytes bool | RGet string "response option" | RList string string "page option"
  | RDelete string bool

type_synonym remote_history = "remote_event list"
type_synonym 'a rop = "(remote_history, 'a) state"

record remote =
  rm_prefix :: string
  rm_put :: "remote_history \<Rightarrow> string \<Rightarrow> bytes \<Rightarrow> int \<Rightarrow> string \<Rightarrow> bool"
  rm_get :: "remote_history \<Rightarrow> string \<Rightarrow> response option"
  rm_list :: "remote_history \<Rightarrow> string \<Rightarrow> string \<Rightarrow> page option"
  rm_delete :: "remote_history \<Rightarrow> string \<Rightarrow> bool"

definition remoteKey :: "remote \<Rightarrow> string \<Rightarrow> string" where
  "remoteKey R relative =
     (let relative = (if prefix ''/'' relative then drop 1 relative else relative)
      in if rm_prefix R = [] then relative
         else if relative = [] then rm_prefix R
         else rm_prefix R @ ''/'' @ relative)"

definition do_put :: "remote \<Rightarrow> string \<Rightarrow> bytes \<Rightarrow> int \<Rightarrow> string \<Rightarrow> bool rop" where
  "do_put R key content sz sha = State (\<lambda>h. let ok = rm_put R h key content sz sha in (ok, h @ [RPut key content ok]))"

definition do_get :: "remote \<Rightarrow> string \<Rightarrow> response option rop" where
  "do_get R key = State (\<lambda>h. let r = rm_get R h key in (r, h @ [RGet key r]))"

definition do_list :: "remote \<Rightarrow> string \<Rightarrow> string \<Rightarrow> page option rop" where
  "do_list R pre token = State (\<lambda>h. let r = rm_list R h pre token in (r, h @ [RList pre token r]))"

definition do_delete :: "remote \<Rightarrow> string \<Rightarrow> bool rop" where
  "do_delete R key = State (\<lambda>h. let ok = rm_delete R h key in (ok, h @ [RDelete key ok]))"

text \<open>\<^verbatim>\<open>io.ReadAll\<close> of a body behind \<^verbatim>\<open>io.LimitReader\<close>: the bytes, or \<open>None\<close> when reading fails before the limit.\<close>

fun collect :: "nat \<Rightarrow> body_event list \<Rightarrow> bytes option" where
  "collect n [] = Some []"
| "collect n (Fail # es) = (if n = 0 then Some [] else None)"
| "collect n (Data d # es) = (if n \<le> length d then Some (take n d) else map_option (append d) (collect (n - length d) es))"

definition readObject :: "response option \<Rightarrow> int \<Rightarrow> backup_error + bytes" where
  "readObject r maximum =
     (case r of
        None \<Rightarrow> Inl RemoteFailed
      | Some r \<Rightarrow>
          if rs_size r < 0 \<or> rs_size r > maximum then Inl RemoteSize
          else (case collect (nat (maximum + 1)) (rs_body r) of
            None \<Rightarrow> Inl RemoteFailed
          | Some v \<Rightarrow>
              if \<not> rs_closeOk r then Inl RemoteFailed
              else if int (length v) \<noteq> rs_size r then Inl RemoteLength else Inr v))"

definition readRemoteObject :: "remote \<Rightarrow> string \<Rightarrow> int \<Rightarrow> (backup_error + bytes) rop" where
  "readRemoteObject R key maximum = do { r \<leftarrow> do_get R key; State_Monad.return (readObject r maximum) }"

section \<open>Attachments\<close>

record attachment_reader =
  vr_body :: "body_event list"
  vr_closeOk :: bool
  vr_remaining :: int
  vr_expected :: string
  vr_hashed :: bytes
  vr_verified :: bool

datatype read_error = EndOfFile | ReadFailed backup_error

text \<open>One read of a body into a buffer: the bytes, an error, and the rest.\<close>

fun body_read :: "nat \<Rightarrow> body_event list \<Rightarrow> bytes \<times> read_error option \<times> body_event list" where
  "body_read n [] = ([], Some EndOfFile, [])"
| "body_read n (Fail # es) = ([], Some (ReadFailed RemoteFailed), es)"
| "body_read n (Data d # es) = (if length d \<le> n then (d, None, es) else (take n d, None, Data (drop n d) # es))"

text \<open>What \<^verbatim>\<open>Read\<close> returns for the bytes it got, once they are hashed and counted.\<close>

definition attachmentResult :: "bytes \<Rightarrow> read_error option \<Rightarrow> attachment_reader \<Rightarrow> (bytes \<times> read_error option) \<times> attachment_reader" where
  "attachmentResult d err r =
     (if err = Some EndOfFile \<and> vr_remaining r \<noteq> 0 then ((d, Some (ReadFailed UnexpectedEOF)), r)
      else if d = [] \<and> err = None then (([], Some (ReadFailed NoProgress)), r)
      else ((d, err), r))"

definition attachmentConsumed ::
  "hash_fn \<Rightarrow> bytes \<Rightarrow> read_error option \<Rightarrow> attachment_reader \<Rightarrow> (bytes \<times> read_error option) \<times> attachment_reader" where
  "attachmentConsumed sha256 d err r =
     (if vr_remaining r = 0 then
        (if hex_encode (sha256 (vr_hashed r)) \<noteq> vr_expected r
         then ((d, Some (ReadFailed AttachmentChecksum)), r\<lparr>vr_verified := True\<rparr>)
         else attachmentResult d (if err = Some EndOfFile then None else err) (r\<lparr>vr_verified := True\<rparr>))
      else attachmentResult d err r)"

definition attachmentRead ::
  "hash_fn \<Rightarrow> nat \<Rightarrow> attachment_reader \<Rightarrow> (bytes \<times> read_error option) \<times> attachment_reader" where
  "attachmentRead sha256 n r =
     (if vr_verified r then (([], Some EndOfFile), r)
      else if vr_remaining r = 0 then
        (if hex_encode (sha256 (vr_hashed r)) \<noteq> vr_expected r
         then (([], Some (ReadFailed AttachmentChecksum)), r\<lparr>vr_verified := True\<rparr>)
         else (([], Some EndOfFile), r\<lparr>vr_verified := True\<rparr>))
      else case body_read (nat (min (int n) (vr_remaining r))) (vr_body r) of
        (d, err, rest) \<Rightarrow>
          attachmentConsumed sha256 d err
            (r\<lparr>vr_body := rest, vr_hashed := vr_hashed r @ d, vr_remaining := vr_remaining r - int (length d)\<rparr>))"

definition attachmentClose :: "attachment_reader \<Rightarrow> backup_error option" where
  "attachmentClose r =
     (if \<not> vr_verified r then Some AttachmentUnverified
      else if \<not> vr_closeOk r then Some RemoteFailed else None)"

text \<open>\<^verbatim>\<open>io.Copy\<close> to \<^verbatim>\<open>io.Discard\<close>, which reads into a buffer of 8 KiB until an error; the end of the file is none.\<close>

fun body_weight :: "body_event list \<Rightarrow> nat" where
  "body_weight [] = 0"
| "body_weight (Fail # es) = 1 + body_weight es"
| "body_weight (Data d # es) = 1 + length d + body_weight es"

lemma body_read_weight: "body_read n b = (d, err, rest) \<Longrightarrow> d \<noteq> [] \<Longrightarrow> body_weight rest < body_weight b"
  by (cases "(n, b)" rule: body_read.cases) (auto split: if_splits)

lemma attachmentRead_weight:
  assumes "attachmentRead sha256 n r = ((d, None), r')"
  shows "body_weight (vr_body r') < body_weight (vr_body r)"
proof -
  obtain c err rest where b: "body_read (nat (min (int n) (vr_remaining r))) (vr_body r) = (c, err, rest)"
    by (cases "body_read (nat (min (int n) (vr_remaining r))) (vr_body r)") auto
  have "c \<noteq> [] \<and> vr_body r' = rest"
    using assms unfolding attachmentRead_def b
    by (auto simp: attachmentConsumed_def attachmentResult_def split: if_splits)
  then show ?thesis
    using body_read_weight [OF b] by simp
qed

function discardAttachment :: "hash_fn \<Rightarrow> attachment_reader \<Rightarrow> backup_error option \<times> attachment_reader" where
  "discardAttachment sha256 r =
     (case attachmentRead sha256 8192 r of
        ((_, Some EndOfFile), r) \<Rightarrow> (None, r)
      | ((_, Some (ReadFailed e)), r) \<Rightarrow> (Some e, r)
      | ((_, None), r) \<Rightarrow> discardAttachment sha256 r)"
  by pat_completeness auto
termination
  by (relation "measure (\<lambda>(_, r). body_weight (vr_body r))") (auto dest: attachmentRead_weight [OF sym])

declare discardAttachment.simps [simp del]

definition openAttachment :: "response option \<Rightarrow> envelope \<Rightarrow> attachment \<Rightarrow> backup_error + attachment_reader" where
  "openAttachment r e m =
     (case r of
        None \<Rightarrow> Inl RemoteFailed
      | Some r \<Rightarrow>
          if rs_size r \<noteq> am_size m then Inl AttachmentSizeDiffers
          else Inr \<lparr>vr_body = rs_body r, vr_closeOk = rs_closeOk r, vr_remaining = am_size m, vr_expected = am_sha m,
                 vr_hashed = [], vr_verified = False\<rparr>)"

definition openResourceAttachment :: "remote \<Rightarrow> envelope \<Rightarrow> attachment \<Rightarrow> (backup_error + attachment_reader) rop" where
  "openResourceAttachment R e m =
     (if am_index m < 0 \<or> am_size m \<le> 0 \<or> \<not> validSHA256 (am_sha m) \<or> am_index m \<ge> en_attachmentCount e
      then State_Monad.return (Inl AttachmentInvalid)
      else do {
        r \<leftarrow> do_get R (remoteKey R (resourceAttachmentKey (en_resourceKind e) (en_resourceID e) (en_generationID e) (am_index m)));
        State_Monad.return (openAttachment r e m)
      })"

section \<open>Publishing\<close>

record resource_build =
  rb_envelope :: envelope
  rb_envelopeBytes :: bytes
  rb_completion :: completion
  rb_completionBytes :: bytes
  rb_chunks :: "work_chunk list"
  rb_attachments :: "(attachment \<times> string) list"

text \<open>\<open>files\<close> are the contents of the local files; an upload that fails to open or close its file fails.\<close>

primrec publishChunks :: "remote \<Rightarrow> (string \<Rightarrow> bytes option) \<Rightarrow> envelope \<Rightarrow> work_chunk list \<Rightarrow> backup_error option rop" where
  "publishChunks R files e [] = State_Monad.return None"
| "publishChunks R files e (c # cs) =
     (case files (wk_path c) of
        None \<Rightarrow> State_Monad.return (Some FileMissing)
      | Some content \<Rightarrow> do {
          ok \<leftarrow> do_put R (remoteKey R (resourceChunkKey (en_resourceKind e) (en_resourceID e) (en_generationID e) (ck_index (wk_chunk c))))
                 content (ck_ciphertextSize (wk_chunk c)) (ck_sha (wk_chunk c));
          if ok then publishChunks R files e cs else State_Monad.return (Some RemoteFailed)
        })"

primrec publishAttachments ::
  "remote \<Rightarrow> (string \<Rightarrow> bytes option) \<Rightarrow> envelope \<Rightarrow> (attachment \<times> string) list \<Rightarrow> backup_error option rop" where
  "publishAttachments R files e [] = State_Monad.return None"
| "publishAttachments R files e (m # ms) =
     (case files (snd m) of
        None \<Rightarrow> State_Monad.return (Some FileMissing)
      | Some content \<Rightarrow> do {
          ok \<leftarrow> do_put R (remoteKey R (resourceAttachmentKey (en_resourceKind e) (en_resourceID e) (en_generationID e) (am_index (fst m))))
                 content (am_size (fst m)) (am_sha (fst m));
          if ok then publishAttachments R files e ms else State_Monad.return (Some RemoteFailed)
        })"

primrec verifyChunks ::
  "aead \<Rightarrow> hash_fn \<Rightarrow> resource_cipher \<Rightarrow> remote \<Rightarrow> envelope \<Rightarrow> chunk list \<Rightarrow> backup_error option rop" where
  "verifyChunks a sha256 c R e [] = State_Monad.return None"
| "verifyChunks a sha256 c R e (d # ds) = do {
     sealed \<leftarrow> readRemoteObject R
       (remoteKey R (resourceChunkKey (en_resourceKind e) (en_resourceID e) (en_generationID e) (ck_index d))) (ck_ciphertextSize d);
     case sealed of
       Inl err \<Rightarrow> State_Monad.return (Some err)
     | Inr sealed \<Rightarrow>
         (case openChunk a sha256 c (en_generationID e) d sealed of
            Inl err \<Rightarrow> State_Monad.return (Some (ChunkFailed err))
          | Inr _ \<Rightarrow> verifyChunks a sha256 c R e ds)
   }"

primrec verifyAttachments :: "hash_fn \<Rightarrow> remote \<Rightarrow> envelope \<Rightarrow> attachment list \<Rightarrow> backup_error option rop" where
  "verifyAttachments sha256 R e [] = State_Monad.return None"
| "verifyAttachments sha256 R e (m # ms) = do {
     r \<leftarrow> openResourceAttachment R e m;
     case r of
       Inl err \<Rightarrow> State_Monad.return (Some err)
     | Inr r \<Rightarrow>
         (case discardAttachment sha256 r of
            (copyErr, r) \<Rightarrow>
              (case err_then copyErr (attachmentClose r) of
                 Some err \<Rightarrow> State_Monad.return (Some err)
               | None \<Rightarrow> verifyAttachments sha256 R e ms))
   }"

definition verifyPublishedResource ::
  "codec \<Rightarrow> aead \<Rightarrow> hash_fn \<Rightarrow> hkdf_fn \<Rightarrow> remote \<Rightarrow> bytes \<Rightarrow> envelope \<Rightarrow> bytes \<Rightarrow> attachment list \<Rightarrow> backup_error option rop" where
  "verifyPublishedResource j a sha256 hkdf R master e expected ms = do {
     v \<leftarrow> readRemoteObject R (remoteKey R (resourceEnvelopeKey (en_resourceKind e) (en_resourceID e) (en_generationID e)))
            (int maximumResourceEnvelopeSize);
     case v of
       Inl err \<Rightarrow> State_Monad.return (Some err)
     | Inr v \<Rightarrow>
         if v \<noteq> expected then State_Monad.return (Some EnvelopeDiffers)
         else (case decodeResourceEnvelope j v of
           Inl err \<Rightarrow> State_Monad.return (Some err)
         | Inr decoded \<Rightarrow>
             if en_resourceKind decoded \<noteq> en_resourceKind e \<or> en_resourceID decoded \<noteq> en_resourceID e
                \<or> en_generationID decoded \<noteq> en_generationID e then State_Monad.return (Some EnvelopeIdentity)
             else (case newResourceCipher hkdf master (en_resourceID decoded) of
               Inl err \<Rightarrow> State_Monad.return (Some (ChunkFailed err))
             | Inr c \<Rightarrow> do {
                 err \<leftarrow> verifyChunks a sha256 c R decoded (en_chunks decoded);
                 case err of
                   Some err \<Rightarrow> State_Monad.return (Some err)
                 | None \<Rightarrow>
                     (case validateResourceAttachments sha256 decoded ms of
                        Some err \<Rightarrow> State_Monad.return (Some err)
                      | None \<Rightarrow> verifyAttachments sha256 R decoded ms)
               }))
   }"

definition commitCompletion :: "codec \<Rightarrow> hash_fn \<Rightarrow> remote \<Rightarrow> resource_build \<Rightarrow> backup_error option rop" where
  "commitCompletion j sha256 R b =
     (let e = rb_envelope b;
          key = remoteKey R (resourceCompletionKey (en_resourceKind e) (en_resourceID e) (en_generationID e))
      in do {
        ok \<leftarrow> do_put R key (rb_completionBytes b) (int (length (rb_completionBytes b))) (hex_encode (sha256 (rb_completionBytes b)));
        if \<not> ok then State_Monad.return (Some RemoteFailed)
        else do {
          published \<leftarrow> readRemoteObject R key 65536;
          case published of
            Inl err \<Rightarrow> State_Monad.return (Some err)
          | Inr published \<Rightarrow>
              if published \<noteq> rb_completionBytes b then State_Monad.return (Some CompletionDiffers)
              else State_Monad.return (case decodeResourceCompletion j published of Inl err \<Rightarrow> Some err | Inr _ \<Rightarrow> None)
        }
      })"

definition publishEnvelope ::
  "codec \<Rightarrow> aead \<Rightarrow> hash_fn \<Rightarrow> hkdf_fn \<Rightarrow> remote \<Rightarrow> bytes \<Rightarrow> resource_build \<Rightarrow> backup_error option rop" where
  "publishEnvelope j a sha256 hkdf R master b =
     (let e = rb_envelope b
      in do {
        ok \<leftarrow> do_put R (remoteKey R (resourceEnvelopeKey (en_resourceKind e) (en_resourceID e) (en_generationID e)))
               (rb_envelopeBytes b) (int (length (rb_envelopeBytes b))) (hex_encode (sha256 (rb_envelopeBytes b)));
        if \<not> ok then State_Monad.return (Some RemoteFailed)
        else do {
          err \<leftarrow> verifyPublishedResource j a sha256 hkdf R master e (rb_envelopeBytes b) (map fst (rb_attachments b));
          case err of
            Some err \<Rightarrow> State_Monad.return (Some err)
          | None \<Rightarrow> commitCompletion j sha256 R b
        }
      })"

definition publishResource ::
  "codec \<Rightarrow> aead \<Rightarrow> hash_fn \<Rightarrow> hkdf_fn \<Rightarrow> remote \<Rightarrow> (string \<Rightarrow> bytes option) \<Rightarrow> bytes \<Rightarrow> resource_build \<Rightarrow> backup_error option rop" where
  "publishResource j a sha256 hkdf R files master b =
     (let e = rb_envelope b
      in if en_resourceKind e = [] \<or> en_resourceID e = [] \<or> en_generationID e = [] \<or> rb_chunks b = []
            \<or> length (rb_chunks b) \<noteq> length (en_chunks e) \<or> rb_envelopeBytes b = [] \<or> rb_completionBytes b = []
         then State_Monad.return (Some PublicationIncomplete)
         else do {
           err \<leftarrow> publishChunks R files e (rb_chunks b);
           case err of
             Some err \<Rightarrow> State_Monad.return (Some err)
           | None \<Rightarrow>
               (case validateResourceAttachments sha256 e (map fst (rb_attachments b)) of
                  Some err \<Rightarrow> State_Monad.return (Some err)
                | None \<Rightarrow> do {
                    err \<leftarrow> publishAttachments R files e (rb_attachments b);
                    case err of
                      Some err \<Rightarrow> State_Monad.return (Some err)
                    | None \<Rightarrow> publishEnvelope j a sha256 hkdf R master b
                  })
         })"

section \<open>Reading\<close>

record resource_reader =
  rr_cipher :: resource_cipher
  rr_envelope :: envelope
  rr_index :: nat
  rr_current :: bytes
  rr_offset :: nat

definition openResource ::
  "codec \<Rightarrow> hash_fn \<Rightarrow> hkdf_fn \<Rightarrow> remote \<Rightarrow> bytes \<Rightarrow> completion \<Rightarrow> (backup_error + resource_reader) rop" where
  "openResource j sha256 hkdf R master cm =
     (case validateResourceCompletion cm of
        Some err \<Rightarrow> State_Monad.return (Inl err)
      | None \<Rightarrow> do {
          v \<leftarrow> readRemoteObject R (remoteKey R (resourceEnvelopeKey (co_resourceKind cm) (co_resourceID cm) (co_generationID cm)))
                 (int maximumResourceEnvelopeSize);
          State_Monad.return (case v of
            Inl err \<Rightarrow> Inl err
          | Inr v \<Rightarrow>
              if hex_encode (sha256 v) \<noteq> co_envelopeSHA cm then Inl EnvelopeDiffers
              else (case decodeResourceEnvelope j v of
                Inl err \<Rightarrow> Inl err
              | Inr e \<Rightarrow>
                  if en_resourceKind e \<noteq> co_resourceKind cm \<or> en_resourceID e \<noteq> co_resourceID cm
                     \<or> en_generationID e \<noteq> co_generationID cm \<or> en_plaintextSize e \<noteq> co_plaintextSize cm
                  then Inl EnvelopeIdentity
                  else (case newResourceCipher hkdf master (co_resourceID cm) of
                    Inl err \<Rightarrow> Inl (ChunkFailed err)
                  | Inr c \<Rightarrow> Inr \<lparr>rr_cipher = c, rr_envelope = e, rr_index = 0, rr_current = [], rr_offset = 0\<rparr>)))
        })"

text \<open>The loop of \<^verbatim>\<open>Read\<close> that replaces an exhausted chunk; the list is what is left of the chunks.\<close>

primrec nextChunk ::
  "aead \<Rightarrow> hash_fn \<Rightarrow> remote \<Rightarrow> chunk list \<Rightarrow> resource_reader \<Rightarrow> (read_error option \<times> resource_reader) rop" where
  "nextChunk a sha256 R [] rd = State_Monad.return (Some EndOfFile, rd\<lparr>rr_current := [], rr_offset := 0\<rparr>)"
| "nextChunk a sha256 R (d # ds) rd =
     (let e = rr_envelope rd; rd = rd\<lparr>rr_current := [], rr_offset := 0\<rparr>
      in do {
        sealed \<leftarrow> readRemoteObject R
          (remoteKey R (resourceChunkKey (en_resourceKind e) (en_resourceID e) (en_generationID e) (ck_index d))) (ck_ciphertextSize d);
        case sealed of
          Inl err \<Rightarrow> State_Monad.return (Some (ReadFailed err), rd)
        | Inr sealed \<Rightarrow>
            (case openChunk a sha256 (rr_cipher rd) (en_generationID e) d sealed of
               Inl err \<Rightarrow> State_Monad.return (Some (ReadFailed (ChunkFailed err)), rd)
             | Inr plaintext \<Rightarrow>
                 (let rd = rd\<lparr>rr_current := plaintext, rr_index := rr_index rd + 1\<rparr>
                  in if plaintext = [] then nextChunk a sha256 R ds rd else State_Monad.return (None, rd)))
      })"

definition deliver :: "nat \<Rightarrow> resource_reader \<Rightarrow> bytes \<times> resource_reader" where
  "deliver n rd =
     (let d = take n (drop (rr_offset rd) (rr_current rd)) in (d, rd\<lparr>rr_offset := rr_offset rd + length d\<rparr>))"

definition readResource ::
  "aead \<Rightarrow> hash_fn \<Rightarrow> remote \<Rightarrow> nat \<Rightarrow> resource_reader \<Rightarrow> ((bytes \<times> read_error option) \<times> resource_reader) rop" where
  "readResource a sha256 R n rd =
     (if n = 0 then State_Monad.return (([], None), rd)
      else if rr_offset rd = length (rr_current rd) then do {
        r \<leftarrow> nextChunk a sha256 R (drop (rr_index rd) (en_chunks (rr_envelope rd))) rd;
        case r of
          (Some err, rd) \<Rightarrow> State_Monad.return (([], Some err), rd)
        | (None, rd) \<Rightarrow> State_Monad.return (case deliver n rd of (d, rd) \<Rightarrow> ((d, None), rd))
      }
      else State_Monad.return (case deliver n rd of (d, rd) \<Rightarrow> ((d, None), rd)))"

end
