(* ===== verification/Backup_Publish.thy ===== *)
theory Backup_Publish
  imports Backup_Remote
begin

text \<open>
  The commit protocol of \<^verbatim>\<open>PublishResource\<close>: the completion marker, which makes a generation visible, is
  uploaded only after everything it commits was read back from the storage and opened.
\<close>

section \<open>Names of objects are different\<close>

lemma remoteKey_inj:
  assumes "\<not> prefix ''/'' x" "\<not> prefix ''/'' y" "x \<noteq> []" "y \<noteq> []"
  shows "remoteKey R x = remoteKey R y \<longleftrightarrow> x = y"
  using assms by (simp add: remoteKey_def Let_def)

lemma resource_keys_graphic:
  "\<not> prefix ''/'' (resourceGenerationPrefix kind rid gen @ s)" "resourceGenerationPrefix kind rid gen @ s \<noteq> []"
  by (simp_all add: resourceGenerationPrefix_def resourceGenerationsPrefix_def)

lemma completion_key_apart:
  "remoteKey R (resourceChunkKey kind rid gen i) \<noteq> remoteKey R (resourceCompletionKey kind rid gen)"
  "remoteKey R (resourceAttachmentKey kind rid gen i) \<noteq> remoteKey R (resourceCompletionKey kind rid gen)"
  "remoteKey R (resourceEnvelopeKey kind rid gen) \<noteq> remoteKey R (resourceCompletionKey kind rid gen)"
  unfolding resourceChunkKey_def resourceAttachmentKey_def resourceEnvelopeKey_def resourceCompletionKey_def
  by (simp_all add: remoteKey_inj resource_keys_graphic)

section \<open>Histories\<close>

text \<open>
  The events since a history: none of them writes a key; and what reading back has shown. \<open>opened\<close> says
  that an object was read and opens under a chunk descriptor.
\<close>

definition unwritten :: "string \<Rightarrow> remote_history \<Rightarrow> remote_history \<Rightarrow> bool" where
  "unwritten key h0 h \<longleftrightarrow> (\<exists>new. h = h0 @ new \<and> (\<forall>c ok. RPut key c ok \<notin> set new))"

definition chunk_opened :: "aead \<Rightarrow> hash_fn \<Rightarrow> resource_cipher \<Rightarrow> remote \<Rightarrow> envelope \<Rightarrow> remote_event list \<Rightarrow> chunk \<Rightarrow> bool" where
  "chunk_opened a sha256 c R e new d \<longleftrightarrow>
     (\<exists>r sealed p. RGet (remoteKey R (resourceChunkKey (en_resourceKind e) (en_resourceID e) (en_generationID e) (ck_index d))) r \<in> set new
        \<and> readObject r (ck_ciphertextSize d) = Inr sealed \<and> openChunk a sha256 c (en_generationID e) d sealed = Inr p)"

definition attachment_checked :: "hash_fn \<Rightarrow> remote \<Rightarrow> envelope \<Rightarrow> remote_event list \<Rightarrow> attachment \<Rightarrow> bool" where
  "attachment_checked sha256 R e new m \<longleftrightarrow>
     (\<exists>r rd rd'. RGet (remoteKey R (resourceAttachmentKey (en_resourceKind e) (en_resourceID e) (en_generationID e) (am_index m))) r \<in> set new
        \<and> openAttachment r e m = Inr rd \<and> discardAttachment sha256 rd = (None, rd') \<and> vr_verified rd')"

definition read_back ::
  "codec \<Rightarrow> aead \<Rightarrow> hash_fn \<Rightarrow> hkdf_fn \<Rightarrow> remote \<Rightarrow> bytes \<Rightarrow> envelope \<Rightarrow> bytes \<Rightarrow> attachment list \<Rightarrow> remote_event list \<Rightarrow> bool" where
  "read_back j a sha256 hkdf R master e expected ms new \<longleftrightarrow>
     (\<exists>r decoded c. RGet (remoteKey R (resourceEnvelopeKey (en_resourceKind e) (en_resourceID e) (en_generationID e))) r \<in> set new
        \<and> readObject r (int maximumResourceEnvelopeSize) = Inr expected
        \<and> decodeResourceEnvelope j expected = Inr decoded
        \<and> en_resourceKind decoded = en_resourceKind e \<and> en_resourceID decoded = en_resourceID e \<and> en_generationID decoded = en_generationID e
        \<and> newResourceCipher hkdf master (en_resourceID e) = Inr c
        \<and> (\<forall>d\<in>set (en_chunks decoded). chunk_opened a sha256 c R decoded new d)
        \<and> (\<forall>m\<in>set ms. attachment_checked sha256 R decoded new m))"

lemma run_do [simp]:
  "run_state (do_put R k c n s) h = (rm_put R h k c n s, h @ [RPut k c (rm_put R h k c n s)])"
  "run_state (do_get R k) h = (rm_get R h k, h @ [RGet k (rm_get R h k)])"
  "run_state (do_list R p t) h = (rm_list R h p t, h @ [RList p t (rm_list R h p t)])"
  "run_state (do_delete R k) h = (rm_delete R h k, h @ [RDelete k (rm_delete R h k)])"
  by (simp_all add: do_put_def do_get_def do_list_def do_delete_def Let_def)

lemma unwritten_refl [simp]: "unwritten key h h"
  by (simp add: unwritten_def)

lemma unwritten_snoc:
  assumes "unwritten key h0 h" and "\<forall>c ok. ev \<noteq> RPut key c ok"
  shows "unwritten key h0 (h @ [ev])"
proof -
  obtain new where "h = h0 @ new" "\<forall>c ok. RPut key c ok \<notin> set new"
    using assms(1) by (auto simp: unwritten_def)
  then show ?thesis
    using assms(2) unfolding unwritten_def by (intro exI [of _ "new @ [ev]"]) (simp, metis)
qed

lemma unwritten_put [hoare_rules]: "k \<noteq> key \<Longrightarrow> kept (unwritten key h0) (do_put R k c n s)"
  by (simp add: hoare_def unwritten_snoc)

lemma unwritten_get [hoare_rules]: "kept (unwritten key h0) (do_get R k)"
  by (simp add: hoare_def unwritten_snoc)

lemma unwritten_read [hoare_rules]: "kept (unwritten key h0) (readRemoteObject R k n)"
  unfolding readRemoteObject_def by (intro hoare_rules)

lemma unwritten_publishChunks:
  "key = remoteKey R (resourceCompletionKey (en_resourceKind e) (en_resourceID e) (en_generationID e)) \<Longrightarrow>
     kept (unwritten key h0) (publishChunks R files e cs)"
  by (induction cs) (auto intro!: hoare_rules simp: completion_key_apart)

lemma unwritten_publishAttachments:
  "key = remoteKey R (resourceCompletionKey (en_resourceKind e) (en_resourceID e) (en_generationID e)) \<Longrightarrow>
     kept (unwritten key h0) (publishAttachments R files e ms)"
  by (induction ms) (auto intro!: hoare_rules simp: completion_key_apart)

lemma unwritten_verifyChunks: "kept (unwritten key h0) (verifyChunks a sha256 c R e ds)"
  by (induction ds) (auto intro!: hoare_rules)

lemma unwritten_openAttachment: "kept (unwritten key h0) (openResourceAttachment R e m)"
  unfolding openResourceAttachment_def by (intro hoare_rules)

lemma unwritten_verifyAttachments: "kept (unwritten key h0) (verifyAttachments sha256 R e ms)"
  by (induction ms) (auto intro!: hoare_rules unwritten_openAttachment)

lemma unwritten_verify: "kept (unwritten key h0) (verifyPublishedResource j a sha256 hkdf R master e expected ms)"
  unfolding verifyPublishedResource_def
  by (intro hoare_rules unwritten_verifyChunks unwritten_verifyAttachments)

section \<open>What verification reads\<close>

lemma chunk_opened_more:
  "chunk_opened a sha256 c R e new d \<Longrightarrow> set new \<subseteq> set new' \<Longrightarrow> chunk_opened a sha256 c R e new' d"
  unfolding chunk_opened_def by blast

lemma attachment_checked_more:
  "attachment_checked sha256 R e new m \<Longrightarrow> set new \<subseteq> set new' \<Longrightarrow> attachment_checked sha256 R e new' m"
  unfolding attachment_checked_def by blast

lemma verifyChunks_opened:
  "run_state (verifyChunks a sha256 c R e ds) h = (None, h') \<Longrightarrow>
     \<exists>new. h' = h @ new \<and> (\<forall>d\<in>set ds. chunk_opened a sha256 c R e new d)"
proof (induction ds arbitrary: h)
  case (Cons d ds)
  let ?key = "remoteKey R (resourceChunkKey (en_resourceKind e) (en_resourceID e) (en_generationID e) (ck_index d))"
  let ?ev = "RGet ?key (rm_get R h ?key)"
  obtain sealed p where d: "readObject (rm_get R h ?key) (ck_ciphertextSize d) = Inr sealed"
    "openChunk a sha256 c (en_generationID e) d sealed = Inr p"
    "run_state (verifyChunks a sha256 c R e ds) (h @ [?ev]) = (None, h')"
    using Cons.prems by (auto simp: readRemoteObject_def split: sum.splits)
  then obtain new where new: "h' = (h @ [?ev]) @ new" "\<forall>d\<in>set ds. chunk_opened a sha256 c R e new d"
    using Cons.IH by blast
  have "chunk_opened a sha256 c R e [?ev] d"
    using d(1,2) unfolding chunk_opened_def by auto
  then show ?case
    using new by (intro exI [of _ "?ev # new"]) (auto elim!: chunk_opened_more)
qed simp

lemma verifyAttachments_checked:
  "run_state (verifyAttachments sha256 R e ms) h = (None, h') \<Longrightarrow>
     \<exists>new. h' = h @ new \<and> (\<forall>m\<in>set ms. attachment_checked sha256 R e new m)"
proof (induction ms arbitrary: h)
  case (Cons m ms)
  let ?key = "remoteKey R (resourceAttachmentKey (en_resourceKind e) (en_resourceID e) (en_generationID e) (am_index m))"
  let ?ev = "RGet ?key (rm_get R h ?key)"
  obtain rd rd' where m: "openAttachment (rm_get R h ?key) e m = Inr rd" "discardAttachment sha256 rd = (None, rd')"
    "attachmentClose rd' = None" "run_state (verifyAttachments sha256 R e ms) (h @ [?ev]) = (None, h')"
    using Cons.prems
    by (auto simp: openResourceAttachment_def err_then_def split: sum.splits prod.splits option.splits if_splits)
  then obtain new where new: "h' = (h @ [?ev]) @ new" "\<forall>m\<in>set ms. attachment_checked sha256 R e new m"
    using Cons.IH by blast
  have "vr_verified rd'"
    using m(3) by (simp add: attachmentClose_def split: if_splits)
  then have "attachment_checked sha256 R e [?ev] m"
    using m(1,2) unfolding attachment_checked_def by auto
  then show ?case
    using new by (intro exI [of _ "?ev # new"]) (auto elim!: attachment_checked_more)
qed simp

lemma verify_read_back:
  assumes "run_state (verifyPublishedResource j a sha256 hkdf R master e expected ms) h = (None, h')"
  shows "\<exists>new. h' = h @ new \<and> read_back j a sha256 hkdf R master e expected ms new"
proof -
  let ?key = "remoteKey R (resourceEnvelopeKey (en_resourceKind e) (en_resourceID e) (en_generationID e))"
  let ?ev = "RGet ?key (rm_get R h ?key)"
  obtain decoded c h1 where v: "readObject (rm_get R h ?key) (int maximumResourceEnvelopeSize) = Inr expected"
    "decodeResourceEnvelope j expected = Inr decoded"
    "en_resourceKind decoded = en_resourceKind e" "en_resourceID decoded = en_resourceID e" "en_generationID decoded = en_generationID e"
    "newResourceCipher hkdf master (en_resourceID e) = Inr c"
    "run_state (verifyChunks a sha256 c R decoded (en_chunks decoded)) (h @ [?ev]) = (None, h1)"
    "run_state (verifyAttachments sha256 R decoded ms) h1 = (None, h')"
    using assms unfolding verifyPublishedResource_def
    by (auto simp: readRemoteObject_def split: sum.splits prod.splits option.splits if_splits)
  obtain n1 where n1: "h1 = (h @ [?ev]) @ n1" "\<forall>d\<in>set (en_chunks decoded). chunk_opened a sha256 c R decoded n1 d"
    using verifyChunks_opened [OF v(7)] by blast
  obtain n2 where n2: "h' = h1 @ n2" "\<forall>m\<in>set ms. attachment_checked sha256 R decoded n2 m"
    using verifyAttachments_checked [OF v(8)] by blast
  have "read_back j a sha256 hkdf R master e expected ms (?ev # n1 @ n2)"
    unfolding read_back_def using v(1-6) n1(2) n2(2)
    by (intro exI [of _ "rm_get R h ?key"] exI [of _ decoded] exI [of _ c]) (auto elim!: chunk_opened_more attachment_checked_more)
  then show ?thesis
    using n1(1) n2(1) by (intro exI [of _ "?ev # n1 @ n2"]) simp
qed

lemma read_back_more:
  assumes "read_back j a sha256 hkdf R master e expected ms new" "set new \<subseteq> set new'"
  shows "read_back j a sha256 hkdf R master e expected ms new'"
proof -
  have "Ball D (chunk_opened a sha256 c R d new) \<Longrightarrow> Ball D (chunk_opened a sha256 c R d new')"
    "Ball M (attachment_checked sha256 R d new) \<Longrightarrow> Ball M (attachment_checked sha256 R d new')" for D M c d
    using assms(2) by (auto elim: chunk_opened_more attachment_checked_more)
  then show ?thesis
    using assms unfolding read_back_def by (elim exE conjE) (intro exI conjI; assumption | blast)
qed

section \<open>The completion marker\<close>

text \<open>Every write of a key since a history comes after events with a property.\<close>

definition written_after :: "(remote_event list \<Rightarrow> bool) \<Rightarrow> string \<Rightarrow> remote_history \<Rightarrow> remote_history \<Rightarrow> bool" where
  "written_after P key h0 h \<longleftrightarrow> (\<exists>new. h = h0 @ new \<and> (\<forall>pre c ok post. new = pre @ RPut key c ok # post \<longrightarrow> P pre))"

lemma written_after_unwritten: "unwritten key h0 h \<Longrightarrow> written_after P key h0 h"
  unfolding unwritten_def written_after_def by (metis in_set_conv_decomp)

lemma written_after_once:
  assumes "\<forall>c ok. RPut key c ok \<notin> set pre" "\<forall>c ok. RPut key c ok \<notin> set post" "P pre"
  shows "written_after P key h (h @ pre @ RPut key x y # post)"
proof -
  have "P pre'" if "pre @ RPut key x y # post = pre' @ RPut key c ok # post'" for pre' c ok post'
  proof -
    from that consider "pre' = pre" | us where "pre = pre' @ RPut key c ok # us" | us where "post = us @ RPut key c ok # post'"
      by (auto simp: append_eq_append_conv2 append_eq_Cons_conv Cons_eq_append_conv)
    then show ?thesis
      by cases (use assms in \<open>simp, metis in_set_conv_decomp, metis in_set_conv_decomp\<close>)
  qed
  then show ?thesis
    unfolding written_after_def by (intro exI [of _ "pre @ RPut key x y # post"]) blast
qed

abbreviation completion_key :: "remote \<Rightarrow> envelope \<Rightarrow> string" where
  "completion_key R e \<equiv> remoteKey R (resourceCompletionKey (en_resourceKind e) (en_resourceID e) (en_generationID e))"

lemma commitCompletion_once:
  assumes "run_state (commitCompletion j sha256 R b) h = (r, h')"
  shows "\<exists>ok post. h' = h @ RPut (completion_key R (rb_envelope b)) (rb_completionBytes b) ok # post
           \<and> (\<forall>k c ok'. RPut k c ok' \<notin> set post)"
  using assms unfolding commitCompletion_def
  by (auto simp: readRemoteObject_def Let_def split: if_splits sum.splits)

lemma publishEnvelope_committed:
  assumes "unwritten (completion_key R (rb_envelope b)) h0 h" "run_state (publishEnvelope j a sha256 hkdf R master b) h = (r, h')"
  shows "written_after (read_back j a sha256 hkdf R master (rb_envelope b) (rb_envelopeBytes b) (map fst (rb_attachments b)))
           (completion_key R (rb_envelope b)) h0 h'"
proof -
  let ?e = "rb_envelope b" and ?ms = "map fst (rb_attachments b)"
  let ?key = "completion_key R ?e" and ?P = "read_back j a sha256 hkdf R master ?e (rb_envelopeBytes b) ?ms"
  let ?put = "do_put R (remoteKey R (resourceEnvelopeKey (en_resourceKind ?e) (en_resourceID ?e) (en_generationID ?e)))
               (rb_envelopeBytes b) (int (length (rb_envelopeBytes b))) (hex_encode (sha256 (rb_envelopeBytes b)))"
  let ?verify = "verifyPublishedResource j a sha256 hkdf R master ?e (rb_envelopeBytes b) ?ms"
  obtain ok h1 where put: "run_state ?put h = (ok, h1)"
    by (cases "run_state ?put h")
  have u1: "unwritten ?key h0 h1"
    using hoareD [OF unwritten_put [OF completion_key_apart(3)] assms(1) put] .
  obtain err h2 where ver: "run_state ?verify h1 = (err, h2)"
    by (cases "run_state ?verify h1")
  have u2: "unwritten ?key h0 h2"
    using hoareD [OF unwritten_verify u1 ver] .
  consider "h' = h1" | "err \<noteq> None" "h' = h2" | "err = None" "run_state (commitCompletion j sha256 R b) h2 = (r, h')"
    using assms(2) put ver unfolding publishEnvelope_def by (auto simp: Let_def split: if_splits option.splits)
  then show ?thesis
  proof cases
    case 3
    obtain n where n: "h2 = h0 @ n" "\<forall>c ok. RPut ?key c ok \<notin> set n"
      using u2 by (auto simp: unwritten_def)
    obtain m1 m2 where m: "h1 = h0 @ m1" "h2 = h1 @ m2" "?P m2"
      using u1 verify_read_back [of j a sha256 hkdf R master ?e "rb_envelopeBytes b" ?ms h1 h2] ver 3(1)
      by (auto simp: unwritten_def)
    then have "?P n"
      using n(1) by (auto elim: read_back_more)
    moreover obtain ok' post where "h' = h2 @ RPut ?key (rb_completionBytes b) ok' # post" "\<forall>k c ok'. RPut k c ok' \<notin> set post"
      using commitCompletion_once [OF 3(2)] by blast
    ultimately show ?thesis
      using written_after_once [of ?key n post ?P h0 "rb_completionBytes b" ok'] n by simp
  qed (use u1 u2 in \<open>simp_all add: written_after_unwritten\<close>)
qed

lemma publishResource_committed:
  assumes "run_state (publishResource j a sha256 hkdf R files master b) h = (r, h')"
  shows "written_after (read_back j a sha256 hkdf R master (rb_envelope b) (rb_envelopeBytes b) (map fst (rb_attachments b)))
           (completion_key R (rb_envelope b)) h h'"
proof -
  let ?e = "rb_envelope b" let ?key = "completion_key R ?e"
  obtain e1 h1 where c: "run_state (publishChunks R files ?e (rb_chunks b)) h = (e1, h1)"
    by (cases "run_state (publishChunks R files ?e (rb_chunks b)) h")
  have u1: "unwritten ?key h h1"
    using hoareD [OF unwritten_publishChunks [OF refl] unwritten_refl c] .
  obtain e2 h2 where m: "run_state (publishAttachments R files ?e (rb_attachments b)) h1 = (e2, h2)"
    by (cases "run_state (publishAttachments R files ?e (rb_attachments b)) h1")
  have u2: "unwritten ?key h h2"
    using hoareD [OF unwritten_publishAttachments [OF refl] u1 m] .
  consider "h' = h" | "h' = h1" | "h' = h2" | "run_state (publishEnvelope j a sha256 hkdf R master b) h2 = (r, h')"
    using assms c m unfolding publishResource_def by (auto simp: Let_def split: if_splits option.splits)
  then show ?thesis
    by cases (use u1 u2 publishEnvelope_committed [OF u2] in \<open>simp_all add: written_after_unwritten\<close>)
qed

lemma publishResource_marked:
  assumes "run_state (publishResource j a sha256 hkdf R files master b) h = (None, h @ new)"
  shows "RPut (completion_key R (rb_envelope b)) (rb_completionBytes b) True \<in> set new"
proof -
  let ?e = "rb_envelope b" let ?key = "completion_key R ?e"
  let ?verify = "verifyPublishedResource j a sha256 hkdf R master ?e (rb_envelopeBytes b) (map fst (rb_attachments b))"
  obtain h1 h2 where c: "run_state (publishChunks R files ?e (rb_chunks b)) h = (None, h1)"
    "run_state (publishAttachments R files ?e (rb_attachments b)) h1 = (None, h2)"
    "run_state (publishEnvelope j a sha256 hkdf R master b) h2 = (None, h @ new)"
    using assms unfolding publishResource_def by (auto simp: Let_def split: if_splits option.splits prod.splits)
  obtain ev h3 where v: "run_state ?verify (h2 @ [RPut (remoteKey R (resourceEnvelopeKey (en_resourceKind ?e) (en_resourceID ?e)
      (en_generationID ?e))) (rb_envelopeBytes b) ev]) = (None, h3)" "run_state (commitCompletion j sha256 R b) h3 = (None, h @ new)"
    using c(3) unfolding publishEnvelope_def by (auto simp: Let_def split: if_splits option.splits prod.splits)
  have "unwritten ?key h h2"
    using hoareD [OF unwritten_publishAttachments [OF refl] hoareD [OF unwritten_publishChunks [OF refl] unwritten_refl c(1)] c(2)] .
  then have "unwritten ?key h h3"
    using hoareD [OF unwritten_verify unwritten_snoc v(1)] completion_key_apart(3) by simp
  then obtain n where "h3 = h @ n"
    by (auto simp: unwritten_def)
  then show ?thesis
    using v(2) unfolding commitCompletion_def by (auto simp: readRemoteObject_def Let_def split: if_splits sum.splits)
qed

definition sample_sealed_chunk :: "bytes \<times> chunk" where
  "sample_sealed_chunk =
     (case sealChunk sample_aead sample_sha256 sample_cipher ''g'' 0 [1, 2] (replicate 24 3) of
        Inr (sealed, d, _) \<Rightarrow> (sealed, d)
      | Inl _ \<Rightarrow> ([], \<lparr>ck_index = 0, ck_plaintextSize = 0, ck_ciphertextSize = 0, ck_sha = []\<rparr>))"

definition sample_envelope :: envelope where
  "sample_envelope = \<lparr>en_formatVersion = 2, en_resourceKind = ''redis'', en_resourceID = ''r'', en_generationID = ''g'', en_createdAt = 5,
     en_plaintextSize = 2, en_chunks = [snd sample_sealed_chunk], en_attachmentCount = 0, en_attachmentSize = 0, en_attachmentRoot = []\<rparr>"

definition sample_completion :: completion where
  "sample_completion = \<lparr>co_formatVersion = 2, co_resourceKind = ''redis'', co_resourceID = ''r'', co_generationID = ''g'',
     co_envelopeSHA = hex_encode (sample_sha256 [123]), co_plaintextSize = 2, co_remoteSize = 46, co_completedAt = 9\<rparr>"

definition sample_codec :: codec where
  "sample_codec = \<lparr>json_envelope = (\<lambda>_. Some [123]), parse_envelope = (\<lambda>v. if v = [123] then Some sample_envelope else None),
     json_completion = (\<lambda>_. Some [125]), parse_completion = (\<lambda>v. if v = [125] then Some sample_completion else None)\<rparr>"

definition sample_hkdf :: hkdf_fn where
  "sample_hkdf key salt info n = Some (replicate n 7)"

text \<open>A storage that keeps what is put.\<close>

fun last_put :: "remote_history \<Rightarrow> string \<Rightarrow> bytes option" where
  "last_put [] key = None"
| "last_put (RPut k c ok # h) key = (case last_put h key of Some c' \<Rightarrow> Some c' | None \<Rightarrow> if k = key \<and> ok then Some c else None)"
| "last_put (_ # h) key = last_put h key"

definition sample_remote :: remote where
  "sample_remote = \<lparr>rm_prefix = ''p'', rm_put = (\<lambda>h key content size sha. True),
     rm_get = (\<lambda>h key. map_option (\<lambda>c. \<lparr>rs_body = [Data c], rs_size = int (length c), rs_closeOk = True\<rparr>) (last_put h key)),
     rm_list = (\<lambda>h pre token. None), rm_delete = (\<lambda>h key. True)\<rparr>"

definition sample_build :: resource_build where
  "sample_build = \<lparr>rb_envelope = sample_envelope, rb_envelopeBytes = [123], rb_completion = sample_completion, rb_completionBytes = [125],
     rb_chunks = [\<lparr>wk_chunk = snd sample_sealed_chunk, wk_path = ''/w/chunk-00000000.pdx''\<rparr>], rb_attachments = []\<rparr>"

definition sample_files :: "string \<Rightarrow> bytes option" where
  "sample_files path = (if path = ''/w/chunk-00000000.pdx'' then Some (fst sample_sealed_chunk) else None)"

definition sample_publication :: "backup_error option \<times> remote_history" where
  "sample_publication =
     run_state (publishResource sample_codec sample_aead sample_sha256 sample_hkdf sample_remote sample_files (replicate 32 1) sample_build) []"

lemma sample_published: "fst sample_publication = None"
  by code_simp

text \<open>
  \<^bold>\<open>C6.\<close> Publishing a backup commits it last. Whatever the storage answers, and wherever publication stops, a completion
  marker is uploaded only after the envelope was read back from the storage byte by byte as it was written,
  decoded with the identity of the resource, every chunk it lists was read back and opened with the key of
  the resource, and every attachment was read back to its end with its size and checksum. When publication
  reports success the marker was accepted by the storage.
\<close>

theorem completion_committed_last:
  assumes "run_state (publishResource j a sha256 hkdf R files master b) h = (r, h')"
  shows "\<exists>new. h' = h @ new
    \<and> (\<forall>pre c ok post. new = pre @ RPut (completion_key R (rb_envelope b)) c ok # post \<longrightarrow>
         read_back j a sha256 hkdf R master (rb_envelope b) (rb_envelopeBytes b) (map fst (rb_attachments b)) pre)
    \<and> (r = None \<longrightarrow> RPut (completion_key R (rb_envelope b)) (rb_completionBytes b) True \<in> set new)"
proof -
  obtain new where new: "h' = h @ new"
    "\<forall>pre c ok post. new = pre @ RPut (completion_key R (rb_envelope b)) c ok # post \<longrightarrow>
       read_back j a sha256 hkdf R master (rb_envelope b) (rb_envelopeBytes b) (map fst (rb_attachments b)) pre"
    using publishResource_committed [OF assms] unfolding written_after_def by blast
  moreover have "RPut (completion_key R (rb_envelope b)) (rb_completionBytes b) True \<in> set new" if "r = None"
    using assms unfolding that new(1) by (rule publishResource_marked)
  ultimately show ?thesis
    by blast
qed

theorem completion_committed_last_witness:
  "\<exists>pre ok post. snd sample_publication = pre @ RPut ''p/resources/redis/r/generations/g/complete.json'' [125] ok # post
     \<and> read_back sample_codec sample_aead sample_sha256 sample_hkdf sample_remote (replicate 32 1) sample_envelope [123] [] pre"
proof -
  have key: "completion_key sample_remote sample_envelope = ''p/resources/redis/r/generations/g/complete.json''"
    by code_simp
  have b: "rb_envelope sample_build = sample_envelope" "rb_envelopeBytes sample_build = [123]" "rb_completionBytes sample_build = [125]"
    "map fst (rb_attachments sample_build) = []"
    by (simp_all add: sample_build_def)
  have "run_state (publishResource sample_codec sample_aead sample_sha256 sample_hkdf sample_remote sample_files (replicate 32 1) sample_build) []
      = (None, snd sample_publication)"
    using sample_published unfolding sample_publication_def by (metis prod.collapse)
  from completion_committed_last [OF this] obtain pre post where
    "snd sample_publication = pre @ RPut ''p/resources/redis/r/generations/g/complete.json'' [125] True # post"
    "read_back sample_codec sample_aead sample_sha256 sample_hkdf sample_remote (replicate 32 1) sample_envelope [123] [] pre"
    unfolding b key append_Nil by (elim exE conjE) (simp only: simp_thms, drule split_list, blast)
  then show ?thesis
    by blast
qed

end
