(* ===== verification/Backup_Restore.thy ===== *)
theory Backup_Restore
  imports Backup_Publish
begin

text \<open>
  Reading a published backup: what successive calls of \<^verbatim>\<open>ResourceReader.Read\<close> deliver, for an arbitrary storage
  and for one that answers with what was uploaded.
\<close>

section \<open>What the reader has delivered\<close>

text \<open>\<open>p\<close> is the plaintext of what the storage answered for a chunk at some time.\<close>

definition chunk_plain :: "aead \<Rightarrow> hash_fn \<Rightarrow> remote \<Rightarrow> resource_cipher \<Rightarrow> envelope \<Rightarrow> chunk \<Rightarrow> bytes \<Rightarrow> bool" where
  "chunk_plain a sha256 R c e d p \<longleftrightarrow>
     (\<exists>h sealed. readObject (rm_get R h (remoteKey R (resourceChunkKey (en_resourceKind e) (en_resourceID e) (en_generationID e) (ck_index d))))
         (ck_ciphertextSize d) = Inr sealed \<and> openChunk a sha256 c (en_generationID e) d sealed = Inr p)"

definition reader_at :: "aead \<Rightarrow> hash_fn \<Rightarrow> remote \<Rightarrow> resource_cipher \<Rightarrow> envelope \<Rightarrow> resource_reader \<Rightarrow> bytes \<Rightarrow> bytes list \<Rightarrow> bool" where
  "reader_at a sha256 R c e rd out ps \<longleftrightarrow>
     rr_cipher rd = c \<and> rr_envelope rd = e \<and> rr_index rd \<le> length (en_chunks e) \<and> rr_offset rd \<le> length (rr_current rd)
     \<and> list_all2 (chunk_plain a sha256 R c e) (take (rr_index rd) (en_chunks e)) ps
     \<and> out @ drop (rr_offset rd) (rr_current rd) = concat ps"

lemma chunk_plain_size: "chunk_plain a sha256 R c e d p \<Longrightarrow> int (length p) = ck_plaintextSize d"
  by (auto simp: chunk_plain_def openChunk_def split: if_splits sum.splits)

lemma chunk_plains_size:
  "list_all2 (chunk_plain a sha256 R c e) ds ps \<Longrightarrow> int (length (concat ps)) = sum_list (map ck_plaintextSize ds)"
  by (induction ds ps rule: list_all2_induct) (simp_all add: chunk_plain_size)

lemma nextChunk_delivers:
  assumes "run_state (nextChunk a sha256 R ds rd) h = ((err, rd'), h')"
    and "ds = drop (rr_index rd) (en_chunks e)" "reader_at a sha256 R c e rd out ps" "rr_offset rd = length (rr_current rd)"
  shows "(\<exists>ps'. reader_at a sha256 R c e rd' out ps') \<and> (err = None \<longrightarrow> rr_current rd' \<noteq> [] \<and> rr_offset rd' = 0)
    \<and> (err \<noteq> None \<longrightarrow> rr_current rd' = [])
    \<and> (err = Some EndOfFile \<longrightarrow> rr_index rd' = length (en_chunks e))"
  using assms
proof (induction ds arbitrary: rd h ps)
  case Nil
  then show ?case
    by (auto simp: reader_at_def)
next
  case (Cons d ds)
  let ?key = "remoteKey R (resourceChunkKey (en_resourceKind e) (en_resourceID e) (en_generationID e) (ck_index d))"
  let ?h = "h @ [RGet ?key (rm_get R h ?key)]" and ?clear = "rd\<lparr>rr_current := [], rr_offset := 0\<rparr>"
  have rd: "rr_cipher rd = c" "rr_envelope rd = e" "rr_index rd < length (en_chunks e)"
    "list_all2 (chunk_plain a sha256 R c e) (take (rr_index rd) (en_chunks e)) ps" "out = concat ps"
    using Cons.prems(2-4) by (auto simp: reader_at_def) (metis drop_eq_Nil leI list.distinct(1))
  have d: "en_chunks e ! rr_index rd = d" "ds = drop (Suc (rr_index rd)) (en_chunks e)"
    using Cons.prems(2) rd(3) by (metis Cons_nth_drop_Suc list.inject)+
  have cleared: "reader_at a sha256 R c e ?clear out ps"
    using rd by (simp add: reader_at_def)
  show ?case
  proof (cases "readObject (rm_get R h ?key) (ck_ciphertextSize d)")
    case (Inl x)
    then show ?thesis
      using Cons.prems(1) rd cleared by (auto simp: readRemoteObject_def Let_def)
  next
    case (Inr sealed)
    show ?thesis
    proof (cases "openChunk a sha256 c (en_generationID e) d sealed")
      case (Inl x)
      then show ?thesis
        using Cons.prems(1) rd cleared Inr by (auto simp: readRemoteObject_def Let_def)
    next
      case p: (Inr p)
      let ?rd = "rd\<lparr>rr_offset := 0, rr_current := p, rr_index := rr_index rd + 1\<rparr>"
      have "chunk_plain a sha256 R c e d p"
        using Inr p unfolding chunk_plain_def by blast
      then have at: "reader_at a sha256 R c e ?rd out (ps @ [p])"
        using rd d by (auto simp: reader_at_def take_Suc_conv_app_nth intro: list_all2_appendI)
      show ?thesis
      proof (cases "p = []")
        case True
        then have "run_state (nextChunk a sha256 R ds ?rd) ?h = ((err, rd'), h')"
          using Cons.prems(1) rd Inr p by (simp add: readRemoteObject_def Let_def)
        then show ?thesis
          by (rule Cons.IH [OF _ _ at]) (use d True in simp_all)
      next
        case False
        then have "err = None" "rd' = ?rd"
          using Cons.prems(1) rd Inr p by (simp_all add: readRemoteObject_def Let_def)
        then show ?thesis
          using at False by auto
      qed
    qed
  qed
qed

lemma deliver_at:
  assumes "reader_at a sha256 R c e rd out ps" "deliver n rd = (d, rd')"
  shows "reader_at a sha256 R c e rd' (out @ d) ps" and "d = take n (drop (rr_offset rd) (rr_current rd))"
proof -
  let ?left = "drop (rr_offset rd) (rr_current rd)"
  have d: "d = take n ?left" "rd' = rd\<lparr>rr_offset := rr_offset rd + length d\<rparr>"
    using assms(2) by (auto simp: deliver_def Let_def)
  have "drop (rr_offset rd + length d) (rr_current rd) = drop n ?left"
    by (simp add: d(1) min_def add.commute)
  then have "d @ drop (rr_offset rd + length d) (rr_current rd) = ?left"
    by (simp only: d(1) append_take_drop_id)
  then show "reader_at a sha256 R c e rd' (out @ d) ps"
    using assms(1) by (auto simp: reader_at_def d(2)) (simp add: d(1))
  show "d = take n ?left"
    by (rule d(1))
qed

text \<open>
  One read keeps the invariant, delivers bytes unless it fails or the buffer is empty, and ends only when
  every chunk was delivered.
\<close>

lemma readResource_delivers:
  assumes "run_state (readResource a sha256 R n rd) h = (((d, err), rd'), h')" "reader_at a sha256 R c e rd out ps"
  shows "\<exists>ps'. reader_at a sha256 R c e rd' (out @ d) ps'"
    and "err = None \<Longrightarrow> 0 < n \<Longrightarrow> d \<noteq> []"
    and "err \<noteq> None \<Longrightarrow> d = []"
    and "err = Some EndOfFile \<Longrightarrow> rr_index rd' = length (en_chunks e) \<and> rr_current rd' = []"
proof -
  let ?goal = "(\<exists>ps'. reader_at a sha256 R c e rd' (out @ d) ps') \<and> (err = None \<and> 0 < n \<longrightarrow> d \<noteq> []) \<and> (err \<noteq> None \<longrightarrow> d = [])
    \<and> (err = Some EndOfFile \<longrightarrow> rr_index rd' = length (en_chunks e) \<and> rr_current rd' = [])"
  have ?goal
  proof (cases "n = 0")
    case True
    then show ?thesis
      using assms by (auto simp: readResource_def)
  next
    case n: False
    show ?thesis
    proof (cases "rr_offset rd = length (rr_current rd)")
      case True
      let ?next = "nextChunk a sha256 R (drop (rr_index rd) (en_chunks e)) rd"
      obtain err1 rd1 h1 where nx: "run_state ?next h = ((err1, rd1), h1)"
        by (metis prod.exhaust)
      have e: "rr_envelope rd = e"
        using assms(2) by (simp add: reader_at_def)
      note nd = nextChunk_delivers [OF nx refl assms(2) True]
      then obtain ps1 where at: "reader_at a sha256 R c e rd1 out ps1"
        by blast
      show ?thesis
      proof (cases err1)
        case None
        then obtain d1 rd2 where dl: "deliver n rd1 = (d1, rd2)" "d = d1" "rd' = rd2" "err = None"
          using assms(1) n True nx e by (cases "deliver n rd1") (simp add: readResource_def)
        then show ?thesis
          using deliver_at [OF at dl(1)] nd None n by auto
      next
        case (Some x)
        then have "d = []" "err = Some x" "rd' = rd1"
          using assms(1) n True nx e by (simp_all add: readResource_def)
        then show ?thesis
          using nd Some by auto
      qed
    next
      case False
      then obtain rd2 where dl: "deliver n rd = (d, rd')" "err = None"
        using assms(1) n by (cases "deliver n rd") (simp add: readResource_def)
      moreover have "rr_offset rd < length (rr_current rd)"
        using False assms(2) by (simp add: reader_at_def)
      ultimately show ?thesis
        using deliver_at [OF assms(2) dl(1)] n by auto
    qed
  qed
  then show "\<exists>ps'. reader_at a sha256 R c e rd' (out @ d) ps'" "err = None \<Longrightarrow> 0 < n \<Longrightarrow> d \<noteq> []"
    "err \<noteq> None \<Longrightarrow> d = []" "err = Some EndOfFile \<Longrightarrow> rr_index rd' = length (en_chunks e) \<and> rr_current rd' = []"
    by blast+
qed

section \<open>Reading to the end\<close>

text \<open>A client that reads into buffers of the given sizes until a read reports an error.\<close>

primrec drain :: "aead \<Rightarrow> hash_fn \<Rightarrow> remote \<Rightarrow> nat list \<Rightarrow> resource_reader \<Rightarrow> ((bytes \<times> read_error option) \<times> resource_reader) rop" where
  "drain a sha256 R [] rd = State_Monad.return (([], None), rd)"
| "drain a sha256 R (n # ns) rd = do {
     r \<leftarrow> readResource a sha256 R n rd;
     case r of
       ((d, Some err), rd) \<Rightarrow> State_Monad.return ((d, Some err), rd)
     | ((d, None), rd) \<Rightarrow> do {
         r \<leftarrow> drain a sha256 R ns rd;
         State_Monad.return (case r of ((rest, err), rd) \<Rightarrow> ((d @ rest, err), rd))
       }
   }"

lemma drain_Cons:
  assumes "run_state (drain a sha256 R (n # ns) rd) h = (((out, err), rd'), h')"
  obtains x where "run_state (readResource a sha256 R n rd) h = (((out, Some x), rd'), h')" "err = Some x"
  | d rd1 h1 rest where "run_state (readResource a sha256 R n rd) h = (((d, None), rd1), h1)"
      "run_state (drain a sha256 R ns rd1) h1 = (((rest, err), rd'), h')" "out = d @ rest"
proof -
  obtain d err1 rd1 h1 where r: "run_state (readResource a sha256 R n rd) h = (((d, err1), rd1), h1)"
    by (metis prod.exhaust)
  obtain rest err2 rd2 h2 where t: "run_state (drain a sha256 R ns rd1) h1 = (((rest, err2), rd2), h2)"
    by (metis prod.exhaust)
  show thesis
    using assms r t that by (cases err1) auto
qed

lemma drain_delivers:
  assumes "run_state (drain a sha256 R ns rd) h = (((out, err), rd'), h')" "reader_at a sha256 R c e rd before ps"
  shows "(\<exists>ps'. reader_at a sha256 R c e rd' (before @ out) ps')
    \<and> (err = Some EndOfFile \<longrightarrow> rr_index rd' = length (en_chunks e) \<and> rr_current rd' = [])
    \<and> (err = None \<and> list_all (\<lambda>n. 0 < n) ns \<longrightarrow> length ns \<le> length out)"
  using assms
proof (induction ns arbitrary: rd h out before ps)
  case Nil
  then show ?case
    by auto
next
  case (Cons n ns)
  from Cons.prems(1) show ?case
  proof (cases rule: drain_Cons)
    case (1 x)
    then show ?thesis
      using readResource_delivers [OF 1(1) Cons.prems(2)] by auto
  next
    case (2 d rd1 h1 rest)
    note one = readResource_delivers [OF 2(1) Cons.prems(2)]
    obtain ps1 where "reader_at a sha256 R c e rd1 (before @ d) ps1"
      using one(1) by blast
    from Cons.IH [OF 2(2) this] show ?thesis
      using one(2) 2(3) by (cases d) auto
  qed
qed

lemma openResource_Inr:
  assumes "run_state (openResource j sha256 hkdf R master cm) h = (Inr rd, h1)"
  obtains e c v where "rd = \<lparr>rr_cipher = c, rr_envelope = e, rr_index = 0, rr_current = [], rr_offset = 0\<rparr>"
    "newResourceCipher hkdf master (co_resourceID cm) = Inr c" "decodeResourceEnvelope j v = Inr e"
    "hex_encode (sha256 v) = co_envelopeSHA cm" "en_plaintextSize e = co_plaintextSize cm"
  using assms unfolding openResource_def
  by (auto simp: readRemoteObject_def split: option.splits sum.splits if_splits)

lemma opened_reader_at:
  "reader_at a sha256 R c e \<lparr>rr_cipher = c, rr_envelope = e, rr_index = 0, rr_current = [], rr_offset = 0\<rparr> [] []"
  by (simp add: reader_at_def)

text \<open>
  \<^bold>\<open>C14.\<close> Restoring is exact. Whatever the storage answers, the bytes a restore has delivered, in reads of any sizes, are a
  prefix of the concatenation of plaintexts that opened under the descriptors of the committed envelope, in
  their order; and when the reader reports the end of the file, every chunk was delivered and the length is
  the one the completion marker records. A truncated, reordered or altered backup is an error, never a short
  or different restore that looks complete.
\<close>

theorem restore_is_exact:
  assumes "run_state (openResource j sha256 hkdf R master cm) h = (Inr rd, h1)"
    and "run_state (drain a sha256 R ns rd) h1 = (((out, err), rd'), h2)"
  shows "\<exists>k ps. list_all2 (chunk_plain a sha256 R (rr_cipher rd) (rr_envelope rd)) (take k (en_chunks (rr_envelope rd))) ps
    \<and> prefix out (concat ps) \<and> int (length out) \<le> co_plaintextSize cm
    \<and> (err = Some EndOfFile \<longrightarrow> k = length (en_chunks (rr_envelope rd)) \<and> out = concat ps \<and> int (length out) = co_plaintextSize cm)"
proof -
  obtain e c v where o: "rd = \<lparr>rr_cipher = c, rr_envelope = e, rr_index = 0, rr_current = [], rr_offset = 0\<rparr>"
    "decodeResourceEnvelope j v = Inr e" "en_plaintextSize e = co_plaintextSize cm"
    using assms(1) by (rule openResource_Inr)
  note env = decode_envelope_chunks [OF o(2)]
  obtain ps where at: "reader_at a sha256 R c e rd' out ps"
    and eof: "err = Some EndOfFile \<longrightarrow> rr_index rd' = length (en_chunks e) \<and> rr_current rd' = []"
    using drain_delivers [OF assms(2) opened_reader_at [of a sha256 R c e, folded o(1)]] by auto
  let ?k = "rr_index rd'"
  have opened: "list_all2 (chunk_plain a sha256 R c e) (take ?k (en_chunks e)) ps"
    and out: "out @ drop (rr_offset rd') (rr_current rd') = concat ps"
    using at by (simp_all add: reader_at_def)
  have "sum_list (map ck_plaintextSize (take ?k (en_chunks e))) \<le> sum_list (map ck_plaintextSize (en_chunks e))"
  proof -
    have "0 \<le> sum_list (map ck_plaintextSize (drop ?k (en_chunks e)))"
      using env(5) by (intro sum_list_nonneg) (auto dest: in_set_dropD)
    moreover have "sum_list (map ck_plaintextSize (en_chunks e))
        = sum_list (map ck_plaintextSize (take ?k (en_chunks e))) + sum_list (map ck_plaintextSize (drop ?k (en_chunks e)))"
      by (metis append_take_drop_id map_append sum_list_append)
    ultimately show ?thesis
      by simp
  qed
  moreover have "length out \<le> length (concat ps)"
    using out by (metis length_append le_add1)
  ultimately have "int (length out) \<le> co_plaintextSize cm"
    using chunk_plains_size [OF opened] env(2) o(3) by linarith
  moreover have "?k = length (en_chunks e) \<and> out = concat ps \<and> int (length out) = co_plaintextSize cm" if "err = Some EndOfFile"
    using that eof out chunk_plains_size [OF opened] env(2) o(3) by simp
  ultimately show ?thesis
    using opened out o(1) by (intro exI [of _ ?k] exI [of _ ps]) (auto intro: prefixI [OF sym])
qed

section \<open>A storage that answers with what was uploaded\<close>

definition serves :: "remote \<Rightarrow> (string \<times> bytes) list \<Rightarrow> envelope \<Rightarrow> work_chunk list \<Rightarrow> bool" where
  "serves R files e cs \<longleftrightarrow>
     (\<forall>x\<in>set cs. \<forall>h. \<exists>sealed. map_of files (wk_path x) = Some sealed
        \<and> readObject (rm_get R h (remoteKey R (resourceChunkKey (en_resourceKind e) (en_resourceID e) (en_generationID e)
             (ck_index (wk_chunk x))))) (ck_ciphertextSize (wk_chunk x)) = Inr sealed)"

definition opens_always :: "aead \<Rightarrow> hash_fn \<Rightarrow> remote \<Rightarrow> resource_cipher \<Rightarrow> envelope \<Rightarrow> chunk \<Rightarrow> bool" where
  "opens_always a sha256 R c e d \<longleftrightarrow>
     (\<forall>h. \<exists>sealed p. readObject (rm_get R h (remoteKey R (resourceChunkKey (en_resourceKind e) (en_resourceID e) (en_generationID e) (ck_index d))))
         (ck_ciphertextSize d) = Inr sealed \<and> openChunk a sha256 c (en_generationID e) d sealed = Inr p)"

lemma served_stored:
  assumes "serves R files e cs" "list_all2 (stored a sha256 c (en_generationID e) files) cs ps"
  shows "\<forall>d\<in>set (map wk_chunk cs). opens_always a sha256 R c e d"
    and "list_all2 (chunk_plain a sha256 R c e) (map wk_chunk cs) qs \<Longrightarrow> qs = ps"
proof -
  have "\<exists>p. stored a sha256 c (en_generationID e) files x p" if "x \<in> set cs" for x
    using assms(2) that by (induction rule: list_all2_induct) auto
  then show "\<forall>d\<in>set (map wk_chunk cs). opens_always a sha256 R c e d"
    using assms(1) by (fastforce simp: serves_def stored_def opens_always_def)
  have one: "q = p" if "x \<in> set cs" "stored a sha256 c (en_generationID e) files x p" "chunk_plain a sha256 R c e (wk_chunk x) q" for x p q
    using assms(1) that unfolding serves_def stored_def chunk_plain_def by (metis Inr_inject option.inject)
  assume "list_all2 (chunk_plain a sha256 R c e) (map wk_chunk cs) qs"
  then have "list_all2 (\<lambda>x. chunk_plain a sha256 R c e (wk_chunk x)) cs qs"
    by (simp add: list_all2_map1)
  then have "list_all2 (=) qs ps"
    using assms(2) by (auto simp: list_all2_conv_all_nth intro!: one [OF nth_mem])
  then show "qs = ps"
    by (simp add: list.rel_eq)
qed

lemma served_prefix:
  assumes "serves R files e cs" "list_all2 (stored a sha256 c (en_generationID e) files) cs ps" "en_chunks e = map wk_chunk cs"
    and "reader_at a sha256 R c e rd out qs"
  shows "qs = take (rr_index rd) ps" and "length out \<le> length (concat ps)"
proof -
  let ?k = "rr_index rd"
  have "serves R files e (take ?k cs)"
    using assms(1) by (auto simp: serves_def dest: in_set_takeD)
  moreover have "list_all2 (stored a sha256 c (en_generationID e) files) (take ?k cs) (take ?k ps)"
    using assms(2) by (rule list_all2_takeI)
  moreover have "list_all2 (chunk_plain a sha256 R c e) (map wk_chunk (take ?k cs)) qs"
    using assms(4) unfolding reader_at_def assms(3) by (simp add: take_map)
  ultimately show qs: "qs = take ?k ps"
    by (rule served_stored(2))
  have "length out \<le> length (concat qs)"
    using assms(4) unfolding reader_at_def by (metis le_add1 length_append)
  also have "\<dots> \<le> length (concat ps)"
    unfolding qs by (metis append_take_drop_id concat_append le_add1 length_append)
  finally show "length out \<le> length (concat ps)" .
qed

lemma nextChunk_served:
  "run_state (nextChunk a sha256 R ds rd) h = ((err, rd'), h') \<Longrightarrow> rr_cipher rd = c \<Longrightarrow> rr_envelope rd = e \<Longrightarrow>
     \<forall>d\<in>set ds. opens_always a sha256 R c e d \<Longrightarrow> err = None \<or> err = Some EndOfFile"
proof (induction ds arbitrary: rd h)
  case (Cons d ds)
  let ?key = "remoteKey R (resourceChunkKey (en_resourceKind e) (en_resourceID e) (en_generationID e) (ck_index d))"
  obtain sealed p where "readObject (rm_get R h ?key) (ck_ciphertextSize d) = Inr sealed" "openChunk a sha256 c (en_generationID e) d sealed = Inr p"
    using Cons.prems(4) unfolding opens_always_def by (meson list.set_intros(1))
  then show ?case
    using Cons.prems Cons.IH by (auto simp: readRemoteObject_def Let_def split: if_splits)
qed auto

lemma drain_served:
  assumes "run_state (drain a sha256 R ns rd) h = (((out, err), rd'), h')" "reader_at a sha256 R c e rd before ps"
    "\<forall>d\<in>set (en_chunks e). opens_always a sha256 R c e d"
  shows "err = None \<or> err = Some EndOfFile"
  using assms
proof (induction ns arbitrary: rd h out before ps)
  case (Cons n ns)
  have rd: "rr_cipher rd = c" "rr_envelope rd = e"
    using Cons.prems(2) by (simp_all add: reader_at_def)
  have drops: "\<forall>d\<in>set (drop k (en_chunks e)). opens_always a sha256 R c e d" for k
    using Cons.prems(3) by (meson in_set_dropD)
  from Cons.prems(1) show ?case
  proof (cases rule: drain_Cons)
    case (1 x)
    then have "run_state (nextChunk a sha256 R (drop (rr_index rd) (en_chunks e)) rd) h = ((Some x, rd'), h')"
      using rd by (auto simp: readResource_def split: if_splits prod.splits option.splits)
    from nextChunk_served [OF this rd drops] show ?thesis
      using 1(2) by simp
  next
    case (2 d rd1 h1 rest)
    then obtain ps1 where "reader_at a sha256 R c e rd1 (before @ d) ps1"
      using readResource_delivers(1) [OF 2(1) Cons.prems(2)] by blast
    from Cons.IH [OF 2(2) this Cons.prems(3)] show ?thesis .
  qed
qed simp

text \<open>
  A backup restores to what was written. When a sequence of writes and closing the writer succeed, the
  completion of the generation opens, its envelope lists the written chunks, and the storage answers every
  request for a chunk with the file that was written, then reading with any non-empty buffers ends after at
  most one read per byte and one more, and it has delivered exactly the bytes that were written.
\<close>

lemma restore_roundtrip:
  assumes "aead_ok a" "newWorkWriter (Some c) gen root random files = Inr w0"
    and "write_all a sha256 fault inputs w0 = Some w1" "writer_close a sha256 fault w1 = (None, w2)" "writer_chunks w2 = Inr cs"
    and "run_state (openResource j sha256 hkdf R master cm) h = (Inr rd, h1)" "newResourceCipher hkdf master (co_resourceID cm) = Inr c"
    and "en_chunks (rr_envelope rd) = map wk_chunk cs" "en_generationID (rr_envelope rd) = gen"
    and "serves R (ww_files w2) (rr_envelope rd) cs"
    and "list_all (\<lambda>n. 0 < n) ns" "length (concat inputs) < length ns"
  shows "\<exists>rd' h2. run_state (drain a sha256 R ns rd) h1 = (((concat inputs, Some EndOfFile), rd'), h2)"
proof -
  let ?e = "rr_envelope rd"
  obtain ps where ps: "list_all2 (stored a sha256 c gen (ww_files w2)) cs ps" "concat ps = concat inputs"
    using backup_roundtrip [OF assms(1-4)] assms(5) by auto
  note served = served_stored [OF assms(10), unfolded assms(9), OF ps(1)]
  obtain out err rd' h2 where d: "run_state (drain a sha256 R ns rd) h1 = (((out, err), rd'), h2)"
    by (metis prod.exhaust)
  have rd: "rd = \<lparr>rr_cipher = c, rr_envelope = ?e, rr_index = 0, rr_current = [], rr_offset = 0\<rparr>"
    using assms(6,7) by (auto elim!: openResource_Inr)
  note at0 = opened_reader_at [of a sha256 R c ?e, folded rd]
  obtain qs where at: "reader_at a sha256 R c ?e rd' out qs"
    and eof: "err = Some EndOfFile \<longrightarrow> rr_index rd' = length (en_chunks ?e) \<and> rr_current rd' = []"
    and more: "err = None \<longrightarrow> length ns \<le> length out"
    using drain_delivers [OF d at0] assms(11) by auto
  have "qs = take (rr_index rd') ps" "length out \<le> length (concat inputs)"
    using served_prefix [OF assms(10) _ assms(8) at, of ps] ps assms(9) by simp_all
  have "err = Some EndOfFile"
    using drain_served [OF d at0] served(1) more \<open>length out \<le> _\<close> assms(8,12) by auto
  then have "out = concat ps"
    using at eof \<open>qs = _\<close> list_all2_lengthD [OF ps(1)] unfolding reader_at_def assms(8) by simp
  then show ?thesis
    using ps(2) d \<open>err = Some EndOfFile\<close> by auto
qed

section \<open>Witnesses\<close>

text \<open>A storage that holds the envelope and the chunk whatever was called before.\<close>

definition served_object :: "bytes \<Rightarrow> response" where
  "served_object content = \<lparr>rs_body = [Data content], rs_size = int (length content), rs_closeOk = True\<rparr>"

definition static_remote :: remote where
  "static_remote = \<lparr>rm_prefix = [], rm_put = (\<lambda>_ _ _ _ _. False),
     rm_get = (\<lambda>_ key. if key = ''resources/redis/r/generations/g/envelope.json'' then Some (served_object [123])
       else if key = ''resources/redis/r/generations/g/chunk-00000000.pdx'' then Some (served_object (fst sample_sealed_chunk)) else None),
     rm_list = (\<lambda>_ _ _. None), rm_delete = (\<lambda>_ _. False)\<rparr>"

definition sample_reader :: resource_reader where
  "sample_reader = \<lparr>rr_cipher = sample_cipher, rr_envelope = sample_envelope, rr_index = 0, rr_current = [], rr_offset = 0\<rparr>"

definition sample_open :: "(backup_error + resource_reader) \<times> remote_history" where
  "sample_open = run_state (openResource sample_codec sample_sha256 sample_hkdf static_remote (replicate 32 1) sample_completion) []"

lemma sample_reader_opened:
  "run_state (openResource sample_codec sample_sha256 sample_hkdf static_remote (replicate 32 1) sample_completion) [] =
     (Inr sample_reader, snd sample_open)"
proof -
  have "fst sample_open = Inr sample_reader"
    by code_simp
  then show ?thesis
    unfolding sample_open_def by (metis prod.collapse)
qed

definition sample_drain :: "((bytes \<times> read_error option) \<times> resource_reader) \<times> remote_history" where
  "sample_drain = run_state (drain sample_aead sample_sha256 static_remote [1, 5, 1] sample_reader) (snd sample_open)"

lemma sample_drained:
  "run_state (drain sample_aead sample_sha256 static_remote [1, 5, 1] sample_reader) (snd sample_open)
     = ((([1, 2], Some EndOfFile), snd (fst sample_drain)), snd sample_drain)"
proof -
  have "fst (fst sample_drain) = ([1, 2], Some EndOfFile)"
    by code_simp
  then show ?thesis
    unfolding sample_drain_def by (metis prod.collapse)
qed

theorem restore_is_exact_witness:
  "\<exists>ps. list_all2 (chunk_plain sample_aead sample_sha256 static_remote sample_cipher sample_envelope) (en_chunks sample_envelope) ps
     \<and> concat ps = [1, 2]"
  using restore_is_exact [OF sample_reader_opened sample_drained] by (auto simp: sample_reader_def)

end
