(* ===== verification/Backup_Build.thy ===== *)
theory Backup_Build
  imports Backup_Restore Go_Time
begin

text \<open>
  Package \<^verbatim>\<open>backup\<close>, building a generation (\<^verbatim>\<open>BuildResource\<close> of \<^verbatim>\<open>resource_format.go\<close>): the plaintext is copied into
  a work directory as sealed chunks, the attachments are hashed, and the envelope and the completion marker
  are encoded. The plaintext source is the list of what its reads deliver; \<open>probe\<close> says what the operating
  system answers for the path of an attachment.
\<close>

section \<open>Model\<close>

record build_config =
  bc_master :: bytes
  bc_resourceKind :: string
  bc_resourceID :: string
  bc_generationID :: string
  bc_workRoot :: string
  bc_createdAt :: instant
  bc_random :: bytes
  bc_attachmentPaths :: "string list"

record attachment_file =
  af_lstatRegular :: bool
  af_openOk :: bool
  af_statSame :: bool
  af_size :: int
  af_body :: "body_event list"
  af_closeOk :: bool

text \<open>What can go wrong with the work directory, and whether the files of a failed build can be removed.\<close>

record work_root =
  wr_mkdirAll :: bool
  wr_mkdir :: bool
  wr_removeAll :: bool
  wr_fault :: "nat \<Rightarrow> file_fault"

definition unixMilli :: "instant \<Rightarrow> int" where
  "unixMilli t = (t - days_before_year 1970 * 86400000000000) div 1000000"

definition copyBuffer :: nat where "copyBuffer = 32768"

text \<open>\<^verbatim>\<open>io.Copy\<close> into the writer: the count, the error and the writer.\<close>

function copyWork ::
  "aead \<Rightarrow> hash_fn \<Rightarrow> (nat \<Rightarrow> file_fault) \<Rightarrow> body_event list \<Rightarrow> work_writer \<Rightarrow> nat \<Rightarrow> (nat \<times> backup_error option) \<times> work_writer" where
  "copyWork a sha256 fault source w written =
     (case body_read copyBuffer source of
        (d, err, rest) \<Rightarrow>
          (case (if d = [] then ((0, None), w) else writer_write a sha256 fault d w) of
             ((n, Some e), w) \<Rightarrow> ((written + n, Some (ChunkFailed e)), w)
           | ((n, None), w) \<Rightarrow>
               if n \<noteq> length d then ((written + n, Some ShortWrite), w)
               else (case err of
                 Some EndOfFile \<Rightarrow> ((written + n, None), w)
               | Some (ReadFailed e) \<Rightarrow> ((written + n, Some e), w)
               | None \<Rightarrow> copyWork a sha256 fault rest w (written + n))))"
  by pat_completeness auto

lemma body_read_shrinks: "0 < n \<Longrightarrow> body_read n b = (d, None, rest) \<Longrightarrow> body_weight rest < body_weight b"
  by (cases "(n, b)" rule: body_read.cases) (auto split: if_splits)

termination copyWork
  by (relation "measure (\<lambda>(a, sha256, fault, source, w, written). body_weight source)")
    (auto simp: copyBuffer_def dest!: body_read_shrinks [OF _ sym, rotated])

declare copyWork.simps [simp del]

text \<open>\<^verbatim>\<open>io.Copy\<close> into a hash: the bytes, or \<open>None\<close> when a read fails.\<close>

fun read_all :: "body_event list \<Rightarrow> bytes option" where
  "read_all [] = Some []"
| "read_all (Fail # es) = None"
| "read_all (Data d # es) = map_option (append d) (read_all es)"

fun sumRemote :: "int \<Rightarrow> work_chunk list \<Rightarrow> int option" where
  "sumRemote acc [] = Some acc"
| "sumRemote acc (c # cs) =
     (if ck_ciphertextSize (wk_chunk c) > maxInt64 - acc then None else sumRemote (acc + ck_ciphertextSize (wk_chunk c)) cs)"

definition inspectAttachment :: "hash_fn \<Rightarrow> (string \<Rightarrow> attachment_file) \<Rightarrow> int \<Rightarrow> string \<Rightarrow> (backup_error + attachment)" where
  "inspectAttachment sha256 probe index path =
     (let f = probe path
      in if \<not> is_abs path \<or> path_clean path \<noteq> path \<or> path = ''/'' then Inl AttachmentInvalid
         else if \<not> af_lstatRegular f then Inl AttachmentInvalid
         else if \<not> af_openOk f then Inl FileMissing
         else if \<not> af_statSame f \<or> af_size f \<le> 0 then Inl AttachmentInvalid
         else case read_all (af_body f) of
           None \<Rightarrow> Inl AttachmentSizeDiffers
         | Some content \<Rightarrow>
             if \<not> af_closeOk f \<or> int (length content) \<noteq> af_size f then Inl AttachmentSizeDiffers
             else Inr \<lparr>am_index = index, am_size = af_size f, am_sha = hex_encode (sha256 content)\<rparr>)"

fun inspectAttachments ::
  "hash_fn \<Rightarrow> (string \<Rightarrow> attachment_file) \<Rightarrow> int \<Rightarrow> int \<Rightarrow> bytes \<Rightarrow> string list \<Rightarrow> backup_error + (attachment \<times> string) list \<times> int \<times> bytes" where
  "inspectAttachments sha256 probe index acc hashed [] = Inr ([], acc, hashed)"
| "inspectAttachments sha256 probe index acc hashed (path # paths) =
     (case inspectAttachment sha256 probe index path of
        Inl err \<Rightarrow> Inl err
      | Inr m \<Rightarrow>
          if am_size m > maxInt64 - acc then Inl RemoteSizeOverflow
          else (case inspectAttachments sha256 probe (index + 1) (acc + am_size m) (hashed @ attachmentCommitment m) paths of
            Inl err \<Rightarrow> Inl err
          | Inr (ms, r) \<Rightarrow> Inr ((m, path) # ms, r)))"

definition buildResourceAttachments ::
  "hash_fn \<Rightarrow> (string \<Rightarrow> attachment_file) \<Rightarrow> string list \<Rightarrow> backup_error + (attachment \<times> string) list \<times> int \<times> string" where
  "buildResourceAttachments sha256 probe paths =
     (if paths = [] then Inr ([], 0, [])
      else case inspectAttachments sha256 probe 0 0 attachmentDomain paths of
        Inl err \<Rightarrow> Inl err
      | Inr (ms, acc, hashed) \<Rightarrow> Inr (ms, acc, hex_encode (sha256 hashed)))"

text \<open>What the writer has written, once it is closed.\<close>

definition sealPlaintext ::
  "aead \<Rightarrow> hash_fn \<Rightarrow> (nat \<Rightarrow> file_fault) \<Rightarrow> body_event list \<Rightarrow> work_writer \<Rightarrow> (backup_error + int \<times> work_chunk list) \<times> work_writer" where
  "sealPlaintext a sha256 fault source w =
     (case copyWork a sha256 fault source w 0 of
        ((written, copyErr), w) \<Rightarrow>
          (case writer_close a sha256 fault w of
             (closeErr, w) \<Rightarrow>
               (case err_then copyErr (map_option ChunkFailed closeErr) of
                  Some err \<Rightarrow> (Inl err, w)
                | None \<Rightarrow>
                    if written = 0 then (Inl PlaintextEmpty, w)
                    else (case writer_chunks w of
                      Inl err \<Rightarrow> (Inl (ChunkFailed err), w)
                    | Inr cs \<Rightarrow> (Inr (int written, cs), w)))))"

definition encodeResource ::
  "codec \<Rightarrow> hash_fn \<Rightarrow> build_config \<Rightarrow> int \<Rightarrow> work_chunk list \<Rightarrow> (attachment \<times> string) list \<Rightarrow> int \<Rightarrow> string \<Rightarrow> int \<Rightarrow> backup_error + resource_build" where
  "encodeResource j sha256 config written cs ms attachmentSize attachmentRoot remoteSize =
     (let e = \<lparr>en_formatVersion = controlFormatVersion, en_resourceKind = bc_resourceKind config, en_resourceID = bc_resourceID config,
            en_generationID = bc_generationID config, en_createdAt = unixMilli (bc_createdAt config), en_plaintextSize = written,
            en_chunks = map wk_chunk cs, en_attachmentCount = int (length ms), en_attachmentSize = attachmentSize,
            en_attachmentRoot = attachmentRoot\<rparr>
      in case json_envelope j e of
           None \<Rightarrow> Inl EnvelopeSize
         | Some envelopeBytes \<Rightarrow>
             if length envelopeBytes > maximumResourceEnvelopeSize then Inl EnvelopeSize
             else if int (length envelopeBytes) > maxInt64 - remoteSize then Inl RemoteSizeOverflow
             else let c = \<lparr>co_formatVersion = controlFormatVersion, co_resourceKind = bc_resourceKind config,
                    co_resourceID = bc_resourceID config, co_generationID = bc_generationID config,
                    co_envelopeSHA = hex_encode (sha256 envelopeBytes), co_plaintextSize = written,
                    co_remoteSize = remoteSize + int (length envelopeBytes), co_completedAt = unixMilli (bc_createdAt config)\<rparr>
             in case json_completion j c of
                  None \<Rightarrow> Inl CompletionJSON
                | Some completionBytes \<Rightarrow>
                    Inr \<lparr>rb_envelope = e, rb_envelopeBytes = envelopeBytes, rb_completion = c, rb_completionBytes = completionBytes,
                      rb_chunks = cs, rb_attachments = ms\<rparr>)"

definition describeResource ::
  "codec \<Rightarrow> hash_fn \<Rightarrow> (string \<Rightarrow> attachment_file) \<Rightarrow> build_config \<Rightarrow> int \<Rightarrow> work_chunk list \<Rightarrow> backup_error + resource_build" where
  "describeResource j sha256 probe config written cs =
     (case sumRemote 0 cs of
        None \<Rightarrow> Inl RemoteSizeOverflow
      | Some remoteSize \<Rightarrow>
          (case buildResourceAttachments sha256 probe (bc_attachmentPaths config) of
             Inl err \<Rightarrow> Inl err
           | Inr (ms, attachmentSize, attachmentRoot) \<Rightarrow>
               if attachmentSize > maxInt64 - remoteSize then Inl RemoteSizeOverflow
               else encodeResource j sha256 config written cs ms attachmentSize attachmentRoot (remoteSize + attachmentSize)))"

definition workDirectory :: "build_config \<Rightarrow> string" where
  "workDirectory config = path_join (bc_workRoot config) (''resource-'' @ bc_resourceKind config @ ''-'' @ bc_generationID config)"

definition cleanup :: "work_root \<Rightarrow> string \<Rightarrow> (string \<times> bytes) list \<Rightarrow> (string \<times> bytes) list" where
  "cleanup wr directory files = (if wr_removeAll wr then filter (\<lambda>(path, _). \<not> prefix (directory @ ''/'') path) files else files)"

definition buildResource ::
  "codec \<Rightarrow> aead \<Rightarrow> hash_fn \<Rightarrow> hkdf_fn \<Rightarrow> (string \<Rightarrow> attachment_file) \<Rightarrow> work_root \<Rightarrow> build_config \<Rightarrow> body_event list
     \<Rightarrow> (string \<times> bytes) list \<Rightarrow> (backup_error + resource_build) \<times> (string \<times> bytes) list" where
  "buildResource j a sha256 hkdf probe wr config source files =
     (if \<not> validBackupResourceKind (bc_resourceKind config) \<or> \<not> validControlIdentifier (bc_resourceID config)
         \<or> \<not> validControlIdentifier (bc_generationID config) \<or> \<not> safeBackupRoot (bc_workRoot config) \<or> bc_createdAt config = 0
      then (Inl BuildIncomplete, files)
      else if \<not> wr_mkdirAll wr \<or> \<not> wr_mkdir wr then (Inl WorkDirectory, files)
      else let directory = workDirectory config
      in case newResourceCipher hkdf (bc_master config) (bc_resourceID config) of
           Inl err \<Rightarrow> (Inl (ChunkFailed err), cleanup wr directory files)
         | Inr c \<Rightarrow>
             (case newWorkWriter (Some c) (bc_generationID config) directory (bc_random config) files of
                Inl err \<Rightarrow> (Inl (ChunkFailed err), cleanup wr directory files)
              | Inr w \<Rightarrow>
                  (case sealPlaintext a sha256 (wr_fault wr) source w of
                     (Inl err, w) \<Rightarrow> (Inl err, cleanup wr directory (ww_files w))
                   | (Inr (written, cs), w) \<Rightarrow>
                       (case describeResource j sha256 probe config written cs of
                          Inl err \<Rightarrow> (Inl err, cleanup wr directory (ww_files w))
                        | Inr b \<Rightarrow> (Inr b, ww_files w)))))"

section \<open>The plaintext in the chunks\<close>

lemma body_read_content:
  assumes "body_read n b = (d, err, rest)"
  shows "err = None \<Longrightarrow> read_all b = map_option (append d) (read_all rest)"
    and "err = Some EndOfFile \<Longrightarrow> d = [] \<and> b = []"
proof -
  show "read_all b = map_option (append d) (read_all rest)" if "err = None"
    using assms that
    by (cases "(n, b)" rule: body_read.cases; cases "read_all rest")
      (auto split: if_splits simp: option.map_comp comp_def append.assoc [symmetric] simp del: append.assoc)
  show "d = [] \<and> b = []" if "err = Some EndOfFile"
    using assms that by (cases "(n, b)" rule: body_read.cases) (auto split: if_splits)
qed

lemma copyWork_copies:
  assumes "copyWork a sha256 fault source w k = ((n, None), w')"
  shows "\<exists>inputs. write_all a sha256 fault inputs w = Some w' \<and> read_all source = Some (concat inputs) \<and> n = k + length (concat inputs)"
  using assms
proof (induction a sha256 fault source w k rule: copyWork.induct)
  case (1 a sha256 fault source w k)
  obtain d err rest where b: "body_read copyBuffer source = (d, err, rest)"
    by (cases "body_read copyBuffer source") auto
  define step where "step = (if d = [] then ((0, None), w) else writer_write a sha256 fault d w)"
  obtain m e1 w1 where s: "step = ((m, e1), w1)"
    by (metis prod.exhaust)
  have run: "e1 = None" "m = length d"
    "(case err of Some EndOfFile \<Rightarrow> ((k + m, None), w1) | Some (ReadFailed e) \<Rightarrow> ((k + m, Some e), w1)
      | None \<Rightarrow> copyWork a sha256 fault rest w1 (k + m)) = ((n, None), w')"
    using "1.prems" unfolding copyWork.simps [of a sha256 fault source w k] b prod.case step_def [symmetric] s
    by (auto split: option.splits if_splits)
  have one: "write_all a sha256 fault (if d = [] then [] else [d]) w = Some w1"
    using s run(1) unfolding step_def by (auto split: if_splits)
  show ?case
  proof (cases err)
    case None
    then have "copyWork a sha256 fault rest w1 (k + m) = ((n, None), w')"
      using run(3) by simp
    then obtain inputs where r: "write_all a sha256 fault inputs w1 = Some w'" "read_all rest = Some (concat inputs)"
      "n = (k + m) + length (concat inputs)"
      using "1.IH" [OF b [symmetric] refl s [unfolded step_def, symmetric] refl] run None by auto
    have "write_all a sha256 fault ((if d = [] then [] else [d]) @ inputs) w = Some w'"
      using one r(1) by (auto split: if_splits prod.splits option.splits)
    then show ?thesis
      using r run(2) body_read_content(1) [OF b None]
      by (intro exI [of _ "(if d = [] then [] else [d]) @ inputs"]) simp
  next
    case (Some x)
    then have "x = EndOfFile" "n = k + m" "w' = w1"
      using run(3) by (auto split: read_error.splits)
    then show ?thesis
      using one run(2) body_read_content(2) [OF b] Some by (intro exI [of _ "[]"]) simp
  qed
qed

lemma sealPlaintext_Inr:
  assumes "sealPlaintext a sha256 fault source w = (Inr (written, cs), w2)"
  obtains inputs w1 where "write_all a sha256 fault inputs w = Some w1" "writer_close a sha256 fault w1 = (None, w2)"
    "writer_chunks w2 = Inr cs" "read_all source = Some (concat inputs)" "written = int (length (concat inputs))" "concat inputs \<noteq> []"
proof -
  obtain n err w1 where c: "copyWork a sha256 fault source w 0 = ((n, err), w1)"
    by (metis prod.exhaust)
  obtain err2 w2' where d: "writer_close a sha256 fault w1 = (err2, w2')"
    by (metis prod.exhaust)
  have f: "err = None" "err2 = None" "w2' = w2" "writer_chunks w2 = Inr cs" "written = int n" "n \<noteq> 0"
    using assms c d by (auto simp: sealPlaintext_def err_then_def split: option.splits if_splits sum.splits)
  then show thesis
    using copyWork_copies [of a sha256 fault source w 0 n w1] c d that by fastforce
qed

section \<open>What is built is accepted\<close>

text \<open>
  What the code relies on: a digest of SHA-256 has 32 bytes, and what the JSON encoder writes for values whose
  texts are identifiers and hexadecimal digits, the decoder reads back; a completion marker, which has eight
  short fields, is encoded in at most 64 KiB.
\<close>

definition sha_ok :: "hash_fn \<Rightarrow> bool" where
  "sha_ok sha256 \<longleftrightarrow> (\<forall>x. length (sha256 x) = 32)"

definition plain_identity :: "string \<Rightarrow> string \<Rightarrow> string \<Rightarrow> bool" where
  "plain_identity kind rid gen \<longleftrightarrow> validBackupResourceKind kind \<and> validControlIdentifier rid \<and> validControlIdentifier gen"

definition codec_ok :: "codec \<Rightarrow> bool" where
  "codec_ok j \<longleftrightarrow>
     (\<forall>e v. plain_identity (en_resourceKind e) (en_resourceID e) (en_generationID e)
        \<and> (\<forall>d\<in>set (en_chunks e). list_all hex_lower (ck_sha d)) \<and> list_all hex_lower (en_attachmentRoot e)
        \<and> json_envelope j e = Some v \<longrightarrow> v \<noteq> [] \<and> parse_envelope j v = Some e)
     \<and> (\<forall>c v. plain_identity (co_resourceKind c) (co_resourceID c) (co_generationID c) \<and> list_all hex_lower (co_envelopeSHA c)
        \<and> json_completion j c = Some v \<longrightarrow> v \<noteq> [] \<and> length v \<le> 65536 \<and> parse_completion j v = Some c)"

lemma codec_okD:
  assumes "codec_ok j"
  shows "plain_identity (en_resourceKind e) (en_resourceID e) (en_generationID e) \<Longrightarrow> \<forall>d\<in>set (en_chunks e). list_all hex_lower (ck_sha d) \<Longrightarrow>
      list_all hex_lower (en_attachmentRoot e) \<Longrightarrow> json_envelope j e = Some v \<Longrightarrow> v \<noteq> [] \<and> parse_envelope j v = Some e"
    and "plain_identity (co_resourceKind c) (co_resourceID c) (co_generationID c) \<Longrightarrow> list_all hex_lower (co_envelopeSHA c) \<Longrightarrow>
      json_completion j c = Some v \<Longrightarrow> v \<noteq> [] \<and> length v \<le> 65536 \<and> parse_completion j v = Some c"
  using assms unfolding codec_ok_def by blast+

lemma hex_lower_not_upper: "hex_lower c \<Longrightarrow> \<not> is_upper c"
  by (auto simp: hex_lower_def hex_digits_def is_upper_def)

lemma hex_sha:
  assumes "sha_ok sha256"
  shows "validSHA256 (hex_encode (sha256 x))" "length (hex_encode (sha256 x)) = 64" "no_upper (hex_encode (sha256 x))"
proof -
  show n: "no_upper (hex_encode (sha256 x))"
    using hex_encode_lower [of "sha256 x"] hex_lower_not_upper by (auto simp: no_upper_def list_all_iff)
  show l: "length (hex_encode (sha256 x)) = 64"
    using assms by (simp add: sha_ok_def)
  show "validSHA256 (hex_encode (sha256 x))"
    using n l by (simp add: validSHA256_def hex_decode_encode)
qed

definition descriptor_ok :: "hash_fn \<Rightarrow> chunk \<Rightarrow> bool" where
  "descriptor_ok sha256 d \<longleftrightarrow>
     0 \<le> ck_plaintextSize d \<and> ck_plaintextSize d \<le> int defaultChunkSize \<and> 0 < ck_ciphertextSize d
     \<and> (\<exists>sealed. ck_sha d = hex_encode (sha256 sealed))"

lemma stored_descriptor:
  assumes "stored a sha256 c gen files x p"
  shows "descriptor_ok sha256 (wk_chunk x)" and "ck_plaintextSize (wk_chunk x) = int (length p)"
proof -
  obtain sealed where "openChunk a sha256 c gen (wk_chunk x) sealed = Inr p"
    using assms by (auto simp: stored_def)
  then have o: "ck_plaintextSize (wk_chunk x) = int (length p)" "length p \<le> defaultChunkSize"
    "ck_ciphertextSize (wk_chunk x) = int (length sealed)" "ck_sha (wk_chunk x) = hex_encode (sha256 sealed)"
    and b: "boxOpen a (rc_key c) sealed (chunkAdditionalData (rc_resourceID c) gen (nat (ck_index (wk_chunk x))) (length p)) = Inr p"
    by (simp_all add: openChunk_Inr)
  have "0 < length sealed"
    using b by (auto simp: boxOpen_def Let_def formatSize_def split: if_splits)
  then show "descriptor_ok sha256 (wk_chunk x)"
    using o by (auto simp: descriptor_ok_def)
  show "ck_plaintextSize (wk_chunk x) = int (length p)"
    by (rule o(1))
qed

lemma checkChunks_ok:
  assumes "sha_ok sha256" "\<forall>d\<in>set ds. descriptor_ok sha256 d" "map ck_index ds = map (\<lambda>i. index + int i) [0..<length ds]"
    and "acc + sum_list (map ck_plaintextSize ds) \<le> maxInt64"
  shows "checkChunks index acc ds = Inr (acc + sum_list (map ck_plaintextSize ds))"
  using assms(2-)
proof (induction ds arbitrary: index acc)
  case (Cons d ds)
  have "[0..<length (d # ds)] = 0 # map Suc [0..<length ds]"
    by (simp add: map_Suc_upt upt_conv_Cons del: upt_Suc)
  then have idx: "ck_index d = index" "map ck_index ds = map (\<lambda>i. (index + 1) + int i) [0..<length ds]"
    using Cons.prems(2) by (simp_all add: comp_def algebra_simps)
  obtain sealed where d: "0 \<le> ck_plaintextSize d" "ck_plaintextSize d \<le> int defaultChunkSize" "0 < ck_ciphertextSize d"
    "ck_sha d = hex_encode (sha256 sealed)"
    using Cons.prems(1) by (auto simp: descriptor_ok_def)
  have "0 \<le> sum_list (map ck_plaintextSize ds)"
    using Cons.prems(1) by (intro sum_list_nonneg) (auto simp: descriptor_ok_def)
  then have "ck_plaintextSize d \<le> maxInt64 - acc" "acc + ck_plaintextSize d + sum_list (map ck_plaintextSize ds) \<le> maxInt64"
    using Cons.prems(3) by simp_all
  moreover have "checkChunks (index + 1) (acc + ck_plaintextSize d) ds = Inr (acc + ck_plaintextSize d + sum_list (map ck_plaintextSize ds))"
    using Cons.IH [of "index + 1" "acc + ck_plaintextSize d"] idx(2) Cons.prems(1) calculation(2) by simp
  ultimately show ?case
    using d idx(1) hex_sha(2,3) [OF assms(1), of sealed] by (simp add: hex_decode_encode)
qed simp

lemma inspect_check:
  assumes "sha_ok sha256" "inspectAttachments sha256 probe index acc hashed paths = Inr (ms, acc', hashed')"
  shows "checkAttachments index acc hashed (map fst ms) = Some (acc', hashed') \<and> length ms = length paths
    \<and> acc \<le> acc' \<and> (paths \<noteq> [] \<longrightarrow> acc < acc')"
  using assms(2)
proof (induction paths arbitrary: index acc hashed ms)
  case (Cons path paths)
  obtain m ms1 where m: "inspectAttachment sha256 probe index path = Inr m" "\<not> am_size m > maxInt64 - acc" "ms = (m, path) # ms1"
    "inspectAttachments sha256 probe (index + 1) (acc + am_size m) (hashed @ attachmentCommitment m) paths = Inr (ms1, acc', hashed')"
    using Cons.prems by (auto split: sum.splits if_splits)
  obtain content where "am_index m = index" "0 < am_size m" "am_sha m = hex_encode (sha256 content)"
    using m(1) by (auto simp: inspectAttachment_def Let_def split: if_splits option.splits)
  then show ?case
    using Cons.IH [OF m(4)] m(2,3) hex_sha(1) [OF assms(1), of content] by auto
qed simp

lemma built_attachments:
  assumes "sha_ok sha256" "buildResourceAttachments sha256 probe paths = Inr (ms, sz, root)"
  shows "(ms = [] \<and> sz = 0 \<and> root = []) \<or> (ms \<noteq> [] \<and> 0 < sz \<and> validSHA256 root \<and>
    (\<exists>hashed. checkAttachments 0 0 attachmentDomain (map fst ms) = Some (sz, hashed) \<and> root = hex_encode (sha256 hashed)))"
proof (cases "paths = []")
  case True
  then show ?thesis
    using assms(2) by (simp add: buildResourceAttachments_def)
next
  case False
  then obtain hashed where h: "inspectAttachments sha256 probe 0 0 attachmentDomain paths = Inr (ms, sz, hashed)" "root = hex_encode (sha256 hashed)"
    using assms(2) by (auto simp: buildResourceAttachments_def split: sum.splits)
  then show ?thesis
    using inspect_check [OF assms(1) h(1)] hex_sha(1) [OF assms(1), of hashed] False by (auto simp: h(2))
qed

lemma sumRemote_more:
  "sumRemote acc cs = Some r \<Longrightarrow> \<forall>x\<in>set cs. 0 < ck_ciphertextSize (wk_chunk x) \<Longrightarrow> acc \<le> r \<and> (cs \<noteq> [] \<longrightarrow> acc < r)"
  by (induction acc cs rule: sumRemote.induct) (fastforce split: if_splits)+

lemma buildResource_Inr:
  assumes "buildResource j a sha256 hkdf probe wr config source files = (Inr b, files')"
  obtains c w0 written cs w2 where
    "plain_identity (bc_resourceKind config) (bc_resourceID config) (bc_generationID config)"
    "newResourceCipher hkdf (bc_master config) (bc_resourceID config) = Inr c"
    "newWorkWriter (Some c) (bc_generationID config) (workDirectory config) (bc_random config) files = Inr w0"
    "sealPlaintext a sha256 (wr_fault wr) source w0 = (Inr (written, cs), w2)" "files' = ww_files w2"
    "describeResource j sha256 probe config written cs = Inr b"
  using assms unfolding buildResource_def
  by (auto simp: Let_def plain_identity_def split: if_splits sum.splits prod.splits)

lemma describeResource_Inr:
  assumes "describeResource j sha256 probe config written cs = Inr b"
  obtains remoteSize ms sz root where "sumRemote 0 cs = Some remoteSize"
    "buildResourceAttachments sha256 probe (bc_attachmentPaths config) = Inr (ms, sz, root)"
    "encodeResource j sha256 config written cs ms sz root (remoteSize + sz) = Inr b"
  using assms unfolding describeResource_def by (auto split: option.splits sum.splits prod.splits if_splits)

lemma encodeResource_Inr:
  assumes "encodeResource j sha256 config written cs ms sz root remoteSize = Inr b"
  shows "rb_envelope b = \<lparr>en_formatVersion = controlFormatVersion, en_resourceKind = bc_resourceKind config, en_resourceID = bc_resourceID config,
            en_generationID = bc_generationID config, en_createdAt = unixMilli (bc_createdAt config), en_plaintextSize = written,
            en_chunks = map wk_chunk cs, en_attachmentCount = int (length ms), en_attachmentSize = sz, en_attachmentRoot = root\<rparr>"
    and "json_envelope j (rb_envelope b) = Some (rb_envelopeBytes b)" "length (rb_envelopeBytes b) \<le> maximumResourceEnvelopeSize"
    and "rb_completion b = \<lparr>co_formatVersion = controlFormatVersion, co_resourceKind = bc_resourceKind config,
            co_resourceID = bc_resourceID config, co_generationID = bc_generationID config,
            co_envelopeSHA = hex_encode (sha256 (rb_envelopeBytes b)), co_plaintextSize = written,
            co_remoteSize = remoteSize + int (length (rb_envelopeBytes b)), co_completedAt = unixMilli (bc_createdAt config)\<rparr>"
    and "json_completion j (rb_completion b) = Some (rb_completionBytes b)" "rb_chunks b = cs" "rb_attachments b = ms"
  using assms unfolding encodeResource_def Let_def by (auto split: option.splits if_splits)

text \<open>The chunks of a build, their plaintexts, and what the envelope says of them.\<close>

lemma built_chunks:
  assumes "aead_ok a" "buildResource j a sha256 hkdf probe wr config source files = (Inr b, files')"
  obtains c inputs w0 w1 w2 ps where
    "newResourceCipher hkdf (bc_master config) (bc_resourceID config) = Inr c"
    "newWorkWriter (Some c) (bc_generationID config) (workDirectory config) (bc_random config) files = Inr w0"
    "write_all a sha256 (wr_fault wr) inputs w0 = Some w1" "writer_close a sha256 (wr_fault wr) w1 = (None, w2)"
    "writer_chunks w2 = Inr (rb_chunks b)" "files' = ww_files w2" "read_all source = Some (concat inputs)"
    "en_plaintextSize (rb_envelope b) = int (length (concat inputs))" "concat inputs \<noteq> []" "rb_chunks b \<noteq> []"
    "list_all2 (stored a sha256 c (bc_generationID config) files') (rb_chunks b) ps" "concat ps = concat inputs"
    "map ck_index (map wk_chunk (rb_chunks b)) = map int [0..<length (rb_chunks b)]"
proof -
  obtain c w0 written cs w2 where b: "newResourceCipher hkdf (bc_master config) (bc_resourceID config) = Inr c"
    "newWorkWriter (Some c) (bc_generationID config) (workDirectory config) (bc_random config) files = Inr w0"
    "sealPlaintext a sha256 (wr_fault wr) source w0 = (Inr (written, cs), w2)" "files' = ww_files w2"
    "describeResource j sha256 probe config written cs = Inr b"
    using assms(2) by (rule buildResource_Inr)
  obtain remoteSize ms sz root where "encodeResource j sha256 config written cs ms sz root (remoteSize + sz) = Inr b"
    using b(5) by (rule describeResource_Inr)
  note enc = encodeResource_Inr [OF this]
  obtain inputs w1 where w: "write_all a sha256 (wr_fault wr) inputs w0 = Some w1" "writer_close a sha256 (wr_fault wr) w1 = (None, w2)"
    "writer_chunks w2 = Inr cs" "read_all source = Some (concat inputs)" "written = int (length (concat inputs))" "concat inputs \<noteq> []"
    using b(3) by (rule sealPlaintext_Inr)
  obtain ps where ps: "cs \<noteq> []" "list_all2 (stored a sha256 c (bc_generationID config) (ww_files w2)) cs ps" "concat ps = concat inputs"
    "map (ck_index \<circ> wk_chunk) cs = map int [0..<length cs]"
    using backup_roundtrip [OF assms(1) b(2) w(1,2)] w(3) by auto
  show thesis
    by (rule that [of c w0 inputs w1 w2 ps]) (use enc(1,6) w ps b in simp_all)
qed

lemma built_envelope_decodes:
  assumes "aead_ok a" "sha_ok sha256" "codec_ok j" "0 < unixMilli (bc_createdAt config)"
    and "buildResource j a sha256 hkdf probe wr config source files = (Inr b, files')"
    and "read_all source = Some content" "int (length content) \<le> maxInt64"
  shows "decodeResourceEnvelope j (rb_envelopeBytes b) = Inr (rb_envelope b)"
proof -
  obtain c inputs ps where b: "read_all source = Some (concat inputs)" "en_plaintextSize (rb_envelope b) = int (length (concat inputs))"
    "concat inputs \<noteq> []" "rb_chunks b \<noteq> []" "list_all2 (stored a sha256 c (bc_generationID config) files') (rb_chunks b) ps"
    "concat ps = concat inputs" "map ck_index (map wk_chunk (rb_chunks b)) = map int [0..<length (rb_chunks b)]"
    using assms(1,5) by (rule built_chunks)
  obtain written cs ms sz root rs where d: "plain_identity (bc_resourceKind config) (bc_resourceID config) (bc_generationID config)"
    "buildResourceAttachments sha256 probe (bc_attachmentPaths config) = Inr (ms, sz, root)"
    "encodeResource j sha256 config written cs ms sz root rs = Inr b"
    using assms(5) by (elim buildResource_Inr describeResource_Inr) blast
  note enc = encodeResource_Inr [OF d(3)]
  have ds: "\<forall>x\<in>set (map wk_chunk cs). descriptor_ok sha256 x" "sum_list (map ck_plaintextSize (map wk_chunk cs)) = int (length (concat ps))"
    using b(5) unfolding enc(6) by (induction rule: list_all2_induct) (auto simp: stored_descriptor)
  have "checkChunks 0 0 (map wk_chunk cs) = Inr (int (length (concat ps)))"
    using checkChunks_ok [OF assms(2) ds(1), of 0 0] b(1,6,7) ds(2) assms(6,7) enc(6) by simp
  moreover have hexes: "\<forall>d\<in>set (map wk_chunk cs). list_all hex_lower (ck_sha d)"
    using ds(1) hex_encode_lower by (fastforce simp: descriptor_ok_def)
  moreover have "list_all hex_lower root"
    using built_attachments [OF assms(2) d(2)] hex_encode_lower by auto
  ultimately have check: "checkChunks 0 0 (en_chunks (rb_envelope b)) = Inr (en_plaintextSize (rb_envelope b))"
    and "rb_envelopeBytes b \<noteq> [] \<and> parse_envelope j (rb_envelopeBytes b) = Some (rb_envelope b)"
    using codec_okD(1) [OF assms(3) _ _ _ enc(2)] d(1) b(2,6) by (simp_all add: enc(1))
  moreover have "en_chunks (rb_envelope b) \<noteq> []" "0 < en_plaintextSize (rb_envelope b)"
    using b(2-4) enc(6) by (simp_all add: enc(1))
  ultimately show ?thesis
    using assms(4) d(1) enc(3) built_attachments [OF assms(2) d(2)]
    unfolding decodeResourceEnvelope_def plain_identity_def by (auto simp: enc(1))
qed

lemma built_completion_valid:
  assumes "aead_ok a" "sha_ok sha256" "0 < unixMilli (bc_createdAt config)"
    and "buildResource j a sha256 hkdf probe wr config source files = (Inr b, files')"
  shows "validateResourceCompletion (rb_completion b) = None"
    and "codec_ok j \<Longrightarrow> decodeResourceCompletion j (rb_completionBytes b) = Inr (rb_completion b)"
    and "co_plaintextSize (rb_completion b) = en_plaintextSize (rb_envelope b)"
    and "co_envelopeSHA (rb_completion b) = hex_encode (sha256 (rb_envelopeBytes b))"
    and "validateResourceAttachments sha256 (rb_envelope b) (map fst (rb_attachments b)) = None"
proof -
  obtain c inputs ps where b: "en_plaintextSize (rb_envelope b) = int (length (concat inputs))" "concat inputs \<noteq> []" "rb_chunks b \<noteq> []"
    "list_all2 (stored a sha256 c (bc_generationID config) files') (rb_chunks b) ps" "concat ps = concat inputs"
    using assms(1,4) by (rule built_chunks)
  obtain written cs remoteSize ms sz root where d: "plain_identity (bc_resourceKind config) (bc_resourceID config) (bc_generationID config)"
    "sumRemote 0 cs = Some remoteSize" "buildResourceAttachments sha256 probe (bc_attachmentPaths config) = Inr (ms, sz, root)"
    "encodeResource j sha256 config written cs ms sz root (remoteSize + sz) = Inr b"
    using assms(4) by (elim buildResource_Inr describeResource_Inr) blast
  note enc = encodeResource_Inr [OF d(4)] and att = built_attachments [OF assms(2) d(3)]
  have "\<forall>x\<in>set cs. 0 < ck_ciphertextSize (wk_chunk x)"
    using b(4) unfolding enc(6) by (induction rule: list_all2_induct) (auto dest!: stored_descriptor(1) simp: descriptor_ok_def)
  then have "0 < remoteSize" "0 \<le> sz" "0 < written"
    using sumRemote_more [OF d(2)] b(1-3) enc(6) att by (auto simp: enc(1))
  then show valid: "validateResourceCompletion (rb_completion b) = None"
    using assms(3) d(1) hex_sha(2,3) [OF assms(2), of "rb_envelopeBytes b"]
    unfolding validateResourceCompletion_def plain_identity_def enc(4) by (simp add: hex_decode_encode)
  show "decodeResourceCompletion j (rb_completionBytes b) = Inr (rb_completion b)" if "codec_ok j"
    using codec_okD(2) [OF that _ _ enc(5)] valid d(1) hex_encode_lower unfolding decodeResourceCompletion_def by (simp add: enc(4))
  show "co_plaintextSize (rb_completion b) = en_plaintextSize (rb_envelope b)"
    "co_envelopeSHA (rb_completion b) = hex_encode (sha256 (rb_envelopeBytes b))"
    by (simp_all add: enc(1,4))
  show "validateResourceAttachments sha256 (rb_envelope b) (map fst (rb_attachments b)) = None"
    using att unfolding validateResourceAttachments_def enc(7) by (auto simp: enc(1))
qed

lemma built_identity:
  assumes "buildResource j a sha256 hkdf probe wr config source files = (Inr b, files')"
  shows "co_resourceKind (rb_completion b) = en_resourceKind (rb_envelope b)" "co_resourceID (rb_completion b) = en_resourceID (rb_envelope b)"
    "co_generationID (rb_completion b) = en_generationID (rb_envelope b)" "en_resourceID (rb_envelope b) = bc_resourceID config"
    "en_generationID (rb_envelope b) = bc_generationID config" "en_chunks (rb_envelope b) = map wk_chunk (rb_chunks b)"
proof -
  obtain written cs remoteSize ms sz root where "encodeResource j sha256 config written cs ms sz root (remoteSize + sz) = Inr b"
    using assms by (elim buildResource_Inr describeResource_Inr) blast
  from encodeResource_Inr [OF this] show "co_resourceKind (rb_completion b) = en_resourceKind (rb_envelope b)"
    "co_resourceID (rb_completion b) = en_resourceID (rb_envelope b)"
    "co_generationID (rb_completion b) = en_generationID (rb_envelope b)" "en_resourceID (rb_envelope b) = bc_resourceID config"
    "en_generationID (rb_envelope b) = bc_generationID config" "en_chunks (rb_envelope b) = map wk_chunk (rb_chunks b)"
    by simp_all
qed

text \<open>
  \<^bold>\<open>C20.\<close> What \<^verbatim>\<open>BuildResource\<close> returns for a time after 1970 is well formed: its encoded envelope and completion marker decode to the values it
  returns, so that every rule the strict decoders check holds of them, the attachments match the envelope,
  and the marker commits the digest of the envelope. Whatever file, attachment or size fails, no build is returned.
\<close>

theorem built_generation_valid:
  assumes "aead_ok a" "sha_ok sha256" "codec_ok j" "0 < unixMilli (bc_createdAt config)"
    and "buildResource j a sha256 hkdf probe wr config source files = (Inr b, files')"
    and "read_all source = Some content" "int (length content) \<le> maxInt64"
  shows "decodeResourceEnvelope j (rb_envelopeBytes b) = Inr (rb_envelope b)
    \<and> decodeResourceCompletion j (rb_completionBytes b) = Inr (rb_completion b)
    \<and> validateResourceAttachments sha256 (rb_envelope b) (map fst (rb_attachments b)) = None
    \<and> co_envelopeSHA (rb_completion b) = hex_encode (sha256 (rb_envelopeBytes b))
    \<and> en_plaintextSize (rb_envelope b) = int (length content)"
proof -
  obtain inputs where "read_all source = Some (concat inputs)" "en_plaintextSize (rb_envelope b) = int (length (concat inputs))"
    using assms(1,5) by (rule built_chunks)
  then show ?thesis
    using built_envelope_decodes [OF assms] built_completion_valid [OF assms(1,2,4,5)] assms(3,6) by simp
qed

text \<open>
  \<^bold>\<open>C2.\<close> A backup made after 1970 restores to what was backed up. When a build succeeds, and the storage answers every request for the
  envelope and for a chunk with what was built, then the completion marker opens, and reading with any
  non-empty buffers ends after at most one read per byte and one more and has delivered exactly the bytes of
  the source: cutting into chunks, sealing, describing, opening and reassembling lose and add nothing.
\<close>

theorem backup_restores:
  assumes "aead_ok a" "sha_ok sha256" "codec_ok j" "0 < unixMilli (bc_createdAt config)"
    and "buildResource j a sha256 hkdf probe wr config source files = (Inr b, files')"
    and "read_all source = Some content" "int (length content) \<le> maxInt64"
    and "\<forall>h. readObject (rm_get R h (remoteKey R (resourceEnvelopeKey (bc_resourceKind config) (bc_resourceID config) (bc_generationID config))))
           (int maximumResourceEnvelopeSize) = Inr (rb_envelopeBytes b)"
    and "serves R files' (rb_envelope b) (rb_chunks b)"
    and "list_all (\<lambda>n. 0 < n) ns" "length content < length ns"
  shows "\<exists>rd h1 rd' h2. run_state (openResource j sha256 hkdf R (bc_master config) (rb_completion b)) h = (Inr rd, h1)
    \<and> run_state (drain a sha256 R ns rd) h1 = (((content, Some EndOfFile), rd'), h2)"
proof -
  obtain c inputs w0 w1 w2 where b: "newResourceCipher hkdf (bc_master config) (bc_resourceID config) = Inr c"
    "newWorkWriter (Some c) (bc_generationID config) (workDirectory config) (bc_random config) files = Inr w0"
    "write_all a sha256 (wr_fault wr) inputs w0 = Some w1" "writer_close a sha256 (wr_fault wr) w1 = (None, w2)"
    "writer_chunks w2 = Inr (rb_chunks b)" "files' = ww_files w2" "read_all source = Some (concat inputs)"
    using assms(1,5) by (rule built_chunks)
  note id = built_identity [OF assms(5)] and ok = built_completion_valid [OF assms(1,2,4,5)]
  have kind: "en_resourceKind (rb_envelope b) = bc_resourceKind config"
    using assms(5) by (elim buildResource_Inr describeResource_Inr) (simp add: encodeResource_Inr(1))
  let ?rd = "\<lparr>rr_cipher = c, rr_envelope = rb_envelope b, rr_index = 0, rr_current = [], rr_offset = 0\<rparr>"
  obtain h1 where h1: "run_state (openResource j sha256 hkdf R (bc_master config) (rb_completion b)) h = (Inr ?rd, h1)"
    using assms(8) id ok built_envelope_decodes [OF assms(1-7)] b(1) kind
    by (simp add: openResource_def readRemoteObject_def)
  have "\<exists>rd' h2. run_state (drain a sha256 R ns ?rd) h1 = (((concat inputs, Some EndOfFile), rd'), h2)"
    by (rule restore_roundtrip [OF assms(1) b(2-5) h1]) (use b id assms(6,9-) in simp_all)
  then show ?thesis
    using h1 b(7) assms(6) by auto
qed

section \<open>Witnesses\<close>

definition built_completion :: completion where
  "built_completion = sample_completion\<lparr>co_remoteSize := 47, co_completedAt := 5\<rparr>"

definition strict_codec :: codec where
  "strict_codec = \<lparr>json_envelope = (\<lambda>e. if e = sample_envelope then Some [123] else None),
     parse_envelope = (\<lambda>v. if v = [123] then Some sample_envelope else None),
     json_completion = (\<lambda>c. if c = built_completion then Some [125] else None),
     parse_completion = (\<lambda>v. if v = [125] then Some built_completion else None)\<rparr>"

definition sample_config :: build_config where
  "sample_config = \<lparr>bc_master = replicate 32 1, bc_resourceKind = ''redis'', bc_resourceID = ''r'', bc_generationID = ''g'', bc_workRoot = ''/w'',
     bc_createdAt = 62135596800005000000, bc_random = replicate 24 3, bc_attachmentPaths = []\<rparr>"

definition no_faults :: work_root where
  "no_faults = \<lparr>wr_mkdirAll = True, wr_mkdir = True, wr_removeAll = True, wr_fault = (\<lambda>_. NoFault)\<rparr>"

definition no_attachments :: "string \<Rightarrow> attachment_file" where
  "no_attachments path = \<lparr>af_lstatRegular = False, af_openOk = False, af_statSame = False, af_size = 0, af_body = [], af_closeOk = False\<rparr>"

definition sample_building :: "(backup_error + resource_build) \<times> (string \<times> bytes) list" where
  "sample_building = buildResource strict_codec sample_aead sample_sha256 sample_hkdf no_attachments no_faults sample_config [Data [1], Data [2]] []"

definition sample_built :: resource_build where
  "sample_built = \<lparr>rb_envelope = sample_envelope, rb_envelopeBytes = [123], rb_completion = built_completion, rb_completionBytes = [125],
     rb_chunks = [\<lparr>wk_chunk = snd sample_sealed_chunk, wk_path = ''/w/resource-redis-g/chunk-00000000.pdx''\<rparr>], rb_attachments = []\<rparr>"

lemma sample_codec_ok: "codec_ok strict_codec"
  by (simp add: codec_ok_def strict_codec_def)

lemma sample_sha_ok: "sha_ok sample_sha256"
  by (auto simp: sha_ok_def sample_sha256_def min_def)

lemma sample_builds:
  "buildResource strict_codec sample_aead sample_sha256 sample_hkdf no_attachments no_faults sample_config [Data [1], Data [2]] []
     = (Inr sample_built, snd sample_building)"
proof -
  have "fst sample_building = Inr sample_built"
    by code_simp
  then show ?thesis
    unfolding sample_building_def by (metis prod.collapse)
qed

lemma sample_created: "0 < unixMilli (bc_createdAt sample_config)"
  by code_simp

lemma sample_source: "read_all [Data [1], Data [2]] = Some [1, 2]" "int (length [1 :: 8 word, 2]) \<le> maxInt64"
  by (simp_all add: maxInt64_def)

theorem built_generation_valid_witness:
  "decodeResourceEnvelope strict_codec [123] = Inr sample_envelope \<and> decodeResourceCompletion strict_codec [125] = Inr built_completion"
  using built_generation_valid [OF sample_aead_ok sample_sha_ok sample_codec_ok sample_created sample_builds sample_source]
  by (simp add: sample_built_def)

lemma static_serves:
  "serves static_remote (snd sample_building) (rb_envelope sample_built) (rb_chunks sample_built)"
proof -
  have key: "remoteKey static_remote (resourceChunkKey ''redis'' ''r'' ''g'' (ck_index (snd sample_sealed_chunk)))
      = ''resources/redis/r/generations/g/chunk-00000000.pdx''"
    and object: "readObject (Some (served_object (fst sample_sealed_chunk))) (ck_ciphertextSize (snd sample_sealed_chunk)) = Inr (fst sample_sealed_chunk)"
    and content: "map_of (snd sample_building) ''/w/resource-redis-g/chunk-00000000.pdx'' = Some (fst sample_sealed_chunk)"
    by code_simp+
  have "rm_get static_remote h ''resources/redis/r/generations/g/chunk-00000000.pdx'' = Some (served_object (fst sample_sealed_chunk))" for h
    by (simp add: static_remote_def)
  then show ?thesis
    using object content by (simp add: serves_def sample_envelope_def sample_built_def key)
qed

lemma static_envelope:
  "\<forall>h. readObject (rm_get static_remote h (remoteKey static_remote (resourceEnvelopeKey (bc_resourceKind sample_config)
     (bc_resourceID sample_config) (bc_generationID sample_config)))) (int maximumResourceEnvelopeSize) = Inr (rb_envelopeBytes sample_built)"
proof -
  have key: "remoteKey static_remote (resourceEnvelopeKey (bc_resourceKind sample_config) (bc_resourceID sample_config) (bc_generationID sample_config))
      = ''resources/redis/r/generations/g/envelope.json''"
    and object: "readObject (Some (served_object [123])) (int maximumResourceEnvelopeSize) = Inr (rb_envelopeBytes sample_built)"
    by code_simp+
  then show ?thesis
    unfolding key by (simp add: static_remote_def)
qed

theorem backup_restores_witness:
  "\<exists>rd h1 rd' h2. run_state (openResource strict_codec sample_sha256 sample_hkdf static_remote (replicate 32 1) built_completion) [] = (Inr rd, h1)
    \<and> run_state (drain sample_aead sample_sha256 static_remote [1, 5, 1] rd) h1 = ((([1, 2], Some EndOfFile), rd'), h2)"
proof -
  have fields: "bc_master sample_config = replicate 32 1" "rb_completion sample_built = built_completion"
    by (simp_all add: sample_config_def sample_built_def)
  have "list_all (\<lambda>n. 0 < n) [1, 5, 1 :: nat]" "length [1 :: 8 word, 2] < length [1, 5, 1 :: nat]"
    by simp_all
  from backup_restores [OF sample_aead_ok sample_sha_ok sample_codec_ok sample_created sample_builds sample_source static_envelope static_serves this, of "[]"]
  show ?thesis
    unfolding fields .
qed

end
