(* ===== verification/Backup_Retention.thy ===== *)
theory Backup_Retention
  imports Backup_Restore
begin

text \<open>
  Package \<^verbatim>\<open>backup\<close>, the committed generations of a resource and retention (\<^verbatim>\<open>ListResourceGenerations\<close> and
  \<^verbatim>\<open>ApplyResourceRetention\<close> of \<^verbatim>\<open>resource_remote.go\<close>, \<^verbatim>\<open>deleteRemotePrefix\<close> of \<^verbatim>\<open>control_remote.go\<close>). The storage
  decides how many pages a listing has, so the loops over pages take fuel: \<open>None\<close> means that the storage
  still announces another page after \<open>fuel\<close> of them.
\<close>

section \<open>Model\<close>

definition completionMarker :: "string \<Rightarrow> string \<Rightarrow> bool" where
  "completionMarker pre key \<longleftrightarrow> prefix pre key \<and> suffix ''/complete.json'' key"

primrec listCompletionKeys :: "nat \<Rightarrow> remote \<Rightarrow> string \<Rightarrow> string \<Rightarrow> string list \<Rightarrow> (backup_error + string list) option rop" where
  "listCompletionKeys 0 R pre token keys = State_Monad.return None"
| "listCompletionKeys (Suc fuel) R pre token keys = do {
     page \<leftarrow> do_list R pre token;
     case page of
       None \<Rightarrow> State_Monad.return (Some (Inl RemoteFailed))
     | Some page \<Rightarrow>
         (let keys = keys @ filter (completionMarker pre) (pg_keys page)
          in if pg_continuation page = [] then State_Monad.return (Some (Inr keys))
             else listCompletionKeys fuel R pre (pg_continuation page) keys)
   }"

primrec readCompletions ::
  "codec \<Rightarrow> remote \<Rightarrow> string \<Rightarrow> string \<Rightarrow> string list \<Rightarrow> completion list \<Rightarrow> (backup_error + completion list) rop" where
  "readCompletions j R kind rid [] result = State_Monad.return (Inr result)"
| "readCompletions j R kind rid (key # keys) result = do {
     v \<leftarrow> readRemoteObject R key 65536;
     case v of
       Inl err \<Rightarrow> State_Monad.return (Inl err)
     | Inr v \<Rightarrow>
         (case decodeResourceCompletion j v of
            Inl err \<Rightarrow> State_Monad.return (Inl err)
          | Inr c \<Rightarrow>
              if co_resourceKind c \<noteq> kind \<or> co_resourceID c \<noteq> rid
                 \<or> key \<noteq> remoteKey R (resourceCompletionKey kind rid (co_generationID c)) then State_Monad.return (Inl CompletionIdentity)
              else if co_generationID c \<in> co_generationID ` set result then State_Monad.return (Inl DuplicateGeneration)
              else readCompletions j R kind rid keys (result @ [c]))
   }"

definition newestFirst :: "completion list \<Rightarrow> completion list" where
  "newestFirst cs = rev (sort_key (\<lambda>c. (co_completedAt c, co_generationID c)) cs)"

definition listResourceGenerations ::
  "codec \<Rightarrow> nat \<Rightarrow> remote \<Rightarrow> string \<Rightarrow> string \<Rightarrow> (backup_error + completion list) option rop" where
  "listResourceGenerations j fuel R kind rid =
     (if \<not> validBackupResourceKind kind \<or> \<not> validControlIdentifier rid then State_Monad.return (Some (Inl ListInvalid))
      else do {
        keys \<leftarrow> listCompletionKeys fuel R (remoteKey R (resourceGenerationsPrefix kind rid @ ''/'')) [] [];
        case keys of
          None \<Rightarrow> State_Monad.return None
        | Some (Inl err) \<Rightarrow> State_Monad.return (Some (Inl err))
        | Some (Inr keys) \<Rightarrow> do {
            result \<leftarrow> readCompletions j R kind rid (sort keys) [];
            State_Monad.return (Some (map_sum id newestFirst result))
          }
      })"

primrec deleteKeys :: "remote \<Rightarrow> string list \<Rightarrow> backup_error option rop" where
  "deleteKeys R [] = State_Monad.return None"
| "deleteKeys R (key # keys) = do {
     ok \<leftarrow> do_delete R key;
     if ok then deleteKeys R keys else State_Monad.return (Some RemoteFailed)
   }"

primrec deleteRemotePrefix :: "nat \<Rightarrow> remote \<Rightarrow> string \<Rightarrow> string \<Rightarrow> backup_error option option rop" where
  "deleteRemotePrefix 0 R pre token = State_Monad.return None"
| "deleteRemotePrefix (Suc fuel) R pre token = do {
     page \<leftarrow> do_list R pre token;
     case page of
       None \<Rightarrow> State_Monad.return (Some (Some RemoteFailed))
     | Some page \<Rightarrow> do {
         err \<leftarrow> deleteKeys R (pg_keys page);
         case err of
           Some err \<Rightarrow> State_Monad.return (Some (Some err))
         | None \<Rightarrow>
             if pg_continuation page = [] then State_Monad.return (Some None)
             else deleteRemotePrefix fuel R pre (pg_continuation page)
       }
   }"

primrec deleteGenerations :: "nat \<Rightarrow> remote \<Rightarrow> string \<Rightarrow> string \<Rightarrow> completion list \<Rightarrow> backup_error option option rop" where
  "deleteGenerations fuel R kind rid [] = State_Monad.return (Some None)"
| "deleteGenerations fuel R kind rid (g # gs) = do {
     err \<leftarrow> deleteRemotePrefix fuel R (remoteKey R (resourceGenerationPrefix kind rid (co_generationID g) @ ''/'')) [];
     case err of
       Some None \<Rightarrow> deleteGenerations fuel R kind rid gs
     | _ \<Rightarrow> State_Monad.return err
   }"

definition applyResourceRetention ::
  "codec \<Rightarrow> nat \<Rightarrow> remote \<Rightarrow> string \<Rightarrow> string \<Rightarrow> int \<Rightarrow> backup_error option option rop" where
  "applyResourceRetention j fuel R kind rid retain =
     (if retain < 1 \<or> retain > 100 then State_Monad.return (Some (Some RetentionInvalid))
      else do {
        generations \<leftarrow> listResourceGenerations j fuel R kind rid;
        case generations of
          None \<Rightarrow> State_Monad.return None
        | Some (Inl err) \<Rightarrow> State_Monad.return (Some (Some err))
        | Some (Inr generations) \<Rightarrow> deleteGenerations fuel R kind rid (drop (nat retain) generations)
      })"

section \<open>The listed generations\<close>

lemma newestFirst_set [simp]: "set (newestFirst cs) = set cs"
  by (simp add: newestFirst_def)

lemma newestFirst_ids: "distinct (map co_generationID cs) \<Longrightarrow> distinct (map co_generationID (newestFirst cs))"
  unfolding newestFirst_def by (simp add: rev_map [symmetric]) (metis distinct_rev mset_map mset_sort rev_map mset_eq_imp_distinct_iff)

lemma newestFirst_descending:
  "sorted_wrt (\<lambda>x y. (co_completedAt y, co_generationID y) \<le> (co_completedAt x, co_generationID x)) (newestFirst cs)"
proof -
  have "sorted (map (\<lambda>c. (co_completedAt c, co_generationID c)) (sort_key (\<lambda>c. (co_completedAt c, co_generationID c)) cs))"
    by (rule sorted_sort_key)
  then show ?thesis
    unfolding newestFirst_def sorted_wrt_rev sorted_map .
qed

lemma readCompletions_Cons:
  assumes "run_state (readCompletions j R kind rid (key # keys) result) h = (Inr cs, h')"
  obtains c h1 where "validateResourceCompletion c = None" "co_generationID c \<notin> co_generationID ` set result"
    "run_state (readCompletions j R kind rid keys (result @ [c])) h1 = (Inr cs, h')"
proof -
  obtain v where v: "readObject (rm_get R h key) 65536 = Inr v"
    using assms by (cases "readObject (rm_get R h key) 65536") (auto simp: readRemoteObject_def)
  obtain c where c: "decodeResourceCompletion j v = Inr c"
    using assms v by (cases "decodeResourceCompletion j v") (auto simp: readRemoteObject_def)
  have "validateResourceCompletion c = None"
    using c by (auto simp: decodeResourceCompletion_def split: if_splits option.splits)
  then show thesis
    using assms v c that by (auto simp: readRemoteObject_def split: if_splits)
qed

lemma readCompletions_valid:
  assumes "run_state (readCompletions j R kind rid keys result) h = (Inr cs, h')"
    and "distinct (map co_generationID result)" "\<forall>c\<in>set result. validateResourceCompletion c = None"
  shows "distinct (map co_generationID cs) \<and> (\<forall>c\<in>set cs. validateResourceCompletion c = None)"
  using assms
proof (induction keys arbitrary: result h)
  case (Cons key keys)
  obtain c h1 where c: "validateResourceCompletion c = None" "co_generationID c \<notin> co_generationID ` set result"
    "run_state (readCompletions j R kind rid keys (result @ [c])) h1 = (Inr cs, h')"
    using Cons.prems(1) by (rule readCompletions_Cons)
  then show ?case
    by (intro Cons.IH [OF c(3)]) (use Cons.prems(2,3) in simp_all)
next
  case Nil
  then have "cs = result"
    by simp
  then show ?case
    using Nil.prems(2,3) by blast
qed

lemma listed_generations:
  assumes "run_state (listResourceGenerations j fuel R kind rid) h = (Some (Inr gs), h')"
  shows "distinct (map co_generationID gs)" and "\<forall>g\<in>set gs. validControlIdentifier (co_generationID g)"
    and "sorted_wrt (\<lambda>x y. (co_completedAt y, co_generationID y) \<le> (co_completedAt x, co_generationID x)) gs"
proof -
  obtain keys h1 cs where cs: "run_state (readCompletions j R kind rid keys []) h1 = (Inr cs, h')" "gs = newestFirst cs"
    using assms unfolding listResourceGenerations_def
    by (auto split: if_splits option.splits sum.splits prod.splits simp: map_sum_def)
  note valid = readCompletions_valid [OF cs(1)]
  show "distinct (map co_generationID gs)"
    unfolding cs(2) by (rule newestFirst_ids) (use valid in simp)
  show "\<forall>g\<in>set gs. validControlIdentifier (co_generationID g)"
    using valid by (auto simp: cs(2) validateResourceCompletion_def split: if_splits)
  show "sorted_wrt (\<lambda>x y. (co_completedAt y, co_generationID y) \<le> (co_completedAt x, co_generationID x)) gs"
    unfolding cs(2) by (rule newestFirst_descending)
qed

section \<open>What is deleted\<close>

definition deletes_in :: "(string \<Rightarrow> bool) \<Rightarrow> remote_history \<Rightarrow> remote_history \<Rightarrow> bool" where
  "deletes_in S h0 h \<longleftrightarrow> (\<exists>new. h = h0 @ new \<and> (\<forall>key ok. RDelete key ok \<in> set new \<longrightarrow> S key))"

lemma deletes_in_refl [simp]: "deletes_in S h h"
  by (simp add: deletes_in_def)

lemma deletes_in_snoc:
  assumes "deletes_in S h0 h" "\<forall>key ok. ev = RDelete key ok \<longrightarrow> S key"
  shows "deletes_in S h0 (h @ [ev])"
proof -
  obtain new where "h = h0 @ new" "\<forall>key ok. RDelete key ok \<in> set new \<longrightarrow> S key"
    using assms(1) by (auto simp: deletes_in_def)
  then show ?thesis
    using assms(2) unfolding deletes_in_def by (intro exI [of _ "new @ [ev]"]) (auto; metis)
qed

lemma deletes_in_steps [hoare_rules]:
  "kept (deletes_in S h0) (do_get R k)" "kept (deletes_in S h0) (do_list R pre token)"
  "S k \<Longrightarrow> kept (deletes_in S h0) (do_delete R k)"
  by (simp_all add: hoare_def deletes_in_snoc)

lemma deletes_in_keys: "\<forall>k\<in>set keys. S k \<Longrightarrow> kept (deletes_in S h0) (deleteKeys R keys)"
  by (induction keys) (auto intro!: hoare_rules)

lemma deletes_in_list: "kept (deletes_in S h0) (listCompletionKeys fuel R pre token keys)"
  by (induction fuel arbitrary: token keys) (auto intro!: hoare_rules)

lemma deletes_in_read: "kept (deletes_in S h0) (readCompletions j R kind rid keys result)"
  by (induction keys arbitrary: result) (auto intro!: hoare_rules simp: readRemoteObject_def)

text \<open>What the documentation of object listings promises: the keys of a page have the requested prefix.\<close>

definition lists_prefix :: "remote \<Rightarrow> bool" where
  "lists_prefix R \<longleftrightarrow> (\<forall>h pre token page. rm_list R h pre token = Some page \<longrightarrow> (\<forall>k\<in>set (pg_keys page). prefix pre k))"

lemma hoare_list_page:
  "lists_prefix R \<Longrightarrow> hoare (deletes_in S h0) (do_list R pre token)
     (\<lambda>page h. deletes_in S h0 h \<and> (\<forall>p. page = Some p \<longrightarrow> (\<forall>k\<in>set (pg_keys p). prefix pre k)))"
  by (auto simp: hoare_def lists_prefix_def deletes_in_snoc)

lemma deletes_in_prefix:
  assumes "lists_prefix R" "\<And>k. prefix pre k \<Longrightarrow> S k"
  shows "kept (deletes_in S h0) (deleteRemotePrefix fuel R pre token)"
proof (induction fuel arbitrary: token)
  case (Suc fuel)
  have page: "hoare (\<lambda>h. deletes_in S h0 h \<and> (\<forall>p. page = Some p \<longrightarrow> (\<forall>k\<in>set (pg_keys p). prefix pre k)))
      (case page of
         None \<Rightarrow> State_Monad.return (Some (Some RemoteFailed))
       | Some page \<Rightarrow> do {
           err \<leftarrow> deleteKeys R (pg_keys page);
           case err of
             Some err \<Rightarrow> State_Monad.return (Some (Some err))
           | None \<Rightarrow>
               if pg_continuation page = [] then State_Monad.return (Some None)
               else deleteRemotePrefix fuel R pre (pg_continuation page)
         }) (\<lambda>_. deletes_in S h0)" for page
  proof (cases "\<forall>p. page = Some p \<longrightarrow> (\<forall>k\<in>set (pg_keys p). prefix pre k)")
    case True
    then have keys: "\<forall>k\<in>set (pg_keys p). S k" if "page = Some p" for p
      using that assms(2) by blast
    show ?thesis
      by (rule hoare_pre [where P' = "deletes_in S h0"]) (auto intro!: hoare_rules deletes_in_keys Suc.IH keys)
  qed (auto simp only: hoare_def)
  show ?case
    by (simp, rule hoare_bind [OF hoare_list_page [OF assms(1)] page])
qed (simp add: hoare_rules)

lemma deletes_in_generations:
  assumes "lists_prefix R"
    and "\<And>g k. g \<in> set gs \<Longrightarrow> prefix (remoteKey R (resourceGenerationPrefix kind rid (co_generationID g) @ ''/'')) k \<Longrightarrow> S k"
  shows "kept (deletes_in S h0) (deleteGenerations fuel R kind rid gs)"
  using assms(2)
proof (induction gs)
  case (Cons g gs)
  then have "kept (deletes_in S h0) (deleteRemotePrefix fuel R (remoteKey R (resourceGenerationPrefix kind rid (co_generationID g) @ ''/'')) [])"
    by (intro deletes_in_prefix [OF assms(1)]) (meson list.set_intros(1))
  then show ?case
    using Cons by (auto intro!: hoare_rules)
qed (simp add: hoare_rules)

section \<open>Generations are apart\<close>

abbreviation generation_prefix :: "remote \<Rightarrow> string \<Rightarrow> string \<Rightarrow> completion \<Rightarrow> string" where
  "generation_prefix R kind rid g \<equiv> remoteKey R (resourceGenerationPrefix kind rid (co_generationID g) @ ''/'')"

lemma identifier_no_slash: "validControlIdentifier v \<Longrightarrow> CHR ''/'' \<notin> set v"
  by (auto simp: validControlIdentifier_def list_all_iff identifier_char_def is_lower_def is_upper_def is_digit_def)

lemma generation_prefix_form:
  "\<exists>base. \<forall>g. generation_prefix R kind rid g = base @ co_generationID g @ ''/''"
proof -
  let ?rel = "resourceGenerationsPrefix kind rid @ ''/''"
  have "generation_prefix R kind rid g = (if rm_prefix R = [] then ?rel else rm_prefix R @ ''/'' @ ?rel) @ co_generationID g @ ''/''" for g
    by (simp add: remoteKey_def resourceGenerationPrefix_def resourceGenerationsPrefix_def)
  then show ?thesis
    by (intro exI allI)
qed

lemma generation_prefixes_apart:
  assumes "prefix (generation_prefix R kind rid g) key" "prefix (generation_prefix R kind rid g') key"
    and "validControlIdentifier (co_generationID g)" "validControlIdentifier (co_generationID g')"
  shows "co_generationID g = co_generationID g'"
proof -
  obtain base where base: "\<And>g. generation_prefix R kind rid g = base @ co_generationID g @ ''/''"
    using generation_prefix_form by metis
  obtain s s' where "key = base @ co_generationID g @ CHR ''/'' # s" "key = base @ co_generationID g' @ CHR ''/'' # s'"
    using assms(1,2) unfolding base by (auto elim!: prefixE) metis
  then have "takeWhile (\<lambda>c. c \<noteq> CHR ''/'') (co_generationID g @ CHR ''/'' # s)
      = takeWhile (\<lambda>c. c \<noteq> CHR ''/'') (co_generationID g' @ CHR ''/'' # s')"
    by simp
  then show ?thesis
    using identifier_no_slash [OF assms(3)] identifier_no_slash [OF assms(4)] by (simp add: takeWhile_append split: if_splits)
qed

lemma apart_in_order:
  assumes "sorted_wrt (\<lambda>x y. (co_completedAt y, co_generationID y) \<le> (co_completedAt x, co_generationID x)) gs"
    "distinct (map co_generationID gs)" "g \<in> set (drop n gs)" "k \<in> set (take n gs)"
  shows "co_generationID g \<noteq> co_generationID k"
    and "co_completedAt g < co_completedAt k \<or> (co_completedAt g = co_completedAt k \<and> co_generationID g < co_generationID k)"
proof -
  have "sorted_wrt (\<lambda>x y. (co_completedAt y, co_generationID y) \<le> (co_completedAt x, co_generationID x)) (take n gs @ drop n gs)"
    "distinct (map co_generationID (take n gs @ drop n gs))"
    using assms(1,2) by simp_all
  then show ne: "co_generationID g \<noteq> co_generationID k"
    and "co_completedAt g < co_completedAt k \<or> (co_completedAt g = co_completedAt k \<and> co_generationID g < co_generationID k)"
    using assms(3,4) by (fastforce simp: sorted_wrt_append distinct_map simp del: append_take_drop_id)+
qed

lemma retained_apart:
  assumes "run_state (listResourceGenerations j fuel R kind rid) h = (Some (Inr gs), h1)"
    and "g \<in> set (drop n gs)" "prefix (generation_prefix R kind rid g) key" "k \<in> set (take n gs)"
  shows "\<not> prefix (generation_prefix R kind rid k) key
    \<and> (co_completedAt g < co_completedAt k \<or> (co_completedAt g = co_completedAt k \<and> co_generationID g < co_generationID k))"
proof -
  note listed = listed_generations [OF assms(1)]
  note apart = apart_in_order [OF listed(3,1) assms(2,4)]
  have "validControlIdentifier (co_generationID g)" "validControlIdentifier (co_generationID k)"
    using listed(2) assms(2,4) by (auto dest: in_set_dropD in_set_takeD)
  then have "\<not> prefix (generation_prefix R kind rid k) key"
    using generation_prefixes_apart [OF assms(3)] apart(1) by blast
  then show ?thesis
    using apart(2) by (rule conjI)
qed

section \<open>Retention\<close>

lemma retention_cases:
  assumes "run_state (applyResourceRetention j fuel R kind rid retain) h = (r, h')"
    and "run_state (listResourceGenerations j fuel R kind rid) h = (l, h1)"
  obtains "h' = h" | "h' = h1" | gs where "1 \<le> retain" "retain \<le> 100" "l = Some (Inr gs)"
    "run_state (deleteGenerations fuel R kind rid (drop (nat retain) gs)) h1 = (r, h')"
proof (cases "retain < 1 \<or> retain > 100")
  case True
  then show thesis
    using assms(1) that(1) by (simp add: applyResourceRetention_def)
next
  case False
  then show thesis
    using assms that(2,3) by (cases l; cases "the l") (simp_all add: applyResourceRetention_def)
qed

text \<open>
  \<^bold>\<open>C10.\<close> Retention deletes old generations only. Every object that applying retention deletes lies under the prefix of a
  committed generation that is older than each of the \<open>retain\<close> newest ones the listing returned, and under the
  prefix of none of those; with an invalid count, or when the listing fails or is inconsistent, nothing is deleted.
\<close>

theorem retention_keeps_newest:
  assumes "lists_prefix R" "run_state (applyResourceRetention j fuel R kind rid retain) h = (r, h')"
  shows "\<exists>new. h' = h @ new \<and> (\<forall>key ok. RDelete key ok \<in> set new \<longrightarrow>
    1 \<le> retain \<and> retain \<le> 100 \<and> (\<exists>gs h1 g. run_state (listResourceGenerations j fuel R kind rid) h = (Some (Inr gs), h1)
      \<and> g \<in> set (drop (nat retain) gs) \<and> prefix (generation_prefix R kind rid g) key
      \<and> (\<forall>k\<in>set (take (nat retain) gs). \<not> prefix (generation_prefix R kind rid k) key
           \<and> (co_completedAt g < co_completedAt k \<or> (co_completedAt g = co_completedAt k \<and> co_generationID g < co_generationID k)))))"
    (is "\<exists>new. _ \<and> (\<forall>key ok. _ \<longrightarrow> _ \<and> _ \<and> ?outdated key)")
proof -
  obtain l h1 where l: "run_state (listResourceGenerations j fuel R kind rid) h = (l, h1)"
    by (cases "run_state (listResourceGenerations j fuel R kind rid) h")
  have "kept (deletes_in (\<lambda>_. False) h) (listResourceGenerations j fuel R kind rid)"
    unfolding listResourceGenerations_def by (auto intro!: hoare_rules deletes_in_list deletes_in_read)
  from hoareD [OF this deletes_in_refl l] obtain n1 where n1: "h1 = h @ n1" "\<And>key ok. RDelete key ok \<notin> set n1"
    by (auto simp: deletes_in_def)
  from assms(2) l show ?thesis
  proof (cases rule: retention_cases)
    case (3 gs)
    have outdated: "?outdated key" if g: "g \<in> set (drop (nat retain) gs)" "prefix (generation_prefix R kind rid g) key" for g key
      using retained_apart [OF l [unfolded 3(3)] g] g
      by (intro exI [of _ gs] exI [of _ h1] exI [of _ g] conjI ballI l [unfolded 3(3)]) simp_all
    have "kept (deletes_in ?outdated h1) (deleteGenerations fuel R kind rid (drop (nat retain) gs))"
      by (rule deletes_in_generations [OF assms(1)]) (rule outdated)
    from hoareD [OF this deletes_in_refl 3(4)] obtain n2 where n2: "h' = h1 @ n2" "\<And>key ok. RDelete key ok \<in> set n2 \<Longrightarrow> ?outdated key"
      unfolding deletes_in_def by blast
    show ?thesis
    proof (intro exI [of _ "n1 @ n2"] conjI [OF _ allI [OF allI [OF impI]]])
      show "h' = h @ n1 @ n2"
        using n1(1) n2(1) by simp
      fix key ok assume "RDelete key ok \<in> set (n1 @ n2)"
      then have "RDelete key ok \<in> set n2"
        using n1(2) by simp
      then show "1 \<le> retain \<and> retain \<le> 100 \<and> ?outdated key"
        using 3(1,2) n2(2) by blast
    qed
  next
    case 1
    then show ?thesis
      by (intro exI [of _ "[]"]) simp
  next
    case 2
    then show ?thesis
      using n1 by (intro exI [of _ n1]) simp
  qed
qed

definition aged_completion :: "string \<Rightarrow> int \<Rightarrow> completion" where
  "aged_completion gen at = sample_completion\<lparr>co_generationID := gen, co_completedAt := at\<rparr>"

definition aged_codec :: codec where
  "aged_codec = sample_codec\<lparr>parse_completion := (\<lambda>v. Some (if v = [1] then aged_completion ''g1'' 5 else aged_completion ''g2'' 9))\<rparr>"

definition aged_remote :: remote where
  "aged_remote = \<lparr>rm_prefix = [], rm_put = (\<lambda>_ _ _ _ _. False),
     rm_get = (\<lambda>_ key. Some (served_object (if key = ''resources/redis/r/generations/g1/complete.json'' then [1] else [2]))),
     rm_list = (\<lambda>_ pre _. Some \<lparr>pg_keys = filter (prefix pre) [''resources/redis/r/generations/g2/complete.json'',
        ''resources/redis/r/generations/g1/complete.json'', ''resources/redis/r/generations/g1/envelope.json''], pg_continuation = []\<rparr>),
     rm_delete = (\<lambda>_ _. True)\<rparr>"

definition sample_retention :: "backup_error option option \<times> remote_history" where
  "sample_retention = run_state (applyResourceRetention aged_codec 3 aged_remote ''redis'' ''r'' 1) []"

lemma aged_remote_lists: "lists_prefix aged_remote"
  by (auto simp: lists_prefix_def aged_remote_def)

theorem retention_keeps_newest_witness:
  "fst sample_retention = Some None \<and> RDelete ''resources/redis/r/generations/g1/complete.json'' True \<in> set (snd sample_retention)
     \<and> (\<exists>gs h1 g. run_state (listResourceGenerations aged_codec 3 aged_remote ''redis'' ''r'') [] = (Some (Inr gs), h1) \<and> g \<in> set (drop 1 gs)
          \<and> prefix (generation_prefix aged_remote ''redis'' ''r'' g) ''resources/redis/r/generations/g1/complete.json'')"
proof -
  have outcome: "fst sample_retention = Some None" "RDelete ''resources/redis/r/generations/g1/complete.json'' True \<in> set (snd sample_retention)"
    by code_simp+
  have run: "run_state (applyResourceRetention aged_codec 3 aged_remote ''redis'' ''r'' 1) [] = (fst sample_retention, snd sample_retention)"
    by (simp add: sample_retention_def)
  obtain new where "snd sample_retention = [] @ new" and new: "\<forall>key ok. RDelete key ok \<in> set new \<longrightarrow>
      (\<exists>gs h1 g. run_state (listResourceGenerations aged_codec 3 aged_remote ''redis'' ''r'') [] = (Some (Inr gs), h1)
        \<and> g \<in> set (drop (nat 1) gs) \<and> prefix (generation_prefix aged_remote ''redis'' ''r'' g) key)"
    using retention_keeps_newest [OF aged_remote_lists run] by blast
  then have "RDelete ''resources/redis/r/generations/g1/complete.json'' True \<in> set new"
    using outcome(2) by simp
  from new [rule_format, OF this] show ?thesis
    using outcome by (simp only: nat_1 One_nat_def [symmetric] simp_thms)
qed

end
