(* ===== verification/Backup_Schedule.thy ===== *)
theory Backup_Schedule
  imports Backup_Cron
begin

text \<open>
  The schedule of package \<^verbatim>\<open>backup\<close>: \<^verbatim>\<open>SelectDueCandidate\<close> of \<^verbatim>\<open>scheduler.go\<close> picks the backup that has
  been due the longest, over the schedules of \<^verbatim>\<open>backupcron\<close>. The store is an argument: the policies it
  lists and its answers on recorded backups, errors included. \<open>None\<close> stands for a search of \<^verbatim>\<open>Previous\<close> that
  does not end, a missing store for a nil interface.
\<close>

section \<open>Model\<close>

record policy =
  po_kind :: string
  po_id :: string
  po_target :: string
  po_enabled :: bool
  po_cron :: string
  po_retention :: int

record candidate =
  dc_kind :: string
  dc_id :: string
  dc_target :: string
  dc_due :: instant
  dc_occurrence :: "int option"
  dc_retention :: int

record 'e schedule_store =
  ss_policies :: "'e + policy list"
  ss_exists :: "string \<Rightarrow> string \<Rightarrow> int \<Rightarrow> 'e + bool"

datatype 'e select_error = DueInputInvalid | StoreFailed 'e | ScheduleFailed cron_error

definition control_candidate :: "instant \<Rightarrow> candidate" where
  "control_candidate dirtySince =
     \<lparr>dc_kind = ''control'', dc_id = [], dc_target = [], dc_due = dirtySince, dc_occurrence = None, dc_retention = 0\<rparr>"

definition policy_candidate :: "policy \<Rightarrow> instant \<Rightarrow> candidate" where
  "policy_candidate p latest =
     \<lparr>dc_kind = po_kind p, dc_id = po_id p, dc_target = po_target p, dc_due = latest,
      dc_occurrence = Some (unix_milli latest), dc_retention = po_retention p\<rparr>"

text \<open>The body of the loop over the policies: its candidate, if it has one.\<close>

definition policyCandidate ::
  "'e schedule_store \<Rightarrow> instant \<Rightarrow> instant \<Rightarrow> policy \<Rightarrow> ('e select_error + candidate option) option" where
  "policyCandidate store startedAt now p =
     (if \<not> po_enabled p then Some (Inr None)
      else case cron_parse (po_cron p) of
        Inl e \<Rightarrow> Some (Inl (ScheduleFailed e))
      | Inr s \<Rightarrow>
          (case cron_previous s (truncate_minute now + ns_per_minute) of
             None \<Rightarrow> None
           | Some (Inl e) \<Rightarrow> Some (Inl (ScheduleFailed e))
           | Some (Inr latest) \<Rightarrow>
               if \<not> startedAt < latest then Some (Inr None)
               else (case ss_exists store (po_kind p) (po_id p) (unix_milli latest) of
                       Inl e \<Rightarrow> Some (Inl (StoreFailed e))
                     | Inr found \<Rightarrow> Some (Inr (if found then None else Some (policy_candidate p latest))))))"

fun scanPolicies ::
  "'e schedule_store \<Rightarrow> instant \<Rightarrow> instant \<Rightarrow> policy list \<Rightarrow> candidate list
    \<Rightarrow> ('e select_error + candidate list) option" where
  "scanPolicies store startedAt now [] candidates = Some (Inr candidates)"
| "scanPolicies store startedAt now (p # ps) candidates =
     (case policyCandidate store startedAt now p of
        None \<Rightarrow> None
      | Some (Inl e) \<Rightarrow> Some (Inl e)
      | Some (Inr None) \<Rightarrow> scanPolicies store startedAt now ps candidates
      | Some (Inr (Some c)) \<Rightarrow> scanPolicies store startedAt now ps (candidates @ [c]))"

text \<open>The order \<^verbatim>\<open>sort.Slice\<close> is given.\<close>

definition due_key :: "candidate \<Rightarrow> instant \<times> string \<times> string" where
  "due_key c = (dc_due c, dc_kind c, dc_id c)"

definition selectDueCandidate ::
  "'e schedule_store option \<Rightarrow> instant \<Rightarrow> bool \<Rightarrow> instant \<Rightarrow> instant
    \<Rightarrow> ('e select_error + candidate option) option" where
  "selectDueCandidate store dirtySince dirty startedAt now =
     (case store of
        None \<Rightarrow> Some (Inl DueInputInvalid)
      | Some store \<Rightarrow>
          if startedAt = 0 \<or> now = 0 \<or> now < startedAt \<or> dirty \<and> dirtySince = 0 then Some (Inl DueInputInvalid)
          else (case ss_policies store of
            Inl e \<Rightarrow> Some (Inl (StoreFailed e))
          | Inr policies \<Rightarrow>
              (case scanPolicies store startedAt now policies (if dirty then [control_candidate dirtySince] else []) of
                 None \<Rightarrow> None
               | Some (Inl e) \<Rightarrow> Some (Inl e)
               | Some (Inr candidates) \<Rightarrow>
                   Some (Inr (case sort_key due_key candidates of [] \<Rightarrow> None | c # _ \<Rightarrow> Some c)))))"

section \<open>What is due\<close>

text \<open>
  The specification, in terms of the instants a schedule matches: the latest one that is not in the future
  is due when it lies after the start of the process and the store has no backup for it.
\<close>

definition latest_match :: "schedule \<Rightarrow> instant \<Rightarrow> instant \<Rightarrow> bool" where
  "latest_match s now t \<longleftrightarrow> cron_matches s t \<and> t \<le> now \<and> (\<forall>u. t < u \<and> u \<le> now \<longrightarrow> \<not> cron_matches s u)"

definition due :: "'e schedule_store \<Rightarrow> instant \<Rightarrow> instant \<Rightarrow> policy \<Rightarrow> instant \<Rightarrow> bool" where
  "due store startedAt now p t \<longleftrightarrow>
     po_enabled p \<and> startedAt < t \<and> ss_exists store (po_kind p) (po_id p) (unix_milli t) = Inr False
     \<and> (\<exists>s. cron_parse (po_cron p) = Inr s \<and> latest_match s now t)"

definition due_candidates ::
  "'e schedule_store \<Rightarrow> instant \<Rightarrow> bool \<Rightarrow> instant \<Rightarrow> instant \<Rightarrow> policy list \<Rightarrow> candidate set" where
  "due_candidates store dirtySince dirty startedAt now ps =
     {c. dirty \<and> c = control_candidate dirtySince}
     \<union> {policy_candidate p t | p t. p \<in> set ps \<and> due store startedAt now p t}"

text \<open>A policy whose schedule had an occurrence within the years \<^verbatim>\<open>Previous\<close> looks back.\<close>

definition recent :: "instant \<Rightarrow> policy \<Rightarrow> bool" where
  "recent now p \<longleftrightarrow>
     (\<exists>s u. cron_parse (po_cron p) = Inr s \<and> cron_matches s u \<and> u \<le> now
        \<and> add_years (- searchYears) (truncate_minute now) < u)"

lemma truncate_next_start: "truncate_minute now + ns_per_minute = next_start now"
  by (simp add: next_start_def)

lemma previous_start_next: "previous_start (next_start now) = truncate_minute now"
  by (simp add: previous_start_def next_start_def truncate_minute_def Let_def)

lemma until_now: "cron_matches s u \<Longrightarrow> u < next_start now \<longleftrightarrow> u \<le> now"
  using after_next_start [of s u now] by linarith

lemma latest_match_unique: "latest_match s now t \<Longrightarrow> latest_match s now u \<Longrightarrow> t = u"
  unfolding latest_match_def by (meson linorder_less_linear)

lemma previous_until_now:
  assumes "cron_parse v = Inr s"
  shows "(\<exists>t. cron_previous s (next_start now) = Some (Inr t) \<and> latest_match s now t)
    \<or> cron_previous s (next_start now) = Some (Inl NoPreviousOccurrence)
      \<and> (\<forall>u. u \<le> now \<and> add_years (- searchYears) (truncate_minute now) < u \<longrightarrow> \<not> cron_matches s u)"
  using previous_is_latest [OF assms, of "next_start now"] until_now [of s _ now]
  unfolding previous_start_next latest_match_def by metis

lemma policyCandidate_cases:
  assumes "policyCandidate store startedAt now p = Some (Inr r)"
  shows "c \<in> set_option r \<longleftrightarrow> (\<exists>t. due store startedAt now p t \<and> c = policy_candidate p t)"
proof (cases "cron_parse (po_cron p)")
  case (Inr s)
  show ?thesis
  proof (cases "\<exists>t. cron_previous s (next_start now) = Some (Inr t) \<and> latest_match s now t")
    case True
    then obtain t where t: "cron_previous s (next_start now) = Some (Inr t)" "latest_match s now t"
      by blast
    have "due store startedAt now p u \<longleftrightarrow> u = t \<and> po_enabled p \<and> startedAt < t
        \<and> ss_exists store (po_kind p) (po_id p) (unix_milli t) = Inr False" for u
      using t(2) latest_match_unique Inr by (auto simp: due_def)
    then show ?thesis
      using assms t(1) Inr
      by (auto simp: policyCandidate_def truncate_next_start split: if_splits sum.splits)
  next
    case False
    then show ?thesis
      using assms Inr previous_until_now [OF Inr, of now]
      by (auto simp: policyCandidate_def truncate_next_start due_def split: if_splits)
  qed
qed (use assms in \<open>auto simp: policyCandidate_def due_def split: if_splits\<close>)

lemma scanPolicies_due:
  "scanPolicies store startedAt now ps cs = Some (Inr ds) \<Longrightarrow>
     set ds = set cs \<union> {policy_candidate p t | p t. p \<in> set ps \<and> due store startedAt now p t}"
proof (induction ps arbitrary: cs)
  case (Cons p ps)
  obtain r where r: "policyCandidate store startedAt now p = Some (Inr r)"
    and rest: "scanPolicies store startedAt now ps (cs @ (case r of None \<Rightarrow> [] | Some c \<Rightarrow> [c])) = Some (Inr ds)"
    using Cons.prems by (auto split: option.splits sum.splits)
  have "set ds = set cs \<union> set_option r \<union> {policy_candidate p t | p t. p \<in> set ps \<and> due store startedAt now p t}"
    using Cons.IH [OF rest] by (auto split: option.splits)
  moreover have "set_option r = {policy_candidate p t | t. due store startedAt now p t}"
    using policyCandidate_cases [OF r] by blast
  ultimately show ?case
    by auto
qed simp

lemma scanPolicies_total:
  assumes "\<And>p. p \<in> set ps \<Longrightarrow> \<exists>r. policyCandidate store startedAt now p = Some (Inr r)"
  shows "\<exists>ds. scanPolicies store startedAt now ps cs = Some (Inr ds)"
  using assms
proof (induction ps arbitrary: cs)
  case (Cons p ps)
  then obtain r where "policyCandidate store startedAt now p = Some (Inr r)"
    by (meson list.set_intros(1))
  moreover have "\<exists>ds. scanPolicies store startedAt now ps ds' = Some (Inr ds)" for ds'
    using Cons by simp
  ultimately show ?case
    by (auto split: option.splits)
qed simp

lemma policyCandidate_total:
  assumes "po_enabled p \<Longrightarrow> recent now p" "\<And>k i m. \<exists>b. ss_exists store k i m = Inr b"
  shows "\<exists>r. policyCandidate store startedAt now p = Some (Inr r)"
proof (cases "po_enabled p")
  case True
  then obtain s u where s: "cron_parse (po_cron p) = Inr s"
    and "cron_matches s u" "u \<le> now" "add_years (- searchYears) (truncate_minute now) < u"
    using assms(1) unfolding recent_def by blast
  then obtain t where t: "cron_previous s (next_start now) = Some (Inr t)"
    using previous_until_now [OF s, of now] by metis
  obtain b where "ss_exists store (po_kind p) (po_id p) (unix_milli t) = Inr b"
    using assms(2) by blast
  with True s t show ?thesis
    by (simp add: policyCandidate_def truncate_next_start)
qed (simp add: policyCandidate_def)

lemma head_of_sorted:
  "(case sort_key f xs of [] \<Rightarrow> None | x # _ \<Rightarrow> Some x) = Some y \<Longrightarrow> y \<in> set xs \<and> (\<forall>z\<in>set xs. f y \<le> f z)"
proof -
  assume "(case sort_key f xs of [] \<Rightarrow> None | x # _ \<Rightarrow> Some x) = Some y"
  then obtain ys where ys: "sort_key f xs = y # ys"
    by (auto split: list.splits)
  then have "set xs = set (y # ys)" "sorted (map f (y # ys))"
    by (metis set_sort, metis sorted_sort_key)
  then show ?thesis
    by auto
qed

lemma head_of_empty: "(case sort_key f xs of [] \<Rightarrow> None | x # _ \<Rightarrow> Some x) = None \<longleftrightarrow> set xs = {}"
  by (metis (no_types, lifting) list.case(1) list.case(2) list.exhaust option.distinct(1) set_empty set_sort)

text \<open>
  \<^bold>\<open>C38.\<close> When the input is valid, the store answers and every enabled policy had an occurrence in the
  last eight years, \<^verbatim>\<open>SelectDueCandidate\<close> returns without an error. It returns nothing exactly when nothing is
  due: the control plane is not dirty and no enabled policy has an occurrence that is its latest, lies after the
  start of the process, not in the future, and has no recorded backup. Otherwise it returns one of the due
  backups, and no other has been due for longer (ties by kind and identifier).
\<close>

theorem select_longest_due:
  assumes "startedAt \<noteq> 0" "now \<noteq> 0" "startedAt \<le> now" "dirty \<Longrightarrow> dirtySince \<noteq> 0"
    and "ss_policies store = Inr ps" "\<And>k i m. \<exists>b. ss_exists store k i m = Inr b"
    and "\<And>p. p \<in> set ps \<Longrightarrow> po_enabled p \<Longrightarrow> recent now p"
  shows "\<exists>r. selectDueCandidate (Some store) dirtySince dirty startedAt now = Some (Inr r)
    \<and> (r = None \<longleftrightarrow> due_candidates store dirtySince dirty startedAt now ps = {})
    \<and> (\<forall>c. r = Some c \<longrightarrow> c \<in> due_candidates store dirtySince dirty startedAt now ps
         \<and> (\<forall>d\<in>due_candidates store dirtySince dirty startedAt now ps. due_key c \<le> due_key d))"
proof -
  let ?cs = "if dirty then [control_candidate dirtySince] else []"
  obtain ds where ds: "scanPolicies store startedAt now ps ?cs = Some (Inr ds)"
    using scanPolicies_total policyCandidate_total assms(6,7) by metis
  have "set ds = due_candidates store dirtySince dirty startedAt now ps"
    using scanPolicies_due [OF ds] by (auto simp: due_candidates_def)
  moreover have "selectDueCandidate (Some store) dirtySince dirty startedAt now
      = Some (Inr (case sort_key due_key ds of [] \<Rightarrow> None | c # _ \<Rightarrow> Some c))"
    using assms(1-5) ds by (simp add: selectDueCandidate_def)
  ultimately show ?thesis
    using head_of_sorted [of due_key ds] head_of_empty [of due_key ds] by metis
qed


text \<open>A yearly policy, looked at on 1 January 2024 at five.\<close>

definition sample_now :: instant where
  "sample_now = (738885 * 86400 + 5 * 3600) * 1000000000"

definition yearly_policy :: policy where
  "yearly_policy = \<lparr>po_kind = ''redis'', po_id = ''cache'', po_target = ''s3'', po_enabled = True,
     po_cron = ''30 4 1 1 0'', po_retention = 3\<rparr>"

definition yearly_store :: "unit schedule_store" where
  "yearly_store = \<lparr>ss_policies = Inr [yearly_policy], ss_exists = (\<lambda>_ _ _. Inr False)\<rparr>"

lemma yearly_recent: "recent sample_now yearly_policy"
proof -
  have "(case cron_parse ''30 4 1 1 0'' of Inl _ \<Rightarrow> False
      | Inr s \<Rightarrow> cron_matches s (sample_now - 30 * ns_per_minute))"
    and "add_years (- searchYears) (truncate_minute sample_now) < sample_now - 30 * ns_per_minute"
    and "sample_now - 30 * ns_per_minute \<le> sample_now"
    by code_simp+
  then show ?thesis
    by (cases "cron_parse ''30 4 1 1 0''") (auto simp: recent_def yearly_policy_def)
qed

theorem select_longest_due_witness:
  "\<exists>r. selectDueCandidate (Some yearly_store) 0 False 1 sample_now = Some (Inr r)
    \<and> (r = None \<longleftrightarrow> due_candidates yearly_store 0 False 1 sample_now [yearly_policy] = {})"
proof -
  have "(1 :: instant) \<noteq> 0" "sample_now \<noteq> 0" "1 \<le> sample_now" "False \<Longrightarrow> (0 :: instant) \<noteq> 0"
    by (simp_all add: sample_now_def)
  moreover have "ss_policies yearly_store = Inr [yearly_policy]" "\<And>k i m. \<exists>b. ss_exists yearly_store k i m = Inr b"
    by (auto simp: yearly_store_def)
  ultimately show ?thesis
    using select_longest_due [of 1 sample_now False 0 yearly_store "[yearly_policy]"] yearly_recent by auto
qed

section \<open>Schedules that never match\<close>

lemma february_days: "t_month t = 2 \<Longrightarrow> t_day t \<le> 29"
  by (auto simp: t_month_def t_day_def month_of_day_def mday_of_day_def month_in_year_def days_before_month_def Let_def
      split: if_splits)

lemma f_contains_exp: "bits f = 2 ^ k \<Longrightarrow> f_contains f v \<Longrightarrow> v = minimum f + int k"
  by (auto simp: f_contains_def push_bit_of_1 and_exp_nonzero bit_exp_iff split: if_splits)

text \<open>The thirtieth of February: \<^verbatim>\<open>Canonical\<close> accepts it, and it matches no instant.\<close>

lemma february_parsed:
  "case cron_parse ''0 0 30 2 *'' of Inl _ \<Rightarrow> False | Inr s \<Rightarrow>
     bits (s_month s) = 2 ^ 1 \<and> minimum (s_month s) = 1 \<and> bits (s_dayOfMonth s) = 2 ^ 29 \<and> minimum (s_dayOfMonth s) = 1
     \<and> \<not> wildcard (s_dayOfMonth s) \<and> wildcard (s_dayOfWeek s)"
  by code_simp

lemma february_thirtieth:
  "\<exists>s. cron_parse ''0 0 30 2 *'' = Inr s \<and> (\<forall>u. \<not> cron_matches s u)"
proof -
  obtain s where s: "cron_parse ''0 0 30 2 *'' = Inr s" "bits (s_month s) = 2 ^ 1" "minimum (s_month s) = 1"
    "bits (s_dayOfMonth s) = 2 ^ 29" "minimum (s_dayOfMonth s) = 1" "\<not> wildcard (s_dayOfMonth s)" "wildcard (s_dayOfWeek s)"
    using february_parsed by (cases "cron_parse ''0 0 30 2 *''") auto
  have "\<not> cron_matches s u" for u
  proof
    assume "cron_matches s u"
    then have "t_month u = 2" "t_day u = 30"
      using s(6,7) f_contains_exp [OF s(2)] f_contains_exp [OF s(4)] s(3,5)
      by (auto simp: cron_matches_def Let_def split: if_splits)
    then show False
      using february_days [of u] by simp
  qed
  with s(1) show ?thesis
    by blast
qed

lemma policyCandidate_error:
  assumes "po_enabled p" "cron_parse (po_cron p) = Inr s" "\<And>u. \<not> cron_matches s u"
  shows "policyCandidate store startedAt now p = Some (Inl (ScheduleFailed NoPreviousOccurrence))"
  using assms previous_until_now [OF assms(2), of now]
  by (auto simp: policyCandidate_def truncate_next_start latest_match_def)

lemma policyCandidate_returns: "policyCandidate store startedAt now p \<noteq> None"
  using previous_until_now [of "po_cron p" _ now]
  by (fastforce simp: policyCandidate_def truncate_next_start split: sum.splits option.splits)

lemma scanPolicies_error:
  assumes "p \<in> set ps" "policyCandidate store startedAt now p = Some (Inl e)"
  shows "\<exists>e. scanPolicies store startedAt now ps cs = Some (Inl e)"
  using assms(1)
proof (induction ps arbitrary: cs)
  case (Cons q ps)
  show ?case
  proof (cases "q = p")
    case False
    then show ?thesis
      using Cons policyCandidate_returns [of store startedAt now q] by (auto split: option.splits sum.splits)
  qed (simp add: assms(2))
qed simp

text \<open>
  \<^bold>\<open>C39.\<close> One enabled policy whose schedule matches no instant stops every backup: whatever the other
  policies, the time and the state of the control plane, \<^verbatim>\<open>SelectDueCandidate\<close> returns an error, although
  \<^verbatim>\<open>Parse\<close> and \<^verbatim>\<open>Canonical\<close> accept the schedule, so that the policy can be stored.
\<close>

theorem impossible_policy_stops_all:
  assumes "ss_policies store = Inr ps" "p \<in> set ps" "po_enabled p"
    and "cron_parse (po_cron p) = Inr s" "\<And>u. \<not> cron_matches s u"
  shows "\<exists>e. selectDueCandidate (Some store) dirtySince dirty startedAt now = Some (Inl e)"
proof -
  let ?cs = "if dirty then [control_candidate dirtySince] else []"
  obtain e where "scanPolicies store startedAt now ps ?cs = Some (Inl e)"
    using scanPolicies_error [OF assms(2) policyCandidate_error [OF assms(3-5)]] by blast
  then show ?thesis
    using assms(1) by (simp add: selectDueCandidate_def)
qed

text \<open>A dirty control plane beside a backup on the thirtieth of February.\<close>

definition february_policy :: policy where
  "february_policy = yearly_policy\<lparr>po_kind := ''volume'', po_id := ''data'', po_cron := ''0 0 30 2 *''\<rparr>"

definition february_store :: "unit schedule_store" where
  "february_store = yearly_store\<lparr>ss_policies := Inr [yearly_policy, february_policy]\<rparr>"

theorem impossible_policy_stops_all_witness:
  "\<exists>e. selectDueCandidate (Some february_store) 1 True 1 sample_now = Some (Inl e)"
proof -
  obtain s where "cron_parse (po_cron february_policy) = Inr s" "\<And>u. \<not> cron_matches s u"
    using february_thirtieth by (auto simp: february_policy_def)
  then show ?thesis
    using impossible_policy_stops_all [of february_store "[yearly_policy, february_policy]" february_policy s]
    by (simp add: february_store_def february_policy_def yearly_policy_def)
qed

end
