(* ===== verification/Backup_Worker.thy ===== *)
theory Backup_Worker
  imports Backup_Schedule Transition
begin

text \<open>
  The dirty tracker and the worker of package \<^verbatim>\<open>backup\<close> (\<^verbatim>\<open>dirty.go\<close>, \<^verbatim>\<open>worker.go\<close>): one goroutine runs \<^verbatim>\<open>Run\<close>,
  any number of callers are in \<^verbatim>\<open>TryRunNow\<close>, and changes of the control plane call \<^verbatim>\<open>Mark\<close>. \<open>worker_step\<close> interleaves
  them; a step is what a goroutine does between two operations on a mutex or a channel. What the runners of
  backups return, the answers of the store, the clock and the cancellation of contexts are left open by the step.
  A channel of capacity one that only carries a signal is a flag.
\<close>

section \<open>The dirty tracker\<close>

record tracker =
  dt_dirty :: bool
  dt_since :: instant
  dt_wake :: bool

definition newDirtyTracker :: tracker where
  "newDirtyTracker = \<lparr>dt_dirty = False, dt_since = 0, dt_wake = False\<rparr>"

definition setDirty :: "instant \<Rightarrow> tracker \<Rightarrow> tracker" where
  "setDirty at d = (if dt_dirty d then d else d\<lparr>dt_dirty := True, dt_since := at\<rparr>)"

definition signalDirty :: "tracker \<Rightarrow> tracker" where
  "signalDirty d = d\<lparr>dt_wake := True\<rparr>"

text \<open>\<^verbatim>\<open>Mark\<close> is \<open>setDirty\<close> under the mutex and then \<open>signalDirty\<close>, unless the time is zero.\<close>

definition retry :: "instant \<Rightarrow> tracker \<Rightarrow> tracker" where
  "retry since d = (if since = 0 then d else signalDirty (setDirty since d))"

definition takeDirty :: "tracker \<Rightarrow> (instant \<times> bool) \<times> tracker" where
  "takeDirty d = (if \<not> dt_dirty d then ((0, False), d) else ((dt_since d, True), d\<lparr>dt_dirty := False, dt_since := 0\<rparr>))"

definition peek :: "tracker \<Rightarrow> instant \<times> bool" where
  "peek d = (dt_since d, dt_dirty d)"

section \<open>The worker\<close>

record manual_request =
  mr_caller :: nat
  mr_kind :: string
  mr_id :: string
  mr_target :: string
  mr_retention :: int

text \<open>Errors of the runners, as far as the worker tells them apart; a record of a backup is its identifier.\<close>

datatype run_error = PublishedError | TargetMissing | OtherError

type_synonym run_result = "string \<times> run_error option"

datatype caller_result = NotConfigured | WorkerBusy | CallerCancelled | StartedWith run_result

datatype caller_pc = Entering | Sending | Signalling | Awaiting | Returned caller_result

record caller =
  ca_request :: manual_request
  ca_started :: "run_result option"
  ca_pc :: caller_pc

text \<open>Where \<^verbatim>\<open>Run\<close> is; \<open>Finishing\<close> is before \<^verbatim>\<open>finishBusy\<close>, with what follows: the next round or the return.\<close>

datatype run_pc =
    Looping
  | Idling
  | BackingOff
  | Manual manual_request bool
  | Selected candidate
  | Taking
  | RunningControl instant
  | RetryWaiting
  | RunningResource candidate
  | ResourceWaiting
  | Finishing bool
  | RunReturned

text \<open>
  \<open>wk_marking\<close> counts the calls of \<^verbatim>\<open>Mark\<close> that have left the mutex and not signalled yet. The last three fields do not
  exist in the code and no operation reads them. They only log what happened: how many changes of the control plane were
  marked (the changes are numbered in this order), how many of them when \<^verbatim>\<open>Take\<close> last answered, which are the ones a
  control backup that starts then finds in the database, and for every control backup that ended this number
  and what \<^verbatim>\<open>RunControl\<close> returned.
\<close>

record worker =
  wk_tracker :: tracker
  wk_marking :: nat
  wk_busy :: bool
  wk_manual :: "manual_request list"
  wk_manualWake :: bool
  wk_run :: run_pc
  wk_callers :: "caller list"
  wk_reported :: nat
  wk_marks :: nat
  wk_taken :: nat
  wk_outcomes :: "(nat \<times> run_error option) list"

record 'e worker_config =
  wc_dirty :: "tracker option"
  wc_hasControl :: bool
  wc_store :: "'e schedule_store option"
  wc_hasResources :: bool
  wc_startedAt :: instant
  wc_retryDelay :: int

datatype worker_config_error = DependenciesIncomplete | ConfigurationIncomplete | StoreWithoutRunner

definition defaultWorkerRetryDelay :: int where "defaultWorkerRetryDelay = 5 * 1000000000"

definition newWorker :: "'e worker_config \<Rightarrow> worker_config_error + worker \<times> int" where
  "newWorker config =
     (case wc_dirty config of
        None \<Rightarrow> Inl ConfigurationIncomplete
      | Some dirty \<Rightarrow>
          if \<not> wc_hasControl config \<or> wc_retryDelay config < 0 then Inl ConfigurationIncomplete
          else if (wc_store config = None) \<noteq> (\<not> wc_hasResources config) then Inl StoreWithoutRunner
          else Inr (\<lparr>wk_tracker = dirty, wk_marking = 0, wk_busy = False, wk_manual = [], wk_manualWake = False, wk_run = Looping,
                     wk_callers = [], wk_reported = 0, wk_marks = 0, wk_taken = 0, wk_outcomes = []\<rparr>,
                    if wc_retryDelay config = 0 then defaultWorkerRetryDelay else wc_retryDelay config))"

definition newScheduledWorker :: "'e worker_config \<Rightarrow> worker_config_error + worker \<times> int" where
  "newScheduledWorker config =
     (if wc_store config = None \<or> \<not> wc_hasResources config \<or> wc_startedAt config = 0 then Inl DependenciesIncomplete
      else newWorker config)"

definition nextCandidate ::
  "'e schedule_store option \<Rightarrow> instant \<Rightarrow> instant \<Rightarrow> tracker \<Rightarrow> ('e select_error + candidate option) option" where
  "nextCandidate store startedAt now d =
     (case peek d of (dirtySince, dirty) \<Rightarrow>
        (case store of
           None \<Rightarrow> Some (Inr (if \<not> dirty then None else Some (control_candidate dirtySince)))
         | Some st \<Rightarrow> selectDueCandidate (Some st) dirtySince dirty startedAt now))"

definition nextMinuteDelay :: "instant \<Rightarrow> int" where
  "nextMinuteDelay now = (let delay = truncate_minute now + ns_per_minute - now in if delay \<le> 0 then ns_per_minute else delay)"

definition finishBusy :: "worker \<Rightarrow> worker" where
  "finishBusy w = w\<lparr>wk_busy := False\<rparr>"

definition tryBeginScheduled :: "worker \<Rightarrow> bool \<times> worker" where
  "tryBeginScheduled w = (if wk_busy w then (False, w) else (True, w\<lparr>wk_busy := True\<rparr>))"

definition reportError :: "worker \<Rightarrow> worker" where
  "reportError w = w\<lparr>wk_reported := wk_reported w + 1\<rparr>"

definition reportResource :: "run_error option \<Rightarrow> worker \<Rightarrow> worker" where
  "reportResource e w = (if e = Some OtherError then reportError w else w)"

text \<open>\<^verbatim>\<open>Run\<close> once a round has its candidate, or none.\<close>

definition afterSelect :: "('e select_error + candidate option) \<Rightarrow> worker \<Rightarrow> worker" where
  "afterSelect r w =
     (case r of
        Inl _ \<Rightarrow> (reportError w)\<lparr>wk_run := BackingOff\<rparr>
      | Inr None \<Rightarrow> w\<lparr>wk_run := Idling\<rparr>
      | Inr (Some c) \<Rightarrow> w\<lparr>wk_run := Selected c\<rparr>)"

definition beginSelected :: "candidate \<Rightarrow> worker \<Rightarrow> worker" where
  "beginSelected c w =
     (case tryBeginScheduled w of
        (False, w) \<Rightarrow> w\<lparr>wk_run := Looping\<rparr>
      | (True, w) \<Rightarrow> w\<lparr>wk_run := (if dc_kind c = ''control'' then Taking else RunningResource c)\<rparr>)"

definition takeControl :: "worker \<Rightarrow> worker" where
  "takeControl w =
     (case takeDirty (wk_tracker w) of
        ((since, dirty), d) \<Rightarrow>
          if \<not> dirty then w\<lparr>wk_run := Finishing True\<rparr>
          else w\<lparr>wk_tracker := d, wk_run := RunningControl since, wk_taken := wk_marks w\<rparr>)"

definition controlEnded :: "instant \<Rightarrow> run_error option \<Rightarrow> worker \<Rightarrow> worker" where
  "controlEnded since e w =
     (let w = w\<lparr>wk_outcomes := wk_outcomes w @ [(wk_taken w, e)]\<rparr>
      in case e of
           None \<Rightarrow> w\<lparr>wk_run := Finishing True\<rparr>
         | Some TargetMissing \<Rightarrow> w\<lparr>wk_run := Finishing True\<rparr>
         | Some PublishedError \<Rightarrow> (reportError w)\<lparr>wk_run := Finishing True\<rparr>
         | Some OtherError \<Rightarrow>
             (reportError w)\<lparr>wk_tracker := retry since (wk_tracker w), wk_run := RetryWaiting\<rparr>)"

definition resourceEnded :: "run_result \<Rightarrow> worker \<Rightarrow> worker" where
  "resourceEnded r w =
     (case r of
        (recordID, None) \<Rightarrow> w\<lparr>wk_run := Finishing True\<rparr>
      | (recordID, Some e) \<Rightarrow>
          (reportResource (Some e) w)\<lparr>wk_run := (if recordID = [] then ResourceWaiting else Finishing True)\<rparr>)"

definition set_caller :: "nat \<Rightarrow> caller \<Rightarrow> worker \<Rightarrow> worker" where
  "set_caller i c w = w\<lparr>wk_callers := (wk_callers w)[i := c]\<rparr>"

definition sendStarted :: "nat \<Rightarrow> run_result \<Rightarrow> worker \<Rightarrow> worker" where
  "sendStarted i r w = set_caller i ((wk_callers w ! i)\<lparr>ca_started := Some r\<rparr>) w"

definition manualEnded :: "manual_request \<Rightarrow> bool \<Rightarrow> run_result \<Rightarrow> worker \<Rightarrow> worker" where
  "manualEnded q started r w =
     (let w = (if started then w else sendStarted (mr_caller q) r w)
      in (reportResource (snd r) w)\<lparr>wk_run := Finishing True\<rparr>)"

text \<open>\<^verbatim>\<open>TryRunNow\<close>: taking the worker, sending the request, the signal, and the wait for the start.\<close>

definition enterManual :: "bool \<Rightarrow> nat \<Rightarrow> worker \<Rightarrow> worker" where
  "enterManual hasResources i w =
     (let c = wk_callers w ! i
      in if \<not> hasResources then set_caller i (c\<lparr>ca_pc := Returned NotConfigured\<rparr>) w
         else if wk_busy w then set_caller i (c\<lparr>ca_pc := Returned WorkerBusy\<rparr>) w
         else set_caller i (c\<lparr>ca_pc := Sending\<rparr>) (w\<lparr>wk_busy := True\<rparr>))"

definition sendManual :: "nat \<Rightarrow> worker \<Rightarrow> worker" where
  "sendManual i w =
     set_caller i ((wk_callers w ! i)\<lparr>ca_pc := Signalling\<rparr>) (w\<lparr>wk_manual := wk_manual w @ [ca_request (wk_callers w ! i)]\<rparr>)"

definition signalManual :: "nat \<Rightarrow> worker \<Rightarrow> worker" where
  "signalManual i w = set_caller i ((wk_callers w ! i)\<lparr>ca_pc := Awaiting\<rparr>) (w\<lparr>wk_manualWake := True\<rparr>)"

definition returnManual :: "nat \<Rightarrow> caller_result \<Rightarrow> worker \<Rightarrow> worker" where
  "returnManual i r w = set_caller i ((wk_callers w ! i)\<lparr>ca_pc := Returned r\<rparr>) w"

abbreviation "caller_at w i pc \<equiv> i < length (wk_callers w) \<and> ca_pc (wk_callers w ! i) = pc"

section \<open>Interleaving\<close>

text \<open>
  \<open>hasStore\<close> says whether the worker is scheduled; it has a runner of resources exactly then. The channel of manual
  requests has room for one.
\<close>

inductive worker_step :: "bool \<Rightarrow> instant \<Rightarrow> worker \<Rightarrow> worker \<Rightarrow> bool" for hasStore startedAt where
  step_mark: "at \<noteq> 0 \<Longrightarrow> worker_step hasStore startedAt w
    (w\<lparr>wk_tracker := setDirty at (wk_tracker w), wk_marking := wk_marking w + 1, wk_marks := wk_marks w + 1\<rparr>)"
| step_mark_signal: "0 < wk_marking w \<Longrightarrow> worker_step hasStore startedAt w
    (w\<lparr>wk_tracker := signalDirty (wk_tracker w), wk_marking := wk_marking w - 1\<rparr>)"
| step_receive: "wk_run w = Looping \<Longrightarrow> wk_manual w = q # qs \<Longrightarrow>
    worker_step hasStore startedAt w (w\<lparr>wk_run := Manual q False, wk_manual := qs\<rparr>)"
| step_select: "wk_run w = Looping \<Longrightarrow> wk_manual w = [] \<Longrightarrow> (store = None \<longleftrightarrow> \<not> hasStore) \<Longrightarrow>
    nextCandidate (store :: string schedule_store option) startedAt now (wk_tracker w) = Some r \<Longrightarrow>
    worker_step hasStore startedAt w (afterSelect r w)"
| step_woken_dirty: "wk_run w \<in> {Idling, BackingOff} \<Longrightarrow> dt_wake (wk_tracker w) \<Longrightarrow>
    worker_step hasStore startedAt w (w\<lparr>wk_tracker := (wk_tracker w)\<lparr>dt_wake := False\<rparr>, wk_run := Looping\<rparr>)"
| step_woken_manual: "wk_run w \<in> {Idling, BackingOff} \<Longrightarrow> wk_manualWake w \<Longrightarrow>
    worker_step hasStore startedAt w (w\<lparr>wk_manualWake := False, wk_run := Looping\<rparr>)"
| step_timer: "wk_run w \<in> {Idling, BackingOff} \<Longrightarrow> worker_step hasStore startedAt w (w\<lparr>wk_run := Looping\<rparr>)"
| step_cancelled: "wk_run w \<in> {Idling, BackingOff} \<Longrightarrow> worker_step hasStore startedAt w (w\<lparr>wk_run := RunReturned\<rparr>)"
| step_begin: "wk_run w = Selected c \<Longrightarrow> worker_step hasStore startedAt w (beginSelected c w)"
| step_take: "wk_run w = Taking \<Longrightarrow> worker_step hasStore startedAt w (takeControl w)"
| step_control: "wk_run w = RunningControl since \<Longrightarrow> worker_step hasStore startedAt w (controlEnded since e w)"
| step_retried: "wk_run w = RetryWaiting \<Longrightarrow> worker_step hasStore startedAt w (w\<lparr>wk_run := Finishing goOn\<rparr>)"
| step_resource: "wk_run w = RunningResource c \<Longrightarrow> worker_step hasStore startedAt w (resourceEnded r w)"
| step_waited_dirty: "wk_run w = ResourceWaiting \<Longrightarrow> dt_wake (wk_tracker w) \<Longrightarrow>
    worker_step hasStore startedAt w (w\<lparr>wk_tracker := (wk_tracker w)\<lparr>dt_wake := False\<rparr>, wk_run := Finishing True\<rparr>)"
| step_waited_manual: "wk_run w = ResourceWaiting \<Longrightarrow> wk_manualWake w \<Longrightarrow>
    worker_step hasStore startedAt w (w\<lparr>wk_manualWake := False, wk_run := Finishing True\<rparr>)"
| step_waited: "wk_run w = ResourceWaiting \<Longrightarrow> worker_step hasStore startedAt w (w\<lparr>wk_run := Finishing goOn\<rparr>)"
| step_manual_started: "wk_run w = Manual q False \<Longrightarrow>
    worker_step hasStore startedAt w ((sendStarted (mr_caller q) (recordID, None) w)\<lparr>wk_run := Manual q True\<rparr>)"
| step_manual_ended: "wk_run w = Manual q started \<Longrightarrow> worker_step hasStore startedAt w (manualEnded q started r w)"
| step_finish: "wk_run w = Finishing goOn \<Longrightarrow>
    worker_step hasStore startedAt w ((finishBusy w)\<lparr>wk_run := (if goOn then Looping else RunReturned)\<rparr>)"
| step_call: "mr_caller q = length (wk_callers w) \<Longrightarrow>
    worker_step hasStore startedAt w (w\<lparr>wk_callers := wk_callers w @ [\<lparr>ca_request = q, ca_started = None, ca_pc = Entering\<rparr>]\<rparr>)"
| step_enter: "caller_at w i Entering \<Longrightarrow> worker_step hasStore startedAt w (enterManual hasStore i w)"
| step_send: "caller_at w i Sending \<Longrightarrow> wk_manual w = [] \<Longrightarrow> worker_step hasStore startedAt w (sendManual i w)"
| step_signal: "caller_at w i Signalling \<Longrightarrow> worker_step hasStore startedAt w (signalManual i w)"
| step_caller_cancelled: "caller_at w i Awaiting \<Longrightarrow> worker_step hasStore startedAt w (returnManual i CallerCancelled w)"
| step_caller_started: "caller_at w i Awaiting \<Longrightarrow> ca_started (wk_callers w ! i) = Some r \<Longrightarrow>
    worker_step hasStore startedAt w (returnManual i (StartedWith r) w)"

definition idle_worker :: "worker \<Rightarrow> bool" where
  "idle_worker w \<longleftrightarrow>
     (\<exists>(config :: string worker_config) delay. wc_dirty config = Some newDirtyTracker \<and> newWorker config = Inr (w, delay))"

abbreviation "worker_reachable hasStore startedAt \<equiv> reachable idle_worker (worker_step hasStore startedAt)"


section \<open>One backup at a time\<close>

text \<open>Who holds the worker: \<^verbatim>\<open>Run\<close> within a backup, a caller before its send, a request in the channel.\<close>

fun run_owns :: "run_pc \<Rightarrow> bool" where
  "run_owns (Manual q started) = True"
| "run_owns Taking = True"
| "run_owns (RunningControl since) = True"
| "run_owns RetryWaiting = True"
| "run_owns (RunningResource c) = True"
| "run_owns ResourceWaiting = True"
| "run_owns (Finishing goOn) = True"
| "run_owns _ = False"

definition sends :: "caller list \<Rightarrow> nat" where
  "sends cs = length (filter (\<lambda>c. ca_pc c = Sending) cs)"

definition owners :: "worker \<Rightarrow> nat" where
  "owners w = of_bool (run_owns (wk_run w)) + length (wk_manual w) + sends (wk_callers w)"

definition ownership :: "worker \<Rightarrow> bool" where
  "ownership w \<longleftrightarrow> owners w = of_bool (wk_busy w)"

lemma sends_update:
  "i < length cs \<Longrightarrow> ca_pc (cs ! i) = p \<Longrightarrow> ca_pc c = p' \<Longrightarrow>
     sends (cs[i := c]) + of_bool (p = Sending) = sends cs + of_bool (p' = Sending)"
  using length_filter_update [of i cs "\<lambda>c. ca_pc c = Sending" c] by (simp add: sends_def)

lemma sends_same_pc [simp]: "ca_pc c = ca_pc (cs ! i) \<Longrightarrow> sends (cs[i := c]) = sends cs"
  using sends_update [of i cs "ca_pc (cs ! i)" c] by (cases "i < length cs") (auto simp: list_update_beyond)

lemma sends_snoc [simp]: "sends (cs @ [c]) = sends cs + of_bool (ca_pc c = Sending)"
  by (simp add: sends_def)

lemma Suc_of_bool [simp]: "Suc n = of_bool b \<longleftrightarrow> b \<and> n = 0"
  by (cases b) auto

lemmas worker_ops = afterSelect_def beginSelected_def takeControl_def controlEnded_def resourceEnded_def manualEnded_def
  sendStarted_def set_caller_def tryBeginScheduled_def finishBusy_def reportError_def reportResource_def takeDirty_def Let_def

lemmas caller_ops = enterManual_def sendManual_def signalManual_def returnManual_def set_caller_def Let_def

lemma ownership_step: "worker_step hasStore startedAt w w' \<Longrightarrow> ownership w \<Longrightarrow> ownership w'"
proof (induction rule: worker_step.induct)
  case (step_enter w i)
  then show ?case
    using sends_update [of i "wk_callers w" Entering]
    by (auto simp: ownership_def owners_def caller_ops)
next
  case (step_send w i)
  then show ?case
    using sends_update [of i "wk_callers w" Sending "(wk_callers w ! i)\<lparr>ca_pc := Signalling\<rparr>"]
    by (auto simp: ownership_def owners_def caller_ops of_bool_def split: if_splits)
next
  case (step_signal w i)
  then show ?case
    using sends_update [of i "wk_callers w" Signalling _ Awaiting]
    by (auto simp: ownership_def owners_def caller_ops)
next
  case (step_caller_cancelled w i)
  then show ?case
    using sends_update [of i "wk_callers w" Awaiting]
    by (auto simp: ownership_def owners_def caller_ops)
next
  case (step_caller_started w i r)
  then show ?case
    using sends_update [of i "wk_callers w" Awaiting]
    by (auto simp: ownership_def owners_def caller_ops)
next
  case (step_select w store now r)
  then show ?case
    by (auto simp: ownership_def owners_def worker_ops split: option.splits sum.splits)
next
  case (step_control w since e)
  then show ?case
    by (auto simp: ownership_def owners_def worker_ops of_bool_def split: option.splits run_error.splits if_splits)
next
  case (step_resource w c r)
  then show ?case
    by (auto simp: ownership_def owners_def worker_ops split: option.splits prod.splits)
qed (auto simp: ownership_def owners_def worker_ops)


lemma idle_worker_facts:
  assumes "idle_worker w"
  shows "wk_tracker w = newDirtyTracker" "wk_busy w = False" "wk_manual w = []" "wk_run w = Looping" "wk_callers w = []"
    "wk_marks w = 0" "wk_outcomes w = []"
  using assms by (auto simp: idle_worker_def newWorker_def split: if_splits)

interpretation wo: inductive_invariant idle_worker "worker_step hasStore startedAt" ownership for hasStore startedAt
  by unfold_locales (simp add: ownership_def owners_def sends_def idle_worker_facts, fact ownership_step)

text \<open>
  \<^bold>\<open>C37.\<close> Whatever the interleaving, the worker runs one backup at a time: \<^verbatim>\<open>Run\<close> within a backup, a
  request in the channel and a caller of \<^verbatim>\<open>TryRunNow\<close> about to send exclude each other, and the flag is set exactly
  while one of them exists, so that a caller is refused as busy only then. In particular the channel has room for
  every caller that sends, although it holds the worker: \<^verbatim>\<open>TryRunNow\<close> does not block before its wait.
\<close>

theorem one_backup_at_a_time:
  assumes "worker_reachable hasStore startedAt w"
  shows "of_bool (run_owns (wk_run w)) + length (wk_manual w) + sends (wk_callers w) = (of_bool (wk_busy w) :: nat)
    \<and> (i < length (wk_callers w) \<and> ca_pc (wk_callers w ! i) = Sending \<longrightarrow> wk_manual w = [] \<and> \<not> run_owns (wk_run w))"
proof -
  have own: "owners w = of_bool (wk_busy w)"
    using wo.invariant [OF assms] by (simp add: ownership_def)
  have "length (wk_manual w) = 0 \<and> \<not> run_owns (wk_run w)"
    if "i < length (wk_callers w)" "ca_pc (wk_callers w ! i) = Sending"
  proof -
    have "0 < sends (wk_callers w)"
      using that nth_mem by (fastforce simp: sends_def filter_empty_conv)
    then show ?thesis
      using own by (cases "wk_manual w") (auto simp: owners_def of_bool_def split: if_splits)
  qed
  then show ?thesis
    using own by (auto simp: owners_def)
qed

text \<open>A worker without a schedule that has gone idle, and one with a caller about to send.\<close>

definition new_worker :: worker where
  "new_worker = \<lparr>wk_tracker = newDirtyTracker, wk_marking = 0, wk_busy = False, wk_manual = [], wk_manualWake = False,
     wk_run = Looping, wk_callers = [], wk_reported = 0, wk_marks = 0, wk_taken = 0, wk_outcomes = []\<rparr>"

definition manual_redis :: manual_request where
  "manual_redis = \<lparr>mr_caller = 0, mr_kind = ''redis'', mr_id = ''cache'', mr_target = ''s3'', mr_retention = 3\<rparr>"

definition sending_worker :: worker where
  "sending_worker = new_worker\<lparr>wk_busy := True, wk_callers := [\<lparr>ca_request = manual_redis, ca_started = None, ca_pc = Sending\<rparr>]\<rparr>"

lemma new_reachable: "worker_reachable hasStore startedAt new_worker"
proof (rule reachable_start)
  let ?config = "\<lparr>wc_dirty = Some newDirtyTracker, wc_hasControl = True, wc_store = None, wc_hasResources = False,
    wc_startedAt = 1, wc_retryDelay = 0\<rparr> :: string worker_config"
  have "wc_dirty ?config = Some newDirtyTracker \<and> newWorker ?config = Inr (new_worker, defaultWorkerRetryDelay)"
    by (simp add: newWorker_def new_worker_def)
  then show "idle_worker new_worker"
    unfolding idle_worker_def by blast
qed

lemma sending_reachable: "worker_reachable True startedAt sending_worker"
proof -
  let ?called = "new_worker\<lparr>wk_callers := [\<lparr>ca_request = manual_redis, ca_started = None, ca_pc = Entering\<rparr>]\<rparr>"
  have "worker_reachable True startedAt ?called"
    by (rule reachable_to [OF new_reachable step_call [of manual_redis]]) (simp_all add: manual_redis_def new_worker_def)
  moreover have "worker_step True startedAt ?called sending_worker"
    using step_enter [of 0 ?called True startedAt]
    by (simp add: new_worker_def sending_worker_def enterManual_def set_caller_def)
  ultimately show ?thesis
    by (rule reachable_step)
qed

theorem one_backup_at_a_time_witness:
  "wk_manual sending_worker = [] \<and> \<not> run_owns (wk_run sending_worker) \<and> wk_busy sending_worker"
  using one_backup_at_a_time [OF sending_reachable [of 1], of 0]
  by (simp add: sending_worker_def new_worker_def)

section \<open>No change is forgotten\<close>

text \<open>A dirty control plane is always a candidate.\<close>

lemma scanPolicies_keeps:
  "scanPolicies store startedAt now ps cs = Some (Inr ds) \<Longrightarrow> set cs \<subseteq> set ds"
  using scanPolicies_due [of store startedAt now ps cs ds] by auto

lemma dirty_selects:
  assumes "nextCandidate store startedAt now d = Some (Inr r)" "dt_dirty d"
  shows "r \<noteq> None"
proof (cases store)
  case (Some st)
  have "set ds \<noteq> {}" if "scanPolicies st startedAt now ps [control_candidate (dt_since d)] = Some (Inr ds)" for ps ds
    using scanPolicies_keeps [OF that] by auto
  then show ?thesis
    using assms Some head_of_empty [of due_key]
    by (auto simp: nextCandidate_def peek_def selectDueCandidate_def split: if_splits sum.splits option.splits)
qed (use assms in \<open>auto simp: nextCandidate_def peek_def\<close>)

text \<open>
  What became of a change by the log: a control backup that was taken after it published a generation, or one
  found that no target is configured.
\<close>

definition control_saved :: "worker \<Rightarrow> nat \<Rightarrow> bool" where
  "control_saved w c \<longleftrightarrow> list_ex (\<lambda>(n, e). c < n \<and> (e = None \<or> e = Some PublishedError)) (wk_outcomes w)"

definition control_untargeted :: "worker \<Rightarrow> nat \<Rightarrow> bool" where
  "control_untargeted w c \<longleftrightarrow> list_ex (\<lambda>(n, e). c < n \<and> e = Some TargetMissing) (wk_outcomes w)"

definition change_open :: "worker \<Rightarrow> nat \<Rightarrow> bool" where
  "change_open w c \<longleftrightarrow> c < wk_marks w \<and> \<not> control_saved w c \<and> \<not> control_untargeted w c"

definition remembered :: "worker \<Rightarrow> bool" where
  "remembered w \<longleftrightarrow>
     (\<forall>c. change_open w c \<longrightarrow>
        dt_dirty (wk_tracker w) \<or> ((\<exists>since. wk_run w = RunningControl since) \<and> c < wk_taken w))
     \<and> (dt_dirty (wk_tracker w) \<longrightarrow> dt_since (wk_tracker w) \<noteq> 0)
     \<and> (\<forall>since. wk_run w = RunningControl since \<longrightarrow> since \<noteq> 0)
     \<and> (wk_run w = Idling \<and> dt_dirty (wk_tracker w) \<longrightarrow> dt_wake (wk_tracker w) \<or> 0 < wk_marking w)"

lemmas change_defs = change_open_def control_saved_def control_untargeted_def

lemma remembered_step: "worker_step hasStore startedAt w w' \<Longrightarrow> remembered w \<Longrightarrow> remembered w'"
proof (induction rule: worker_step.induct)
  case (step_select w store now r)
  then show ?case
    using dirty_selects [of store startedAt now "wk_tracker w"]
    by (auto simp: remembered_def change_defs worker_ops split: option.splits sum.splits)
next
  case (step_control w since e)
  then show ?case
    by (auto simp: remembered_def change_defs worker_ops retry_def setDirty_def signalDirty_def split: option.splits run_error.splits)
next
  case (step_resource w c r)
  then show ?case
    by (auto simp: remembered_def change_defs worker_ops split: option.splits prod.splits)
qed (auto simp: remembered_def change_defs worker_ops caller_ops setDirty_def signalDirty_def)

interpretation wr: inductive_invariant idle_worker "worker_step hasStore startedAt" remembered for hasStore startedAt
  by unfold_locales (simp add: remembered_def change_open_def newDirtyTracker_def idle_worker_facts, fact remembered_step)

text \<open>
  \<^bold>\<open>C11.\<close> No change of the control plane is forgotten, whatever the interleaving. For every change
  that was marked, one of four things holds: a control backup taken after it ended with a published generation
  (without an error, or with one after the publication); a control backup taken after it found that no target is configured,
  which the worker does not retry; the control backup that runs was taken after it; or the tracker is dirty. In the
  last case the selection never finds nothing to do, and a worker that sleeps until the next minute is woken: the signal is there, or
  a caller of \<^verbatim>\<open>Mark\<close> is about to give it. So a control backup that fails in any other way gives its changes back.
\<close>

theorem no_change_forgotten:
  assumes "worker_reachable hasStore startedAt w" and "c < wk_marks w"
  shows "(\<exists>n e. (n, e) \<in> set (wk_outcomes w) \<and> c < n \<and> (e = None \<or> e = Some PublishedError))
    \<or> (\<exists>n. (n, Some TargetMissing) \<in> set (wk_outcomes w) \<and> c < n)
    \<or> ((\<exists>since. wk_run w = RunningControl since) \<and> c < wk_taken w)
    \<or> (dt_dirty (wk_tracker w)
        \<and> nextCandidate store startedAt now (wk_tracker w) \<noteq> Some (Inr None)
        \<and> (wk_run w = Idling \<longrightarrow> dt_wake (wk_tracker w) \<or> 0 < wk_marking w))"
proof -
  have inv: "remembered w"
    by (rule wr.invariant [OF assms(1)])
  have candidate: "nextCandidate store startedAt now (wk_tracker w) \<noteq> Some (Inr None)" if "dt_dirty (wk_tracker w)"
    using dirty_selects [OF _ that] by blast
  have "control_saved w c \<or> control_untargeted w c \<or> change_open w c"
    using assms(2) by (auto simp: change_open_def)
  then show ?thesis
  proof (elim disjE)
    assume "control_saved w c"
    then show ?thesis
      unfolding control_saved_def list_ex_iff by fast
  next
    assume "control_untargeted w c"
    then show ?thesis
      unfolding control_untargeted_def list_ex_iff by fast
  next
    assume "change_open w c"
    then have "dt_dirty (wk_tracker w) \<or> ((\<exists>since. wk_run w = RunningControl since) \<and> c < wk_taken w)"
      using inv by (simp add: remembered_def)
    then show ?thesis
      using inv candidate unfolding remembered_def by (elim disjE) simp_all
  qed
qed


text \<open>A change while the worker sleeps.\<close>

definition marked_worker :: worker where
  "marked_worker = new_worker\<lparr>wk_tracker := setDirty 7 newDirtyTracker, wk_marking := 1, wk_run := Idling, wk_marks := 1\<rparr>"

lemma marked_reachable: "worker_reachable False 1 marked_worker"
proof -
  have "nextCandidate (None :: string schedule_store option) 1 5 (wk_tracker new_worker) = Some (Inr None)"
    by (simp add: nextCandidate_def peek_def new_worker_def newDirtyTracker_def)
  then have "worker_step False 1 new_worker (afterSelect (Inr None :: string select_error + candidate option) new_worker)"
    by (intro step_select [where store = None]) (simp_all add: new_worker_def)
  then have "worker_reachable False 1 (new_worker\<lparr>wk_run := Idling\<rparr>)"
    by (rule reachable_to [OF new_reachable]) (simp add: afterSelect_def)
  moreover have "worker_step False 1 (new_worker\<lparr>wk_run := Idling\<rparr>) marked_worker"
    using step_mark [of 7 False 1 "new_worker\<lparr>wk_run := Idling\<rparr>"] by (simp add: marked_worker_def new_worker_def)
  ultimately show ?thesis
    by (rule reachable_step)
qed

theorem no_change_forgotten_witness:
  "dt_dirty (wk_tracker marked_worker)
   \<and> nextCandidate (None :: string schedule_store option) 1 5 (wk_tracker marked_worker) \<noteq> Some (Inr None)
   \<and> (dt_wake (wk_tracker marked_worker) \<or> 0 < wk_marking marked_worker)"
  using no_change_forgotten [OF marked_reachable, where c = 0 and store = "None :: string schedule_store option" and now = 5]
  by (simp add: marked_worker_def new_worker_def)

end
