(* ===== verification/Passphrase.thy ===== *)
theory Passphrase
  imports Go_Base64 Go_Strconv Api_Token
begin

text \<open>
  Package \<^verbatim>\<open>passphrase\<close>: the verifier of the console passphrase in the text form of Argon2id. \<open>argon2\<close> stands for
  \<^verbatim>\<open>argon2.IDKey\<close> (value, salt, iterations, memory, parallelism, length of the key); a random source is the list
  of bytes it will deliver.
\<close>

section \<open>Model\<close>

type_synonym argon2_fn = "bytes \<Rightarrow> bytes \<Rightarrow> nat \<Rightarrow> nat \<Rightarrow> nat \<Rightarrow> nat \<Rightarrow> bytes"

datatype passphrase_error =
    PassphraseEmpty | PassphraseTooLong | SaltUnavailable
  | VerifierFormat | VersionUnsupported | ParameterList | ParameterMissing string | ParameterInvalid string
  | ParallelismInvalid | ParametersUnsupported | SaltInvalid | HashInvalid

definition memoryKiB :: nat where "memoryKiB = 19 * 1024"
definition iterations :: nat where "iterations = 2"
definition parallelism :: nat where "parallelism = 1"
definition saltLength :: nat where "saltLength = 16"
definition hashLength :: nat where "hashLength = 32"
definition maxLength :: nat where "maxLength = 1024"
definition argon2_version :: nat where "argon2_version = 19"

definition validateValue :: "bytes \<Rightarrow> passphrase_error option" where
  "validateValue v =
     (if length v = 0 then Some PassphraseEmpty else if length v > maxLength then Some PassphraseTooLong else None)"

definition hashWith :: "argon2_fn \<Rightarrow> bytes \<Rightarrow> bytes \<Rightarrow> passphrase_error + string" where
  "hashWith argon2 v random =
     (case validateValue v of
        Some e \<Rightarrow> Inl e
      | None \<Rightarrow>
          (case read_full saltLength random of
             None \<Rightarrow> Inl SaltUnavailable
           | Some (salt, _) \<Rightarrow>
               (let hash = argon2 v salt iterations memoryKiB parallelism hashLength
                in Inr (''$argon2id$v='' @ itoa argon2_version @ ''$m='' @ itoa memoryKiB @ '',t='' @ itoa iterations
                        @ '',p='' @ itoa parallelism @ ''$'' @ std_encode salt @ ''$'' @ std_encode hash))))"

record argonParameters =
  ap_memory :: nat
  ap_iterations :: nat
  ap_parallelism :: nat

definition parseSingleParameter :: "string \<Rightarrow> string \<Rightarrow> passphrase_error + nat" where
  "parseSingleParameter v name =
     (if \<not> prefix (name @ ''='') v then Inl (ParameterMissing name)
      else case parse_uint 32 (drop (length name + 1) v) of
        None \<Rightarrow> Inl (ParameterInvalid name)
      | Some parsed \<Rightarrow> Inr parsed)"

definition parseParameters :: "string \<Rightarrow> passphrase_error + argonParameters" where
  "parseParameters v =
     (case str_split CHR '','' v of
        [p1, p2, p3] \<Rightarrow>
          (case parseSingleParameter p1 ''m'' of Inl e \<Rightarrow> Inl e | Inr memory \<Rightarrow>
          (case parseSingleParameter p2 ''t'' of Inl e \<Rightarrow> Inl e | Inr timeCost \<Rightarrow>
          (case parseSingleParameter p3 ''p'' of
             Inl _ \<Rightarrow> Inl ParallelismInvalid
           | Inr threads \<Rightarrow>
               if threads > 255 then Inl ParallelismInvalid
               else Inr \<lparr>ap_memory = memory, ap_iterations = timeCost, ap_parallelism = threads\<rparr>)))
      | _ \<Rightarrow> Inl ParameterList)"

definition passphraseVerify :: "argon2_fn \<Rightarrow> string \<Rightarrow> bytes \<Rightarrow> passphrase_error + bool" where
  "passphraseVerify argon2 encoded v =
     (case validateValue v of
        Some e \<Rightarrow> Inl e
      | None \<Rightarrow>
          (case str_split CHR ''$'' encoded of
             [p0, p1, p2, p3, p4, p5] \<Rightarrow>
               if p0 \<noteq> [] \<or> p1 \<noteq> ''argon2id'' then Inl VerifierFormat
               else if parseSingleParameter p2 ''v'' \<noteq> Inr argon2_version then Inl VersionUnsupported
               else (case parseParameters p3 of
                 Inl e \<Rightarrow> Inl e
               | Inr ps \<Rightarrow>
                   if ap_memory ps \<noteq> memoryKiB \<or> ap_iterations ps \<noteq> iterations \<or> ap_parallelism ps \<noteq> parallelism
                   then Inl ParametersUnsupported
                   else (case std_decode p4 of
                     None \<Rightarrow> Inl SaltInvalid
                   | Some salt \<Rightarrow>
                       if length salt \<noteq> saltLength then Inl SaltInvalid
                       else (case std_decode p5 of
                         None \<Rightarrow> Inl HashInvalid
                       | Some expected \<Rightarrow>
                           if length expected \<noteq> hashLength then Inl HashInvalid
                           else Inr (argon2 v salt (ap_iterations ps) (ap_memory ps) (ap_parallelism ps) (length expected)
                                     = expected))))
           | _ \<Rightarrow> Inl VerifierFormat))"

section \<open>What a verifier accepts\<close>

text \<open>What \<^verbatim>\<open>argon2.IDKey\<close> documents of its result: a key of the length asked for.\<close>

definition argon2_ok :: "argon2_fn \<Rightarrow> bool" where
  "argon2_ok argon2 \<longleftrightarrow> (\<forall>v salt t m p n. length (argon2 v salt t m p n) = n)"

lemma hash_prefix:
  "itoa argon2_version = ''19''" "itoa memoryKiB = ''19456''" "itoa iterations = ''2''" "itoa parallelism = ''1''"
  by code_simp+

lemma hash_parameters:
  "parseSingleParameter ''v=19'' ''v'' = Inr argon2_version"
  "parseParameters ''m=19456,t=2,p=1'' = Inr \<lparr>ap_memory = memoryKiB, ap_iterations = iterations, ap_parallelism = parallelism\<rparr>"
  by code_simp+

lemma std_no_dollar: "CHR ''$'' \<notin> set (std_encode bs)"
  using std_encode_chars std_alphabet_facts(5) by blast

lemma hash_parts:
  assumes "hashWith argon2 v random = Inr encoded"
  shows "str_split CHR ''$'' encoded =
    [[], ''argon2id'', ''v=19'', ''m=19456,t=2,p=1'', std_encode (take saltLength random),
     std_encode (argon2 v (take saltLength random) iterations memoryKiB parallelism hashLength)]"
    and "saltLength \<le> length random"
  using assms
  by (auto simp: hashWith_def read_full_def Let_def hash_prefix str_split_append_sep str_split_char_free std_no_dollar
      split: option.splits if_splits)

text \<open>
  A verifier made from a passphrase accepts exactly the values with the same derived key, the passphrase
  itself among them.
\<close>

lemma verify_hash:
  assumes "argon2_ok argon2" "hashWith argon2 v random = Inr encoded"
  shows "passphraseVerify argon2 encoded w =
    (case validateValue w of Some e \<Rightarrow> Inl e | None \<Rightarrow>
       Inr (argon2 w (take saltLength random) iterations memoryKiB parallelism hashLength
            = argon2 v (take saltLength random) iterations memoryKiB parallelism hashLength))"
  using assms(1) hash_parts(2) [OF assms(2)]
  by (simp add: passphraseVerify_def hash_parts(1) [OF assms(2)] hash_parameters argon2_ok_def split: option.split)

lemma hash_verifies:
  assumes "argon2_ok argon2" "hashWith argon2 v random = Inr encoded"
  shows "passphraseVerify argon2 encoded v = Inr True"
proof -
  have "validateValue v = None"
    using assms(2) by (auto simp: hashWith_def split: option.splits)
  then show ?thesis
    by (simp add: verify_hash [OF assms])
qed

end
