(* ===== verification/Terminal_Auth.thy ===== *)
theory Terminal_Auth
  imports Passphrase Public_Hostname Go_Time Go_Bytes
begin

text \<open>
  Package \<^verbatim>\<open>terminalauth\<close>: the passphrase of the server terminal is exchanged for a token that is bound to the
  subject and lives for thirty seconds; failed passphrases cost a delay and, every fifth in a row, a cooldown of
  a minute. Every operation holds the mutex; its readings of the clock and the outcome of its sleep are arguments.
  The decoder of the claims, \<^verbatim>\<open>hkdf\<close>, \<^verbatim>\<open>hmac\<close> and \<open>argon2\<close> are parameters; the JSON
  encoder is written out, so that the branch for an error of \<^verbatim>\<open>json.Marshal\<close>, which never fails on this type, is gone.
\<close>

section \<open>Model\<close>

definition tokenPurpose :: string where "tokenPurpose = ''server_terminal''"
definition tokenLifetime :: int where "tokenLifetime = 30 * 1000000000"
definition terminalFailureDelay :: int where "terminalFailureDelay = 2 * 1000000000"
definition cooldownDuration :: int where "cooldownDuration = 60 * 1000000000"
definition maximumFailures :: int where "maximumFailures = 5"
definition maximumSubjectLen :: nat where "maximumSubjectLen = 512"
definition maximumTokenLen :: nat where "maximumTokenLen = 4096"
definition keyDomain :: string where "keyDomain = ''platformd/server-terminal-token/v1''"
definition webSocketProtocol :: string where "webSocketProtocol = ''platformd-terminal-v1''"
definition webSocketBearerPrefix :: string where "webSocketBearerPrefix = ''platformd-bearer.''"

datatype terminal_error = InvalidPassphrase | Cooldown | InvalidToken | Incomplete | KeyFailed | SleepFailed

record terminal_claims =
  cl_version :: int
  cl_purpose :: string
  cl_subject :: string
  cl_issuedAt :: "64 word"
  cl_expiresAt :: "64 word"

text \<open>
  \<^verbatim>\<open>json.Marshal\<close> of the claims: strings with the escapes of the encoder (quotes, backslashes, control characters,
  the characters with a meaning in HTML, the two line separators of JavaScript, and the replacement character for
  invalid UTF-8), integers in decimal.
\<close>

definition json_ascii :: "char \<Rightarrow> string" where
  "json_ascii c =
     (if c = CHR 0x22 \<or> c = CHR 0x5C then [CHR 0x5C, c]
      else if c = CHR 0x08 then [CHR 0x5C, CHR ''b''] else if c = CHR 0x0C then [CHR 0x5C, CHR ''f'']
      else if c = CHR 0x0A then [CHR 0x5C, CHR ''n''] else if c = CHR 0x0D then [CHR 0x5C, CHR ''r'']
      else if c = CHR 0x09 then [CHR 0x5C, CHR ''t'']
      else if of_char c < (0x20 :: nat) \<or> c = CHR ''<'' \<or> c = CHR ''>'' \<or> c = CHR 0x26
      then [CHR 0x5C] @ ''u00'' @ hex_encode [of_char c]
      else [c])"

definition json_rune :: "string \<Rightarrow> string" where
  "json_rune r =
     (if r = map byte_chr [0xE2, 0x80, 0xA8] then [CHR 0x5C] @ ''u2028''
      else if r = map byte_chr [0xE2, 0x80, 0xA9] then [CHR 0x5C] @ ''u2029'' else r)"

function json_chars :: "string \<Rightarrow> string" where
  "json_chars s =
     (if s = [] then []
      else if of_char (hd s) < (0x80 :: nat) then json_ascii (hd s) @ json_chars (tl s)
      else if utf8_width s = 0 then [CHR 0x5C] @ ''ufffd'' @ json_chars (tl s)
      else json_rune (take (utf8_width s) s) @ json_chars (drop (utf8_width s) s))"
  by pat_completeness auto
termination
  by (relation "measure length") auto

declare json_chars.simps [simp del]

definition json_string :: "string \<Rightarrow> string" where
  "json_string s = [CHR 0x22] @ json_chars s @ [CHR 0x22]"

definition json_member :: "string \<Rightarrow> string \<Rightarrow> string" where
  "json_member name v = [CHR 0x22] @ name @ [CHR 0x22] @ '':'' @ v"

definition marshalClaims :: "terminal_claims \<Rightarrow> bytes" where
  "marshalClaims c = str_bytes (''{'' @ json_member ''v'' (format_int (cl_version c)) @ '',''
     @ json_member ''purpose'' (json_string (cl_purpose c)) @ '','' @ json_member ''sub'' (json_string (cl_subject c)) @ '',''
     @ json_member ''iat'' (format_int (sint (cl_issuedAt c))) @ '',''
     @ json_member ''exp'' (format_int (sint (cl_expiresAt c))) @ ''}'')"

text \<open>
  The decoder refuses unknown fields and anything after the value; it is a parameter, \<open>None\<close> on an error.
\<close>

type_synonym claims_decoder = "bytes \<Rightarrow> terminal_claims option"

record issued_token =
  it_value :: string
  it_expiresAt :: instant

record terminal_service =
  sv_verifier :: string
  sv_key :: bytes
  sv_failures :: int
  sv_cooldownEnds :: instant

definition newTerminalService ::
  "(bytes \<Rightarrow> bytes \<Rightarrow> string \<Rightarrow> nat \<Rightarrow> bytes option) \<Rightarrow> bytes \<Rightarrow> string \<Rightarrow> string
    \<Rightarrow> terminal_error + terminal_service" where
  "newTerminalService hkdf master installationID verifier =
     (if installationID = [] \<or> verifier = [] then Inl Incomplete
      else case hkdf master (str_bytes installationID) keyDomain 32 of
        None \<Rightarrow> Inl KeyFailed
      | Some key \<Rightarrow> Inr \<lparr>sv_verifier = verifier, sv_key = take 32 (key @ replicate 32 0), sv_failures = 0,
                        sv_cooldownEnds = 0\<rparr>)"

definition validSubject :: "string \<Rightarrow> bool" where
  "validSubject subject \<longleftrightarrow> subject \<noteq> [] \<and> length subject \<le> maximumSubjectLen \<and> trim_space subject = subject"

definition signedClaims :: "string \<Rightarrow> int \<Rightarrow> instant \<Rightarrow> terminal_claims" where
  "signedClaims subject issuedAt expiresAt =
     \<lparr>cl_version = 1, cl_purpose = tokenPurpose, cl_subject = subject,
      cl_issuedAt = word_of_int issuedAt, cl_expiresAt = word_of_int (unix_seconds expiresAt)\<rparr>"

definition terminalSign :: "hmac_fn \<Rightarrow> terminal_service \<Rightarrow> string \<Rightarrow> instant \<Rightarrow> issued_token" where
  "terminalSign hmac svc subject now =
     (let issuedAt = unix_seconds now; expiresAt = of_unix issuedAt + tokenLifetime;
          payload = marshalClaims (signedClaims subject issuedAt expiresAt);
          signingInput = ''v1.'' @ b64_encode payload
      in \<lparr>it_value = signingInput @ ''.'' @ b64_encode (hmac (sv_key svc) (str_bytes signingInput)),
          it_expiresAt = expiresAt\<rparr>)"

definition startCooldownIfNeeded :: "instant \<Rightarrow> terminal_service \<Rightarrow> terminal_service" where
  "startCooldownIfNeeded now svc =
     (if sv_failures svc \<ge> maximumFailures then svc\<lparr>sv_cooldownEnds := now + cooldownDuration\<rparr> else svc)"

text \<open>
  The readings of the clock by one call: at its start, after the check of the passphrase, and after the delay. The
  outcome: the service it leaves, the buffer of the passphrase, the check it made, the delay it slept, and its
  result.
\<close>

record issue_clock =
  ck_start :: instant
  ck_checked :: instant
  ck_settled :: instant

record issue_outcome =
  io_service :: terminal_service
  io_value :: bytes
  io_check :: "bool option"
  io_slept :: "int option"
  io_result :: "terminal_error + issued_token"

text \<open>The state once a cooldown that was set is over.\<close>

definition uncooled :: "terminal_service \<Rightarrow> terminal_service" where
  "uncooled svc = (if sv_cooldownEnds svc \<noteq> 0 then svc\<lparr>sv_failures := 0, sv_cooldownEnds := 0\<rparr> else svc)"

definition passphraseAccepted :: "argon2_fn \<Rightarrow> terminal_service \<Rightarrow> bytes \<Rightarrow> bool" where
  "passphraseAccepted argon2 svc v \<longleftrightarrow> passphraseVerify argon2 (sv_verifier svc) v = Inr True"

definition issueFailed :: "(int \<Rightarrow> bool) \<Rightarrow> issue_clock \<Rightarrow> bytes \<Rightarrow> terminal_service \<Rightarrow> issue_outcome" where
  "issueFailed sleep clock cleared svc =
     (let svc = svc\<lparr>sv_failures := sv_failures svc + 1\<rparr>;
          remaining = terminalFailureDelay - (ck_checked clock - ck_start clock);
          settled = startCooldownIfNeeded (ck_settled clock) svc
      in if remaining > 0 then
           \<lparr>io_service = settled, io_value = cleared, io_check = Some False, io_slept = Some remaining,
            io_result = Inl (if sleep remaining then InvalidPassphrase else SleepFailed)\<rparr>
         else
           \<lparr>io_service = settled, io_value = cleared, io_check = Some False, io_slept = None,
            io_result = Inl InvalidPassphrase\<rparr>)"

definition issue ::
  "argon2_fn \<Rightarrow> hmac_fn \<Rightarrow> (int \<Rightarrow> bool) \<Rightarrow> issue_clock \<Rightarrow> bool \<Rightarrow> string \<Rightarrow> bytes
    \<Rightarrow> terminal_service \<Rightarrow> issue_outcome" where
  "issue argon2 hmac sleep clock hasContext subject v svc =
     (let cleared = replicate (length v) 0;
          refused = (\<lambda>e. \<lparr>io_service = svc, io_value = cleared, io_check = None, io_slept = None, io_result = Inl e\<rparr>)
      in if \<not> hasContext \<or> \<not> validSubject subject \<or> length v = 0 then refused InvalidPassphrase
         else if sv_cooldownEnds svc \<noteq> 0 \<and> ck_start clock < sv_cooldownEnds svc then refused Cooldown
         else
           (let svc = uncooled svc
            in if \<not> passphraseAccepted argon2 svc v then issueFailed sleep clock cleared svc
               else
                 (let svc = svc\<lparr>sv_failures := 0, sv_cooldownEnds := 0\<rparr>
                  in \<lparr>io_service = svc, io_value = cleared, io_check = Some True, io_slept = None,
                      io_result = Inr (terminalSign hmac svc subject (ck_checked clock))\<rparr>)))"

text \<open>The check of decoded claims: 64-bit arithmetic, as in the code.\<close>

definition claimsValid :: "terminal_claims \<Rightarrow> string \<Rightarrow> instant \<Rightarrow> bool" where
  "claimsValid c subject t \<longleftrightarrow>
     (let now = word_of_int (unix_seconds t) :: 64 word
      in \<not> (cl_version c \<noteq> 1 \<or> cl_purpose c \<noteq> tokenPurpose \<or> cl_subject c \<noteq> subject
            \<or> cl_expiresAt c - cl_issuedAt c \<noteq> 30
            \<or> sint (cl_issuedAt c) > sint (now + 1) \<or> sint now \<ge> sint (cl_expiresAt c)))"

definition terminalVerify ::
  "hmac_fn \<Rightarrow> claims_decoder \<Rightarrow> terminal_service \<Rightarrow> string \<Rightarrow> string \<Rightarrow> instant \<Rightarrow> terminal_error option" where
  "terminalVerify hmac decode svc token subject t =
     (if \<not> validSubject subject \<or> token = [] \<or> length token > maximumTokenLen then Some InvalidToken
      else case str_split CHR ''.'' token of
        [p0, p1, p2] \<Rightarrow>
          if p0 \<noteq> ''v1'' \<or> p1 = [] \<or> p2 = [] then Some InvalidToken
          else (case b64_decode p2 of
            None \<Rightarrow> Some InvalidToken
          | Some signature \<Rightarrow>
              if length signature \<noteq> 32 then Some InvalidToken
              else if signature \<noteq> hmac (sv_key svc) (str_bytes (p0 @ ''.'' @ p1)) then Some InvalidToken
              else (case b64_decode p1 of
                None \<Rightarrow> Some InvalidToken
              | Some payload \<Rightarrow>
                  (case decode payload of
                     None \<Rightarrow> Some InvalidToken
                   | Some decoded \<Rightarrow> if claimsValid decoded subject t then None else Some InvalidToken)))
      | _ \<Rightarrow> Some InvalidToken)"

text \<open>The protocols of the request header, one list of the values of \<^verbatim>\<open>Sec-WebSocket-Protocol\<close>.\<close>

definition offeredProtocols :: "string list \<Rightarrow> string list option" where
  "offeredProtocols values =
     (let tokens = map trim_space (concat (map (str_split CHR '','') values))
      in if [] \<in> set tokens then None else Some tokens)"

fun pickBearer :: "string list \<Rightarrow> bool \<Rightarrow> string \<Rightarrow> (bool \<times> string) option" where
  "pickBearer [] fixedFound bearer = Some (fixedFound, bearer)"
| "pickBearer (protocol # rest) fixedFound bearer =
     (if protocol = webSocketProtocol \<and> \<not> fixedFound then pickBearer rest True bearer
      else if prefix webSocketBearerPrefix protocol \<and> bearer = []
      then pickBearer rest fixedFound (drop (length webSocketBearerPrefix) protocol)
      else None)"

definition verifyWebSocketRequest ::
  "hmac_fn \<Rightarrow> claims_decoder \<Rightarrow> terminal_service \<Rightarrow> string list option \<Rightarrow> string \<Rightarrow> instant \<Rightarrow> terminal_error option" where
  "verifyWebSocketRequest hmac decode svc request subject t =
     (case request of
        None \<Rightarrow> Some InvalidToken
      | Some values \<Rightarrow>
          (case offeredProtocols values of
             None \<Rightarrow> Some InvalidToken
           | Some protocols \<Rightarrow>
               if length protocols \<noteq> 2 then Some InvalidToken
               else (case pickBearer protocols False [] of
                 None \<Rightarrow> Some InvalidToken
               | Some (fixedFound, bearer) \<Rightarrow>
                   if \<not> fixedFound \<or> bearer = [] then Some InvalidToken
                   else terminalVerify hmac decode svc bearer subject t)))"

section \<open>Tokens\<close>

text \<open>
  What the decoder documents: it reads back what was marshalled from claims whose strings are valid UTF-8.
  \<open>hmac\<close> with SHA-256 has 32 bytes.
\<close>

definition reads_back :: "claims_decoder \<Rightarrow> terminal_claims \<Rightarrow> bool" where
  "reads_back decode c \<longleftrightarrow> utf8_valid (cl_subject c) \<and> decode (marshalClaims c) = Some c"

definition hmac_ok :: "hmac_fn \<Rightarrow> bool" where
  "hmac_ok hmac \<longleftrightarrow> (\<forall>k m. length (hmac k m) = 32)"

definition token_chars :: "char set" where
  "token_chars = insert (CHR ''.'') (insert (CHR ''v'') (insert (CHR ''1'') (set b64_alphabet)))"

lemma alphabet_plain: "c \<in> set b64_alphabet \<Longrightarrow> graphic c \<and> c \<noteq> CHR ''.'' \<and> c \<noteq> CHR '',''"
  unfolding b64_alphabet_def graphic_def by auto

lemma token_chars_plain: "c \<in> token_chars \<Longrightarrow> graphic c \<and> c \<noteq> CHR '',''"
  unfolding token_chars_def using alphabet_plain by (auto simp: graphic_def)

lemma b64_no_dot: "CHR ''.'' \<notin> set (b64_encode bs)"
  using b64_encode_chars alphabet_plain by blast

lemma b64_encode_eq_Nil [simp]: "b64_encode bs = [] \<longleftrightarrow> bs = []"
  by (metis b64_decode_encode b64_encode_def b64_groups.simps(4) list.map_disc_iff map_is_Nil_conv option.inject)

lemma token_parts:
  "str_split CHR ''.'' (''v1.'' @ b64_encode payload @ ''.'' @ b64_encode mac) = [''v1'', b64_encode payload, b64_encode mac]"
  using b64_no_dot by (simp add: str_split_append_sep str_split_char_free)

lemma token_sub:
  "set (''v1.'' @ b64_encode payload @ ''.'' @ b64_encode mac) \<subseteq> token_chars"
  using b64_encode_chars by (auto simp: token_chars_def)

text \<open>The header a browser sends: the fixed protocol and the bearer.\<close>

definition terminal_header :: "string \<Rightarrow> string list" where
  "terminal_header token = [webSocketProtocol @ '', '' @ webSocketBearerPrefix @ token]"

lemma trim_space_after_blank: "trim_space (CHR '' '' # s) = trim_space s"
proof -
  have "leading_space (CHR '' '' # s) = 1"
    by (simp add: leading_space_def space_runes_def byte_chr_def char_of_eq_iff)
  then show ?thesis
    by (simp add: trim_space_def trim_left.simps [of "CHR '' '' # s"])
qed

lemma header_verifies:
  assumes "set token \<subseteq> token_chars" "token \<noteq> []"
  shows "verifyWebSocketRequest hmac decode svc (Some (terminal_header token)) subject t
    = terminalVerify hmac decode svc token subject t"
proof -
  let ?bearer = "webSocketBearerPrefix @ token"
  have comma: "CHR '','' \<notin> set ?bearer"
    using assms(1) token_chars_plain by (auto simp: webSocketBearerPrefix_def)
  have bearer: "list_all graphic ?bearer"
    using assms(1) token_chars_plain by (auto simp: list_all_iff webSocketBearerPrefix_def graphic_def)
  have "trim_space ('' '' @ ?bearer) = ?bearer"
    using trim_space_graphic [OF bearer] by (simp add: trim_space_after_blank)
  moreover have "str_split CHR '','' (webSocketProtocol @ '', '' @ ?bearer) = [webSocketProtocol, '' '' @ ?bearer]"
    using comma by (simp add: webSocketProtocol_def str_split_append_sep str_split_char_free)
  moreover have "trim_space webSocketProtocol = webSocketProtocol"
    by (rule trim_space_graphic) (simp add: webSocketProtocol_def graphic_def)
  ultimately have "offeredProtocols (terminal_header token) = Some [webSocketProtocol, ?bearer]"
    by (simp add: offeredProtocols_def terminal_header_def webSocketProtocol_def webSocketBearerPrefix_def)
  then show ?thesis
    using assms(2) by (simp add: verifyWebSocketRequest_def webSocketProtocol_def webSocketBearerPrefix_def)
qed


text \<open>Seconds that the 64-bit arithmetic of the claims represents without wrap-around.\<close>

definition clock_in_range :: "instant \<Rightarrow> bool" where
  "clock_in_range t \<longleftrightarrow> 0 \<le> unix_seconds t \<and> unix_seconds t < 2 ^ 62"

lemma unix_of_unix: "unix_seconds (of_unix n + tokenLifetime) = n + 30"
  by (simp add: unix_seconds_def of_unix_def tokenLifetime_def)

lemma sint_seconds: "0 \<le> n \<Longrightarrow> n \<le> 2 ^ 62 + 30 \<Longrightarrow> sint (word_of_int n :: 64 word) = n"
  by (simp add: signed_of_int signed_take_bit_int_eq_self)

lemma signed_claims:
  assumes "clock_in_range s" "clock_in_range t"
  shows "claimsValid (signedClaims subject (unix_seconds s) (of_unix (unix_seconds s) + tokenLifetime)) subject' t
    \<longleftrightarrow> subject' = subject \<and> unix_seconds s \<le> unix_seconds t + 1 \<and> unix_seconds t < unix_seconds s + 30"
proof -
  have "word_of_int (unix_seconds t) + 1 = (word_of_int (unix_seconds t + 1) :: 64 word)"
    and "word_of_int (unix_seconds s + 30) - word_of_int (unix_seconds s) = (30 :: 64 word)"
    by simp_all
  moreover have "sint (word_of_int (unix_seconds t + 1) :: 64 word) = unix_seconds t + 1"
    "sint (word_of_int (unix_seconds t) :: 64 word) = unix_seconds t"
    "sint (word_of_int (unix_seconds s) :: 64 word) = unix_seconds s"
    "sint (word_of_int (unix_seconds s + 30) :: 64 word) = unix_seconds s + 30"
    using assms unfolding clock_in_range_def by - (rule sint_seconds; linarith)+
  ultimately show ?thesis
    by (simp only: claimsValid_def signedClaims_def unix_of_unix terminal_claims.simps Let_def) (auto simp: not_less not_le)
qed

lemma sign_counters [simp]:
  "terminalSign hmac (svc\<lparr>sv_failures := n, sv_cooldownEnds := t\<rparr>) = terminalSign hmac svc"
  by (simp add: terminalSign_def fun_eq_iff Let_def)

lemma issue_granted:
  assumes "io_result (issue argon2 hmac sleep clock hasContext subject v svc) = Inr token"
  shows "validSubject subject" "passphraseAccepted argon2 svc v"
    "terminalSign hmac svc subject (ck_checked clock) = token"
    "sv_key (io_service (issue argon2 hmac sleep clock hasContext subject v svc)) = sv_key svc"
  using assms
  by (auto simp: issue_def issueFailed_def passphraseAccepted_def uncooled_def Let_def split: if_splits)

lemma signed_value:
  "it_value (terminalSign hmac svc subject now) =
     (let payload = marshalClaims (signedClaims subject (unix_seconds now) (of_unix (unix_seconds now) + tokenLifetime))
      in ''v1.'' @ b64_encode payload @ ''.'' @ b64_encode (hmac (sv_key svc) (str_bytes (''v1.'' @ b64_encode payload))))"
  by (simp add: terminalSign_def Let_def)

lemma marshal_nonempty: "marshalClaims c \<noteq> []"
  by (simp add: marshalClaims_def str_bytes_def)

lemma verify_signed:
  assumes "reads_back decode (signedClaims subject (unix_seconds now) (of_unix (unix_seconds now) + tokenLifetime))"
    and "hmac_ok hmac" "clock_in_range now" "clock_in_range t" "validSubject subject" "sv_key svc' = sv_key svc"
  shows "terminalVerify hmac decode svc' (it_value (terminalSign hmac svc subject now)) subject' t = None \<longleftrightarrow>
    length (it_value (terminalSign hmac svc subject now)) \<le> maximumTokenLen
    \<and> subject' = subject \<and> unix_seconds now \<le> unix_seconds t + 1 \<and> unix_seconds t < unix_seconds now + 30"
proof -
  define payload where
    "payload = marshalClaims (signedClaims subject (unix_seconds now) (of_unix (unix_seconds now) + tokenLifetime))"
  have mac: "length (hmac k m) = 32" for k m
    using assms(2) by (simp add: hmac_ok_def)
  have "b64_encode (hmac k m) \<noteq> []" for k m
    using mac [of k m] by auto
  moreover have "decode payload = Some (signedClaims subject (unix_seconds now) (of_unix (unix_seconds now) + tokenLifetime))"
    "payload \<noteq> []"
    using assms(1) marshal_nonempty by (simp_all add: reads_back_def payload_def)
  ultimately show ?thesis
    using assms(5,6) mac token_parts [of payload] signed_claims [OF assms(3,4), of subject subject']
    unfolding signed_value payload_def [symmetric] Let_def by (auto simp: terminalVerify_def)
qed

text \<open>
  \<^bold>\<open>C12.\<close> A token \<^verbatim>\<open>Issue\<close> returns, sent as a browser sends it in the protocols of a WebSocket request, is
  accepted by \<^verbatim>\<open>VerifyWebSocketRequest\<close> for exactly its own subject, from one second before it was issued until
  thirty seconds after (in whole seconds of the two clocks), provided it is not longer than what \<^verbatim>\<open>Verify\<close> reads.
  It is only issued for a passphrase the verifier accepts, and the buffer of the passphrase is cleared.
\<close>

theorem issued_token_accepted:
  assumes "hmac_ok hmac" "clock_in_range (ck_checked clock)" "clock_in_range t"
    and "reads_back decode (signedClaims subject (unix_seconds (ck_checked clock))
           (of_unix (unix_seconds (ck_checked clock)) + tokenLifetime))"
    and "io_result (issue argon2 hmac sleep clock hasContext subject v svc) = Inr token"
  shows "passphraseVerify argon2 (sv_verifier svc) v = Inr True
    \<and> io_value (issue argon2 hmac sleep clock hasContext subject v svc) = replicate (length v) 0
    \<and> (verifyWebSocketRequest hmac decode (io_service (issue argon2 hmac sleep clock hasContext subject v svc))
          (Some (terminal_header (it_value token))) subject' t = None
        \<longleftrightarrow> length (it_value token) \<le> maximumTokenLen \<and> subject' = subject
          \<and> unix_seconds (ck_checked clock) \<le> unix_seconds t + 1
          \<and> unix_seconds t < unix_seconds (ck_checked clock) + 30)"
proof -
  note granted = issue_granted [OF assms(5)]
  have "set (it_value token) \<subseteq> token_chars" "it_value token \<noteq> []"
    using token_sub unfolding granted(3) [symmetric] signed_value Let_def by auto
  moreover have "io_value (issue argon2 hmac sleep clock hasContext subject v svc) = replicate (length v) 0"
    by (simp add: issue_def issueFailed_def Let_def)
  ultimately show ?thesis
    using granted(2) verify_signed [OF assms(4,1-3) granted(1,4), of subject']
    by (simp add: header_verifies passphraseAccepted_def granted(3))
qed


text \<open>A console with the passphrase of one byte, on 19 March 2030.\<close>

definition sample_argon2 :: argon2_fn where
  "sample_argon2 v salt t m p n = replicate n (of_nat (length v))"

definition sample_verifier :: string where
  "sample_verifier = (case hashWith sample_argon2 [42] (replicate 16 0x2f) of Inl _ \<Rightarrow> [] | Inr s \<Rightarrow> s)"

definition sample_console :: terminal_service where
  "sample_console = \<lparr>sv_verifier = sample_verifier, sv_key = replicate 32 1, sv_failures = 0, sv_cooldownEnds = 0\<rparr>"

definition sample_mac :: hmac_fn where
  "sample_mac key message = replicate 32 7"

definition sample_time :: instant where
  "sample_time = of_unix 1900000000"

definition sample_clock :: issue_clock where
  "sample_clock = \<lparr>ck_start = sample_time, ck_checked = sample_time, ck_settled = sample_time\<rparr>"

definition sample_claims :: terminal_claims where
  "sample_claims = signedClaims ''alice'' 1900000000 (of_unix 1900000000 + tokenLifetime)"

definition sample_decode :: claims_decoder where
  "sample_decode b = (if b = marshalClaims sample_claims then Some sample_claims else None)"

lemma sample_accepts: "passphraseVerify sample_argon2 sample_verifier [42] = Inr True"
proof -
  obtain encoded where "hashWith sample_argon2 [42] (replicate 16 0x2f) = Inr encoded"
    by (simp add: hashWith_def validateValue_def read_full_def saltLength_def maxLength_def Let_def)
  then show ?thesis
    using hash_verifies [of sample_argon2] by (simp add: sample_verifier_def argon2_ok_def sample_argon2_def)
qed

lemma sample_subject: "validSubject ''alice''" "utf8_valid ''alice''" "length (marshalClaims sample_claims) \<le> 100"
  by code_simp+

lemma sample_issued:
  "io_result (issue sample_argon2 sample_mac (\<lambda>_. True) sample_clock True ''alice'' [42] sample_console)
     = Inr (terminalSign sample_mac sample_console ''alice'' sample_time)"
  by (simp add: issue_def uncooled_def sample_subject sample_console_def sample_clock_def passphraseAccepted_def sample_accepts Let_def)

theorem issued_token_accepted_witness:
  "verifyWebSocketRequest sample_mac sample_decode sample_console
     (Some (terminal_header (it_value (terminalSign sample_mac sample_console ''alice'' sample_time)))) ''alice'' sample_time = None
   \<and> verifyWebSocketRequest sample_mac sample_decode sample_console
     (Some (terminal_header (it_value (terminalSign sample_mac sample_console ''alice'' sample_time)))) ''bob'' sample_time \<noteq> None"
proof -
  have "hmac_ok sample_mac" "clock_in_range (ck_checked sample_clock)" "clock_in_range sample_time"
    by (simp_all add: hmac_ok_def sample_mac_def clock_in_range_def sample_clock_def sample_time_def unix_seconds_def of_unix_def)
  moreover have now: "unix_seconds sample_time = 1900000000"
    by (simp add: sample_time_def unix_seconds_def of_unix_def)
  moreover have "reads_back sample_decode (signedClaims ''alice'' (unix_seconds (ck_checked sample_clock))
      (of_unix (unix_seconds (ck_checked sample_clock)) + tokenLifetime))"
    using sample_subject(2)
    by (simp add: reads_back_def sample_decode_def sample_claims_def sample_clock_def now) (simp add: signedClaims_def)
  moreover have "length (it_value (terminalSign sample_mac sample_console ''alice'' sample_time)) \<le> maximumTokenLen"
    using sample_subject(3) unfolding signed_value now sample_claims_def
    by (simp add: sample_mac_def maximumTokenLen_def Let_def)
  moreover have "io_service (issue sample_argon2 sample_mac (\<lambda>_. True) sample_clock True ''alice'' [42] sample_console) = sample_console"
    by (simp add: issue_def uncooled_def sample_subject sample_console_def sample_clock_def passphraseAccepted_def sample_accepts Let_def)
  ultimately show ?thesis
    using issued_token_accepted [of sample_mac sample_clock sample_time sample_decode "''alice''" sample_argon2 "\<lambda>_. True" True "[42]" sample_console,
        OF _ _ _ _ sample_issued] by (simp add: sample_clock_def)
qed

section \<open>Failed passphrases\<close>

text \<open>
  A run of calls, in the order in which they took the mutex, and the checks of passphrases it made, the latest
  first: one that passed, or one that was rejected, with the time at which the call was over.
\<close>

record terminal_request =
  rq_clock :: issue_clock
  rq_context :: bool
  rq_subject :: string
  rq_value :: bytes
  rq_sleep :: "int \<Rightarrow> bool"

datatype passphrase_check = Passed | Rejected instant

definition check_made :: "terminal_request \<Rightarrow> issue_outcome \<Rightarrow> passphrase_check list" where
  "check_made r o1 =
     (case io_check o1 of None \<Rightarrow> [] | Some True \<Rightarrow> [Passed] | Some False \<Rightarrow> [Rejected (ck_settled (rq_clock r))])"

definition issueRequest :: "argon2_fn \<Rightarrow> hmac_fn \<Rightarrow> terminal_request \<Rightarrow> terminal_service \<Rightarrow> issue_outcome" where
  "issueRequest argon2 hmac r svc =
     issue argon2 hmac (rq_sleep r) (rq_clock r) (rq_context r) (rq_subject r) (rq_value r) svc"

fun runIssue ::
  "argon2_fn \<Rightarrow> hmac_fn \<Rightarrow> terminal_request list \<Rightarrow> terminal_service \<Rightarrow> passphrase_check list \<Rightarrow> terminal_service \<times> passphrase_check list" where
  "runIssue argon2 hmac [] svc h = (svc, h)"
| "runIssue argon2 hmac (r # rs) svc h =
     runIssue argon2 hmac rs (io_service (issueRequest argon2 hmac r svc)) (check_made r (issueRequest argon2 hmac r svc) @ h)"

text \<open>A clock that does not run backwards, read after the zero time.\<close>

fun clocks_ordered :: "instant \<Rightarrow> terminal_request list \<Rightarrow> bool" where
  "clocks_ordered t [] \<longleftrightarrow> True"
| "clocks_ordered t (r # rs) \<longleftrightarrow>
     t \<le> ck_start (rq_clock r) \<and> ck_start (rq_clock r) \<le> ck_checked (rq_clock r)
     \<and> ck_checked (rq_clock r) \<le> ck_settled (rq_clock r) \<and> clocks_ordered (ck_settled (rq_clock r)) rs"

text \<open>The rejections since the last passphrase that passed, and the rest they keep after every fifth.\<close>

fun streak :: "passphrase_check list \<Rightarrow> instant list" where
  "streak (Rejected t # h) = t # streak h"
| "streak h = []"

definition rested :: "instant \<Rightarrow> instant list \<Rightarrow> bool" where
  "rested t us \<longleftrightarrow>
     (case us of [] \<Rightarrow> True | u # _ \<Rightarrow> u \<le> t \<and> (length us mod 5 = 0 \<longrightarrow> u + cooldownDuration \<le> t))"

fun spaced :: "passphrase_check list \<Rightarrow> bool" where
  "spaced (Rejected t # h) \<longleftrightarrow> rested t (streak h) \<and> spaced h"
| "spaced (Passed # h) \<longleftrightarrow> spaced h"
| "spaced [] \<longleftrightarrow> True"

definition limiter_inv :: "terminal_service \<Rightarrow> instant \<Rightarrow> passphrase_check list \<Rightarrow> bool" where
  "limiter_inv svc t h \<longleftrightarrow>
     0 < t \<and> spaced h \<and> (\<forall>u\<in>set (streak h). u \<le> t)
     \<and> (if sv_cooldownEnds svc = 0 then sv_failures svc = int (length (streak h) mod 5) \<and> (streak h = [] \<or> length (streak h) mod 5 \<noteq> 0)
        else streak h \<noteq> [] \<and> length (streak h) mod 5 = 0 \<and> sv_cooldownEnds svc = hd (streak h) + cooldownDuration)"

text \<open>The three ways a call can go.\<close>

lemma issueFailed_facts [simp]:
  "io_check (issueFailed sleep clock cleared svc) = Some False"
  "io_service (issueFailed sleep clock cleared svc)
     = startCooldownIfNeeded (ck_settled clock) (svc\<lparr>sv_failures := sv_failures svc + 1\<rparr>)"
  by (simp_all add: issueFailed_def Let_def)

lemma issueRequest_cases:
  obtains (skipped)
      "io_check (issueRequest argon2 hmac r svc) = None" "io_service (issueRequest argon2 hmac r svc) = svc"
  | (passed) "io_check (issueRequest argon2 hmac r svc) = Some True"
      "io_service (issueRequest argon2 hmac r svc) = svc\<lparr>sv_failures := 0, sv_cooldownEnds := 0\<rparr>"
  | (rejected) "io_check (issueRequest argon2 hmac r svc) = Some False"
      "sv_cooldownEnds svc = 0 \<or> sv_cooldownEnds svc \<le> ck_start (rq_clock r)"
      "io_service (issueRequest argon2 hmac r svc) = startCooldownIfNeeded (ck_settled (rq_clock r))
         ((uncooled svc)\<lparr>sv_failures := sv_failures (uncooled svc) + 1\<rparr>)"
proof -
  let ?invalid = "\<not> rq_context r \<or> \<not> validSubject (rq_subject r) \<or> length (rq_value r) = 0"
  let ?cooling = "sv_cooldownEnds svc \<noteq> 0 \<and> ck_start (rq_clock r) < sv_cooldownEnds svc"
  consider "?invalid \<or> ?cooling" | "\<not> ?invalid" "\<not> ?cooling" "passphraseAccepted argon2 (uncooled svc) (rq_value r)"
    | "\<not> ?invalid" "\<not> ?cooling" "\<not> passphraseAccepted argon2 (uncooled svc) (rq_value r)"
    by blast
  then show thesis
  proof cases
    case 1
    then show ?thesis
      by (intro skipped) (auto simp: issueRequest_def issue_def Let_def)
  next
    case 2
    then show ?thesis
      by (intro passed) (auto simp: issueRequest_def issue_def uncooled_def Let_def)
  next
    case 3
    then show ?thesis
      by (intro rejected) (auto simp: issueRequest_def issue_def Let_def)
  qed
qed

lemma limiter_later: "limiter_inv svc t h \<Longrightarrow> t \<le> t' \<Longrightarrow> limiter_inv svc t' h"
  unfolding limiter_inv_def by auto

lemma limiter_rejected:
  assumes "limiter_inv svc t h" "t \<le> start" "start \<le> settled"
    "sv_cooldownEnds svc = 0 \<or> sv_cooldownEnds svc \<le> start"
  shows "limiter_inv (startCooldownIfNeeded settled ((uncooled svc)\<lparr>sv_failures := sv_failures (uncooled svc) + 1\<rparr>))
    settled (Rejected settled # h)"
proof -
  have failures: "sv_failures (uncooled svc) = int (length (streak h) mod 5)" "sv_cooldownEnds (uncooled svc) = 0"
    using assms(1) by (auto simp: limiter_inv_def uncooled_def split: if_splits)
  have "rested settled (streak h)"
    using assms by (auto simp: limiter_inv_def rested_def split: if_splits list.splits)
  moreover have "settled + cooldownDuration \<noteq> 0" "\<forall>u\<in>set (streak h). u \<le> settled" "0 < settled" "spaced h"
    using assms(1-3) by (auto simp: limiter_inv_def cooldownDuration_def)
  moreover have "int (length (streak h) mod 5) + 1 \<ge> maximumFailures \<longleftrightarrow> Suc (length (streak h)) mod 5 = 0"
    "Suc (length (streak h)) mod 5 \<noteq> 0 \<Longrightarrow> int (Suc (length (streak h)) mod 5) = int (length (streak h) mod 5) + 1"
    by (auto simp: maximumFailures_def mod_Suc)
  ultimately show ?thesis
    unfolding limiter_inv_def startCooldownIfNeeded_def using failures by (simp add: algebra_simps)
qed

lemma issue_limited:
  assumes "limiter_inv svc t h" "t \<le> ck_start (rq_clock r)" "ck_start (rq_clock r) \<le> ck_checked (rq_clock r)"
    "ck_checked (rq_clock r) \<le> ck_settled (rq_clock r)"
  shows "limiter_inv (io_service (issueRequest argon2 hmac r svc)) (ck_settled (rq_clock r))
    (check_made r (issueRequest argon2 hmac r svc) @ h)"
proof (cases rule: issueRequest_cases [of argon2 hmac r svc])
  case skipped
  then show ?thesis
    using limiter_later [OF assms(1)] assms(2-4) by (simp add: check_made_def)
next
  case passed
  then show ?thesis
    using assms by (auto simp: check_made_def limiter_inv_def)
next
  case rejected
  then show ?thesis
    using limiter_rejected [OF assms(1,2) order_trans [OF assms(3,4)] rejected(2)] by (simp add: check_made_def)
qed

lemma run_limited:
  "limiter_inv svc t h \<Longrightarrow> clocks_ordered t rs \<Longrightarrow> runIssue argon2 hmac rs svc h = (svc', h') \<Longrightarrow> spaced h'"
proof (induction rs arbitrary: svc t h)
  case (Cons r rs)
  then show ?case
    using issue_limited [OF Cons.prems(1), of r argon2 hmac] by (simp del: issueRequest_def)
qed (simp add: limiter_inv_def)

lemma streak_rejected: "streak (map Rejected ts @ h) = ts @ streak h"
  by (induction ts) simp_all

lemma spaced_append: "spaced (h @ h') \<Longrightarrow> spaced h'"
  by (induction h rule: spaced.induct) simp_all

lemma spaced_rejected:
  "spaced (map Rejected (ts @ t # us) @ h) \<Longrightarrow> rested t (us @ streak h)"
  using spaced_append [of "map Rejected ts" "Rejected t # map Rejected us @ h"] by (simp add: streak_rejected)

lemma six_spaced:
  assumes "spaced (map Rejected [t6, t5, t4, t3, t2, t1] @ h)"
  shows "t1 + cooldownDuration \<le> t6"
proof -
  let ?k = "length (streak h)"
  have rests: "t1 \<le> t2 \<and> (Suc ?k mod 5 = 0 \<longrightarrow> t1 + cooldownDuration \<le> t2)"
    "t2 \<le> t3 \<and> (Suc (Suc ?k) mod 5 = 0 \<longrightarrow> t2 + cooldownDuration \<le> t3)"
    "t3 \<le> t4 \<and> ((3 + ?k) mod 5 = 0 \<longrightarrow> t3 + cooldownDuration \<le> t4)"
    "t4 \<le> t5 \<and> ((4 + ?k) mod 5 = 0 \<longrightarrow> t4 + cooldownDuration \<le> t5)"
    "t5 \<le> t6 \<and> (?k mod 5 = 0 \<longrightarrow> t5 + cooldownDuration \<le> t6)"
    using assms by (simp_all add: rested_def)
  have "Suc ?k mod 5 = 0 \<or> Suc (Suc ?k) mod 5 = 0 \<or> (3 + ?k) mod 5 = 0 \<or> (4 + ?k) mod 5 = 0 \<or> ?k mod 5 = 0"
    by presburger
  then show ?thesis
    using rests by linarith
qed

text \<open>
  \<^bold>\<open>C40.\<close> Guessing is slow: in every run of calls on a new service, whatever the passphrases, subjects and
  outcomes of the sleeps, six rejected passphrases with no accepted one between them take at least the minute of the
  cooldown, from the end of the first to the end of the sixth, as long as the clock does not run backwards.
\<close>

theorem six_rejections_take_a_minute:
  assumes "newTerminalService hkdf master installationID verifier = Inr svc"
    and "0 < t" "clocks_ordered t rs" "runIssue argon2 hmac rs svc [] = (svc', h)"
    and "h = later @ map Rejected [t6, t5, t4, t3, t2, t1] @ earlier"
  shows "t1 + cooldownDuration \<le> t6"
proof -
  have "limiter_inv svc t []"
    using assms(1,2) by (auto simp: newTerminalService_def limiter_inv_def split: if_splits option.splits)
  then have "spaced h"
    using run_limited assms(3,4) by blast
  then show ?thesis
    using spaced_append six_spaced assms(5) by blast
qed


text \<open>Six wrong passphrases, the sixth after the cooldown.\<close>

definition wrong_request :: "int \<Rightarrow> terminal_request" where
  "wrong_request seconds = \<lparr>rq_clock = \<lparr>ck_start = sample_time + seconds * 1000000000, ck_checked = sample_time + seconds * 1000000000,
       ck_settled = sample_time + (seconds + 2) * 1000000000\<rparr>,
     rq_context = True, rq_subject = ''alice'', rq_value = [1, 2], rq_sleep = (\<lambda>_. True)\<rparr>"

lemma sample_rejects: "passphraseVerify sample_argon2 sample_verifier [1, 2] = Inr False"
proof -
  obtain encoded where "hashWith sample_argon2 [42] (replicate 16 0x2f) = Inr encoded"
    by (simp add: hashWith_def validateValue_def read_full_def saltLength_def maxLength_def Let_def)
  then show ?thesis
    using verify_hash [of sample_argon2 "[42]" _ encoded "[1, 2]"]
    by (simp add: sample_verifier_def argon2_ok_def sample_argon2_def validateValue_def maxLength_def hashLength_def)
qed

lemma wrong_issued:
  assumes "sv_verifier svc = sample_verifier" "sv_cooldownEnds svc = 0 \<or> sv_cooldownEnds svc \<le> sample_time + seconds * 1000000000"
  shows "io_service (issueRequest sample_argon2 sample_mac (wrong_request seconds) svc)
      = startCooldownIfNeeded (sample_time + (seconds + 2) * 1000000000)
          ((uncooled svc)\<lparr>sv_failures := sv_failures (uncooled svc) + 1\<rparr>)"
    and "check_made (wrong_request seconds) (issueRequest sample_argon2 sample_mac (wrong_request seconds) svc)
      = [Rejected (sample_time + (seconds + 2) * 1000000000)]"
  using assms sample_subject(1) sample_rejects
  by (auto simp: issueRequest_def wrong_request_def issue_def passphraseAccepted_def check_made_def uncooled_def Let_def)

theorem six_rejections_take_a_minute_witness:
  "(\<exists>svc. runIssue sample_argon2 sample_mac (map wrong_request [0, 2, 4, 6, 8, 70]) sample_console []
      = (svc, map (\<lambda>n. Rejected (sample_time + n * 1000000000)) [72, 10, 8, 6, 4, 2]))
   \<and> sample_time + 2 * 1000000000 + cooldownDuration \<le> sample_time + 72 * 1000000000"
proof -
  let ?rs = "map wrong_request [0, 2, 4, 6, 8, 70]"
  let ?at = "\<lambda>n. sample_time + n * 1000000000"
  have "sample_verifier \<noteq> []"
    using sample_accepts by (auto simp: passphraseVerify_def validateValue_def maxLength_def)
  then have new: "newTerminalService (\<lambda>_ _ _ n. Some (replicate n 1)) [] ''host'' sample_verifier = Inr sample_console"
    by (simp add: newTerminalService_def sample_console_def)
  have clocks: "clocks_ordered sample_time ?rs" "0 < sample_time"
    by (simp_all add: wrong_request_def sample_time_def of_unix_def)
  have run: "\<exists>svc. runIssue sample_argon2 sample_mac ?rs sample_console []
      = (svc, [] @ map Rejected [?at 72, ?at 10, ?at 8, ?at 6, ?at 4, ?at 2] @ [])"
    by (simp add: wrong_issued sample_console_def uncooled_def startCooldownIfNeeded_def maximumFailures_def cooldownDuration_def
        sample_time_def of_unix_def)
  then have "?at 2 + cooldownDuration \<le> ?at 72"
    using six_rejections_take_a_minute [OF new clocks(2,1)] by blast
  with run show ?thesis
    by simp
qed

end
