(* ===== verification/Host_Tunnel.thy ===== *)
theory Host_Tunnel
  imports Transition Go_Bytes
begin

text \<open>
  Package \<^verbatim>\<open>hosttunnel\<close> (\<^verbatim>\<open>peer.go\<close>): streams multiplexed over one connection between two hosts. A stream object is
  its number in \<open>pe_objects\<close>, since a dial, its pump and the table share it; \<open>pe_threads\<close> are the goroutines,
  each at the point where it acts next. Every section under the mutex is one step, and so is every action on
  a channel, so that dials, accepted opens, received frames, pumps and \<^verbatim>\<open>Close\<close> interleave as they do in Go. The
  connection, the local dialer, the pipes and the contexts are nondeterministic.
\<close>

section \<open>Frames\<close>

definition frameOpen :: "8 word" where "frameOpen = 1"
definition frameAck :: "8 word" where "frameAck = 2"
definition frameData :: "8 word" where "frameData = 3"
definition frameClose :: "8 word" where "frameClose = 4"
definition frameError :: "8 word" where "frameError = 5"
definition frameKeepalive :: "8 word" where "frameKeepalive = 6"
definition maxFrameBytes :: nat where "maxFrameBytes = 65536"
definition maxStreams :: nat where "maxStreams = 256"
definition headerSize :: nat where "headerSize = 5"

datatype tunnel_error = FrameTooLarge | FrameInvalid | UnknownFrame "8 word" | TooManyStreams | IDUsed "32 word" | PeerClosed | Remote string

definition encodeFrame :: "8 word \<Rightarrow> 32 word \<Rightarrow> bytes \<Rightarrow> tunnel_error + bytes" where
  "encodeFrame kind i payload =
     (if length payload > maxFrameBytes - headerSize then Inl FrameTooLarge else Inr (kind # be_bytes 4 (unat i) @ payload))"

definition decodeFrame :: "bytes \<Rightarrow> tunnel_error + (8 word \<times> 32 word \<times> bytes)" where
  "decodeFrame frame =
     (if length frame < headerSize \<or> length frame > maxFrameBytes then Inl FrameInvalid
      else Inr (frame ! 0, of_nat (be_value (take 4 (drop 1 frame))), drop 5 frame))"

section \<open>Streams and the table\<close>

record tstream =
  ts_id :: "32 word"
  ts_ready :: "tunnel_error option option"
  ts_incoming :: "bytes list"
  ts_done :: bool

datatype tunnel_thread =
    TDialStart | TDialOpen nat | TDialWait nat
  | TAcceptStart "32 word" | TAccepted "32 word" nat
  | TSignalAck nat | TSignalError "32 word" nat string | TDeliver nat bytes
  | TPump nat | TFeed nat
  | TDrop "32 word" | TShut nat | TClosing | TEnd

text \<open>
  The last field of a peer does not exist in the code, and nothing reads it: it logs the streams that were added for
  an open frame with the number 0.
\<close>

record peer =
  pe_nextID :: "32 word"
  pe_streams :: "(32 word \<times> nat) list"
  pe_objects :: "tstream list"
  pe_closed :: bool
  pe_threads :: "tunnel_thread list"
  pe_zero :: "nat list"

definition newPeer :: "32 word \<Rightarrow> peer" where
  "newPeer firstID = \<lparr>pe_nextID = firstID, pe_streams = [], pe_objects = [], pe_closed = False, pe_threads = [], pe_zero = []\<rparr>"

definition clientPeer :: peer where "clientPeer = newPeer 1"
definition serverPeer :: peer where "serverPeer = newPeer 2"

primrec scanID :: "nat \<Rightarrow> (32 word \<times> nat) list \<Rightarrow> 32 word \<Rightarrow> 32 word option" where
  "scanID 0 streams candidate = None"
| "scanID (Suc n) streams candidate =
     (if map_of streams candidate = None then Some candidate
      else if candidate + 2 = 0 then None
      else scanID n streams (candidate + 2))"

definition addStream :: "32 word \<Rightarrow> peer \<Rightarrow> (tunnel_error + nat) \<times> peer" where
  "addStream i p =
     (Inr (length (pe_objects p)),
      p\<lparr>pe_objects := pe_objects p @ [\<lparr>ts_id = i, ts_ready = None, ts_incoming = [], ts_done = False\<rparr>],
        pe_streams := (i, length (pe_objects p)) # pe_streams p\<rparr>)"

definition allocate :: "32 word \<Rightarrow> peer \<Rightarrow> (tunnel_error + nat) \<times> peer" where
  "allocate i p =
     (if length (pe_streams p) \<ge> maxStreams then (Inl TooManyStreams, p)
      else if i = 0 then
        (if pe_nextID p = 0 then (Inl TooManyStreams, p)
         else case scanID (maxStreams + 1) (pe_streams p) (pe_nextID p) of
           None \<Rightarrow> (Inl TooManyStreams, p)
         | Some c \<Rightarrow> addStream c (p\<lparr>pe_nextID := c + 2\<rparr>))
      else if map_of (pe_streams p) i \<noteq> None then (Inl (IDUsed i), p)
      else addStream i p)"

definition set_stream :: "nat \<Rightarrow> tstream \<Rightarrow> peer \<Rightarrow> peer" where
  "set_stream a s p = p\<lparr>pe_objects := (pe_objects p)[a := s]\<rparr>"

definition signal :: "nat \<Rightarrow> tunnel_error option \<Rightarrow> peer \<Rightarrow> peer" where
  "signal a err p =
     (let s = pe_objects p ! a in if ts_ready s = None then set_stream a (s\<lparr>ts_ready := Some err\<rparr>) p else p)"

definition shutdown :: "nat \<Rightarrow> peer \<Rightarrow> peer" where
  "shutdown a p = set_stream a ((pe_objects p ! a)\<lparr>ts_done := True\<rparr>) p"

text \<open>The section of \<^verbatim>\<open>drop\<close> under the mutex: the stream to shut down, and the table without it.\<close>

definition forget :: "32 word \<Rightarrow> peer \<Rightarrow> nat option \<times> peer" where
  "forget i p = (map_of (pe_streams p) i, p\<lparr>pe_streams := AList.delete i (pe_streams p)\<rparr>)"

section \<open>Goroutines\<close>

definition thread_at :: "peer \<Rightarrow> nat \<Rightarrow> tunnel_thread \<Rightarrow> bool" where
  "thread_at p t th \<longleftrightarrow> t < length (pe_threads p) \<and> pe_threads p ! t = th"

definition set_thread :: "nat \<Rightarrow> tunnel_thread \<Rightarrow> peer \<Rightarrow> peer" where
  "set_thread t th p = p\<lparr>pe_threads := (pe_threads p)[t := th]\<rparr>"

definition spawn :: "tunnel_thread list \<Rightarrow> peer \<Rightarrow> peer" where
  "spawn ths p = p\<lparr>pe_threads := pe_threads p @ ths\<rparr>"

definition incomingLimit :: nat where "incomingLimit = 16"

definition after_forget :: "nat option \<Rightarrow> tunnel_thread" where
  "after_forget r = (case r of None \<Rightarrow> TEnd | Some a \<Rightarrow> TShut a)"

definition after_allocate :: "tunnel_error + nat \<Rightarrow> (nat \<Rightarrow> tunnel_thread) \<Rightarrow> tunnel_thread" where
  "after_allocate r f = (case r of Inl _ \<Rightarrow> TEnd | Inr a \<Rightarrow> f a)"

text \<open>
  What \<^verbatim>\<open>handle\<close> does with a frame: the goroutine that goes on with it. An open frame goes on when its payload is
  valid and the local dial succeeds, and is answered with an error frame otherwise. \<open>parse\<close> is the JSON
  decoder with the checks of the payload.
\<close>

definition handle :: "(bytes \<Rightarrow> bool) \<Rightarrow> bool \<Rightarrow> bytes \<Rightarrow> peer \<Rightarrow> tunnel_error + tunnel_thread" where
  "handle parse dialled frame p =
     (case decodeFrame frame of
        Inl err \<Rightarrow> Inl err
      | Inr (kind, i, payload) \<Rightarrow>
          if kind = frameOpen then Inr (if parse payload \<and> dialled then TAcceptStart i else TEnd)
          else if kind = frameAck then Inr (case map_of (pe_streams p) i of None \<Rightarrow> TEnd | Some a \<Rightarrow> TSignalAck a)
          else if kind = frameError then
            Inr (case map_of (pe_streams p) i of None \<Rightarrow> TEnd
              | Some a \<Rightarrow> TSignalError i a (if payload = [] then ''internal tunnel open failed'' else map (\<lambda>b. char_of (unat b)) payload))
          else if kind = frameData then Inr (case map_of (pe_streams p) i of None \<Rightarrow> TEnd | Some a \<Rightarrow> TDeliver a payload)
          else if kind = frameClose then Inr (TDrop i)
          else if kind = frameKeepalive then Inr TEnd
          else Inl (UnknownFrame kind))"

definition log_zero :: "32 word \<Rightarrow> tunnel_error + nat \<Rightarrow> peer \<Rightarrow> peer" where
  "log_zero i r p = (case r of Inl _ \<Rightarrow> p | Inr a \<Rightarrow> if i = 0 then p\<lparr>pe_zero := a # pe_zero p\<rparr> else p)"

inductive tunnel_step :: "peer \<Rightarrow> peer \<Rightarrow> bool" where
  dial_check: "\<not> pe_closed p \<Longrightarrow> tunnel_step p (spawn [TDialStart] p)"
| dial_allocate: "thread_at p t TDialStart \<Longrightarrow> allocate 0 p = (r, p') \<Longrightarrow>
    tunnel_step p (set_thread t (after_allocate r TDialOpen) p')"
| dial_written: "thread_at p t (TDialOpen a) \<Longrightarrow> \<not> pe_closed p \<Longrightarrow> tunnel_step p (set_thread t (TDialWait a) p)"
| dial_unwritten: "thread_at p t (TDialOpen a) \<Longrightarrow> tunnel_step p (set_thread t (TDrop (ts_id (pe_objects p ! a))) p)"
| dial_ready: "thread_at p t (TDialWait a) \<Longrightarrow> ts_ready (pe_objects p ! a) = Some None \<Longrightarrow>
    tunnel_step p (spawn [TFeed a] (set_thread t (TPump a) (set_stream a ((pe_objects p ! a)\<lparr>ts_ready := None\<rparr>) p)))"
| dial_error: "thread_at p t (TDialWait a) \<Longrightarrow> ts_ready (pe_objects p ! a) = Some (Some e) \<Longrightarrow>
    tunnel_step p (set_thread t TEnd (set_stream a ((pe_objects p ! a)\<lparr>ts_ready := None\<rparr>) p))"
| dial_cancelled: "thread_at p t (TDialWait a) \<Longrightarrow> tunnel_step p (set_thread t (TDrop (ts_id (pe_objects p ! a))) p)"
| received: "handle parse dialled frame p = Inr th \<Longrightarrow> tunnel_step p (spawn [th] p)"
| accept_allocate: "thread_at p t (TAcceptStart i) \<Longrightarrow> allocate i p = (r, p') \<Longrightarrow>
    tunnel_step p (set_thread t (after_allocate r (TAccepted i)) (log_zero i r p'))"
| accept_acked: "thread_at p t (TAccepted i a) \<Longrightarrow> \<not> pe_closed p \<Longrightarrow> tunnel_step p (spawn [TFeed a] (set_thread t (TPump a) p))"
| accept_unacked: "thread_at p t (TAccepted i a) \<Longrightarrow> tunnel_step p (set_thread t (TDrop i) p)"
| signal_ack: "thread_at p t (TSignalAck a) \<Longrightarrow> tunnel_step p (set_thread t TEnd (signal a None p))"
| signal_error: "thread_at p t (TSignalError i a m) \<Longrightarrow> tunnel_step p (set_thread t (TDrop i) (signal a (Some (Remote m)) p))"
| deliver_sent: "thread_at p t (TDeliver a d) \<Longrightarrow> length (ts_incoming (pe_objects p ! a)) < incomingLimit \<Longrightarrow>
    tunnel_step p (set_thread t TEnd (set_stream a ((pe_objects p ! a)\<lparr>ts_incoming := ts_incoming (pe_objects p ! a) @ [d]\<rparr>) p))"
| deliver_done: "thread_at p t (TDeliver a d) \<Longrightarrow> ts_done (pe_objects p ! a) \<Longrightarrow> tunnel_step p (set_thread t TEnd p)"
| feed_payload: "thread_at p t (TFeed a) \<Longrightarrow> ts_incoming (pe_objects p ! a) = d # ds \<Longrightarrow>
    tunnel_step p (set_stream a ((pe_objects p ! a)\<lparr>ts_incoming := ds\<rparr>) p)"
| feed_end: "thread_at p t (TFeed a) \<Longrightarrow> tunnel_step p (set_thread t TEnd p)"
| pump_end: "thread_at p t (TPump a) \<Longrightarrow> tunnel_step p (set_thread t (TDrop (ts_id (pe_objects p ! a))) p)"
| drop_forget: "thread_at p t (TDrop i) \<Longrightarrow> forget i p = (r, p') \<Longrightarrow> tunnel_step p (set_thread t (after_forget r) p')"
| shut_down: "thread_at p t (TShut a) \<Longrightarrow> tunnel_step p (set_thread t TEnd (shutdown a p))"
| close_swap: "\<not> pe_closed p \<Longrightarrow> tunnel_step p (spawn [TClosing] (p\<lparr>pe_closed := True\<rparr>))"
| close_clear: "thread_at p t TClosing \<Longrightarrow>
    tunnel_step p (spawn (map (TShut \<circ> snd) (pe_streams p)) (set_thread t TEnd (p\<lparr>pe_streams := []\<rparr>)))"

abbreviation tunnel_reachable :: "peer \<Rightarrow> peer \<Rightarrow> bool" where
  "tunnel_reachable start \<equiv> reachable (\<lambda>p. p = start) tunnel_step"

section \<open>Frames are read back\<close>

lemma id_bytes: "of_nat (be_value (be_bytes 4 (unat i))) = (i :: 32 word)"
proof -
  have "unat i < 4294967296"
    using unsigned_less [of i] by simp
  then have "be_value (be_bytes 4 (unat i)) = unat i"
    unfolding be_value_bytes by simp
  then show ?thesis
    by simp
qed

lemma bytes_id:
  assumes "length bs = 4"
  shows "be_bytes 4 (unat (of_nat (be_value bs) :: 32 word)) = bs"
proof -
  have "be_value bs mod 256 ^ 4 = be_value bs"
    using be_value_bytes [of 4 "be_value bs"] be_bytes_value [OF assms] by simp
  then have "unat (of_nat (be_value bs) :: 32 word) = be_value bs"
    by (simp add: unat_of_nat)
  then show ?thesis
    using be_bytes_value [OF assms] by simp
qed

text \<open>
  A frame decodes to a kind, a stream and a payload exactly when it is what writing them encodes: nothing that is
  sent is refused or changed, nothing else is accepted, and no frame is longer than 64 KiB.
\<close>

lemma frame_roundtrip:
  "encodeFrame kind i payload = Inr frame \<longleftrightarrow> decodeFrame frame = Inr (kind, i, payload)"
proof
  assume "encodeFrame kind i payload = Inr frame"
  then have "length payload \<le> 65531" "frame = kind # be_bytes 4 (unat i) @ payload"
    by (auto simp: encodeFrame_def headerSize_def maxFrameBytes_def split: if_splits)
  then show "decodeFrame frame = Inr (kind, i, payload)"
    by (simp add: decodeFrame_def headerSize_def maxFrameBytes_def id_bytes)
next
  assume "decodeFrame frame = Inr (kind, i, payload)"
  then have len: "5 \<le> length frame" "length frame \<le> 65536"
    and f: "kind = frame ! 0" "i = of_nat (be_value (take 4 (drop 1 frame)))" "payload = drop 5 frame"
    by (auto simp: decodeFrame_def headerSize_def maxFrameBytes_def split: if_splits)
  have "be_bytes 4 (unat i) = take 4 (drop 1 frame)"
    unfolding f(2) by (rule bytes_id) (use len in simp)
  moreover have "frame ! 0 # take 4 (drop 1 frame) @ drop 5 frame = frame"
    using len(1) by (cases frame) simp_all
  ultimately have "kind # be_bytes 4 (unat i) @ payload = frame"
    by (simp only: f(1,3))
  moreover have "length payload \<le> 65531"
    using len(2) f(3) by simp
  ultimately show "encodeFrame kind i payload = Inr frame"
    by (simp add: encodeFrame_def headerSize_def maxFrameBytes_def)
qed

section \<open>The invariant\<close>

text \<open>
  What the invariants say of the table, of the streams (their numbers and whether they are shut down) and of
  the goroutines. An entry of the table is a live stream with that number; a goroutine knows a stream that
  exists; a stream outside the table is shut down or about to be; and once the peer is closed and cleared,
  an entry has a goroutine that is still to write its first frame or to drop it, unless it is logged as added for an
  open frame with the number 0.
\<close>

definition table_ok :: "(32 word \<times> nat) list \<Rightarrow> (32 word \<times> bool) list \<Rightarrow> bool" where
  "table_ok S V \<longleftrightarrow> distinct (map fst S) \<and> length S \<le> maxStreams
     \<and> (\<forall>(i, a)\<in>set S. i \<noteq> 0 \<and> a < length V \<and> V ! a = (i, False))"

fun thread_ok :: "(32 word \<times> nat) list \<Rightarrow> (32 word \<times> bool) list \<Rightarrow> tunnel_thread \<Rightarrow> bool" where
  "thread_ok S V (TAccepted i a) \<longleftrightarrow> a < length V"
| "thread_ok S V (TShut a) \<longleftrightarrow> a < length V \<and> a \<notin> snd ` set S"
| "thread_ok S V (TDialOpen a) \<longleftrightarrow> a < length V"
| "thread_ok S V (TDialWait a) \<longleftrightarrow> a < length V"
| "thread_ok S V (TSignalAck a) \<longleftrightarrow> a < length V"
| "thread_ok S V (TSignalError i a m) \<longleftrightarrow> a < length V"
| "thread_ok S V (TDeliver a d) \<longleftrightarrow> a < length V"
| "thread_ok S V (TPump a) \<longleftrightarrow> a < length V"
| "thread_ok S V (TFeed a) \<longleftrightarrow> a < length V"
| "thread_ok S V th \<longleftrightarrow> True"

definition settled :: "(32 word \<times> nat) list \<Rightarrow> (32 word \<times> bool) list \<Rightarrow> tunnel_thread set \<Rightarrow> bool" where
  "settled S V ths \<longleftrightarrow> (\<forall>a<length V. a \<in> snd ` set S \<or> snd (V ! a) \<or> TShut a \<in> ths)"

definition covered :: "nat set \<Rightarrow> (32 word \<times> nat) list \<Rightarrow> bool \<Rightarrow> tunnel_thread set \<Rightarrow> bool" where
  "covered Z S C ths \<longleftrightarrow> (C \<and> TClosing \<notin> ths \<longrightarrow>
     (\<forall>(i, a)\<in>set S. a \<in> Z \<or> TDialOpen a \<in> ths \<or> TAccepted i a \<in> ths \<or> TDrop i \<in> ths))"

definition tunnel_inv :: "nat set \<Rightarrow> (32 word \<times> nat) list \<Rightarrow> (32 word \<times> bool) list \<Rightarrow> bool \<Rightarrow> tunnel_thread set \<Rightarrow> bool" where
  "tunnel_inv Z S V C ths \<longleftrightarrow>
     table_ok S V \<and> (\<forall>th\<in>ths. thread_ok S V th) \<and> settled S V ths \<and> covered Z S C ths"

definition obj_view :: "peer \<Rightarrow> (32 word \<times> bool) list" where
  "obj_view p = map (\<lambda>s. (ts_id s, ts_done s)) (pe_objects p)"

abbreviation peer_inv :: "peer \<Rightarrow> bool" where
  "peer_inv p \<equiv> tunnel_inv (set (pe_zero p)) (pe_streams p) (obj_view p) (pe_closed p) (set (pe_threads p))"

lemma table_okD:
  assumes "table_ok S V" "(i, a) \<in> set S"
  shows "i \<noteq> 0" "a < length V" "V ! a = (i, False)" "map_of S i = Some a"
  using assms by (auto simp: table_ok_def)

lemma table_ok_object: "table_ok S V \<Longrightarrow> (i, a) \<in> set S \<Longrightarrow> (j, a) \<in> set S \<Longrightarrow> i = j"
  using table_okD(3) [of S V i a] table_okD(3) [of S V j a] by simp

text \<open>A goroutine goes on as others: the rest of them stay.\<close>

definition moved :: "tunnel_thread set \<Rightarrow> tunnel_thread \<Rightarrow> tunnel_thread set \<Rightarrow> tunnel_thread set \<Rightarrow> bool" where
  "moved ths th Y ths' \<longleftrightarrow> th \<in> ths \<and> Y \<subseteq> ths' \<and> ths' \<subseteq> ths \<union> Y \<and> ths \<subseteq> insert th ths'"

lemma moved_list:
  assumes "t < length xs" "xs ! t = th"
  shows "moved (set xs) th (insert y (set ys)) (set (xs[t := y] @ ys))"
proof -
  have "x \<in> set (xs[t := y])" if "x \<in> set xs" "x \<noteq> th" for x
    using that assms by (metis in_set_conv_nth length_list_update nth_list_update_neq)
  moreover have "y \<in> set (xs[t := y])"
    using assms(1) by (rule set_update_memI)
  ultimately show ?thesis
    using assms set_update_subset_insert [of xs t y] unfolding moved_def by (auto dest: nth_mem)
qed

lemma thread_moved:
  assumes "thread_at p t th"
  shows "moved (set (pe_threads p)) th {th'} (set (pe_threads (set_thread t th' p)))"
    and "moved (set (pe_threads p)) th (insert th' (set ys)) (set (pe_threads (spawn ys (set_thread t th' p))))"
  using assms moved_list [of t "pe_threads p" th th' "[]"] moved_list [of t "pe_threads p" th th' ys]
  by (simp_all add: thread_at_def set_thread_def spawn_def)

lemma spawn_moved: "insert TEnd (set (pe_threads p)) = ths \<Longrightarrow> moved ths TEnd (set ys) (ths \<union> set ys)"
  by (auto simp: moved_def)

lemma inv_moved:
  assumes "tunnel_inv Z S V C ths" "moved ths th Y ths'" "\<forall>y\<in>Y. thread_ok S V y"
    and "\<And>a. th = TShut a \<Longrightarrow> snd (V ! a)"
    and "\<And>a. th = TDialOpen a \<Longrightarrow> \<not> C \<or> TDrop (fst (V ! a)) \<in> Y"
    and "\<And>i a. th = TAccepted i a \<Longrightarrow> \<not> C \<or> TDrop i \<in> Y"
    and "\<And>i. th = TDrop i \<Longrightarrow> map_of S i = None" "th \<noteq> TClosing"
  shows "tunnel_inv Z S V C ths'"
proof -
  have inv: "table_ok S V" "\<forall>th\<in>ths. thread_ok S V th" "settled S V ths" "covered Z S C ths"
    using assms(1) by (simp_all add: tunnel_inv_def)
  have m: "Y \<subseteq> ths'" "ths' \<subseteq> ths \<union> Y" "ths \<subseteq> insert th ths'"
    using assms(2) by (simp_all add: moved_def)
  have "\<forall>th\<in>ths'. thread_ok S V th"
    using inv(2) assms(3) m(2) by blast
  moreover have "settled S V ths'"
    using inv(3) m(3) assms(4) unfolding settled_def by blast
  moreover have "covered Z S C ths'"
    unfolding covered_def
  proof (intro impI ballI prod.case [THEN iffD2] case_prodI2)
    fix x i a assume C: "C \<and> TClosing \<notin> ths'" and ia: "x \<in> set S" "x = (i, a)"
    note t = table_okD [OF inv(1) ia(1) [unfolded ia(2)]]
    have "TClosing \<notin> ths"
      using C m(3) assms(8) by blast
    then consider "a \<in> Z" | "TDialOpen a \<in> ths" | "TAccepted i a \<in> ths" | "TDrop i \<in> ths"
      using inv(4) C ia unfolding covered_def by blast
    then show "a \<in> Z \<or> TDialOpen a \<in> ths' \<or> TAccepted i a \<in> ths' \<or> TDrop i \<in> ths'"
    proof cases
      case 2
      then show ?thesis
        using m(1,3) assms(5) [of a] C t(3) by auto
    next
      case 3
      then show ?thesis
        using m(1,3) assms(6) [of i a] C by blast
    next
      case 4
      then show ?thesis
        using m(3) assms(7) [of i] t(4) by auto
    qed simp
  qed
  ultimately show ?thesis
    using inv(1) by (simp add: tunnel_inv_def)
qed

section \<open>Steps keep the invariant\<close>

lemma obj_view_simps [simp]:
  "obj_view (set_thread t th p) = obj_view p" "obj_view (spawn ths p) = obj_view p"
  "pe_streams (set_thread t th p) = pe_streams p" "pe_streams (spawn ths p) = pe_streams p" "pe_streams (set_stream a x p) = pe_streams p"
  "pe_closed (set_thread t th p) = pe_closed p" "pe_closed (spawn ths p) = pe_closed p" "pe_closed (set_stream a x p) = pe_closed p"
  "pe_threads (set_stream a x p) = pe_threads p" "set (pe_threads (spawn ths p)) = set (pe_threads p) \<union> set ths"
  "pe_nextID (set_thread t th p) = pe_nextID p" "pe_nextID (spawn ths p) = pe_nextID p" "pe_nextID (set_stream a x p) = pe_nextID p"
  "set_thread t th (set_stream a x p) = set_stream a x (set_thread t th p)"
  "pe_objects (set_thread t th p) = pe_objects p" "pe_objects (spawn ths p) = pe_objects p"
  "obj_view (p\<lparr>pe_streams := S\<rparr>) = obj_view p" "obj_view (p\<lparr>pe_closed := c\<rparr>) = obj_view p"
  "pe_zero (set_thread t th p) = pe_zero p" "pe_zero (spawn ths p) = pe_zero p" "pe_zero (set_stream a x p) = pe_zero p"
  by (simp_all add: obj_view_def set_thread_def spawn_def set_stream_def)

lemma obj_view_stream:
  "obj_view (set_stream a x p) = (obj_view p)[a := (ts_id x, ts_done x)]"
  by (simp add: obj_view_def set_stream_def map_update)

lemma obj_view_nth: "a < length (obj_view p) \<Longrightarrow> obj_view p ! a = (ts_id (pe_objects p ! a), ts_done (pe_objects p ! a))"
  by (simp add: obj_view_def)

lemma obj_view_same:
  assumes "ts_id x = ts_id (pe_objects p ! a)" "ts_done x = ts_done (pe_objects p ! a)"
  shows "obj_view (set_stream a x p) = obj_view p"
proof (cases "a < length (obj_view p)")
  case True
  then show ?thesis
    using assms obj_view_nth [OF True] by (simp add: obj_view_stream list_update_same_conv)
qed (simp add: obj_view_stream list_update_beyond)

lemma obj_view_signal [simp]: "obj_view (signal a err p) = obj_view p" "pe_streams (signal a err p) = pe_streams p"
  "pe_closed (signal a err p) = pe_closed p" "pe_threads (signal a err p) = pe_threads p" "pe_nextID (signal a err p) = pe_nextID p"
  "pe_zero (signal a err p) = pe_zero p"
  "set_thread t th (signal a err p) = signal a err (set_thread t th p)"
  by (simp_all add: signal_def Let_def obj_view_same)

lemma in_threads: "thread_at p t th \<Longrightarrow> th \<in> set (pe_threads p)"
  by (auto simp: thread_at_def)

lemma thread_known: "peer_inv p \<Longrightarrow> thread_at p t th \<Longrightarrow> thread_ok (pe_streams p) (obj_view p) th"
  using in_threads by (auto simp: tunnel_inv_def)

lemma inv_spawn:
  assumes "tunnel_inv Z S V C ths" "thread_ok S V th"
  shows "tunnel_inv Z S V C (insert th ths)"
  using assms by (auto simp: tunnel_inv_def settled_def covered_def)

lemma handle_ok:
  assumes "table_ok (pe_streams p) (obj_view p)" "handle parse dialled frame p = Inr th"
  shows "thread_ok (pe_streams p) (obj_view p) th"
proof -
  have "a < length (obj_view p)" if "map_of (pe_streams p) i = Some a" for i a
    using table_okD(2) [OF assms(1) map_of_SomeD [OF that]] .
  then show ?thesis
    using assms(2) by (auto simp: handle_def split: sum.splits if_splits option.splits)
qed

text \<open>Adding a stream.\<close>

lemma allocate_cases:
  assumes "allocate i p = (r, p')"
  obtains e where "r = Inl e" "p' = p"
  | j n where "map_of (pe_streams p) j = None" "length (pe_streams p) < maxStreams" "i \<noteq> 0 \<Longrightarrow> j = i" "i = 0 \<Longrightarrow> pe_nextID p \<noteq> 0"
      "i = 0 \<Longrightarrow> scanID (maxStreams + 1) (pe_streams p) (pe_nextID p) = Some j" "i = 0 \<Longrightarrow> n = j + 2" "i \<noteq> 0 \<Longrightarrow> n = pe_nextID p"
      "(r, p') = addStream j (p\<lparr>pe_nextID := n\<rparr>)"
proof -
  have free: "scanID n S c = Some j \<Longrightarrow> map_of S j = None" for n S c j
    by (induction n arbitrary: c) (auto split: if_splits)
  show thesis
  proof (cases "i = 0")
    case True
    then show thesis
      using assms that free by (auto simp: allocate_def split: if_splits option.splits)
  next
    case False
    have same: "p\<lparr>pe_nextID := pe_nextID p\<rparr> = p"
      by simp
    show thesis
      using assms False that(1) that(2) [of i "pe_nextID p", unfolded same] by (auto simp: allocate_def split: if_splits)
  qed
qed

lemma scan_nonzero: "c \<noteq> 0 \<Longrightarrow> scanID n S c = Some j \<Longrightarrow> j \<noteq> 0"
  by (induction n arbitrary: c) (auto split: if_splits)

lemma inv_add:
  assumes "tunnel_inv Z S V C ths" "map_of S j = None" "length S < maxStreams" "j \<noteq> 0"
    and "moved ths th {th'} ths'" "Z \<subseteq> Z'"
    and "th' = TDialOpen (length V) \<or> th' = TAccepted j (length V) \<or> (th' = TAccepted 0 (length V) \<and> length V \<in> Z')"
    and "th = TDialStart \<or> (\<exists>i. th = TAcceptStart i)"
  shows "tunnel_inv Z' ((j, length V) # S) (V @ [(j, False)]) C ths'"
proof -
  have inv: "table_ok S V" "\<forall>th\<in>ths. thread_ok S V th" "settled S V ths" "covered Z S C ths"
    using assms(1) by (simp_all add: tunnel_inv_def)
  have m: "th' \<in> ths'" "ths' \<subseteq> insert th' ths" "ths \<subseteq> insert th ths'"
    using assms(5) by (auto simp: moved_def)
  have "table_ok ((j, length V) # S) (V @ [(j, False)])"
    using inv(1) assms(2-4) by (auto simp: table_ok_def nth_append map_of_eq_None_iff split: prod.splits)
  moreover have "thread_ok ((j, length V) # S) (V @ [(j, False)]) x" if "thread_ok S V x" for x
    using that by (cases x) (auto simp: nth_append)
  then have "\<forall>th\<in>ths'. thread_ok ((j, length V) # S) (V @ [(j, False)]) th"
    using m(2) inv(2) assms(7) by (auto simp: nth_append)
  moreover have "settled ((j, length V) # S) (V @ [(j, False)]) ths'"
    using inv(3) m(3) assms(8) by (fastforce simp: settled_def nth_append less_Suc_eq)
  moreover have "covered Z' ((j, length V) # S) C ths'"
    using inv(4) m assms(6-8) unfolding covered_def by auto
  ultimately show ?thesis
    by (simp add: tunnel_inv_def)
qed

text \<open>Removing one, shutting it down, and closing.\<close>

lemma inv_forget:
  assumes "tunnel_inv Z S V C ths" "moved ths (TDrop i) {after_forget (map_of S i)} ths'"
  shows "tunnel_inv Z (AList.delete i S) V C ths'"
proof -
  let ?S = "AList.delete i S"
  have inv: "table_ok S V" "\<forall>th\<in>ths. thread_ok S V th" "settled S V ths" "covered Z S C ths"
    using assms(1) by (simp_all add: tunnel_inv_def)
  have m: "after_forget (map_of S i) \<in> ths'" "ths' \<subseteq> insert (after_forget (map_of S i)) ths" "ths \<subseteq> insert (TDrop i) ths'"
    using assms(2) by (auto simp: moved_def)
  have sub: "set ?S = {x \<in> set S. fst x \<noteq> i}"
    by (auto simp: AList.delete_eq)
  have table: "table_ok ?S V"
    using inv(1) order_trans [OF length_filter_le [of "\<lambda>x. i \<noteq> fst x" S]]
    by (auto simp: table_ok_def sub AList.delete_eq distinct_map_filter split_def)
  have new: "thread_ok ?S V (after_forget (map_of S i))"
  proof (cases "map_of S i")
    case (Some a)
    then have "(i, a) \<in> set S"
      by (rule map_of_SomeD)
    then show ?thesis
      using Some table_okD(2) [OF inv(1)] table_ok_object [OF inv(1)] by (force simp: after_forget_def sub)
  qed (simp add: after_forget_def)
  have "thread_ok ?S V x" if "thread_ok S V x" for x
    using that by (cases x) (auto simp: sub)
  then have "\<forall>th\<in>ths'. thread_ok ?S V th"
    using m(2) inv(2) new by auto
  moreover have "settled ?S V ths'"
    unfolding settled_def
  proof (intro allI impI)
    fix a assume a: "a < length V"
    have "TShut a \<in> ths'" if "(i, a) \<in> set S"
      using m(1) table_okD(4) [OF inv(1) that] by (simp add: after_forget_def)
    then show "a \<in> snd ` set ?S \<or> snd (V ! a) \<or> TShut a \<in> ths'"
      using inv(3) a m(3) by (fastforce simp: settled_def sub)
  qed
  moreover have "covered Z ?S C ths'"
    using inv(4) m unfolding covered_def by (fastforce simp: sub)
  ultimately show ?thesis
    using table by (simp add: tunnel_inv_def)
qed

lemma inv_shut:
  assumes "tunnel_inv Z S V C ths" "a < length V" "a \<notin> snd ` set S" "moved ths (TShut a) {TEnd} ths'"
  shows "tunnel_inv Z S (V[a := (fst (V ! a), True)]) C ths'"
proof -
  let ?V = "V[a := (fst (V ! a), True)]"
  have inv: "table_ok S V" "\<forall>th\<in>ths. thread_ok S V th" "settled S V ths" "covered Z S C ths"
    using assms(1) by (simp_all add: tunnel_inv_def)
  have "?V ! snd x = V ! snd x" if "x \<in> set S" for x
    using assms(3) that by (metis image_eqI nth_list_update_neq)
  then have "table_ok S ?V"
    using inv(1) by (simp add: table_ok_def split_def)
  moreover have "thread_ok S ?V x" if "thread_ok S V x" for x
    using that assms(2) by (cases x) (auto simp: nth_list_update)
  moreover have "snd (?V ! b)" if "b < length V" "snd (V ! b)" for b
    using that by (cases "b = a") simp_all
  then have "settled S ?V ths"
    using inv(3) by (auto simp: settled_def)
  ultimately have "tunnel_inv Z S ?V C ths"
    using inv by (simp add: tunnel_inv_def)
  then show ?thesis
    by (rule inv_moved [OF _ assms(4)]) (use assms(2) in auto)
qed

lemma inv_swap: "tunnel_inv Z S V C ths \<Longrightarrow> tunnel_inv Z S V True (insert TClosing ths)"
  by (auto simp: tunnel_inv_def settled_def covered_def)

lemma inv_clear:
  assumes "tunnel_inv Z S V C ths" "moved ths TClosing (insert TEnd (set (map (TShut \<circ> snd) S))) ths'"
  shows "tunnel_inv Z [] V C ths'"
proof -
  have inv: "table_ok S V" "\<forall>th\<in>ths. thread_ok S V th" "settled S V ths"
    using assms(1) by (simp_all add: tunnel_inv_def)
  have m: "ths' \<subseteq> insert TEnd (ths \<union> (TShut \<circ> snd) ` set S)" "(TShut \<circ> snd) ` set S \<subseteq> ths'" "ths \<subseteq> insert TClosing ths'"
    using assms(2) by (auto simp: moved_def)
  have "thread_ok [] V x" if "thread_ok S V x" for x
    using that by (cases x) auto
  moreover have "thread_ok [] V (TShut (snd x))" if "x \<in> set S" for x
    using that table_okD(2) [OF inv(1), of "fst x" "snd x"] by simp
  ultimately have "\<forall>th\<in>ths'. thread_ok [] V th"
    using m(1) inv(2) by auto
  moreover have "settled [] V ths'"
    using inv(3) m(2,3) by (fastforce simp: settled_def)
  ultimately show ?thesis
    by (simp add: tunnel_inv_def table_ok_def covered_def)
qed

lemma peer_moved:
  assumes "peer_inv p" "thread_at p t th" "\<forall>y\<in>insert th' (set ys). thread_ok (pe_streams p) (obj_view p) y"
    and "\<And>a. th = TDialOpen a \<Longrightarrow> \<not> pe_closed p \<or> th' = TDrop (ts_id (pe_objects p ! a))"
    and "\<And>i a. th = TAccepted i a \<Longrightarrow> \<not> pe_closed p \<or> th' = TDrop i"
    and "\<And>a. th \<noteq> TShut a" "\<And>i. th \<noteq> TDrop i" "th \<noteq> TClosing"
  shows "tunnel_inv (set (pe_zero p)) (pe_streams p) (obj_view p) (pe_closed p) (set (pe_threads (set_thread t th' p)) \<union> set ys)"
proof -
  have "a < length (obj_view p)" if "th = TDialOpen a" for a
    using thread_known [OF assms(1,2)] that by simp
  then show ?thesis
    using thread_moved(2) [OF assms(2), of th' ys] assms(4-8)
    by (intro inv_moved [OF assms(1) _ assms(3)]) (fastforce simp: obj_view_nth)+
qed

lemmas peer_move = peer_moved [where ys = "[]", simplified]

lemma peer_move_feed:
  assumes "peer_inv p" "thread_at p t th" "th = TDialWait a \<or> (\<exists>i. th = TAccepted i a \<and> \<not> pe_closed p)"
  shows "tunnel_inv (set (pe_zero p)) (pe_streams p) (obj_view p) (pe_closed p) (insert (TFeed a) (set (pe_threads (set_thread t (TPump a) p))))"
  using peer_moved [OF assms(1,2), of "TPump a" "[TFeed a]"] thread_known [OF assms(1,2)] assms(3) by auto

lemma log_zero_simps [simp]:
  "pe_streams (log_zero i r p) = pe_streams p" "obj_view (log_zero i r p) = obj_view p" "pe_closed (log_zero i r p) = pe_closed p"
  "pe_threads (log_zero i r p) = pe_threads p" "pe_nextID (log_zero i r p) = pe_nextID p" "log_zero i (Inl e) p = p"
  "pe_zero (log_zero i (Inr a) p) = (if i = 0 then a # pe_zero p else pe_zero p)"
  by (auto simp: log_zero_def obj_view_def split: sum.split)

lemma allocate_inv:
  assumes inv: "peer_inv p" and t: "thread_at p t th" and r: "allocate i p = (r, p')"
    and th: "(th = TDialStart \<and> i = 0 \<and> f = TDialOpen \<and> q = p') \<or> (th = TAcceptStart i \<and> f = TAccepted i \<and> q = log_zero i r p')"
  shows "peer_inv (set_thread t (after_allocate r f) q)"
  using r
proof (cases rule: allocate_cases)
  case (1 e)
  then show ?thesis
    using peer_moved [OF inv t, of TEnd "[]"] th by (auto simp: after_allocate_def)
next
  case (2 j n)
  have p': "r = Inr (length (obj_view p))" "pe_streams p' = (j, length (obj_view p)) # pe_streams p" "obj_view p' = obj_view p @ [(j, False)]"
    "pe_closed p' = pe_closed p" "pe_threads p' = pe_threads p" "pe_zero p' = pe_zero p"
    using 2(8) by (auto simp: addStream_def obj_view_def)
  have q: "pe_streams q = pe_streams p'" "obj_view q = obj_view p'" "pe_closed q = pe_closed p'" "pe_threads q = pe_threads p'"
    "set (pe_zero p) \<subseteq> set (pe_zero q)" "th = TAcceptStart 0 \<Longrightarrow> i = 0 \<Longrightarrow> length (obj_view p) \<in> set (pe_zero q)"
    using th p' by auto
  have j: "j \<noteq> 0"
    using 2(3-5) scan_nonzero by blast
  have "moved (set (pe_threads p)) th {f (length (obj_view p))} (set (pe_threads (set_thread t (f (length (obj_view p))) q)))"
    using t p'(5) q(4) thread_moved(1) [of q t th] by (simp add: thread_at_def)
  then have "tunnel_inv (set (pe_zero q)) ((j, length (obj_view p)) # pe_streams p) (obj_view p @ [(j, False)]) (pe_closed p)
      (set (pe_threads (set_thread t (f (length (obj_view p))) q)))"
    by (rule inv_add [OF inv 2(1,2) j _ q(5)]) (use th q(6) 2(3) in auto)
  then show ?thesis
    using p' q by (simp add: after_allocate_def)
qed

lemma tunnel_step_inv:
  assumes "tunnel_step p p'" "peer_inv p"
  shows "peer_inv p'"
  using assms
proof (induction rule: tunnel_step.induct)
  case (dial_check p)
  then show ?case
    using inv_spawn [of _ _ _ _ _ TDialStart] by simp
next
  case (dial_allocate p t r p')
  then show ?case
    by (intro allocate_inv) auto
next
  case (accept_allocate p t i r p')
  then show ?case
    by (intro allocate_inv) auto
next
  case (received parse dialled frame p th)
  then show ?case
    using inv_spawn [OF received.prems handle_ok [OF _ received.hyps]] by (simp add: tunnel_inv_def)
next
  case (drop_forget p t i r p')
  then have "moved (set (pe_threads p)) (TDrop i) {after_forget (map_of (pe_streams p) i)} (set (pe_threads (set_thread t (after_forget r) p')))"
    using thread_moved(1) [of p' t "TDrop i"] by (auto simp: forget_def thread_at_def)
  then show ?case
    using inv_forget [OF drop_forget.prems] drop_forget.hyps(2) by (auto simp: forget_def)
next
  case (shut_down p t a)
  have a: "a < length (obj_view p)" "a \<notin> snd ` set (pe_streams p)"
    using thread_known [OF shut_down.prems shut_down.hyps] by simp_all
  show ?case
    using inv_shut [OF shut_down.prems a thread_moved(1) [OF shut_down.hyps]] a(1)
    by (simp add: shutdown_def obj_view_stream obj_view_nth)
next
  case (close_swap p)
  then show ?case
    using inv_swap [OF close_swap.prems] by (simp add: obj_view_def spawn_def)
next
  case (close_clear p t)
  have "moved (set (pe_threads p)) TClosing (insert TEnd (set (map (TShut \<circ> snd) (pe_streams p))))
      (set (pe_threads (set_thread t TEnd p)) \<union> set (map (TShut \<circ> snd) (pe_streams p)))"
    using thread_moved(2) [OF close_clear.hyps, of TEnd "map (TShut \<circ> snd) (pe_streams p)"] by simp
  from inv_clear [OF close_clear.prems this] show ?case
    by (simp add: obj_view_def spawn_def set_thread_def)
qed ((simp (no_asm) add: obj_view_same, (rule peer_move_feed, assumption, assumption, simp; fail)
    | frule (1) thread_known, simp (no_asm) add: obj_view_same, rule peer_move, assumption, assumption, simp_all; fail
    | simp add: obj_view_same; fail)+)

lemma new_peer_inv: "peer_inv (newPeer i)"
  by (simp add: newPeer_def tunnel_inv_def table_ok_def settled_def covered_def obj_view_def)

interpretation tu: inductive_invariant "\<lambda>p. p = newPeer i" tunnel_step peer_inv for i
  by unfold_locales (auto simp: new_peer_inv intro: tunnel_step_inv)

text \<open>The goroutines that are going to act on a stream and cannot wait for anything but the mutex and the connection.\<close>

fun pending :: "tunnel_thread \<Rightarrow> bool" where
  "pending (TDialOpen a) \<longleftrightarrow> True"
| "pending (TAccepted i a) \<longleftrightarrow> True"
| "pending (TDrop i) \<longleftrightarrow> True"
| "pending (TShut a) \<longleftrightarrow> True"
| "pending TClosing \<longleftrightarrow> True"
| "pending th \<longleftrightarrow> False"

text \<open>
  \<^bold>\<open>C34.\<close> No stream is lost, whatever the interleaving of dials, accepted opens, frames, pumps and \<^verbatim>\<open>Close\<close>,
  with one exception. The table has at most 256 entries, and every stream that is not shut down is in it under
  its own number, or is about to be shut down. Once the peer is closed and the goroutines that act on a stream
  have finished, every entry that is left in the table and every stream that is not shut down was added for an
  open frame with the number 0, which \<^verbatim>\<open>acceptOpen\<close> adds under a local number but drops as 0. All others are gone
  from the table and shut down, also those of dials and opens that were under way when the peer closed; where no
  such frame was accepted the table is empty.
\<close>

theorem tunnel_streams_accounted:
  assumes "tunnel_reachable (newPeer i) p"
  shows "length (pe_streams p) \<le> maxStreams
    \<and> (\<forall>a<length (pe_objects p). ts_done (pe_objects p ! a) \<or> (ts_id (pe_objects p ! a), a) \<in> set (pe_streams p) \<or> TShut a \<in> set (pe_threads p))
    \<and> (pe_closed p \<and> (\<forall>th\<in>set (pe_threads p). \<not> pending th) \<longrightarrow>
         snd ` set (pe_streams p) \<subseteq> set (pe_zero p)
         \<and> (\<forall>a<length (pe_objects p). ts_done (pe_objects p ! a) \<or> a \<in> set (pe_zero p)))"
proof -
  have inv: "table_ok (pe_streams p) (obj_view p)" "settled (pe_streams p) (obj_view p) (set (pe_threads p))"
    "covered (set (pe_zero p)) (pe_streams p) (pe_closed p) (set (pe_threads p))"
    using tu.invariant [OF assms] by (simp_all add: tunnel_inv_def)
  have acc: "ts_done (pe_objects p ! a) \<or> (ts_id (pe_objects p ! a), a) \<in> set (pe_streams p) \<or> TShut a \<in> set (pe_threads p)"
    if a: "a < length (pe_objects p)" for a
  proof -
    have a: "a < length (obj_view p)"
      using a by (simp add: obj_view_def)
    have "ts_id (pe_objects p ! a) = j" if "(j, a) \<in> set (pe_streams p)" for j
      using table_okD(3) [OF inv(1) that] obj_view_nth [OF a] by simp
    then show ?thesis
      using inv(2) a obj_view_nth [OF a] by (force simp: settled_def)
  qed
  moreover have "snd ` set (pe_streams p) \<subseteq> set (pe_zero p)
      \<and> (\<forall>a<length (pe_objects p). ts_done (pe_objects p ! a) \<or> a \<in> set (pe_zero p))"
    if c: "pe_closed p" and quiet: "\<forall>th\<in>set (pe_threads p). \<not> pending th"
  proof -
    have out: "TClosing \<notin> set (pe_threads p)" "TDialOpen a \<notin> set (pe_threads p)" "TAccepted j a \<notin> set (pe_threads p)"
      "TDrop j \<notin> set (pe_threads p)" "TShut a \<notin> set (pe_threads p)" for j a
      using quiet by force+
    have left: "a \<in> set (pe_zero p)" if "(j, a) \<in> set (pe_streams p)" for j a
      using inv(3) c out that by (auto simp: covered_def)
    then show ?thesis
      using acc out(5) by fastforce
  qed
  ultimately show ?thesis
    using inv(1) by (auto simp: table_ok_def)
qed

section \<open>Stream numbers\<close>

lemma scan_None:
  assumes "scanID n S c = None" "odd c" "k < n"
  shows "map_of S (c + 2 * of_nat k) \<noteq> None"
  using assms
proof (induction n arbitrary: c k)
  case (Suc n)
  have "odd (c + 2)"
    using Suc.prems(2) by simp
  then have "c + 2 \<noteq> 0"
    by (metis even_zero)
  then have rest: "map_of S c \<noteq> None" "scanID n S (c + 2) = None"
    using Suc.prems(1) by (auto split: if_splits)
  show ?case
  proof (cases k)
    case (Suc m)
    have "c + 2 + 2 * of_nat m = c + 2 * of_nat k"
      by (simp add: Suc algebra_simps)
    then show ?thesis
      using Suc.IH [OF rest(2) \<open>odd (c + 2)\<close>, of m] Suc.prems(3) Suc by (metis Suc_less_eq)
  qed (use rest(1) in simp)
qed simp

lemma scan_odd: "odd c \<Longrightarrow> scanID n S c = Some j \<Longrightarrow> odd j"
proof (induction n arbitrary: c)
  case (Suc n)
  then show ?case
    using Suc.IH [of "c + 2"] by (simp split: if_splits)
qed simp

lemma candidates_distinct: "inj_on (\<lambda>k. (c :: 32 word) + 2 * of_nat k) {..<maxStreams + 1}"
proof (rule inj_onI)
  fix k k' assume k: "k \<in> {..<maxStreams + 1}" "k' \<in> {..<maxStreams + 1}" and eq: "c + 2 * of_nat k = c + 2 * of_nat k'"
  have "unat (of_nat (2 * m) :: 32 word) = 2 * m" if "m \<in> {..<maxStreams + 1}" for m
    using that by (simp add: maxStreams_def unat_of_nat del: of_nat_mult)
  moreover have "(of_nat (2 * k) :: 32 word) = of_nat (2 * k')"
    using eq by simp
  ultimately show "k = k'"
    using k by (metis mult_cancel1 zero_neq_numeral)
qed

lemma scan_finds:
  assumes "odd c" "length S < maxStreams"
  shows "scanID (maxStreams + 1) S c \<noteq> None"
proof
  assume none: "scanID (maxStreams + 1) S c = None"
  have "(\<lambda>k. c + 2 * of_nat k) ` {..<maxStreams + 1} \<subseteq> fst ` set S"
    using scan_None [OF none assms(1)] unfolding map_of_eq_None_iff by blast
  then have "card ((\<lambda>k. c + 2 * of_nat k) ` {..<maxStreams + 1}) \<le> card (fst ` set S)"
    by (intro card_mono) simp_all
  also have "\<dots> \<le> length S"
    by (metis card_length length_map set_map)
  finally show False
    using card_image [OF candidates_distinct, of c] assms(2) by simp
qed

lemma step_next_id:
  assumes "tunnel_step p p'"
  shows "pe_nextID p' = pe_nextID p
    \<or> (\<exists>c. pe_nextID p \<noteq> 0 \<and> scanID (maxStreams + 1) (pe_streams p) (pe_nextID p) = Some c \<and> pe_nextID p' = c + 2)"
proof -
  have alloc: "pe_nextID q' = pe_nextID q
      \<or> (\<exists>c. pe_nextID q \<noteq> 0 \<and> scanID (maxStreams + 1) (pe_streams q) (pe_nextID q) = Some c \<and> pe_nextID q' = c + 2)"
    if "allocate i q = (r, q')" for i r q q'
    using that by (cases rule: allocate_cases) (cases "i = 0"; auto simp: addStream_def)+
  show ?thesis
    using assms by (induction rule: tunnel_step.induct) (use alloc in \<open>auto simp: forget_def shutdown_def spawn_def set_thread_def set_stream_def\<close>)
qed

interpretation tc: inductive_invariant "\<lambda>p. p = clientPeer" tunnel_step "\<lambda>p. odd (pe_nextID p)"
proof
  show "odd (pe_nextID p)" if "p = clientPeer" for p
    using that by (simp add: clientPeer_def newPeer_def)
  show "odd (pe_nextID p')" if "tunnel_step p p'" "odd (pe_nextID p)" for p p'
    using step_next_id [OF that(1)]
  proof (elim disjE exE conjE)
    fix c assume c: "scanID (maxStreams + 1) (pe_streams p) (pe_nextID p) = Some c" "pe_nextID p' = c + 2"
    show ?thesis
      unfolding c(2) using scan_odd [OF that(2) c(1)] by simp
  qed (use that(2) in simp)
qed

text \<open>
  \<^bold>\<open>C35.\<close> The dialing side of a tunnel never runs out of stream numbers: in every reachable state a local dial is refused
  a stream only when all 256 are in use, and otherwise it gets an odd number that no entry of the table has,
  although the counter wraps around and the other side may use any number.
\<close>

theorem client_dial_available:
  assumes "tunnel_reachable clientPeer p"
  shows "if length (pe_streams p) \<ge> maxStreams then fst (allocate 0 p) = Inl TooManyStreams
    else (\<exists>j a p'. allocate 0 p = (Inr a, p') \<and> odd j \<and> map_of (pe_streams p) j = None \<and> pe_streams p' = (j, a) # pe_streams p)"
proof (cases "length (pe_streams p) \<ge> maxStreams")
  case False
  have odd: "odd (pe_nextID p)"
    using tc.invariant [OF assms] .
  then have "pe_nextID p \<noteq> 0"
    by (metis even_zero)
  obtain j where j: "scanID (maxStreams + 1) (pe_streams p) (pe_nextID p) = Some j"
    using scan_finds [OF odd] False by fastforce
  obtain r p' where r: "allocate 0 p = (r, p')"
    by (metis prod.exhaust)
  then have "r = Inr (length (pe_objects p))" "pe_streams p' = (j, length (pe_objects p)) # pe_streams p"
    using False \<open>pe_nextID p \<noteq> 0\<close> j by (auto simp: allocate_def addStream_def)
  moreover have "map_of (pe_streams p) j = None"
    using r by (cases rule: allocate_cases) (use calculation(1) j in auto)
  ultimately show ?thesis
    using False r scan_odd [OF odd j] by auto
qed (simp add: allocate_def)

text \<open>A local dial whose open frame cannot be written, with the table empty.\<close>

lemma failed_dial:
  assumes "tunnel_reachable q p" "pe_streams p = []" "\<not> pe_closed p" "pe_nextID p \<noteq> 0"
  shows "\<exists>p'. tunnel_reachable q p' \<and> pe_streams p' = [] \<and> \<not> pe_closed p' \<and> pe_nextID p' = pe_nextID p + 2 \<and> pe_zero p' = pe_zero p"
proof -
  let ?t = "length (pe_threads p)" and ?a = "length (pe_objects p)" and ?i = "pe_nextID p"
  let ?new = "\<lparr>ts_id = ?i, ts_ready = None, ts_incoming = [], ts_done = False\<rparr>"
  define p1 where "p1 = spawn [TDialStart] p"
  define p2 where "p2 = p\<lparr>pe_nextID := ?i + 2, pe_objects := pe_objects p @ [?new], pe_streams := [(?i, ?a)],
    pe_threads := pe_threads p @ [TDialOpen ?a]\<rparr>"
  define p3 where "p3 = set_thread ?t (TDrop ?i) p2"
  define p4 where "p4 = set_thread ?t (TShut ?a) (p3\<lparr>pe_streams := []\<rparr>)"
  have "tunnel_step p p1"
    unfolding p1_def by (rule dial_check) fact
  moreover have "tunnel_step p1 p2"
  proof -
    have "thread_at p1 ?t TDialStart"
      by (simp add: p1_def thread_at_def spawn_def)
    moreover have "scanID (maxStreams + 1) [] ?i = Some ?i"
      by simp
    then have "allocate 0 p1 = addStream ?i (p1\<lparr>pe_nextID := ?i + 2\<rparr>)"
      using assms(2,4) by (simp add: allocate_def p1_def spawn_def maxStreams_def)
    ultimately have "tunnel_step p1 (set_thread ?t (TDialOpen ?a) (snd (addStream ?i (p1\<lparr>pe_nextID := ?i + 2\<rparr>))))"
      using dial_allocate [of p1 ?t "Inr ?a" _] by (simp add: addStream_def after_allocate_def p1_def spawn_def)
    then show ?thesis
      using assms(2) by (simp add: p2_def p1_def addStream_def set_thread_def spawn_def)
  qed
  moreover have "tunnel_step p2 p3"
    using dial_unwritten [of p2 ?t ?a] by (simp add: p3_def p2_def thread_at_def)
  moreover have "tunnel_step p3 p4"
    using drop_forget [of p3 ?t ?i "Some ?a" "p3\<lparr>pe_streams := []\<rparr>"]
    by (simp add: p4_def p3_def p2_def thread_at_def set_thread_def forget_def after_forget_def)
  ultimately have "tunnel_reachable q p4"
    using assms(1) by (meson reachable_step)
  then show ?thesis
    using assms(3) by (intro exI [of _ p4]) (simp add: p4_def p3_def p2_def set_thread_def)
qed

lemma server_counter:
  "k \<le> 2147483647 \<Longrightarrow> \<exists>p. tunnel_reachable serverPeer p \<and> pe_streams p = [] \<and> \<not> pe_closed p \<and> pe_nextID p = 2 + 2 * of_nat k \<and> pe_zero p = []"
proof (induction k)
  case 0
  have "tunnel_reachable serverPeer serverPeer"
    by (rule reachable_start) simp
  then show ?case
    by (intro exI [of _ serverPeer]) (simp add: serverPeer_def newPeer_def)
next
  case (Suc k)
  then obtain p where p: "tunnel_reachable serverPeer p" "pe_streams p = []" "\<not> pe_closed p" "pe_nextID p = 2 + 2 * of_nat k" "pe_zero p = []"
    by auto
  have "unat (of_nat (2 + 2 * k) :: 32 word) = 2 + 2 * k"
    unfolding unat_of_nat using Suc.prems by (intro mod_less) simp
  then have "pe_nextID p \<noteq> 0"
    using p(4) by (metis add_is_0 of_nat_add of_nat_mult of_nat_numeral unsigned_0 zero_neq_numeral)
  from failed_dial [OF p(1-3) this] show ?case
    using p(4,5) by (auto simp: algebra_simps)
qed

lemma exhausted_forever: "tunnel_step\<^sup>*\<^sup>* p q \<Longrightarrow> pe_nextID p = 0 \<Longrightarrow> pe_nextID q = 0"
  by (induction rule: rtranclp_induct) (auto dest!: step_next_id)

text \<open>
  \<^bold>\<open>C36.\<close> The accepting side of a tunnel does run out of stream numbers: its even counter reaches 0 after 2147483647 dials,
  and from then on every local dial is refused as if there were too many connections, although the table is
  empty and the peer is open, until the tunnel is replaced. Such a state is reached without any stream added for the number 0.
\<close>

theorem server_ids_exhausted:
  "\<exists>p. tunnel_reachable serverPeer p \<and> pe_streams p = [] \<and> \<not> pe_closed p \<and> pe_zero p = []
     \<and> {q. tunnel_step\<^sup>*\<^sup>* p q} \<subseteq> {q. fst (allocate 0 q) = Inl TooManyStreams}"
proof -
  obtain p where p: "tunnel_reachable serverPeer p" "pe_streams p = []" "\<not> pe_closed p" "pe_nextID p = 2 + 2 * of_nat 2147483647" "pe_zero p = []"
    using server_counter [of 2147483647] by auto
  have "pe_nextID p = 0"
    unfolding p(4) by simp
  then have "fst (allocate 0 q) = Inl TooManyStreams" if "tunnel_step\<^sup>*\<^sup>* p q" for q
    using exhausted_forever [OF that] by (simp add: allocate_def)
  then show ?thesis
    using p by blast
qed

section \<open>Runs\<close>

lemma scan_empty: "0 < n \<Longrightarrow> scanID n [] c = Some c"
  by (cases n) simp_all

lemmas tunnel_run_defs = scan_empty newPeer_def clientPeer_def allocate_def addStream_def maxStreams_def spawn_def set_thread_def set_stream_def shutdown_def
  forget_def thread_at_def after_allocate_def after_forget_def log_zero_def

definition sample_peer :: "(32 word \<times> nat) list \<Rightarrow> bool list \<Rightarrow> bool \<Rightarrow> tunnel_thread list \<Rightarrow> peer" where
  "sample_peer S ds c ths = \<lparr>pe_nextID = (if ds = [] then 1 else 3), pe_streams = S,
     pe_objects = map (\<lambda>d. \<lparr>ts_id = 1, ts_ready = None, ts_incoming = [], ts_done = d\<rparr>) ds, pe_closed = c, pe_threads = ths, pe_zero = []\<rparr>"

lemma tunnel_to: "tunnel_reachable q s \<Longrightarrow> tunnel_step s s' \<Longrightarrow> s' = t \<Longrightarrow> tunnel_reachable q t"
  by (rule reachable_to)

lemma sample_peer_start: "tunnel_reachable (newPeer 1) (sample_peer [] [] False [])"
  by (rule reachable_start) (simp add: sample_peer_def newPeer_def)

text \<open>A peer that is closed while a dial is between its allocation and its open frame.\<close>

lemma sample_dial: "tunnel_reachable (newPeer 1) (sample_peer [(1, 0)] [False] False [TDialOpen 0])"
proof -
  have "tunnel_reachable (newPeer 1) (sample_peer [] [] False [TDialStart])"
    by (rule tunnel_to [OF sample_peer_start dial_check]) (simp_all add: sample_peer_def tunnel_run_defs)
  then show ?thesis
    by (rule tunnel_to [OF _ dial_allocate [of _ 0 "Inr 0" "sample_peer [(1, 0)] [False] False [TDialStart]"]])
      (simp_all add: sample_peer_def tunnel_run_defs)
qed

lemma sample_close: "tunnel_reachable (newPeer 1) (sample_peer [] [True] True [TEnd, TEnd, TEnd])"
proof -
  have "tunnel_reachable (newPeer 1) (sample_peer [(1, 0)] [False] True [TDialOpen 0, TClosing])"
    by (rule tunnel_to [OF sample_dial close_swap]) (simp_all add: sample_peer_def tunnel_run_defs)
  then have "tunnel_reachable (newPeer 1) (sample_peer [] [False] True [TDialOpen 0, TEnd, TShut 0])"
    by (rule tunnel_to [OF _ close_clear [of _ 1]]) (simp_all add: sample_peer_def tunnel_run_defs)
  then have "tunnel_reachable (newPeer 1) (sample_peer [] [False] True [TDrop 1, TEnd, TShut 0])"
    by (rule tunnel_to [OF _ dial_unwritten [of _ 0 0]]) (simp_all add: sample_peer_def tunnel_run_defs)
  then have "tunnel_reachable (newPeer 1) (sample_peer [] [False] True [TEnd, TEnd, TShut 0])"
    by (rule tunnel_to [OF _ drop_forget [of _ 0 1 None "sample_peer [] [False] True [TDrop 1, TEnd, TShut 0]"]])
      (simp_all add: sample_peer_def tunnel_run_defs)
  then show ?thesis
    by (rule tunnel_to [OF _ shut_down [of _ 2 0]]) (simp_all add: sample_peer_def tunnel_run_defs)
qed

theorem tunnel_streams_accounted_witness:
  "pe_closed (sample_peer [] [True] True [TEnd, TEnd, TEnd]) \<and> length (pe_objects (sample_peer [] [True] True [TEnd, TEnd, TEnd])) = 1
     \<and> ts_done (pe_objects (sample_peer [] [True] True [TEnd, TEnd, TEnd]) ! 0) \<and> pe_streams (sample_peer [] [True] True [TEnd, TEnd, TEnd]) = []"
  using tunnel_streams_accounted [OF sample_close] by (simp add: sample_peer_def)

theorem client_dial_available_witness:
  "\<exists>j a p'. allocate 0 (sample_peer [(1, 0)] [False] False [TDialOpen 0]) = (Inr a, p') \<and> odd j \<and> pe_streams p' = [(j, a), (1, 0)]"
proof -
  have "tunnel_reachable clientPeer (sample_peer [(1, 0)] [False] False [TDialOpen 0])"
    unfolding clientPeer_def by (rule sample_dial)
  moreover have "\<not> maxStreams \<le> length (pe_streams (sample_peer [(1, 0)] [False] False [TDialOpen 0]))"
    by (simp add: sample_peer_def maxStreams_def)
  ultimately obtain j a p' where "allocate 0 (sample_peer [(1, 0)] [False] False [TDialOpen 0]) = (Inr a, p')" "odd j"
    "pe_streams p' = (j, a) # pe_streams (sample_peer [(1, 0)] [False] False [TDialOpen 0])"
    using client_dial_available by (metis (no_types, lifting))
  then show ?thesis
    by (intro exI [of _ j] exI [of _ a] exI [of _ p']) (simp add: sample_peer_def)
qed

text \<open>
  A stream the other side opens as number 0 gets a local number instead, and the failure path of the open
  drops number 0: when the peer is closed meanwhile, the stream stays in the table and is never shut down.
\<close>

lemma zero_id_leaks: "tunnel_reachable (newPeer 1) ((sample_peer [(1, 0)] [False] True [TEnd, TEnd])\<lparr>pe_zero := [0]\<rparr>)"
proof -
  have open_frame: "handle (\<lambda>_. True) True [1, 0, 0, 0, 0] (sample_peer [] [] False []) = Inr (TAcceptStart 0)"
    by (simp add: handle_def decodeFrame_def headerSize_def maxFrameBytes_def frameOpen_def be_value_def)
  have "tunnel_reachable (newPeer 1) (sample_peer [] [] False [TAcceptStart 0])"
    by (rule tunnel_to [OF sample_peer_start received [OF open_frame]]) (simp_all add: sample_peer_def tunnel_run_defs)
  then have "tunnel_reachable (newPeer 1) (sample_peer [] [] True [TAcceptStart 0, TClosing])"
    by (rule tunnel_to [OF _ close_swap]) (simp_all add: sample_peer_def tunnel_run_defs)
  then have "tunnel_reachable (newPeer 1) (sample_peer [] [] True [TAcceptStart 0, TEnd])"
    by (rule tunnel_to [OF _ close_clear [of _ 1]]) (simp_all add: sample_peer_def tunnel_run_defs)
  then have "tunnel_reachable (newPeer 1) ((sample_peer [(1, 0)] [False] True [TAccepted 0 0, TEnd])\<lparr>pe_zero := [0]\<rparr>)"
    by (rule tunnel_to [OF _ accept_allocate [of _ 0 0 "Inr 0" "sample_peer [(1, 0)] [False] True [TAcceptStart 0, TEnd]"]])
      (simp_all add: sample_peer_def tunnel_run_defs)
  then have "tunnel_reachable (newPeer 1) ((sample_peer [(1, 0)] [False] True [TDrop 0, TEnd])\<lparr>pe_zero := [0]\<rparr>)"
    by (rule tunnel_to [OF _ accept_unacked [of _ 0 0 0]]) (simp_all add: sample_peer_def tunnel_run_defs)
  then show ?thesis
    by (rule tunnel_to [OF _ drop_forget [of _ 0 0 None "(sample_peer [(1, 0)] [False] True [TDrop 0, TEnd])\<lparr>pe_zero := [0]\<rparr>"]])
      (simp_all add: sample_peer_def tunnel_run_defs)
qed

end
