(* ===== verification/Spec2Isabelle.thy ===== *)
theory Spec2Isabelle
  imports Disk_Pressure Sem_Ver Variable_Expression Backup_Cron Deployment_Cutover Deployment_Readiness Deployment_Gate Project_Network Redis_Resp Service_Restart Service_Watcher Resource_Lock Automation_Auth Backup_Build Backup_Retention Backup_Worker Terminal_Auth Host_Tunnel
begin

text \<open>
  \<^bold>\<open>The program.\<close> platformd is a self-hosted application platform in Go: one daemon per host runs services as
  containers, gives projects their networks, deploys new versions and keeps services running, backs resources
  up to object storage and restores them, connects hosts by tunnels, and is driven by people and by automation
  tokens. This development models the packages of \<^verbatim>\<open>src/internal\<close> that carry its own logic, from the source, and
  proves what makes them correct. Definitions keep the names of the Go functions where Isabelle allows it.

  \<^bold>\<open>How the parts interact.\<close> A service has a source (\<^verbatim>\<open>servicesource\<close>), a public hostname (\<^verbatim>\<open>publichostname\<close>), variables
  with references (\<^verbatim>\<open>variableexpression\<close>) and a configuration that is normalised and hashed (\<^verbatim>\<open>serviceconfig\<close>). The
  watcher (\<^verbatim>\<open>servicewatcher\<close>) decides when to deploy it and calls the controller (\<^verbatim>\<open>deployment\<close>), which takes a blocker
  of the admission gate (\<^verbatim>\<open>admission\<close>), asks for growth below the disk pressure limit (\<^verbatim>\<open>diskpressure\<close>), runs the
  candidate on the network of the project (\<^verbatim>\<open>projectnetwork\<close>), waits until it is ready, cuts over from the old
  container and hands the new one to the restart manager (\<^verbatim>\<open>servicerestart\<close>). Operations on one resource exclude
  each other by the lock pool (\<^verbatim>\<open>resourcelock\<close>). A platform update takes the gate exclusively; its versions are those
  of \<^verbatim>\<open>semver\<close>. Backups run on schedules (\<^verbatim>\<open>backupcron\<close>): a worker takes the one that is due the longest, the
  control plane included, one at a time (\<^verbatim>\<open>backup/worker.go\<close>); they seal their data (\<^verbatim>\<open>cryptobox\<close>, \<^verbatim>\<open>backupcrypto\<close>), publish it
  with a completion marker, restore it and apply retention (\<^verbatim>\<open>backup\<close>). Requests of automation carry API tokens
  (\<^verbatim>\<open>apitoken\<close>) that an authenticator with a failure limiter checks (\<^verbatim>\<open>automationauth\<close>). The server terminal
  exchanges a passphrase (\<^verbatim>\<open>passphrase\<close>) for a short-lived token (\<^verbatim>\<open>terminalauth\<close>). Hosts reach each other's services
  through multiplexed tunnels (\<^verbatim>\<open>hosttunnel\<close>). The Redis controller speaks RESP (\<^verbatim>\<open>managedredis/resp.go\<close>).

  \<^bold>\<open>The library.\<close>

  \<^item> \<open>Go_Prelude\<close>: strings as byte lists, errors as values of sums, joining of errors, sorting, lemma
    collections.
  \<^item> \<open>Go_Path\<close>, \<open>Go_Time\<close>, \<open>Go_Netip\<close>, \<open>Go_Strconv\<close>,
    \<open>Go_Base64\<close>, \<open>Go_Bytes\<close>: the parts of the standard library the components use, written out with
    their round trips.
  \<^item> \<open>Go_Effects\<close>: triples for programs of the state monad, in which code that calls collaborators is
    written; a collaborator is a record of functions of the history of calls, so that every behaviour, failures included, is
    an instance.
  \<^item> \<open>Transition\<close>: reachable states and the locales for invariants of step relations, which the components
    with goroutines interpret.

  \<^bold>\<open>The components.\<close>

  \<^item> \<open>Admission\<close> (\<^verbatim>\<open>admission\<close>): the gate as a record, leases with their \<^verbatim>\<open>sync.Once\<close>, the HTTP middleware. In every
    reachable state an update lease excludes every other lease, and what the gate answers, its errors included, is
    decided exactly by the outstanding leases.
  \<^item> \<open>Disk_Pressure\<close> (\<^verbatim>\<open>diskpressure/manager.go\<close>): levels with hysteresis, the 128-bit ratio, freezing and reserve.
    The ratio is exact; the workload is frozen exactly in an emergency as long as the collaborators answer,
    and one failure after the freeze leaves it frozen without a recorded emergency until the next one.
  \<^item> \<open>Sem_Ver\<close> (\<^verbatim>\<open>semver\<close>), \<open>Variable_Expression\<close> (\<^verbatim>\<open>variableexpression\<close>), \<open>Backup_Cron\<close> (\<^verbatim>\<open>backupcron\<close>), \<open>Public_Hostname\<close>
    (\<^verbatim>\<open>publichostname\<close>), \<open>Service_Source\<close> (\<^verbatim>\<open>servicesource\<close>), \<open>Service_Config\<close> (\<^verbatim>\<open>serviceconfig\<close>): parsers, comparisons,
    searches and normalisation, with exact characterisations of what is accepted and returned. The expansion of
    variables is characterised for any resolver, its failures included.
  \<^item> \<open>Deployment\<close> (\<^verbatim>\<open>deployment/controller.go\<close>): the controller in the state monad, one definition per function and
    closure. \<open>Deployment_Safety\<close>: every deployment that was begun is settled. \<open>Deployment_Cutover\<close>: the calls are a
    run of an abstract cut-over protocol. \<open>Deployment_Readiness\<close>: the readiness loop ends, and a container that keeps
    running is ready, not before its startup grace has passed. \<open>Deployment_Gate\<close>: the
    controller and the admission gate composed. \<open>Deployment_Samples\<close>: collaborators for the witnesses.
  \<^item> \<open>Project_Network\<close> (\<^verbatim>\<open>projectnetwork\<close>): planned subnets are disjoint from each other and from what is in use.
  \<^item> \<open>Service_Restart\<close>, \<open>Service_Watcher\<close>, \<open>Resource_Lock\<close>: step relations over goroutines, channels and mutexes with
    invariants by interpretation of \<open>Transition\<close>. A goroutine that watches a service with a live context carries the
    registered monitor, unless the same container was published twice; \<open>republished_monitor_lost\<close> shows why.
  \<^item> \<open>Redis_Resp\<close> (\<^verbatim>\<open>managedredis/resp.go\<close>): reading and writing of the protocol with the budget of a response.
  \<^item> \<open>Api_Token\<close>, \<open>Failure_Limiter\<close>, \<open>Automation_Auth\<close>: tokens, the limiter as a refinement of one that remembers every
    failure, and authentication as their composition.
  \<^item> \<open>Crypto_Box\<close> (\<^verbatim>\<open>cryptobox\<close>), \<open>Backup_Chunks\<close> (\<^verbatim>\<open>backupcrypto\<close>), \<open>Backup_Resource\<close> and \<open>Backup_Build\<close>
    (\<^verbatim>\<open>backup/resource_format.go\<close>), \<open>Backup_Remote\<close>, \<open>Backup_Publish\<close>, \<open>Backup_Restore\<close>, \<open>Backup_Retention\<close>
    (\<^verbatim>\<open>backup/resource_remote.go\<close>, \<^verbatim>\<open>control_remote.go\<close>): a backup is built, published, restored and expired. What is
    built passes the strict decoders; the completion marker is written last, after everything was read back;
    a restore is exact for every storage and returns the source for a storage that answers with what was
    uploaded; retention deletes only generations older than the retained ones.
  \<^item> \<open>Backup_Schedule\<close> (\<^verbatim>\<open>backup/scheduler.go\<close>), \<open>Backup_Worker\<close> (\<^verbatim>\<open>backup/worker.go\<close>, \<^verbatim>\<open>dirty.go\<close>): what is due, stated in terms
    of the instants a schedule matches, and the interleaving of the worker, manual requests and changes of the
    control plane. One backup runs at a time; every change is saved, being saved, or leaves the tracker dirty, unless
    a control backup found no target configured; one schedule that never matches stops every backup.
  \<^item> \<open>Passphrase\<close> (\<^verbatim>\<open>passphrase\<close>), \<open>Terminal_Auth\<close> (\<^verbatim>\<open>terminalauth\<close>): a passphrase is exchanged for a token that is
    accepted for its subject and for thirty seconds; six rejected passphrases in a row take a minute.
  \<^item> \<open>Host_Tunnel\<close> (\<^verbatim>\<open>hosttunnel/peer.go\<close>): frames, the table of streams and the interleaving of dials, accepted
    opens, frames, pumps and \<^verbatim>\<open>Close\<close>; no stream is lost but those added for an open frame with the number 0
    (\<open>zero_id_leaks\<close>), and the two counters of stream numbers behave differently.

  \<^bold>\<open>Parameters.\<close> Code outside \<^verbatim>\<open>src\<close> is an argument with named laws: the authenticated cipher (\<open>aead_ok\<close>), SHA-256
  (\<open>sha_ok\<close>), HKDF without laws, HMAC (\<open>hmac_ok\<close>, its length, where it matters), Argon2id (\<open>argon2_ok\<close>), the CUID2 check, the
  JSON codec (\<open>codec_ok\<close>, which includes the scan of its tokens for duplicate keys, and \<open>reads_back\<close> for the decoder of the terminal claims), the image reference parser,
  the container engine, the store and the object storage as histories of calls. Every law has a concrete
  instance in a witness.

  \<^bold>\<open>Bounds and fuel.\<close> Loops over data are recursive functions with termination proofs. The readiness loop takes fuel;
  \<open>readyPolls\<close> polls are enough by \<open>wait_ready_terminates\<close>. The searches of \<open>Backup_Cron\<close> end by the eight years the code
  looks ahead. Nested RESP arrays are bounded by the depth limit of the code. The loops over the pages of a
  listing take fuel, since the storage decides how many pages there are, and the properties hold for every
  fuel. \<open>scanID\<close> makes the 257 attempts of the code. Integers are words where they wrap around (generation
  counters, stream numbers, bit fields, bytes, addresses); 64-bit sizes are integers whose overflow checks are
  those of the code.

  \<^bold>\<open>Logs.\<close> Some states carry fields that are not in the code and that no operation reads: the calls made so far, the marks
  and outcomes of the backup worker, the streams added for number 0. The definitions say so where they are declared.

  \<^bold>\<open>Not modelled.\<close> The state store is SQL text run by SQLite, and the daemon, the HTTP and MCP handlers, the managed
  database controllers, the container engine binding, the network services, telemetry, terminal transport, installation
  and updates are sequences of calls to the operating system, to libraries and to other processes: their own
  logic is thin, and what they call cannot be read here. Contexts are cancelled where a property depends on
  it (restart manager, watcher, tunnel) and not elsewhere. Of the control backup only what the resource backup
  shares is modelled; its archive is a tar stream.
\<close>

end
